(* ===== verification/Prelude.thy ===== *)
theory Prelude
  imports Main "HOL-Library.Word"
begin

text \<open>
  What every component theory shares: the machine types, the error codes of
  \<^verbatim>\<open>uapi/errno.def\<close>, the reading of C's
  \<open>for\<close>/\<open>return i\<close> searches as \<^const>\<open>find\<close> over an index interval, and the
  generic lemmas on words, searches and byte copies the component proofs use.

  A C function that returns a negative errno or a value is a function into the sum
  \<open>errno + 'a\<close>: \<open>Inl e\<close> is \<^verbatim>\<open>return -e\<close>.  A static C array that is only
  reached through bounded indices is a function from indices; a C string is the
  \<^typ>\<open>string\<close> of its characters before the terminating NUL.
\<close>

section \<open>Machine types\<close>

type_synonym byte = "8 word"
type_synonym u16 = "16 word"
type_synonym u32 = "32 word"
type_synonym u64 = "64 word"

unbundle bit_operations_syntax

section \<open>Error codes\<close>

text \<open>The codes 1 to 40 in order, and \<open>EOVERFLOW\<close>, the only later one a modelled function returns.\<close>

datatype (plugins only: code size) errno =
    EPERM | ENOENT | ESRCH | EINTR | EIO | ENXIO | E2BIG | ENOEXEC | EBADF | ECHILD
  | EAGAIN | ENOMEM | EACCES | EFAULT | ENOTBLK | EBUSY | EEXIST | EXDEV | ENODEV | ENOTDIR
  | EISDIR | EINVAL | ENFILE | EMFILE | ENOTTY | ETXTBSY | EFBIG | ENOSPC | ESPIPE | EROFS
  | EMLINK | EPIPE | EDOM | ERANGE | EDEADLK | ENAMETOOLONG | ENOLCK | ENOSYS | ENOTEMPTY | ELOOP
  | EOVERFLOW

type_synonym 'a res = "errno + 'a"

section \<open>Collections of facts\<close>

named_theorems kernel_inv \<open>every operation keeps the invariant of its component\<close>
named_theorems kernel_const \<open>the numeric constants of the headers\<close>

section \<open>Memory layout\<close>

definition PAGE_SIZE_CONST :: nat where [kernel_const]: "PAGE_SIZE_CONST = 4096"
definition KERNEL_HEAP_START :: nat where [kernel_const]: "KERNEL_HEAP_START = 0x300000"
definition KERNEL_HEAP_END :: nat where [kernel_const]: "KERNEL_HEAP_END = 0xB00000"
definition IDENTITY_MAP_END :: nat where [kernel_const]: "IDENTITY_MAP_END = 0x2000000"

section \<open>Searches over an index interval\<close>

lemma find_upt_SomeD:
  assumes "find P [a..<b] = Some i"
  shows "a \<le> i" "i < b" "P i" "\<And>j. a \<le> j \<Longrightarrow> j < i \<Longrightarrow> \<not> P j"
proof -
  from assms obtain k where k: "k < b - a" "P (a + k)" "i = a + k" "\<forall>j<k. \<not> P (a + j)"
    by (auto simp: find_Some_iff)
  then show "a \<le> i" "i < b" "P i" by auto
  fix j assume "a \<le> j" "j < i"
  then have "j - a < k" using k(3) by simp
  then show "\<not> P j" using k(4) \<open>a \<le> j\<close> by fastforce
qed

lemma find_upt_NoneD: "find P [a..<b] = None \<Longrightarrow> a \<le> i \<Longrightarrow> i < b \<Longrightarrow> \<not> P i"
  by (auto simp: find_None_iff)

lemma find_upt_None_iff: "find P [a..<b] = None \<longleftrightarrow> (\<forall>i. a \<le> i \<and> i < b \<longrightarrow> \<not> P i)"
  by (auto simp: find_None_iff)

lemma find_upt_SomeI:
  assumes "a \<le> i" "i < b" "P i" "\<And>j. a \<le> j \<Longrightarrow> j < i \<Longrightarrow> \<not> P j"
  shows "find P [a..<b] = Some i"
proof (cases "find P [a..<b]")
  case None
  then show ?thesis using assms find_upt_NoneD by metis
next
  case (Some j)
  then show ?thesis using assms find_upt_SomeD[OF Some] by (metis linorder_neqE_nat)
qed

section \<open>Words\<close>

lemma unat_and_mask: "unat (w AND (2 ^ k - 1)) = unat w mod 2 ^ k"
  for w :: "'a::len word"
proof -
  have "w AND (2 ^ k - 1) = take_bit k w"
    by (simp add: take_bit_eq_mask mask_eq_exp_minus_1)
  moreover have "uint (take_bit k w) = uint w mod 2 ^ k"
    by (metis take_bit_eq_mod unsigned_take_bit_eq)
  ultimately show ?thesis
    by (metis nat_mod_distrib nat_power_eq nat_uint_eq uint_nonnegative zero_le_numeral nat_numeral
        zero_le_power)
qed

lemma unat_u32_bound: "unat (w :: u32) < 4294967296"
  using unsigned_less[of w, where ?'a = nat] by simp

lemma unat_u32_Suc:
  assumes "(x :: u32) \<noteq> -1"
  shows "unat (x + 1) = Suc (unat x)"
proof -
  have "unat x \<noteq> 4294967295"
  proof
    assume "unat x = 4294967295"
    then have "x = of_nat 4294967295" by (metis of_nat_unat ucast_id)
    then show False using assms by simp
  qed
  then show ?thesis using unat_u32_bound[of x] by (simp add: unat_word_ariths)
qed

lemma u32_less_Suc: "(x :: u32) \<noteq> -1 \<Longrightarrow> y < x + 1 \<longleftrightarrow> y \<le> x"
  by (simp add: word_less_nat_alt word_le_nat_alt unat_u32_Suc less_Suc_eq_le)

lemma unat_power_two: "k < 32 \<Longrightarrow> unat ((2 :: u32) ^ k) = 2 ^ k"
proof -
  assume "k < 32"
  then have "unat (of_nat (2 ^ k) :: u32) = 2 ^ k"
    by (simp add: unsigned_of_nat take_bit_nat_eq_self_iff del: of_nat_power)
  then show ?thesis by simp
qed

section \<open>Copying a run of bytes into an array\<close>

text \<open>\<open>kmemcpy (d + off) xs\<close>: the array cells from \<open>off\<close> on receive \<open>xs\<close>.\<close>

definition copy_into :: "(nat \<Rightarrow> 'a) \<Rightarrow> nat \<Rightarrow> 'a list \<Rightarrow> nat \<Rightarrow> 'a" where
  "copy_into d off xs = (\<lambda>i. if off \<le> i \<and> i < off + length xs then xs ! (i - off) else d i)"

lemma copy_into_Nil [simp]: "copy_into d off [] = d"
  by (rule ext) (auto simp: copy_into_def)

lemma copy_into_inside: "i < length xs \<Longrightarrow> copy_into d off xs (off + i) = xs ! i"
  by (simp add: copy_into_def)

lemma copy_into_outside: "i < off \<or> off + length xs \<le> i \<Longrightarrow> copy_into d off xs i = d i"
  by (auto simp: copy_into_def)

text \<open>The bytes \<open>d[off .. off + n)\<close> of an array.\<close>

definition slice_of :: "(nat \<Rightarrow> 'a) \<Rightarrow> nat \<Rightarrow> nat \<Rightarrow> 'a list" where
  "slice_of d off n = map d [off..<off + n]"

lemma length_slice_of [simp]: "length (slice_of d off n) = n"
  by (simp add: slice_of_def)

lemma nth_slice_of [simp]: "i < n \<Longrightarrow> slice_of d off n ! i = d (off + i)"
  by (simp add: slice_of_def)

lemma slice_of_copy_into [simp]: "slice_of (copy_into d off xs) off (length xs) = xs"
  by (auto intro!: nth_equalityI simp: copy_into_inside)

section \<open>Little-endian words\<close>

definition word_bytes :: "u32 \<Rightarrow> byte list" where
  "word_bytes w = map (\<lambda>k. ucast (drop_bit (8 * k) w)) [0..<4]"

definition bytes_word :: "byte list \<Rightarrow> u32" where
  "bytes_word bs = foldr (\<lambda>b w. ucast b OR push_bit 8 w) bs 0"

lemma length_word_bytes [simp]: "length (word_bytes w) = 4"
  by (simp add: word_bytes_def)

lemma bytes_word_bytes [simp]: "bytes_word (word_bytes w) = w"
proof -
  have u: "[0..<4] = [0, 1, 2, 3 :: nat]" by (simp add: upt_rec)
  have h: "n - 16 < 8" if "bit w n" "\<not> bit w (24 + (n - 24))" for n
  proof (rule ccontr)
    assume "\<not> n - 16 < 8"
    then have "24 + (n - 24) = n" by linarith
    then show False using that by simp
  qed
  show ?thesis
    unfolding bytes_word_def word_bytes_def u by (rule bit_word_eqI) (auto simp: bit_simps dest: h)
qed

end
