(* ===== verification/Circular.thy ===== *)
theory Circular
  imports Prelude
begin

text \<open>
  Circular byte storage, shared by the ring buffer of \<^verbatim>\<open>include/kernel/ringbuf.h\<close> and
  the pipe buffer of \<^verbatim>\<open>src/kernel/ipc/pipe.c\<close>: the list of the elements that a
  window of a circular array holds, how it changes when the window grows at its end or
  shrinks at its start, and the interface locale \<open>byte_channel\<close> of a bounded first-in
  first-out byte stream with what a client may conclude from it.
\<close>

section \<open>Windows of a circular array\<close>

definition circ :: "(nat \<Rightarrow> 'a) \<Rightarrow> nat \<Rightarrow> nat \<Rightarrow> nat \<Rightarrow> 'a list" where
  "circ d n t len = map (\<lambda>i. d ((t + i) mod n)) [0..<len]"

lemma length_circ [simp]: "length (circ d n t len) = len"
  by (simp add: circ_def)

lemma nth_circ [simp]: "i < len \<Longrightarrow> circ d n t len ! i = d ((t + i) mod n)"
  by (simp add: circ_def)

lemma circ_0 [simp]: "circ d n t 0 = []"
  by (simp add: circ_def)

lemma circ_eq_Nil [simp]: "circ d n t len = [] \<longleftrightarrow> len = 0"
  by (simp add: circ_def)

lemma circ_index_inj:
  assumes "i < n" "j < n" "(t + i) mod n = (t + j) mod n"
  shows "i = (j :: nat)"
proof -
  have "int n dvd int (t + i) - int (t + j)"
    using assms(3) by (metis mod_eq_dvd_iff of_nat_mod)
  then have "int n dvd int i - int j" by simp
  then show ?thesis using assms(1,2)
    by (metis mod_eq_dvd_iff mod_less of_nat_eq_iff of_nat_mod)
qed

text \<open>The fill count is the circular distance from the tail to the head.\<close>

lemma circ_dist:
  assumes "t < n" "u < (n :: nat)"
  shows "((t + u) mod n + n - t) mod n = u"
proof (cases "t + u < n")
  case True
  then have "(t + u) mod n + n - t = u + n" by simp
  then show ?thesis using assms by simp
next
  case False
  then have "(t + u) mod n = t + u - n" using assms by (simp add: mod_if)
  then have "(t + u) mod n + n - t = u" using False by simp
  then show ?thesis using assms by simp
qed

lemma circ_dist_advance:
  assumes "t < n" "u < (n :: nat)" "j \<le> u"
  shows "((t + u) mod n + n - (t + j) mod n) mod n = u - j"
proof -
  have "((t + j) mod n + (u - j)) mod n = (t + u) mod n"
    using assms(3) mod_add_left_eq[of "t + j" n "u - j"] by simp
  then show ?thesis using circ_dist[of "(t + j) mod n" n "u - j"] assms by simp
qed

lemma circ_write:
  assumes "len + length xs \<le> n"
    and new: "\<And>i. i < length xs \<Longrightarrow> d' ((t + len + i) mod n) = xs ! i"
    and old: "\<And>j. j < n \<Longrightarrow> (\<forall>i < length xs. j \<noteq> (t + len + i) mod n) \<Longrightarrow> d' j = d j"
  shows "circ d' n t (len + length xs) = circ d n t len @ xs"
proof (rule nth_equalityI)
  fix i assume "i < length (circ d' n t (len + length xs))"
  then have i: "i < len + length xs" by simp
  show "circ d' n t (len + length xs) ! i = (circ d n t len @ xs) ! i"
  proof (cases "i < len")
    case True
    have "(t + i) mod n \<noteq> (t + len + k) mod n" if "k < length xs" for k
      using circ_index_inj[of i n "len + k" t] True that assms(1) by (auto simp: add.assoc)
    moreover have "(t + i) mod n < n" using i assms(1) by auto
    ultimately have "d' ((t + i) mod n) = d ((t + i) mod n)" using old by blast
    with True i show ?thesis by (simp add: nth_append)
  next
    case False
    then have "d' ((t + len + (i - len)) mod n) = xs ! (i - len)" using i by (intro new) simp
    with False i show ?thesis by (simp add: nth_append)
  qed
qed simp

lemma circ_snoc:
  assumes "len < n"
  shows "circ (d((t + len) mod n := c)) n t (Suc len) = circ d n t len @ [c]"
  using circ_write[of len "[c]" n "d((t + len) mod n := c)" t d] assms by simp

lemma circ_drop: "circ d n ((t + j) mod n) (len - j) = drop j (circ d n t len)"
  by (rule nth_equalityI) (auto simp: mod_add_left_eq add.assoc)

lemma circ_take: "j \<le> len \<Longrightarrow> circ d n t j = take j (circ d n t len)"
  by (rule nth_equalityI) auto

text \<open>
  A window read in two straight copies, up to the end of the array and then from its
  start: what \<open>pipe_read_buffer\<close> does.
\<close>

lemma circ_two_slices:
  assumes "t < n" "len \<le> n" and f: "f = min (n - t) len"
  shows "slice_of d t f @ slice_of d 0 (len - f) = circ d n t len"
proof (rule nth_equalityI)
  show "length (slice_of d t f @ slice_of d 0 (len - f)) = length (circ d n t len)"
    using f by simp
  fix i assume "i < length (slice_of d t f @ slice_of d 0 (len - f))"
  then have i: "i < len" using f by simp
  show "(slice_of d t f @ slice_of d 0 (len - f)) ! i = circ d n t len ! i"
  proof (cases "i < f")
    case True
    then have "t + i < n" using f by linarith
    with True i show ?thesis by (simp add: nth_append)
  next
    case False
    then have "n \<le> t + i" "i - f = t + i - n"
      using f i assms(1) by (auto simp: min_def split: if_splits)
    moreover have "(t + i) mod n = t + i - n"
      using calculation i assms(1,2) by (simp add: mod_if)
    ultimately show ?thesis using False i by (simp add: nth_append)
  qed
qed

text \<open>The same for writing: two straight copies are a write through the window's end.\<close>

lemma copy_two_slices:
  assumes "w < n" "length xs \<le> n" and f: "f = min (n - w) (length xs)"
    and d': "d' = copy_into (copy_into d w (take f xs)) 0 (drop f xs)"
  shows "i < length xs \<Longrightarrow> d' ((w + i) mod n) = xs ! i"
    and "j < n \<Longrightarrow> (\<forall>i < length xs. j \<noteq> (w + i) mod n) \<Longrightarrow> d' j = d j"
proof -
  assume i: "i < length xs"
  show "d' ((w + i) mod n) = xs ! i"
  proof (cases "i < f")
    case True
    then have "w + i < n" using f by linarith
    then have "(w + i) mod n = w + i" by simp
    moreover have "length (drop f xs) \<le> w + i"
      using True f assms(2) by (auto simp: min_def split: if_splits)
    ultimately show ?thesis using True i d' f by (simp add: copy_into_def)
  next
    case False
    then have ge: "n \<le> w + i" and e: "i - f = w + i - n"
      using f i assms(1) by (auto simp: min_def split: if_splits)
    have m: "(w + i) mod n = w + i - n" using ge i assms(1,2) by (simp add: mod_if)
    have fi: "f + (i - f) = i" "i - f < length (drop f xs)" using False i by auto
    have "d' (i - f) = drop f xs ! (i - f)"
      using copy_into_inside[OF fi(2), of "copy_into d w (take f xs)" 0] d' by simp
    then show ?thesis using m e fi i by simp
  qed
next
  assume j: "j < n" and no: "\<forall>i < length xs. j \<noteq> (w + i) mod n"
  have a: "\<not> (w \<le> j \<and> j < w + f)"
  proof
    assume b: "w \<le> j \<and> j < w + f"
    then have "j - w < length xs" "(w + (j - w)) mod n = j" using f j by auto
    with no show False by metis
  qed
  have "\<not> j < length xs - f"
  proof
    assume b: "j < length xs - f"
    then have fe: "f = n - w" using f by (auto simp: min_def split: if_splits)
    then have "f + j < length xs" "(w + (f + j)) mod n = j" using b assms(1) j by auto
    with no show False by metis
  qed
  with a show "d' j = d j" using d' f by (auto simp: copy_into_def)
qed

section \<open>The interface of a bounded byte stream\<close>

datatype chan_op = Put "byte list" | Get nat

text \<open>
  Running a sequence of operations: the final state, the bytes the channel accepted and
  the bytes it delivered, in order.
\<close>

fun chan_run :: "('s \<Rightarrow> byte list \<Rightarrow> 's \<times> nat) \<Rightarrow> ('s \<Rightarrow> nat \<Rightarrow> 's \<times> byte list)
    \<Rightarrow> 's \<Rightarrow> chan_op list \<Rightarrow> 's \<times> byte list \<times> byte list" where
  "chan_run put get s [] = (s, [], [])"
| "chan_run put get s (Put xs # ops) =
     (case put s xs of (s1, k) \<Rightarrow>
        (case chan_run put get s1 ops of (s2, acc, del) \<Rightarrow> (s2, take k xs @ acc, del)))"
| "chan_run put get s (Get n # ops) =
     (case get s n of (s1, ys) \<Rightarrow>
        (case chan_run put get s1 ops of (s2, acc, del) \<Rightarrow> (s2, acc, ys @ del)))"

locale byte_channel =
  fixes inv :: "'s \<Rightarrow> bool"
    and contents :: "'s \<Rightarrow> byte list"
    and room :: "'s \<Rightarrow> nat"
    and put :: "'s \<Rightarrow> byte list \<Rightarrow> 's \<times> nat"
    and get :: "'s \<Rightarrow> nat \<Rightarrow> 's \<times> byte list"
  assumes put_count: "inv s \<Longrightarrow> put s xs = (s', k) \<Longrightarrow> k = min (length xs) (room s)"
    and put_contents: "inv s \<Longrightarrow> put s xs = (s', k) \<Longrightarrow> contents s' = contents s @ take k xs"
    and put_room: "inv s \<Longrightarrow> put s xs = (s', k) \<Longrightarrow> room s' = room s - k"
    and put_inv: "inv s \<Longrightarrow> put s xs = (s', k) \<Longrightarrow> inv s'"
    and get_bytes: "inv s \<Longrightarrow> get s n = (s', ys) \<Longrightarrow> ys = take n (contents s)"
    and get_contents: "inv s \<Longrightarrow> get s n = (s', ys) \<Longrightarrow> contents s' = drop n (contents s)"
    and get_room: "inv s \<Longrightarrow> get s n = (s', ys) \<Longrightarrow> room s' = room s + length ys"
    and get_inv: "inv s \<Longrightarrow> get s n = (s', ys) \<Longrightarrow> inv s'"
begin

text \<open>Nothing is lost, duplicated or reordered, whatever the interleaving.\<close>

lemma stream_fifo:
  "inv s \<Longrightarrow> chan_run put get s ops = (s', acc, del) \<Longrightarrow>
   inv s' \<and> del @ contents s' = contents s @ acc"
proof (induction ops arbitrary: s s' acc del)
  case Nil
  then show ?case by simp
next
  case (Cons op ops)
  show ?case
  proof (cases op)
    case (Put xs)
    obtain s1 k where p: "put s xs = (s1, k)" by fastforce
    obtain s2 a d where r: "chan_run put get s1 ops = (s2, a, d)" by (metis prod_cases3)
    from Cons.IH[OF put_inv[OF Cons.prems(1) p] r] Cons.prems p r Put show ?thesis
      by (simp add: put_contents[OF Cons.prems(1) p])
  next
    case (Get n)
    obtain s1 ys where p: "get s n = (s1, ys)" by fastforce
    obtain s2 a d where r: "chan_run put get s1 ops = (s2, a, d)" by (metis prod_cases3)
    from Cons.IH[OF get_inv[OF Cons.prems(1) p] r] Cons.prems p r Get show ?thesis
      by (auto simp: get_contents[OF Cons.prems(1) p] get_bytes[OF Cons.prems(1) p])
  qed
qed

text \<open>The storage bound is conserved by every run.\<close>

lemma stream_bound:
  "inv s \<Longrightarrow> chan_run put get s ops = (s', acc, del) \<Longrightarrow>
   length (contents s') + room s' = length (contents s) + room s"
proof (induction ops arbitrary: s s' acc del)
  case Nil
  then show ?case by simp
next
  case (Cons op ops)
  show ?case
  proof (cases op)
    case (Put xs)
    obtain s1 k where p: "put s xs = (s1, k)" by fastforce
    obtain s2 a d where r: "chan_run put get s1 ops = (s2, a, d)" by (metis prod_cases3)
    from Cons.IH[OF put_inv[OF Cons.prems(1) p] r] Cons.prems p r Put show ?thesis
      by (simp add: put_contents[OF Cons.prems(1) p] put_room[OF Cons.prems(1) p]
          put_count[OF Cons.prems(1) p])
  next
    case (Get n)
    obtain s1 ys where p: "get s n = (s1, ys)" by fastforce
    obtain s2 a d where r: "chan_run put get s1 ops = (s2, a, d)" by (metis prod_cases3)
    from Cons.IH[OF get_inv[OF Cons.prems(1) p] r] Cons.prems p r Get show ?thesis
      by (auto simp: get_contents[OF Cons.prems(1) p] get_room[OF Cons.prems(1) p]
          get_bytes[OF Cons.prems(1) p])
  qed
qed

end

end
