(* ===== verification/Ring_Buffer.thy ===== *)
theory Ring_Buffer
  imports Circular
begin

text \<open>
  The single-producer single-consumer ring of \<^verbatim>\<open>include/kernel/ringbuf.h\<close>: head and
  tail indices masked by \<open>size - 1\<close>, one slot kept empty.  All index arithmetic is on
  32-bit words, as in the header.  Shown: the masked indices implement a bounded FIFO
  whenever the size is a power of two, the fill counters are exact, and the bulk
  operations transfer the longest prefix that fits.
\<close>

section \<open>State and operations\<close>

record ringbuf =
  rb_head :: u32
  rb_tail :: u32
  rb_size :: u32
  rb_mask :: u32
  rb_data :: "u32 \<Rightarrow> byte"

definition ringbuf_init :: "ringbuf \<Rightarrow> u32 \<Rightarrow> ringbuf" where
  "ringbuf_init rb sz = rb\<lparr>rb_head := 0, rb_tail := 0, rb_size := sz, rb_mask := sz - 1\<rparr>"

definition ringbuf_empty :: "ringbuf \<Rightarrow> bool" where
  "ringbuf_empty rb \<longleftrightarrow> rb_head rb = rb_tail rb"

definition ringbuf_full :: "ringbuf \<Rightarrow> bool" where
  "ringbuf_full rb \<longleftrightarrow> (rb_head rb + 1) AND rb_mask rb = rb_tail rb"

definition ringbuf_readable :: "ringbuf \<Rightarrow> u32" where
  "ringbuf_readable rb = (rb_head rb - rb_tail rb) AND rb_mask rb"

definition ringbuf_writable :: "ringbuf \<Rightarrow> u32" where
  "ringbuf_writable rb = (rb_tail rb - rb_head rb - 1) AND rb_mask rb"

text \<open>\<open>None\<close> is the return value -1, with the buffer unchanged.\<close>

definition ringbuf_push :: "ringbuf \<Rightarrow> byte \<Rightarrow> ringbuf option" where
  "ringbuf_push rb c =
     (let head = rb_head rb; nxt = (head + 1) AND rb_mask rb
      in if nxt = rb_tail rb then None
         else Some (rb\<lparr>rb_data := (rb_data rb)(head := c), rb_head := nxt\<rparr>))"

definition ringbuf_pop :: "ringbuf \<Rightarrow> (ringbuf \<times> byte) option" where
  "ringbuf_pop rb =
     (let tail = rb_tail rb
      in if tail = rb_head rb then None
         else Some (rb\<lparr>rb_tail := (tail + 1) AND rb_mask rb\<rparr>, rb_data rb tail))"

fun ringbuf_write :: "ringbuf \<Rightarrow> byte list \<Rightarrow> ringbuf \<times> nat" where
  "ringbuf_write rb [] = (rb, 0)"
| "ringbuf_write rb (x # xs) =
     (case ringbuf_push rb x of
        None \<Rightarrow> (rb, 0)
      | Some rb' \<Rightarrow> (case ringbuf_write rb' xs of (rb'', written) \<Rightarrow> (rb'', Suc written)))"

fun ringbuf_read :: "ringbuf \<Rightarrow> nat \<Rightarrow> ringbuf \<times> byte list" where
  "ringbuf_read rb 0 = (rb, [])"
| "ringbuf_read rb (Suc len) =
     (case ringbuf_pop rb of
        None \<Rightarrow> (rb, [])
      | Some (rb', c) \<Rightarrow> (case ringbuf_read rb' len of (rb'', cs) \<Rightarrow> (rb'', c # cs)))"

definition ringbuf_peek :: "ringbuf \<Rightarrow> byte option" where
  "ringbuf_peek rb = (if rb_tail rb = rb_head rb then None else Some (rb_data rb (rb_tail rb)))"

definition ringbuf_discard :: "ringbuf \<Rightarrow> u32 \<Rightarrow> ringbuf \<times> u32" where
  "ringbuf_discard rb n =
     (let avail = ringbuf_readable rb; n = (if avail < n then avail else n)
      in (rb\<lparr>rb_tail := (rb_tail rb + n) AND rb_mask rb\<rparr>, n))"

definition ringbuf_clear :: "ringbuf \<Rightarrow> ringbuf" where
  "ringbuf_clear rb = rb\<lparr>rb_tail := rb_head rb\<rparr>"

section \<open>Invariant and contents\<close>

text \<open>The size is a power of two, the mask is one less, both indices are below it.\<close>

definition rb_inv :: "ringbuf \<Rightarrow> bool" where
  "rb_inv rb \<longleftrightarrow> (\<exists>k < 32. rb_size rb = 2 ^ k) \<and> rb_mask rb = rb_size rb - 1
     \<and> rb_head rb < rb_size rb \<and> rb_tail rb < rb_size rb"

definition rb_used :: "ringbuf \<Rightarrow> nat" where
  "rb_used rb = (unat (rb_head rb) + unat (rb_size rb) - unat (rb_tail rb)) mod unat (rb_size rb)"

definition rb_contents :: "ringbuf \<Rightarrow> byte list" where
  "rb_contents rb =
     circ (\<lambda>i. rb_data rb (of_nat i)) (unat (rb_size rb)) (unat (rb_tail rb)) (rb_used rb)"

definition rb_room :: "ringbuf \<Rightarrow> nat" where
  "rb_room rb = unat (rb_size rb) - 1 - rb_used rb"

lemma length_rb_contents [simp]: "length (rb_contents rb) = rb_used rb"
  by (simp add: rb_contents_def)

section \<open>Masked indices as remainders\<close>

lemma rb_mask_mod:
  assumes "rb_inv rb"
  shows "unat (w AND rb_mask rb) = unat w mod unat (rb_size rb)"
proof -
  from assms obtain k where k: "k < 32" "rb_size rb = 2 ^ k" "rb_mask rb = rb_size rb - 1"
    by (auto simp: rb_inv_def)
  then show ?thesis by (simp only: unat_and_mask unat_power_two)
qed

lemma rb_size_dvd:
  assumes "rb_inv rb"
  shows "unat (rb_size rb) dvd 2 ^ 32" "0 < unat (rb_size rb)"
proof -
  from assms obtain k where k: "k < 32" "rb_size rb = 2 ^ k" by (auto simp: rb_inv_def)
  then have s: "unat (rb_size rb) = 2 ^ k" by (simp only: unat_power_two)
  then show "unat (rb_size rb) dvd 2 ^ 32" using k by (simp only: le_imp_power_dvd less_imp_le)
  show "0 < unat (rb_size rb)" using s by simp
qed

lemma rb_add_mod:
  assumes "rb_inv rb"
  shows "unat ((a + b) AND rb_mask rb) = (unat a + unat b) mod unat (rb_size rb)"
proof -
  have "unat (a + b) = (unat a + unat b) mod 2 ^ 32" by (simp add: unat_word_ariths)
  then show ?thesis
    by (simp only: rb_mask_mod[OF assms] mod_mod_cancel[OF rb_size_dvd(1)[OF assms]])
qed

lemma rb_diff_mod:
  assumes "rb_inv rb" "unat b \<le> unat (rb_size rb)"
  shows "unat ((a - b) AND rb_mask rb) = (unat a + unat (rb_size rb) - unat b) mod unat (rb_size rb)"
proof -
  let ?n = "unat (rb_size rb)"
  from rb_size_dvd(1)[OF assms(1)] obtain q where q: "2 ^ 32 = ?n * q" by (auto simp: dvd_def)
  have q0: "0 < q" using q by (cases q) auto
  have "unat (a - b) = (unat a + (2 ^ 32 - unat b)) mod 2 ^ 32"
    using unat_u32_bound[of a] unat_u32_bound[of b] by (cases "unat b \<le> unat a") (auto simp: unat_sub_if' mod_if)
  then have "unat ((a - b) AND rb_mask rb) = (unat a + (2 ^ 32 - unat b)) mod ?n"
    by (simp only: rb_mask_mod[OF assms(1)] mod_mod_cancel[OF rb_size_dvd(1)[OF assms(1)]])
  also have "2 ^ 32 - unat b = (?n - unat b) + ?n * (q - 1)"
    using q q0 assms(2) by (cases q) auto
  also have "unat a + ((?n - unat b) + ?n * (q - 1)) = (unat a + ?n - unat b) + ?n * (q - 1)"
    using assms(2) by simp
  finally show ?thesis by (simp only: mod_mult_self2)
qed


lemma rb_readable_used: "rb_inv rb \<Longrightarrow> unat (ringbuf_readable rb) = rb_used rb"
  unfolding ringbuf_readable_def rb_used_def
  by (rule rb_diff_mod) (auto simp: rb_inv_def word_less_nat_alt)

lemma rb_used_less: "rb_inv rb \<Longrightarrow> rb_used rb < unat (rb_size rb)"
  using rb_size_dvd(2) by (simp add: rb_used_def)

lemma rb_head_pos:
  assumes "rb_inv rb"
  shows "unat (rb_head rb) = (unat (rb_tail rb) + rb_used rb) mod unat (rb_size rb)"
  using assms by (auto simp: rb_used_def rb_inv_def word_less_nat_alt mod_if)

lemma rb_empty_iff: "rb_inv rb \<Longrightarrow> ringbuf_empty rb \<longleftrightarrow> rb_used rb = 0"
  by (auto simp: ringbuf_empty_def rb_used_def rb_inv_def word_less_nat_alt mod_if
      word_unat_eq_iff)

lemma rb_next_head:
  assumes "rb_inv rb"
  shows "unat ((rb_head rb + 1) AND rb_mask rb)
       = (unat (rb_tail rb) + Suc (rb_used rb)) mod unat (rb_size rb)"
  by (simp only: rb_add_mod[OF assms] rb_head_pos[OF assms] mod_add_left_eq unsigned_1)
    (simp add: mod_Suc_eq)

lemma rb_full_iff:
  assumes "rb_inv rb"
  shows "ringbuf_full rb \<longleftrightarrow> rb_room rb = 0"
proof -
  let ?n = "unat (rb_size rb)" and ?t = "unat (rb_tail rb)"
  have u: "rb_used rb < ?n" "?t < ?n"
    using assms rb_used_less by (auto simp: rb_inv_def word_less_nat_alt)
  have "ringbuf_full rb \<longleftrightarrow> (?t + Suc (rb_used rb)) mod ?n = ?t"
    by (simp only: ringbuf_full_def word_unat_eq_iff rb_next_head[OF assms])
  also have "\<dots> \<longleftrightarrow> Suc (rb_used rb) = ?n"
    using u by (auto simp: mod_if)
  finally show ?thesis using u by (auto simp: rb_room_def)
qed

lemma rb_writable_room:
  assumes "rb_inv rb"
  shows "unat (ringbuf_writable rb) = rb_room rb"
proof -
  let ?n = "unat (rb_size rb)" and ?t = "unat (rb_tail rb)" and ?h = "unat (rb_head rb)"
  have b: "?t < ?n" "?h < ?n" using assms by (auto simp: rb_inv_def word_less_nat_alt)
  have h1: "unat (rb_head rb + 1) = Suc ?h"
    using b unat_u32_bound[of "rb_size rb"] by (simp add: unat_word_ariths)
  have "ringbuf_writable rb = (rb_tail rb - (rb_head rb + 1)) AND rb_mask rb"
    by (simp add: ringbuf_writable_def diff_diff_eq)
  then have "unat (ringbuf_writable rb) = (?t + ?n - Suc ?h) mod ?n"
    using rb_diff_mod[OF assms, of "rb_head rb + 1" "rb_tail rb"] h1 b by simp
  then show ?thesis using b by (auto simp: rb_room_def rb_used_def mod_if)
qed


section \<open>Single-byte operations\<close>

lemma rb_inv_upd [simp]:
  "rb_inv (rb\<lparr>rb_data := d\<rparr>) = rb_inv rb"
  by (simp add: rb_inv_def)

lemma rb_masked_less: "rb_inv rb \<Longrightarrow> w AND rb_mask rb < rb_size rb"
  using rb_mask_mod rb_size_dvd(2) by (simp add: word_less_nat_alt)

lemma rb_push_None: "rb_inv rb \<Longrightarrow> ringbuf_push rb c = None \<longleftrightarrow> rb_room rb = 0"
  using rb_full_iff by (simp add: ringbuf_push_def ringbuf_full_def Let_def)

lemma rb_push_Some:
  assumes "rb_inv rb" "ringbuf_push rb c = Some rb'"
  shows "rb_inv rb'" "rb_contents rb' = rb_contents rb @ [c]" "rb_room rb = Suc (rb_room rb')"
    "rb_size rb' = rb_size rb"
proof -
  let ?n = "unat (rb_size rb)" and ?t = "unat (rb_tail rb)"
  let ?nxt = "(rb_head rb + 1) AND rb_mask rb"
  have rb': "rb' = rb\<lparr>rb_data := (rb_data rb)(rb_head rb := c), rb_head := ?nxt\<rparr>"
    using assms(2) by (auto simp: ringbuf_push_def Let_def split: if_splits)
  show "rb_size rb' = rb_size rb" using rb' by simp
  have room: "rb_room rb \<noteq> 0" using rb_push_None[OF assms(1)] assms(2) by (metis option.discI)
  then have lt: "Suc (rb_used rb) < ?n" by (simp add: rb_room_def)
  have t: "?t < ?n" using assms(1) by (simp add: rb_inv_def word_less_nat_alt)
  show inv: "rb_inv rb'"
    using assms(1) rb' rb_masked_less[OF assms(1)] by (auto simp: rb_inv_def)
  have used: "rb_used rb' = Suc (rb_used rb)"
    unfolding rb_used_def[of rb'] using circ_dist[OF t lt]
    by (simp add: rb' rb_next_head[OF assms(1)])
  then show "rb_room rb = Suc (rb_room rb')" using lt rb' by (simp add: rb_room_def)
  have "(\<lambda>i. rb_data rb' (of_nat i)) ((?t + rb_used rb) mod ?n) = c"
    by (simp add: rb' rb_head_pos[OF assms(1), symmetric])
  moreover have "(\<lambda>i. rb_data rb' (of_nat i)) j = (\<lambda>i. rb_data rb (of_nat i)) j"
    if "j < ?n" "j \<noteq> (?t + rb_used rb) mod ?n" for j
  proof -
    have "unat (of_nat j :: u32) = j"
      using that(1) unat_u32_bound[of "rb_size rb"] by (simp add: unat_of_nat)
    then have "(of_nat j :: u32) \<noteq> rb_head rb" using that(2) rb_head_pos[OF assms(1)] by metis
    then show ?thesis using rb' by simp
  qed
  ultimately show "rb_contents rb' = rb_contents rb @ [c]"
    using circ_write[of "rb_used rb" "[c]" ?n "\<lambda>i. rb_data rb' (of_nat i)" ?t
        "\<lambda>i. rb_data rb (of_nat i)"] lt used rb'
    by (simp add: rb_contents_def)
qed

lemma rb_pop_None: "rb_inv rb \<Longrightarrow> ringbuf_pop rb = None \<longleftrightarrow> rb_contents rb = []"
  using rb_empty_iff[of rb]
  by (auto simp: ringbuf_pop_def ringbuf_empty_def rb_contents_def Let_def split: if_splits)

lemma rb_discard_step:
  assumes "rb_inv rb" "n \<le> rb_used rb" "n = unat m"
    and rb': "rb' = rb\<lparr>rb_tail := (rb_tail rb + m) AND rb_mask rb\<rparr>"
  shows "rb_inv rb'" "rb_contents rb' = drop n (rb_contents rb)" "rb_room rb' = rb_room rb + n"
proof -
  let ?n = "unat (rb_size rb)" and ?t = "unat (rb_tail rb)" and ?h = "unat (rb_head rb)"
  have t: "?t < ?n" "?h < ?n" using assms(1) by (auto simp: rb_inv_def word_less_nat_alt)
  have u: "rb_used rb < ?n" using rb_used_less[OF assms(1)] .
  show inv: "rb_inv rb'"
    using assms(1) rb' rb_masked_less[OF assms(1)] by (auto simp: rb_inv_def)
  have t': "unat (rb_tail rb') = (?t + n) mod ?n"
    using rb_add_mod[OF assms(1)] rb' assms(3) by simp
  have used: "rb_used rb' = rb_used rb - n"
    unfolding rb_used_def[of rb'] t' using circ_dist_advance[OF t(1) u assms(2)]
    by (simp add: rb' rb_head_pos[OF assms(1)])
  then show "rb_room rb' = rb_room rb + n" using u assms(2) rb' by (simp add: rb_room_def)
  show "rb_contents rb' = drop n (rb_contents rb)"
    using t' used rb' by (simp add: rb_contents_def circ_drop)
qed

lemma rb_pop_Some:
  assumes "rb_inv rb" "ringbuf_pop rb = Some (rb', c)"
  shows "rb_inv rb'" "rb_contents rb = c # rb_contents rb'" "rb_room rb' = Suc (rb_room rb)"
proof -
  have rb': "rb' = rb\<lparr>rb_tail := (rb_tail rb + 1) AND rb_mask rb\<rparr>" "c = rb_data rb (rb_tail rb)"
    using assms(2) by (auto simp: ringbuf_pop_def Let_def split: if_splits)
  have ne: "rb_contents rb \<noteq> []" using rb_pop_None[OF assms(1)] assms(2) by simp
  then have u: "1 \<le> rb_used rb" by (cases "rb_used rb") (auto simp: rb_contents_def)
  note st = rb_discard_step[OF assms(1) u _ rb'(1)]
  show "rb_inv rb'" "rb_room rb' = Suc (rb_room rb)" using st by simp_all
  have "rb_contents rb ! 0 = c"
    using u rb'(2) assms(1) by (simp add: rb_contents_def rb_inv_def word_less_nat_alt)
  then show "rb_contents rb = c # rb_contents rb'"
    using st(2) ne by (cases "rb_contents rb") auto
qed


section \<open>Bulk operations: a bounded byte stream\<close>

lemma rb_write_spec:
  assumes "rb_inv rb" "ringbuf_write rb xs = (rb', k)"
  shows "k = min (length xs) (rb_room rb) \<and> rb_contents rb' = rb_contents rb @ take k xs
     \<and> rb_room rb' = rb_room rb - k \<and> rb_inv rb'"
  using assms
proof (induction xs arbitrary: rb rb' k)
  case Nil
  then show ?case by simp
next
  case (Cons x xs)
  show ?case
  proof (cases "ringbuf_push rb x")
    case None
    then show ?thesis using Cons.prems rb_push_None[OF Cons.prems(1), of x] by auto
  next
    case (Some rb1)
    note p = rb_push_Some[OF Cons.prems(1) Some]
    obtain rb2 k2 where w: "ringbuf_write rb1 xs = (rb2, k2)" by fastforce
    from Cons.IH[OF p(1) w] p Cons.prems(2) Some w show ?thesis by auto
  qed
qed

lemma rb_read_spec:
  assumes "rb_inv rb" "ringbuf_read rb n = (rb', ys)"
  shows "ys = take n (rb_contents rb) \<and> rb_contents rb' = drop n (rb_contents rb)
     \<and> rb_room rb' = rb_room rb + length ys \<and> rb_inv rb'"
  using assms
proof (induction n arbitrary: rb rb' ys)
  case 0
  then show ?case by simp
next
  case (Suc n)
  show ?case
  proof (cases "ringbuf_pop rb")
    case None
    then show ?thesis using Suc.prems rb_pop_None[OF Suc.prems(1)] by auto
  next
    case (Some r)
    obtain rb1 c where r: "r = (rb1, c)" by fastforce
    note p = rb_pop_Some[OF Suc.prems(1) Some[unfolded r]]
    obtain rb2 cs where w: "ringbuf_read rb1 n = (rb2, cs)" by fastforce
    from Suc.IH[OF p(1) w] p Suc.prems(2) Some r w show ?thesis by auto
  qed
qed

interpretation rb: byte_channel rb_inv rb_contents rb_room ringbuf_write ringbuf_read
  by unfold_locales (use rb_write_spec rb_read_spec in blast)+

lemma ringbuf_init_inv:
  assumes "k < 32"
  shows "rb_inv (ringbuf_init rb (2 ^ k))" "rb_contents (ringbuf_init rb (2 ^ k)) = []"
    "rb_room (ringbuf_init rb (2 ^ k)) = 2 ^ k - 1"
  using assms
  by (auto simp: rb_inv_def ringbuf_init_def rb_contents_def rb_used_def rb_room_def
      word_less_nat_alt unat_power_two)

lemma ringbuf_discard_spec:
  assumes "rb_inv rb" "ringbuf_discard rb n = (rb', m)"
  shows "unat m = min (unat n) (length (rb_contents rb))" "rb_inv rb'"
    "rb_contents rb' = drop (unat n) (rb_contents rb)"
proof -
  have m: "m = (if ringbuf_readable rb < n then ringbuf_readable rb else n)"
    and rb': "rb' = rb\<lparr>rb_tail := (rb_tail rb + m) AND rb_mask rb\<rparr>"
    using assms(2) by (auto simp: ringbuf_discard_def Let_def)
  show um: "unat m = min (unat n) (length (rb_contents rb))"
    using m rb_readable_used[OF assms(1)] by (auto simp: word_less_nat_alt)
  note st = rb_discard_step[OF assms(1) _ refl rb']
  show "rb_inv rb'" using st(1) um by simp
  show "rb_contents rb' = drop (unat n) (rb_contents rb)"
    using st(2) um by (cases "unat n \<le> rb_used rb") auto
qed


section \<open>Properties\<close>

text \<open>
  C4 (ring buffer, refinement).  A ring initialised with a power-of-two size is a bounded
  FIFO byte stream: after any interleaving of bulk writes and reads, the bytes delivered
  followed by the bytes still buffered are exactly the bytes accepted, in order, and never
  more than size - 1 bytes are buffered.
\<close>
theorem ringbuf_stream:
  assumes "k < 32" "chan_run ringbuf_write ringbuf_read (ringbuf_init rb (2 ^ k)) ops = (rb', acc, del)"
  shows "del @ rb_contents rb' = acc \<and> length (rb_contents rb') \<le> 2 ^ k - 1"
  using rb.stream_fifo[OF ringbuf_init_inv(1)[OF assms(1)] assms(2)]
    rb.stream_bound[OF ringbuf_init_inv(1)[OF assms(1)] assms(2)] ringbuf_init_inv(2,3)[OF assms(1), of rb]
  by simp

theorem ringbuf_stream_witness:
  "let rb = ringbuf_init \<lparr>rb_head = 7, rb_tail = 9, rb_size = 0, rb_mask = 0, rb_data = (\<lambda>_. 0)\<rparr> 4;
       (rb', acc, del) = chan_run ringbuf_write ringbuf_read rb [Put [1, 2, 3, 4, 5], Get 2, Put [6]]
   in acc = [1, 2, 3, 6] \<and> del = [1, 2] \<and> rb_contents rb' = [3, 6]"
proof -
  define rb where "rb = \<lparr>rb_head = 7, rb_tail = 9, rb_size = 0, rb_mask = 0, rb_data = (\<lambda>_. 0)\<rparr>"
  define r where "r = chan_run ringbuf_write ringbuf_read (ringbuf_init rb 4) [Put [1, 2, 3, 4, 5], Get 2, Put [6]]"
  have e: "fst (snd r) = [1, 2, 3, 6]" "snd (snd r) = [1, 2]" unfolding r_def rb_def by code_simp+
  have "chan_run ringbuf_write ringbuf_read (ringbuf_init rb (2 ^ 2)) [Put [1, 2, 3, 4, 5], Get 2, Put [6]]
      = (fst r, fst (snd r), snd (snd r))" by (simp add: r_def)
  from ringbuf_stream[OF _ this] e show ?thesis
    unfolding Let_def split_beta rb_def[symmetric] r_def[symmetric] by simp
qed

text \<open>
  C39 (ring buffer, bounds).  The unsigned subtractions of the fill counters are exact in
  spite of wrap-around: \<open>ringbuf_readable\<close> is the number of buffered bytes,
  \<open>ringbuf_writable\<close> the number of bytes that still fit, their sum is size - 1, and the
  empty and full tests agree with them.
\<close>
theorem ringbuf_counters_exact:
  assumes "rb_inv rb"
  shows "unat (ringbuf_readable rb) = length (rb_contents rb) \<and>
    unat (ringbuf_readable rb) + unat (ringbuf_writable rb) = unat (rb_size rb) - 1 \<and>
    (ringbuf_empty rb \<longleftrightarrow> ringbuf_readable rb = 0) \<and> (ringbuf_full rb \<longleftrightarrow> ringbuf_writable rb = 0)"
proof -
  have "rb_used rb < unat (rb_size rb)" by (rule rb_used_less[OF assms])
  then show ?thesis
    using rb_readable_used[OF assms] rb_writable_room[OF assms] rb_empty_iff[OF assms] rb_full_iff[OF assms]
      unat_eq_zero[of "ringbuf_readable rb"] unat_eq_zero[of "ringbuf_writable rb"]
    by (simp add: rb_room_def)
qed

theorem ringbuf_counters_exact_witness:
  "unat (ringbuf_readable \<lparr>rb_head = 1, rb_tail = 6, rb_size = 8, rb_mask = 7, rb_data = (\<lambda>_. 0)\<rparr>) = 3"
proof -
  let ?rb = "\<lparr>rb_head = 1, rb_tail = 6, rb_size = 8, rb_mask = 7, rb_data = (\<lambda>_. 0)\<rparr>"
  have "(8 :: u32) = 2 ^ 3" by simp
  then have "rb_inv ?rb" unfolding rb_inv_def by (intro conjI exI[of _ 3]) auto
  from ringbuf_counters_exact[OF this] show ?thesis by (simp add: rb_used_def)
qed

end
