(* ===== verification/Keyboard.thy ===== *)
theory Keyboard
  imports Ring_Buffer
begin

text \<open>
  The PS/2 keyboard driver, \<^verbatim>\<open>src/kernel/drivers/input/keyboard.c\<close>: the interrupt
  handler that decodes XT scancodes under the modifier state and feeds the ASCII ring and
  the raw event ring, and the two consumers.  The byte read from port 0x60 is an argument
  of the handler.  A character is the byte pushed into the ring.  Shown: both rings keep
  their invariant under every sequence of interrupts, events come out in order as long as
  a whole event fits, and what happens when only half of one does.
\<close>

section \<open>State and handlers\<close>

record keyboard =
  kb_ring :: ringbuf
  kb_event_ring :: ringbuf
  extended_scancode :: bool
  shift_pressed :: bool
  ctrl_pressed :: bool
  caps_lock :: bool
  raw_mode :: bool

definition KB_BUFFER_SIZE :: u32 where "KB_BUFFER_SIZE = 256"
definition KB_EVENT_BUFFER_SIZE :: u32 where "KB_EVENT_BUFFER_SIZE = 256"

lemmas kb_sizes [kernel_const] = KB_BUFFER_SIZE_def KB_EVENT_BUFFER_SIZE_def

text \<open>\<open>ringbuf_push\<close> with its result discarded: a full ring drops the byte.\<close>

definition push_or_drop :: "ringbuf \<Rightarrow> byte \<Rightarrow> ringbuf" where
  "push_or_drop rb c = (case ringbuf_push rb c of None \<Rightarrow> rb | Some rb' \<Rightarrow> rb')"

definition kb_event_push :: "keyboard \<Rightarrow> byte \<Rightarrow> byte \<Rightarrow> keyboard" where
  "kb_event_push kb scancode flags =
     (let kb = kb\<lparr>kb_event_ring := push_or_drop (kb_event_ring kb) scancode\<rparr>
      in kb\<lparr>kb_event_ring := push_or_drop (kb_event_ring kb) flags\<rparr>)"

text \<open>The returned value is 1 with the event, or 0 (\<open>None\<close>).\<close>

definition kb_event_pop :: "keyboard \<Rightarrow> keyboard \<times> (byte \<times> byte) option" where
  "kb_event_pop kb =
     (case ringbuf_pop (kb_event_ring kb) of
        None \<Rightarrow> (kb, None)
      | Some (rb, scancode) \<Rightarrow>
          (case ringbuf_pop rb of
             None \<Rightarrow> (kb\<lparr>kb_event_ring := rb\<rparr>, None)
           | Some (rb', flags) \<Rightarrow> (kb\<lparr>kb_event_ring := rb'\<rparr>, Some (scancode, flags))))"

definition scancode_to_ascii :: "byte list" where
  "scancode_to_ascii =
    [0, 27, 49, 50, 51, 52, 53, 54, 55, 56, 57, 48, 45, 61, 8, 9,
     113, 119, 101, 114, 116, 121, 117, 105, 111, 112, 91, 93, 10, 0, 97, 115,
     100, 102, 103, 104, 106, 107, 108, 59, 39, 96, 0, 92, 122, 120, 99, 118,
     98, 110, 109, 44, 46, 47, 0, 42, 0, 32, 0, 0, 0, 0, 0, 0,
     0, 0, 0, 0, 0, 0, 0, 55, 56, 57, 45, 52, 53, 54, 43, 49,
     50, 51, 48, 46, 0, 0, 0, 0, 0, 0, 0, 0, 0, 0, 0, 0,
     0, 0, 0, 0, 0, 0, 0, 0, 0, 0, 0, 0, 0, 0, 0, 0,
     0, 0, 0, 0, 0, 0, 0, 0, 0, 0, 0, 0, 0, 0, 0, 0]"

definition scancode_to_ascii_shift :: "byte list" where
  "scancode_to_ascii_shift =
    [0, 27, 33, 64, 35, 36, 37, 94, 38, 42, 40, 41, 95, 43, 8, 9,
     81, 87, 69, 82, 84, 89, 85, 73, 79, 80, 123, 125, 10, 0, 65, 83,
     68, 70, 71, 72, 74, 75, 76, 58, 34, 126, 0, 124, 90, 88, 67, 86,
     66, 78, 77, 60, 62, 63, 0, 42, 0, 32, 0, 0, 0, 0, 0, 0,
     0, 0, 0, 0, 0, 0, 0, 55, 56, 57, 45, 52, 53, 54, 43, 49,
     50, 51, 48, 46, 0, 0, 0, 0, 0, 0, 0, 0, 0, 0, 0, 0,
     0, 0, 0, 0, 0, 0, 0, 0, 0, 0, 0, 0, 0, 0, 0, 0,
     0, 0, 0, 0, 0, 0, 0, 0, 0, 0, 0, 0, 0, 0, 0, 0]"

definition kb_external_push :: "keyboard \<Rightarrow> byte \<Rightarrow> keyboard" where
  "kb_external_push kb c = kb\<lparr>kb_ring := push_or_drop (kb_ring kb) c\<rparr>"

definition keyboard_init :: "keyboard \<Rightarrow> keyboard" where
  "keyboard_init kb =
     kb\<lparr>kb_ring := ringbuf_init (kb_ring kb) KB_BUFFER_SIZE,
        kb_event_ring := ringbuf_init (kb_event_ring kb) KB_EVENT_BUFFER_SIZE,
        extended_scancode := False, shift_pressed := False, ctrl_pressed := False,
        caps_lock := False\<rparr>"

text \<open>The letters, as the comparisons \<open>c >= 'a' && c <= 'z'\<close> of the source.\<close>

definition is_lower :: "byte \<Rightarrow> bool" where "is_lower c \<longleftrightarrow> 0x61 \<le> c \<and> c \<le> 0x7A"
definition is_upper :: "byte \<Rightarrow> bool" where "is_upper c \<longleftrightarrow> 0x41 \<le> c \<and> c \<le> 0x5A"

text \<open>The character of a pressed key under the modifiers; 0 for none.\<close>

definition kb_decode :: "keyboard \<Rightarrow> byte \<Rightarrow> byte" where
  "kb_decode kb key_code =
     (let c = (if shift_pressed kb then scancode_to_ascii_shift ! unat key_code
               else scancode_to_ascii ! unat key_code);
          c = (if caps_lock kb
               then (if is_lower c then c - 0x61 + 0x41
                     else if is_upper c then c - 0x41 + 0x61 else c)
               else c)
      in if ctrl_pressed kb \<and> (is_lower c \<or> is_upper c) then c AND 0x1F else c)"

definition kb_arrow :: "byte \<Rightarrow> byte option" where
  "kb_arrow key_code =
     (if key_code = 0x48 then Some 0x80 else if key_code = 0x50 then Some 0x81
      else if key_code = 0x4B then Some 0x82 else if key_code = 0x4D then Some 0x83 else None)"

definition kb_flags :: "bool \<Rightarrow> bool \<Rightarrow> byte" where
  "kb_flags released extended = (if released then 1 else 0) OR (if extended then 2 else 0)"

definition keyboard_handle_irq :: "keyboard \<Rightarrow> byte \<Rightarrow> keyboard" where
  "keyboard_handle_irq kb scancode =
     (if raw_mode kb then kb_external_push kb scancode
      else if scancode = 0xE0 then kb\<lparr>extended_scancode := True\<rparr>
      else
        let key_released = (scancode AND 0x80 \<noteq> 0); key_code = scancode AND 0x7F;
            kb = kb_event_push kb key_code (kb_flags key_released (extended_scancode kb))
        in if key_code = 0x2A \<or> key_code = 0x36 then kb\<lparr>shift_pressed := \<not> key_released\<rparr>
           else if key_code = 0x1D then kb\<lparr>ctrl_pressed := \<not> key_released\<rparr>
           else if key_code = 0x3A \<and> \<not> key_released then kb\<lparr>caps_lock := \<not> caps_lock kb\<rparr>
           else if extended_scancode kb then
             let kb = kb\<lparr>extended_scancode := False\<rparr>
             in if key_released then kb
                else (case kb_arrow key_code of None \<Rightarrow> kb | Some c \<Rightarrow> kb_external_push kb c)
           else if key_released then kb
           else (let c = kb_decode kb key_code in if c = 0 then kb else kb_external_push kb c))"

text \<open>
  \<open>kb_get_char\<close> halts until an interrupt has filled the ring: the argument is the
  sequence of scancodes that arrive while it waits, \<open>None\<close> that the ring is still empty
  after all of them.
\<close>

fun kb_get_char :: "keyboard \<Rightarrow> byte list \<Rightarrow> (keyboard \<times> byte) option" where
  "kb_get_char kb irqs =
     (if ringbuf_empty (kb_ring kb)
      then (case irqs of [] \<Rightarrow> None | sc # irqs' \<Rightarrow> kb_get_char (keyboard_handle_irq kb sc) irqs')
      else (case ringbuf_pop (kb_ring kb) of
              None \<Rightarrow> Some (kb, 0)
            | Some (rb, c) \<Rightarrow> Some (kb\<lparr>kb_ring := rb\<rparr>, c)))"

declare kb_get_char.simps [simp del]

section \<open>Invariant\<close>

definition kb_inv :: "keyboard \<Rightarrow> bool" where
  "kb_inv kb \<longleftrightarrow> rb_inv (kb_ring kb) \<and> rb_inv (kb_event_ring kb)"

lemma push_or_drop_inv [simp]: "rb_inv rb \<Longrightarrow> rb_inv (push_or_drop rb c)"
  by (auto simp: push_or_drop_def rb_push_Some split: option.splits)

lemma push_or_drop_contents:
  "rb_inv rb \<Longrightarrow> rb_contents (push_or_drop rb c) =
     (if rb_room rb = 0 then rb_contents rb else rb_contents rb @ [c])"
  using rb_push_None[of rb c] by (auto simp: push_or_drop_def rb_push_Some split: option.splits)

lemma push_or_drop_room:
  "rb_inv rb \<Longrightarrow> rb_room (push_or_drop rb c) = rb_room rb - 1"
  using rb_push_None[of rb c] rb_push_Some(3)[of rb c]
  by (auto simp: push_or_drop_def split: option.splits)

lemma keyboard_init_inv [kernel_inv]: "kb_inv (keyboard_init kb)"
  using ringbuf_init_inv(1)[of 8] by (simp add: kb_inv_def keyboard_init_def kernel_const)

lemma kb_event_push_inv [kernel_inv]: "kb_inv kb \<Longrightarrow> kb_inv (kb_event_push kb sc fl)"
  by (simp add: kb_inv_def kb_event_push_def Let_def)

lemma kb_external_push_inv [kernel_inv]: "kb_inv kb \<Longrightarrow> kb_inv (kb_external_push kb c)"
  by (simp add: kb_inv_def kb_external_push_def)

lemma kb_inv_upd [simp]:
  "kb_inv (kb\<lparr>extended_scancode := b\<rparr>) = kb_inv kb" "kb_inv (kb\<lparr>shift_pressed := b\<rparr>) = kb_inv kb"
  "kb_inv (kb\<lparr>ctrl_pressed := b\<rparr>) = kb_inv kb" "kb_inv (kb\<lparr>caps_lock := b\<rparr>) = kb_inv kb"
  by (simp_all add: kb_inv_def)

lemma keyboard_handle_irq_inv [kernel_inv]: "kb_inv kb \<Longrightarrow> kb_inv (keyboard_handle_irq kb sc)"
  by (auto simp: keyboard_handle_irq_def Let_def kernel_inv split: option.splits)


section \<open>The event stream\<close>

lemma kb_event_push_contents:
  assumes "kb_inv kb"
  shows "rb_contents (kb_event_ring (kb_event_push kb sc fl)) =
     (if rb_room (kb_event_ring kb) = 0 then rb_contents (kb_event_ring kb)
      else if rb_room (kb_event_ring kb) = 1 then rb_contents (kb_event_ring kb) @ [sc]
      else rb_contents (kb_event_ring kb) @ [sc, fl])"
    "rb_room (kb_event_ring (kb_event_push kb sc fl)) = rb_room (kb_event_ring kb) - 2"
  using assms by (auto simp: kb_inv_def kb_event_push_def Let_def push_or_drop_contents push_or_drop_room)

lemma kb_event_pop_two:
  assumes "kb_inv kb" "rb_contents (kb_event_ring kb) = sc # fl # rest"
  shows "\<exists>kb'. kb_event_pop kb = (kb', Some (sc, fl)) \<and> kb_inv kb'
     \<and> rb_contents (kb_event_ring kb') = rest
     \<and> rb_room (kb_event_ring kb') = rb_room (kb_event_ring kb) + 2"
proof -
  have i: "rb_inv (kb_event_ring kb)" using assms(1) by (simp add: kb_inv_def)
  obtain rb1 c1 where p1: "ringbuf_pop (kb_event_ring kb) = Some (rb1, c1)"
    using rb_pop_None[OF i] assms(2) by (cases "ringbuf_pop (kb_event_ring kb)") auto
  note s1 = rb_pop_Some[OF i p1]
  then have c1: "c1 = sc" "rb_contents rb1 = fl # rest" using assms(2) by auto
  obtain rb2 c2 where p2: "ringbuf_pop rb1 = Some (rb2, c2)"
    using rb_pop_None[OF s1(1)] c1(2) by (cases "ringbuf_pop rb1") auto
  note s2 = rb_pop_Some[OF s1(1) p2]
  show ?thesis using p1 p2 s1 s2 c1 assms by (simp add: kb_event_pop_def kb_inv_def)
qed


section \<open>Properties\<close>

text \<open>
  (keyboard, invariant).  Whatever scancodes arrive after initialisation, in raw mode or
  not, both rings stay well formed: head and tail below their sizes, masks matching.
\<close>
theorem keyboard_rings_safe: "kb_inv (fold (\<lambda>sc kb. keyboard_handle_irq kb sc) scs (keyboard_init kb))"
proof -
  have "kb_inv kb' \<Longrightarrow> kb_inv (fold (\<lambda>sc kb. keyboard_handle_irq kb sc) scs kb')" for kb'
    by (induction scs arbitrary: kb') (simp_all add: keyboard_handle_irq_inv)
  then show ?thesis using keyboard_init_inv by blast
qed

text \<open>
  (keyboard, safety).  The event ring holds an odd number of bytes and an event is two:
  when one byte of room is left, pushing an event stores its scancode without its flags.
  If the reader then takes one event before the next is pushed, the reader gets the pair
  (lost event's scancode, next event's scancode) in place of an event: the stream is out
  of step from there on.
\<close>
theorem event_stream_desynchronised:
  assumes "kb_inv kb" "rb_room (kb_event_ring kb) = 1" "rb_contents (kb_event_ring kb) = [a, b]"
  shows "\<exists>kb1 kb2 kb3. kb1 = kb_event_push kb sc1 fl1 \<and> kb_event_pop kb1 = (kb2, Some (a, b)) \<and>
    kb3 = kb_event_push kb2 sc2 fl2 \<and> snd (kb_event_pop kb3) = Some (sc1, sc2)"
proof -
  define kb1 where "kb1 = kb_event_push kb sc1 fl1"
  have i1: "kb_inv kb1" using assms(1) by (simp add: kb1_def kb_event_push_inv)
  have c1: "rb_contents (kb_event_ring kb1) = [a, b, sc1]" and r1: "rb_room (kb_event_ring kb1) = 0"
    using kb_event_push_contents[OF assms(1), of sc1 fl1] assms(2,3) by (simp_all add: kb1_def)
  obtain kb2 where p: "kb_event_pop kb1 = (kb2, Some (a, b))" "kb_inv kb2"
    "rb_contents (kb_event_ring kb2) = [sc1]" "rb_room (kb_event_ring kb2) = 2"
    using kb_event_pop_two[OF i1 c1] r1 by auto
  define kb3 where "kb3 = kb_event_push kb2 sc2 fl2"
  have "kb_inv kb3" "rb_contents (kb_event_ring kb3) = [sc1, sc2, fl2]"
    using kb_event_push_contents[OF p(2), of sc2 fl2] p by (simp_all add: kb3_def kb_event_push_inv)
  from kb_event_pop_two[OF this] have "snd (kb_event_pop kb3) = Some (sc1, sc2)" by auto
  then show ?thesis using p(1) kb1_def kb3_def by blast
qed

text \<open>A keyboard whose rings have four bytes, with one event pending.\<close>

definition kb_small :: keyboard where
  "kb_small =
     (let r = \<lparr>rb_head = 0, rb_tail = 0, rb_size = 4, rb_mask = 3, rb_data = (\<lambda>_. 0)\<rparr>
      in \<lparr>kb_ring = r, kb_event_ring = r\<lparr>rb_head := 2, rb_data := (\<lambda>i. if i = 0 then 0x1E else 0)\<rparr>,
          extended_scancode = False, shift_pressed = False, ctrl_pressed = False, caps_lock = False,
          raw_mode = False\<rparr>)"

lemma rb_inv_four: "h < 4 \<Longrightarrow> t < 4 \<Longrightarrow> rb_inv \<lparr>rb_head = h, rb_tail = t, rb_size = 4, rb_mask = 3, rb_data = d\<rparr>"
  unfolding rb_inv_def by (intro conjI exI[of _ 2]) simp_all

lemma kb_small_inv: "kb_inv kb_small"
  unfolding kb_inv_def kb_small_def Let_def by (simp add: rb_inv_four)

theorem event_stream_desynchronised_witness:
  "snd (kb_event_pop (kb_event_push (fst (kb_event_pop (kb_event_push kb_small 0x30 1))) 0x2E 0)) = Some (0x30, 0x2E)"
proof -
  have "rb_room (kb_event_ring kb_small) = 1" "rb_contents (kb_event_ring kb_small) = [0x1E, 0]"
    by (simp_all add: kb_small_def Let_def rb_room_def rb_contents_def rb_used_def circ_def upt_rec)
  then show ?thesis
    using event_stream_desynchronised[OF kb_small_inv, of "0x1E" 0 "0x30" 1 "0x2E" 0] by auto
qed

text \<open>
  (keyboard, functional).  An ordinary key pressed with no prefix pending appends its
  decoded character, when it has one and the ring has room, to the character stream; the
  modifiers are unchanged.
\<close>
theorem key_press_appends:
  assumes "kb_inv kb" "\<not> raw_mode kb" "\<not> extended_scancode kb" "sc AND 0x80 = 0"
    and "sc AND 0x7F \<notin> {0x2A, 0x36, 0x1D, 0x3A}" "kb_decode kb (sc AND 0x7F) \<noteq> 0" "rb_room (kb_ring kb) \<noteq> 0"
  shows "rb_contents (kb_ring (keyboard_handle_irq kb sc)) = rb_contents (kb_ring kb) @ [kb_decode kb (sc AND 0x7F)] \<and>
    shift_pressed (keyboard_handle_irq kb sc) = shift_pressed kb \<and>
    ctrl_pressed (keyboard_handle_irq kb sc) = ctrl_pressed kb \<and>
    caps_lock (keyboard_handle_irq kb sc) = caps_lock kb"
proof -
  have ne: "sc \<noteq> 0xE0" using assms(4) by auto
  let ?kb1 = "kb_event_push kb (sc AND 0x7F) (kb_flags False False)"
  have k: "kb_ring ?kb1 = kb_ring kb" "extended_scancode ?kb1 = extended_scancode kb"
    "shift_pressed ?kb1 = shift_pressed kb" "ctrl_pressed ?kb1 = ctrl_pressed kb" "caps_lock ?kb1 = caps_lock kb"
    by (simp_all add: kb_event_push_def Let_def)
  then have "kb_decode ?kb1 (sc AND 0x7F) = kb_decode kb (sc AND 0x7F)" by (simp add: kb_decode_def)
  then have "keyboard_handle_irq kb sc = kb_external_push ?kb1 (kb_decode kb (sc AND 0x7F))"
    using assms ne k by (simp add: keyboard_handle_irq_def Let_def)
  then show ?thesis using k assms by (simp add: kb_external_push_def push_or_drop_contents kb_inv_def)
qed

text \<open>
  (keyboard, functional).  The prefix byte 0xE0 is consumed only by the arrow keys and
  the keys that are no modifiers: after the extended form of Ctrl (E0 1D, and its release
  E0 9D) the prefix is still pending, so the next ordinary key press produces no character.
\<close>
theorem extended_ctrl_swallows_key:
  assumes "\<not> raw_mode kb" "sc AND 0x80 = 0" "sc AND 0x7F \<notin> {0x2A, 0x36, 0x1D, 0x3A, 0x48, 0x50, 0x4B, 0x4D}"
  shows "let kb' = fold (\<lambda>sc kb. keyboard_handle_irq kb sc) [0xE0, 0x1D, 0xE0, 0x9D] kb
    in extended_scancode kb' \<and> kb_ring (keyboard_handle_irq kb' sc) = kb_ring kb"
proof -
  have ne: "sc \<noteq> 0xE0" using assms(2) by auto
  have ev: "kb_ring (kb_event_push kb a b) = kb_ring kb" "raw_mode (kb_event_push kb a b) = raw_mode kb"
    "extended_scancode (kb_event_push kb a b) = extended_scancode kb" for kb a b
    by (simp_all add: kb_event_push_def Let_def)
  define kb' where "kb' = fold (\<lambda>sc kb. keyboard_handle_irq kb sc) [0xE0, 0x1D, 0xE0, 0x9D] kb"
  have k': "extended_scancode kb'" "\<not> raw_mode kb'" "kb_ring kb' = kb_ring kb"
    using assms(1) by (simp_all add: kb'_def keyboard_handle_irq_def Let_def ev)
  then have "kb_ring (keyboard_handle_irq kb' sc) = kb_ring kb'"
    using assms(2,3) ne by (simp add: keyboard_handle_irq_def Let_def ev kb_arrow_def)
  then show ?thesis using k' by (simp add: kb'_def Let_def)
qed

theorem extended_ctrl_swallows_key_witness:
  "kb_decode kb_small 0x1E = 0x61 \<and>
   kb_ring (keyboard_handle_irq (fold (\<lambda>sc kb. keyboard_handle_irq kb sc) [0xE0, 0x1D, 0xE0, 0x9D] kb_small) 0x1E)
     = kb_ring kb_small"
proof -
  have "kb_decode kb_small 0x1E = 0x61" by code_simp
  then show ?thesis using extended_ctrl_swallows_key[of kb_small "0x1E"] by (simp add: kb_small_def Let_def)
qed

theorem key_press_appends_witness:
  "rb_contents (kb_ring (keyboard_handle_irq kb_small 0x1E)) = [0x61]"
proof -
  have "kb_decode kb_small (0x1E AND 0x7F) = 0x61" by code_simp
  moreover have "rb_contents (kb_ring kb_small) = []" "rb_room (kb_ring kb_small) \<noteq> 0" "\<not> raw_mode kb_small"
    "\<not> extended_scancode kb_small"
    by (simp_all add: kb_small_def Let_def rb_room_def rb_contents_def rb_used_def)
  ultimately show ?thesis using key_press_appends[OF kb_small_inv, of "0x1E"] by simp
qed

end
