(* ===== verification/Frame_Alloc.thy ===== *)
theory Frame_Alloc
  imports Prelude
begin

text \<open>
  The physical frame allocator, \<^verbatim>\<open>src/kernel/mm/frame_alloc.c\<close>: a bitmap of 4 KiB
  frames, a next-fit hint, 16-bit reference counts and a magazine of up to sixteen
  frames per CPU.  A frame is an address (a natural number below \<open>2 ^ 32\<close>); the value
  \<open>(uint32_t)-1\<close> of a failed allocation is \<open>None\<close>.  A magazine is the stack of its
  entries, top first.  Shown: frames handed out are never in use and lie between the
  kernel heap and the end of the identity map, counts are exact, and allocation fails
  only when the bitmap has no free frame left in that range.
\<close>

section \<open>State and operations\<close>

definition FRAME_COUNT :: nat where [kernel_const]: "FRAME_COUNT = 16384"
definition BITMAP_SIZE :: nat where [kernel_const]: "BITMAP_SIZE = 512"
definition FRAME_ALLOC_FIRST_BITMAP_IDX :: nat where
  [kernel_const]: "FRAME_ALLOC_FIRST_BITMAP_IDX = KERNEL_HEAP_END div PAGE_SIZE_CONST div 32"
definition FRAME_MAGAZINE_SIZE :: nat where [kernel_const]: "FRAME_MAGAZINE_SIZE = 16"

record frames =
  frame_bitmap :: "nat \<Rightarrow> u32"
  next_free :: nat
  frame_refcount :: "nat \<Rightarrow> u16"
  frame_magazine :: "nat \<Rightarrow> nat list"

definition frame_alloc_mark_used :: "frames \<Rightarrow> nat \<Rightarrow> frames" where
  "frame_alloc_mark_used s addr =
     (let f = addr div PAGE_SIZE_CONST
      in s\<lparr>frame_bitmap := (frame_bitmap s)(f div 32 := frame_bitmap s (f div 32) OR push_bit (f mod 32) 1)\<rparr>)"

definition frame_alloc_reserve_low :: "frames \<Rightarrow> nat \<Rightarrow> frames" where
  "frame_alloc_reserve_low s end_phys =
     fold (\<lambda>f s. frame_alloc_mark_used s (f * PAGE_SIZE_CONST))
       [0..<(end_phys + PAGE_SIZE_CONST - 1) div PAGE_SIZE_CONST] s"

definition frame_clear :: "frames \<Rightarrow> nat \<Rightarrow> frames" where
  "frame_clear s addr =
     (let f = addr div PAGE_SIZE_CONST
      in s\<lparr>frame_bitmap := (frame_bitmap s)(f div 32 := frame_bitmap s (f div 32) AND NOT (push_bit (f mod 32) 1))\<rparr>)"

definition set_refcount :: "frames \<Rightarrow> nat \<Rightarrow> u16 \<Rightarrow> frames" where
  "set_refcount s fidx r =
     (if fidx < FRAME_COUNT then s\<lparr>frame_refcount := (frame_refcount s)(fidx := r)\<rparr> else s)"

text \<open>
  The inner loop of \<open>alloc_frames_locked\<close> over the bits \<open>js\<close> of bitmap word \<open>i\<close>; the
  flag is the \<open>goto done\<close>.
\<close>

fun scan_bits :: "nat \<Rightarrow> nat \<Rightarrow> nat list \<Rightarrow> frames \<Rightarrow> nat list \<Rightarrow> frames \<times> nat list \<times> bool" where
  "scan_bits want i [] s out = (s, out, False)"
| "scan_bits want i (j # js) s out =
     (if want \<le> length out then (s, out, False)
      else if \<not> bit (frame_bitmap s i) j then
        let addr = (i * 32 + j) * PAGE_SIZE_CONST
        in if IDENTITY_MAP_END \<le> addr then (s, out, True)
           else
             let s = frame_alloc_mark_used s addr;
                 s = s\<lparr>next_free := i\<rparr>;
                 s = set_refcount s (addr div PAGE_SIZE_CONST) 1
             in scan_bits want i js s (out @ [addr])
      else scan_bits want i js s out)"

fun scan_words :: "nat \<Rightarrow> nat list \<Rightarrow> frames \<Rightarrow> nat list \<Rightarrow> frames \<times> nat list" where
  "scan_words want [] s out = (s, out)"
| "scan_words want (i # is) s out =
     (if want \<le> length out then (s, out)
      else if frame_bitmap s i = 0xFFFFFFFF then scan_words want is s out
      else (case scan_bits want i [0..<32] s out of
              (s, out, goto_done) \<Rightarrow> if goto_done then (s, out) else scan_words want is s out))"

definition alloc_frames_locked :: "frames \<Rightarrow> nat \<Rightarrow> frames \<times> nat list" where
  "alloc_frames_locked s want =
     (let start = (if next_free s < FRAME_ALLOC_FIRST_BITMAP_IDX then FRAME_ALLOC_FIRST_BITMAP_IDX
                   else next_free s);
          end_idx = IDENTITY_MAP_END div PAGE_SIZE_CONST div 32;
          end_idx = (if BITMAP_SIZE < end_idx then BITMAP_SIZE else end_idx)
      in scan_words want [start..<end_idx] s [])"

definition set_magazine :: "frames \<Rightarrow> nat \<Rightarrow> nat list \<Rightarrow> frames" where
  "set_magazine s cpu m = s\<lparr>frame_magazine := (frame_magazine s)(cpu := m)\<rparr>"

definition allocate_frame :: "frames \<Rightarrow> nat \<Rightarrow> frames \<times> nat option" where
  "allocate_frame s cpu =
     (case frame_magazine s cpu of
        addr # rest \<Rightarrow>
          (set_refcount (set_magazine s cpu rest) (addr div PAGE_SIZE_CONST) 1, Some addr)
      | [] \<Rightarrow>
          (case alloc_frames_locked s FRAME_MAGAZINE_SIZE of
             (s, []) \<Rightarrow> (s, None)
           | (s, addr # batch) \<Rightarrow> (set_magazine s cpu (rev batch), Some addr)))"

definition lower_next_free :: "frames \<Rightarrow> nat \<Rightarrow> frames" where
  "lower_next_free s addr =
     (let i = addr div PAGE_SIZE_CONST div 32
      in if i < next_free s \<and> FRAME_ALLOC_FIRST_BITMAP_IDX \<le> i then s\<lparr>next_free := i\<rparr> else s)"

definition clear_and_lower :: "nat \<Rightarrow> frames \<Rightarrow> frames" where
  "clear_and_lower addr s = lower_next_free (frame_clear s addr) addr"

definition release_frame_to_pool :: "frames \<Rightarrow> nat \<Rightarrow> nat \<Rightarrow> frames" where
  "release_frame_to_pool s cpu addr =
     (let m = frame_magazine s cpu
      in if length m < FRAME_MAGAZINE_SIZE then set_magazine s cpu (addr # m)
         else
           let k = FRAME_MAGAZINE_SIZE div 2;
               s = fold clear_and_lower (take k m) s;
               s = set_magazine s cpu (drop k m)
           in clear_and_lower addr s)"

definition frame_incref :: "frames \<Rightarrow> nat \<Rightarrow> frames" where
  "frame_incref s addr =
     (let fidx = addr div PAGE_SIZE_CONST
      in if FRAME_COUNT \<le> fidx then s
         else if frame_refcount s fidx < 0xFFFF
         then s\<lparr>frame_refcount := (frame_refcount s)(fidx := frame_refcount s fidx + 1)\<rparr>
         else s)"

definition frame_getref :: "frames \<Rightarrow> nat \<Rightarrow> u16" where
  "frame_getref s addr =
     (let fidx = addr div PAGE_SIZE_CONST in if FRAME_COUNT \<le> fidx then 0 else frame_refcount s fidx)"

definition frame_decref :: "frames \<Rightarrow> nat \<Rightarrow> nat \<Rightarrow> frames" where
  "frame_decref s cpu addr =
     (let fidx = addr div PAGE_SIZE_CONST
      in if FRAME_COUNT \<le> fidx then s
         else if addr < KERNEL_HEAP_END then s
         else
           let r = frame_refcount s fidx
           in if r = 0 then s
              else if 1 < r then s\<lparr>frame_refcount := (frame_refcount s)(fidx := r - 1)\<rparr>
              else release_frame_to_pool (s\<lparr>frame_refcount := (frame_refcount s)(fidx := 0)\<rparr>) cpu addr)"

definition free_frame :: "frames \<Rightarrow> nat \<Rightarrow> nat \<Rightarrow> frames" where
  "free_frame s cpu addr =
     (if addr = 0 \<or> addr = 0xFFFFFFFF then s
      else if addr < KERNEL_HEAP_END then s
      else frame_decref s cpu addr)"

section \<open>The bitmap as a set of used frames\<close>

definition used :: "frames \<Rightarrow> nat \<Rightarrow> bool" where
  "used s f \<longleftrightarrow> bit (frame_bitmap s (f div 32)) (f mod 32)"

definition in_mag :: "frames \<Rightarrow> nat \<Rightarrow> bool" where
  "in_mag s addr \<longleftrightarrow> (\<exists>cpu. addr \<in> set (frame_magazine s cpu))"

text \<open>A frame is owned by a client when it is neither free nor parked in a magazine.\<close>

definition owned :: "frames \<Rightarrow> nat \<Rightarrow> bool" where
  "owned s addr \<longleftrightarrow> used s (addr div 4096) \<and> \<not> in_mag s addr"

definition pool_addr :: "nat \<Rightarrow> bool" where
  "pool_addr addr \<longleftrightarrow> 4096 dvd addr \<and> KERNEL_HEAP_END \<le> addr \<and> addr < IDENTITY_MAP_END"

definition frame_inv :: "frames \<Rightarrow> bool" where
  "frame_inv s \<longleftrightarrow>
     (\<forall>w. 88 \<le> w \<and> w < next_free s \<longrightarrow> frame_bitmap s w = 0xFFFFFFFF) \<and>
     (\<forall>cpu. distinct (frame_magazine s cpu) \<and> length (frame_magazine s cpu) \<le> 16 \<and>
        (\<forall>a \<in> set (frame_magazine s cpu). pool_addr a \<and> used s (a div 4096))) \<and>
     (\<forall>cpu cpu' a. a \<in> set (frame_magazine s cpu) \<and> a \<in> set (frame_magazine s cpu') \<longrightarrow> cpu = cpu')"

lemma frame_invI:
  assumes "\<And>w. 88 \<le> w \<Longrightarrow> w < next_free s \<Longrightarrow> frame_bitmap s w = 0xFFFFFFFF"
    and "\<And>cpu. distinct (frame_magazine s cpu)" "\<And>cpu. length (frame_magazine s cpu) \<le> 16"
    and "\<And>cpu a. a \<in> set (frame_magazine s cpu) \<Longrightarrow> pool_addr a \<and> used s (a div 4096)"
    and "\<And>cpu cpu' a. a \<in> set (frame_magazine s cpu) \<Longrightarrow> a \<in> set (frame_magazine s cpu') \<Longrightarrow> cpu = cpu'"
  shows "frame_inv s"
  using assms unfolding frame_inv_def by blast

lemma frame_invD:
  assumes "frame_inv s"
  shows "88 \<le> w \<Longrightarrow> w < next_free s \<Longrightarrow> frame_bitmap s w = 0xFFFFFFFF"
    and "distinct (frame_magazine s cpu)" "length (frame_magazine s cpu) \<le> 16"
    and "a \<in> set (frame_magazine s cpu) \<Longrightarrow> pool_addr a"
    and "a \<in> set (frame_magazine s cpu) \<Longrightarrow> used s (a div 4096)"
    and "a \<in> set (frame_magazine s cpu) \<Longrightarrow> a \<in> set (frame_magazine s cpu') \<Longrightarrow> cpu = cpu'"
  using assms unfolding frame_inv_def by blast+

lemma in_mag_update:
  assumes "frame_magazine s' = (frame_magazine s)(cpu := m)"
  shows "in_mag s' a \<longleftrightarrow> a \<in> set m \<or> (\<exists>c. c \<noteq> cpu \<and> a \<in> set (frame_magazine s c))"
  unfolding in_mag_def assms by (metis fun_upd_other fun_upd_same)

lemma in_mag_split:
  "in_mag s a \<longleftrightarrow> a \<in> set (frame_magazine s cpu) \<or> (\<exists>c. c \<noteq> cpu \<and> a \<in> set (frame_magazine s c))"
  unfolding in_mag_def by metis

lemma bit_word_bound: "bit (w :: u32) j \<Longrightarrow> j < 32"
  using bit_imp_le_length by fastforce

lemma bit_set_bit: "j < 32 \<Longrightarrow> bit ((w :: u32) OR push_bit j 1) k \<longleftrightarrow> bit w k \<or> k = j"
  by (auto simp: bit_or_iff bit_exp_iff possible_bit_word)

lemma bit_clear_bit: "j < 32 \<Longrightarrow> bit ((w :: u32) AND NOT (push_bit j 1)) k \<longleftrightarrow> bit w k \<and> k \<noteq> j"
  using bit_word_bound by (auto simp: bit_and_iff bit_not_iff bit_exp_iff possible_bit_word)

lemma div_mod_eq_iff: "f div 32 = g div 32 \<and> f mod 32 = g mod 32 \<longleftrightarrow> f = (g :: nat)"
  by (metis div_mult_mod_eq)

lemma mark_used_used: "used (frame_alloc_mark_used s addr) f \<longleftrightarrow> used s f \<or> f = addr div 4096"
proof -
  let ?g = "addr div 4096"
  show ?thesis
    using div_mod_eq_iff[of f ?g] bit_set_bit[of "?g mod 32"]
    by (auto simp: used_def frame_alloc_mark_used_def Let_def kernel_const)
qed

lemma clear_used: "used (frame_clear s addr) f \<longleftrightarrow> used s f \<and> f \<noteq> addr div 4096"
proof -
  let ?g = "addr div 4096"
  show ?thesis
    using div_mod_eq_iff[of f ?g] bit_clear_bit[of "?g mod 32"]
    by (auto simp: used_def frame_clear_def Let_def kernel_const)
qed

lemma word_full_iff: "(w :: u32) = 0xFFFFFFFF \<longleftrightarrow> (\<forall>j < 32. bit w j)"
proof -
  have "(0xFFFFFFFF :: u32) = -1" by simp
  moreover have "w = -1 \<longleftrightarrow> (\<forall>j < 32. bit w j)"
    by (auto simp: bit_eq_iff possible_bit_word)
  ultimately show ?thesis by (simp only:)
qed


section \<open>Taking frames from the bitmap\<close>

definition grabbed :: "frames \<Rightarrow> nat list \<Rightarrow> frames \<Rightarrow> bool" where
  "grabbed s new s' \<longleftrightarrow> distinct new \<and>
     (\<forall>a \<in> set new. pool_addr a \<and> \<not> used s (a div 4096)) \<and>
     (\<forall>f. used s' f \<longleftrightarrow> used s f \<or> f * 4096 \<in> set new) \<and>
     (\<forall>f. frame_refcount s' f = (if f * 4096 \<in> set new then 1 else frame_refcount s f)) \<and>
     frame_magazine s' = frame_magazine s"

lemma grabbed_refl: "grabbed s [] s"
  by (simp add: grabbed_def)

lemma grabbed_trans:
  assumes "grabbed s xs s1" "grabbed s1 ys s2"
  shows "grabbed s (xs @ ys) s2"
proof -
  have "a div 4096 * 4096 = a" if "a \<in> set xs \<union> set ys" for a
    using that assms by (auto simp: grabbed_def pool_addr_def)
  then have "set xs \<inter> set ys = {}" using assms by (fastforce simp: grabbed_def)
  then show ?thesis using assms by (auto simp: grabbed_def)
qed

definition take_frame :: "frames \<Rightarrow> nat \<Rightarrow> nat \<Rightarrow> frames" where
  "take_frame s i addr =
     set_refcount ((frame_alloc_mark_used s addr)\<lparr>next_free := i\<rparr>) (addr div PAGE_SIZE_CONST) 1"

lemma frame_upd_simps [simp]:
  "frame_bitmap (set_refcount s f r) = frame_bitmap s"
  "next_free (set_refcount s f r) = next_free s"
  "frame_magazine (set_refcount s f r) = frame_magazine s"
  "next_free (frame_alloc_mark_used s a) = next_free s"
  "frame_refcount (frame_alloc_mark_used s a) = frame_refcount s"
  "frame_magazine (frame_alloc_mark_used s a) = frame_magazine s"
  by (simp_all add: set_refcount_def frame_alloc_mark_used_def Let_def)

lemma used_upd [simp]:
  "used (set_refcount s f r) = used s" "used (s\<lparr>next_free := n\<rparr>) = used s"
  "used (set_magazine s c m) = used s" "used (s\<lparr>frame_refcount := rc\<rparr>) = used s"
  by (auto simp: used_def set_magazine_def fun_eq_iff)

lemma take_frame_grabbed:
  assumes "\<not> used s (i * 32 + j)" "88 \<le> i" "i < 256" "j < 32"
  shows "grabbed s [(i * 32 + j) * 4096] (take_frame s i ((i * 32 + j) * 4096))"
    "next_free (take_frame s i a) = i"
proof -
  define f where "f = i * 32 + j"
  then have "f < 8192" "2816 \<le> f" "\<not> used s f" using assms by auto
  then have "grabbed s [f * 4096] (take_frame s i (f * 4096))"
    by (auto simp: grabbed_def take_frame_def mark_used_used set_refcount_def kernel_const pool_addr_def)
  then show "grabbed s [(i * 32 + j) * 4096] (take_frame s i ((i * 32 + j) * 4096))"
    by (simp only: f_def)
  show "next_free (take_frame s i a) = i" by (simp add: take_frame_def)
qed

lemma used_word: "j < 32 \<Longrightarrow> used s (i * 32 + j) \<longleftrightarrow> bit (frame_bitmap s i) j"
  by (simp add: used_def)

lemma scan_bits_spec:
  assumes "scan_bits want i js s out = (s', out', g)"
    and "88 \<le> i" "i < 256" "\<forall>j \<in> set js. j < 32" "length out \<le> want"
  shows "\<not> g \<and> length out' \<le> want \<and> next_free s' \<in> {next_free s, i} \<and>
    (\<exists>new. out' = out @ new \<and> grabbed s new s') \<and>
    (length out' < want \<longrightarrow> (\<forall>j \<in> set js. used s' (i * 32 + j)))"
  using assms
proof (induction js arbitrary: s out)
  case Nil
  then show ?case using grabbed_refl by auto
next
  case (Cons j js)
  let ?a = "(i * 32 + j) * 4096"
  have j: "j < 32" using Cons.prems by simp
  have lt: "\<not> IDENTITY_MAP_END \<le> ?a" using Cons.prems(3) j by (simp add: kernel_const)
  consider (stop) "want \<le> length out" | (take) "length out < want" "\<not> used s (i * 32 + j)"
    | (skip) "length out < want" "used s (i * 32 + j)" by linarith
  then show ?case
  proof cases
    case stop
    then show ?thesis using Cons.prems grabbed_refl by auto
  next
    case take
    note tf = take_frame_grabbed[OF take(2) Cons.prems(2,3) j]
    have eq: "scan_bits want i js (take_frame s i ?a) (out @ [?a]) = (s', out', g)"
      using Cons.prems(1) take lt used_word[OF j, of s i]
      by (simp add: take_frame_def Let_def PAGE_SIZE_CONST_def)
    have ih: "\<not> g \<and> length out' \<le> want \<and> next_free s' \<in> {next_free (take_frame s i ?a), i} \<and>
      (\<exists>new. out' = (out @ [?a]) @ new \<and> grabbed (take_frame s i ?a) new s') \<and>
      (length out' < want \<longrightarrow> (\<forall>j \<in> set js. used s' (i * 32 + j)))"
      by (rule Cons.IH[OF eq]) (use Cons.prems take in auto)
    then obtain new where new: "out' = (out @ [?a]) @ new" "grabbed (take_frame s i ?a) new s'" by blast
    from grabbed_trans[OF tf(1) new(2)] have "grabbed s (?a # new) s'" by simp
    moreover from this have "used s' (i * 32 + j)" by (auto simp: grabbed_def)
    ultimately show ?thesis using ih new tf(2) by auto
  next
    case skip
    have eq: "scan_bits want i js s out = (s', out', g)"
      using Cons.prems(1) skip used_word[OF j, of s i] by simp
    have ih: "\<not> g \<and> length out' \<le> want \<and> next_free s' \<in> {next_free s, i} \<and>
      (\<exists>new. out' = out @ new \<and> grabbed s new s') \<and>
      (length out' < want \<longrightarrow> (\<forall>j \<in> set js. used s' (i * 32 + j)))"
      by (rule Cons.IH[OF eq]) (use Cons.prems in auto)
    then show ?thesis using skip by (auto simp: grabbed_def)
  qed
qed

definition full_word :: "frames \<Rightarrow> nat \<Rightarrow> bool" where
  "full_word s w \<longleftrightarrow> frame_bitmap s w = 0xFFFFFFFF"

lemma full_word_used: "full_word s w \<longleftrightarrow> (\<forall>j < 32. used s (w * 32 + j))"
  by (simp add: full_word_def word_full_iff used_word)

lemma grabbed_full: "grabbed s new s' \<Longrightarrow> full_word s w \<Longrightarrow> full_word s' w"
  by (auto simp: full_word_used grabbed_def)

lemma scan_words_spec:
  assumes "scan_words want [a..<b] s out = (s', out')"
    and "88 \<le> a" "b \<le> 256" "length out \<le> want" "next_free s \<le> a"
    and "\<forall>w. 88 \<le> w \<and> w < a \<longrightarrow> full_word s w"
  shows "length out' \<le> want \<and> (\<exists>new. out' = out @ new \<and> grabbed s new s') \<and>
    (\<forall>w. 88 \<le> w \<and> w < next_free s' \<longrightarrow> full_word s' w) \<and>
    (length out' < want \<longrightarrow> (\<forall>w. 88 \<le> w \<and> w < b \<longrightarrow> full_word s' w))"
  using assms
proof (induction "b - a" arbitrary: a s out)
  case 0
  then show ?case using grabbed_refl by auto
next
  case (Suc n)
  then have ab: "[a..<b] = a # [Suc a..<b]" "a < b" by (auto simp: upt_conv_Cons)
  consider (stop) "want \<le> length out" | (full) "length out < want" "full_word s a"
    | (scan) "length out < want" "\<not> full_word s a" by linarith
  then show ?case
  proof cases
    case stop
    then show ?thesis using Suc.prems ab grabbed_refl by auto
  next
    case full
    have eq: "scan_words want [Suc a..<b] s out = (s', out')"
      using Suc.prems(1) full ab by (simp add: full_word_def)
    show ?thesis
      by (rule Suc.hyps(1)[OF _ eq]) (use Suc.prems Suc.hyps(2) full less_Suc_eq in auto)
  next
    case scan
    obtain s1 out1 g where sb: "scan_bits want a [0..<32] s out = (s1, out1, g)" by (metis prod_cases3)
    have sp: "\<not> g \<and> length out1 \<le> want \<and> next_free s1 \<in> {next_free s, a} \<and>
      (\<exists>new. out1 = out @ new \<and> grabbed s new s1) \<and>
      (length out1 < want \<longrightarrow> (\<forall>j \<in> set [0..<32]. used s1 (a * 32 + j)))"
      by (rule scan_bits_spec[OF sb]) (use Suc.prems ab scan in auto)
    then obtain new1 where new1: "out1 = out @ new1" "grabbed s new1 s1" by blast
    have eq: "scan_words want [Suc a..<b] s1 out1 = (s', out')"
      using Suc.prems(1) scan ab sb sp by (simp add: full_word_def)
    have fl: "\<forall>w. 88 \<le> w \<and> w < a \<longrightarrow> full_word s1 w"
      using Suc.prems(6) grabbed_full[OF new1(2)] by blast
    show ?thesis
    proof (cases "length out1 < want")
      case True
      then have "full_word s1 a" using sp by (simp add: full_word_used)
      then have f1: "\<forall>w. 88 \<le> w \<and> w < Suc a \<longrightarrow> full_word s1 w" using fl less_Suc_eq by auto
      have rest: "length out' \<le> want \<and> (\<exists>new. out' = out1 @ new \<and> grabbed s1 new s') \<and>
        (\<forall>w. 88 \<le> w \<and> w < next_free s' \<longrightarrow> full_word s' w) \<and>
        (length out' < want \<longrightarrow> (\<forall>w. 88 \<le> w \<and> w < b \<longrightarrow> full_word s' w))"
        by (rule Suc.hyps(1)[OF _ eq]) (use Suc.prems Suc.hyps(2) sp f1 in auto)
      then obtain new2 where "out' = out1 @ new2" "grabbed s1 new2 s'" by blast
      then have "out' = out @ (new1 @ new2)" "grabbed s (new1 @ new2) s'"
        using new1 grabbed_trans by simp_all
      then show ?thesis using rest by blast
    next
      case False
      then have "s' = s1" "out' = out1" using eq ab by (cases "[Suc a..<b]"; simp)+
      then show ?thesis using False sp new1 fl Suc.prems(5) by auto
    qed
  qed
qed


section \<open>Allocation\<close>

lemma frame_inv_words: "frame_inv s \<Longrightarrow> 88 \<le> w \<Longrightarrow> w < next_free s \<Longrightarrow> full_word s w"
  by (simp add: frame_inv_def full_word_def)

lemma alloc_frames_spec:
  assumes "frame_inv s" "alloc_frames_locked s want = (s', out)"
  shows "length out \<le> want \<and> grabbed s out s' \<and>
    (\<forall>w. 88 \<le> w \<and> w < next_free s' \<longrightarrow> full_word s' w) \<and>
    (length out < want \<longrightarrow> (\<forall>w. 88 \<le> w \<and> w < 256 \<longrightarrow> full_word s' w))"
proof -
  define a where "a = max 88 (next_free s)"
  have c: "IDENTITY_MAP_END div PAGE_SIZE_CONST div 32 = 256" "FRAME_ALLOC_FIRST_BITMAP_IDX = 88"
    "BITMAP_SIZE = 512" by (simp_all add: kernel_const)
  have "(if next_free s < 88 then 88 else next_free s) = a" by (simp add: a_def)
  then have eq: "scan_words want [a..<256] s [] = (s', out)"
    using assms(2) by (simp add: alloc_frames_locked_def c del: upt_rec_numeral scan_words.simps cong: if_cong)
  show ?thesis
  proof (cases "a \<le> 256")
    case True
    have "length out \<le> want \<and> (\<exists>new. out = [] @ new \<and> grabbed s new s') \<and>
      (\<forall>w. 88 \<le> w \<and> w < next_free s' \<longrightarrow> full_word s' w) \<and>
      (length out < want \<longrightarrow> (\<forall>w. 88 \<le> w \<and> w < 256 \<longrightarrow> full_word s' w))"
      by (rule scan_words_spec[OF eq]) (use frame_inv_words[OF assms(1)] in \<open>auto simp: a_def\<close>)
    then show ?thesis by simp
  next
    case False
    then have "s' = s" "out = []" using eq by simp_all
    moreover have "\<forall>w. 88 \<le> w \<and> w < 256 \<longrightarrow> full_word s w"
      using False frame_inv_words[OF assms(1)] by (auto simp: a_def)
    ultimately show ?thesis using grabbed_refl frame_inv_words[OF assms(1)] by simp
  qed
qed

lemma pool_addr_mult: "pool_addr a \<Longrightarrow> a div 4096 * 4096 = a"
  by (auto simp: pool_addr_def)

lemma pool_addr_count: "pool_addr a \<Longrightarrow> a div 4096 < FRAME_COUNT"
  by (auto simp: pool_addr_def kernel_const)

lemma frame_mag_inv:
  assumes "frame_inv s" "a \<in> set (frame_magazine s cpu)"
  shows "pool_addr a" "used s (a div 4096)" "in_mag s a"
  using frame_invD(4,5)[OF assms] assms(2) by (auto simp: in_mag_def)

text \<open>The whole contract of one allocation.\<close>

definition alloc_contract :: "frames \<Rightarrow> frames \<Rightarrow> nat \<Rightarrow> bool" where
  "alloc_contract s s' addr \<longleftrightarrow> frame_inv s' \<and> pool_addr addr \<and> \<not> owned s addr \<and> owned s' addr \<and>
     frame_refcount s' (addr div 4096) = 1 \<and>
     (\<forall>a. 4096 dvd a \<and> a \<noteq> addr \<longrightarrow> owned s' a = owned s a) \<and>
     (\<forall>a. owned s a \<and> 4096 dvd a \<longrightarrow> frame_refcount s' (a div 4096) = frame_refcount s (a div 4096))"

lemma allocate_from_magazine:
  assumes "frame_inv s" "frame_magazine s cpu = addr # rest"
    and s': "s' = set_refcount (set_magazine s cpu rest) (addr div PAGE_SIZE_CONST) 1"
  shows "alloc_contract s s' addr"
proof -
  have m: "pool_addr addr" "used s (addr div 4096)" "in_mag s addr"
    using frame_mag_inv[OF assms(1), of addr cpu] assms(2) by auto
  have mag': "frame_magazine s' = (frame_magazine s)(cpu := rest)"
    by (simp add: s' set_magazine_def)
  have in': "in_mag s' a \<longleftrightarrow> in_mag s a \<and> a \<noteq> addr" for a
  proof -
    have "addr \<notin> set rest" using frame_invD(2)[OF assms(1), of cpu] assms(2) by simp
    moreover have "addr \<notin> set (frame_magazine s c)" if "c \<noteq> cpu" for c
      using frame_invD(6)[OF assms(1), of addr cpu c] assms(2) that by auto
    ultimately show ?thesis
      using in_mag_update[OF mag', of a] in_mag_split[of s a cpu] assms(2) by auto
  qed
  have u': "used s' = used s" by (simp add: s')
  have rc': "frame_refcount s' = (frame_refcount s)(addr div 4096 := 1)"
    using pool_addr_count[OF m(1)] by (simp add: s' set_refcount_def set_magazine_def PAGE_SIZE_CONST_def)
  have sub: "set (frame_magazine s' c) \<subseteq> set (frame_magazine s c)" for c
    using assms(2) mag' by auto
  have "frame_inv s'"
  proof (rule frame_invI)
    show "frame_bitmap s' w = 0xFFFFFFFF" if "88 \<le> w" "w < next_free s'" for w
      using frame_invD(1)[OF assms(1)] that by (simp add: s' set_magazine_def)
    show "distinct (frame_magazine s' c)" "length (frame_magazine s' c) \<le> 16" for c
      using frame_invD(2,3)[OF assms(1), of c] assms(2) mag' by auto
    show "pool_addr a \<and> used s' (a div 4096)" if "a \<in> set (frame_magazine s' c)" for c a
      using frame_invD(4,5)[OF assms(1), of a c] that sub u' by auto
    show "c = c'" if "a \<in> set (frame_magazine s' c)" "a \<in> set (frame_magazine s' c')" for c c' a
      using frame_invD(6)[OF assms(1), of a c c'] that sub by blast
  qed
  moreover have "a div 4096 \<noteq> addr div 4096" if "4096 dvd a" "a \<noteq> addr" for a
    using that m(1) by (auto simp: pool_addr_def)
  ultimately show ?thesis
    using m in' u' rc' by (auto simp: alloc_contract_def owned_def)
qed


lemma allocate_by_refill:
  assumes "frame_inv s" "frame_magazine s cpu = []"
    and al: "alloc_frames_locked s 16 = (s1, addr # batch)"
    and s': "s' = set_magazine s1 cpu (rev batch)"
  shows "alloc_contract s s' addr"
proof -
  have g: "grabbed s (addr # batch) s1" and len: "length batch < 16"
    and words: "\<forall>w. 88 \<le> w \<and> w < next_free s1 \<longrightarrow> full_word s1 w"
    using alloc_frames_spec[OF assms(1) al] by auto
  have mag': "frame_magazine s' = (frame_magazine s)(cpu := rev batch)"
    using g by (simp add: s' set_magazine_def grabbed_def)
  have new: "pool_addr a" "\<not> used s (a div 4096)" if "a = addr \<or> a \<in> set batch" for a
    using g that by (auto simp: grabbed_def)
  have notmag: "a \<notin> set (frame_magazine s c)" if "a = addr \<or> a \<in> set batch" for a c
    using new[OF that] frame_invD(5)[OF assms(1), of a c] by blast
  have in': "in_mag s' a \<longleftrightarrow> in_mag s a \<or> a \<in> set batch" for a
    using in_mag_update[OF mag', of a] in_mag_split[of s a cpu] assms(2) by auto
  have u': "used s' f \<longleftrightarrow> used s f \<or> f * 4096 = addr \<or> f * 4096 \<in> set batch" for f
    using g by (simp add: s' grabbed_def eq_commute)
  have dist: "addr \<notin> set batch" "distinct batch" using g by (auto simp: grabbed_def)
  have "frame_inv s'"
  proof (rule frame_invI)
    show "frame_bitmap s' w = 0xFFFFFFFF" if "88 \<le> w" "w < next_free s'" for w
      using words that by (simp add: s' set_magazine_def full_word_def)
    show "distinct (frame_magazine s' c)" "length (frame_magazine s' c) \<le> 16" for c
      using frame_invD(2,3)[OF assms(1), of c] len dist mag' by auto
    show "pool_addr a \<and> used s' (a div 4096)" if "a \<in> set (frame_magazine s' c)" for c a
    proof (cases "c = cpu")
      case True
      then have "a \<in> set batch" using that mag' by simp
      then show ?thesis using new u' pool_addr_mult by auto
    next
      case False
      then show ?thesis using frame_invD(4,5)[OF assms(1), of a c] that mag' u' by auto
    qed
    show "c = c'" if "a \<in> set (frame_magazine s' c)" "a \<in> set (frame_magazine s' c')" for c c' a
      using frame_invD(6)[OF assms(1), of a c c'] that notmag[of a] mag' by (auto split: if_splits)
  qed
  moreover have "owned s' a = owned s a" if "4096 dvd a" "a \<noteq> addr" for a
    using that new[of a] notmag[of a] u'[of "a div 4096"] in'[of a] by (auto simp: owned_def)
  moreover have "frame_refcount s' (a div 4096) = frame_refcount s (a div 4096)" if "owned s a" "4096 dvd a" for a
    using that g new[of a] by (auto simp: s' grabbed_def owned_def set_magazine_def)
  moreover have "frame_refcount s' (addr div 4096) = 1"
    using g pool_addr_mult[OF new(1)[of addr]] by (simp add: s' grabbed_def set_magazine_def)
  moreover have "owned s' addr"
    using u' in' dist notmag[of addr] pool_addr_mult[OF new(1)[of addr]]
    by (auto simp: owned_def in_mag_def)
  ultimately show ?thesis using new[of addr] by (simp add: alloc_contract_def owned_def)
qed

lemma allocate_frame_Some:
  assumes "frame_inv s" "allocate_frame s cpu = (s', Some addr)"
  shows "alloc_contract s s' addr"
proof (cases "frame_magazine s cpu")
  case Nil
  then obtain s1 batch where "alloc_frames_locked s 16 = (s1, addr # batch)"
    "s' = set_magazine s1 cpu (rev batch)"
    using assms(2) by (auto simp: allocate_frame_def FRAME_MAGAZINE_SIZE_def split: prod.splits list.splits)
  then show ?thesis using allocate_by_refill[OF assms(1) Nil] by blast
next
  case (Cons a rest)
  then show ?thesis using assms allocate_from_magazine[OF assms(1), of cpu addr rest]
    by (auto simp: allocate_frame_def)
qed

lemma allocate_frame_None:
  assumes "frame_inv s" "allocate_frame s cpu = (s', None)" "pool_addr a"
  shows "used s (a div 4096)" "frame_inv s'"
proof -
  have m: "frame_magazine s cpu = []" and al: "alloc_frames_locked s 16 = (s', [])"
    using assms(2) by (auto simp: allocate_frame_def FRAME_MAGAZINE_SIZE_def split: prod.splits list.splits)
  note sp = alloc_frames_spec[OF assms(1) al]
  have "88 \<le> a div 4096 div 32" "a div 4096 div 32 < 256"
    using assms(3) by (auto simp: pool_addr_def kernel_const)
  then have "full_word s' (a div 4096 div 32)" using sp by simp
  then have "used s' (a div 4096)"
    unfolding full_word_used by (metis div_mult_mod_eq mod_less_divisor zero_less_numeral)
  then show "used s (a div 4096)" using sp by (simp add: grabbed_def)
  show "frame_inv s'"
  proof (rule frame_invI)
    show "frame_bitmap s' w = 0xFFFFFFFF" if "88 \<le> w" "w < next_free s'" for w
      using sp that by (simp add: full_word_def)
  qed (use sp frame_invD[OF assms(1)] in \<open>auto simp: grabbed_def\<close>)
qed

section \<open>Release\<close>

lemma clear_and_lower_simps [simp]:
  "frame_refcount (clear_and_lower a s) = frame_refcount s"
  "frame_magazine (clear_and_lower a s) = frame_magazine s"
  by (simp_all add: clear_and_lower_def lower_next_free_def frame_clear_def Let_def)

lemma clear_and_lower_used: "used (clear_and_lower a s) f \<longleftrightarrow> used s f \<and> f \<noteq> a div 4096"
  by (auto simp: clear_and_lower_def lower_next_free_def Let_def clear_used)

lemma clear_and_lower_words:
  assumes "pool_addr a" "\<forall>w. 88 \<le> w \<and> w < next_free s \<longrightarrow> full_word s w"
  shows "\<forall>w. 88 \<le> w \<and> w < next_free (clear_and_lower a s) \<longrightarrow> full_word (clear_and_lower a s) w"
proof (intro allI impI)
  fix w assume w: "88 \<le> w \<and> w < next_free (clear_and_lower a s)"
  let ?i = "a div 4096 div 32"
  have i: "88 \<le> ?i" using assms(1) by (auto simp: pool_addr_def kernel_const)
  have "next_free (frame_clear s a) = next_free s" by (simp add: frame_clear_def Let_def)
  then have "w < next_free s" "w \<noteq> ?i"
    using w i by (auto simp: clear_and_lower_def lower_next_free_def Let_def kernel_const split: if_splits)
  then have "frame_bitmap (clear_and_lower a s) w = frame_bitmap s w"
    by (simp add: clear_and_lower_def lower_next_free_def frame_clear_def Let_def kernel_const)
  then show "full_word (clear_and_lower a s) w"
    using assms(2) w \<open>w < next_free s\<close> by (simp add: full_word_def)
qed

lemma fold_clear:
  assumes "\<forall>a \<in> set xs. pool_addr a" "\<forall>w. 88 \<le> w \<and> w < next_free s \<longrightarrow> full_word s w"
    and "s' = fold clear_and_lower xs s"
  shows "frame_refcount s' = frame_refcount s \<and> frame_magazine s' = frame_magazine s \<and>
    (\<forall>f. used s' f \<longleftrightarrow> used s f \<and> (\<forall>a \<in> set xs. f \<noteq> a div 4096)) \<and>
    (\<forall>w. 88 \<le> w \<and> w < next_free s' \<longrightarrow> full_word s' w)"
  using assms
proof (induction xs arbitrary: s)
  case (Cons a xs)
  have "frame_refcount s' = frame_refcount (clear_and_lower a s) \<and>
    frame_magazine s' = frame_magazine (clear_and_lower a s) \<and>
    (\<forall>f. used s' f \<longleftrightarrow> used (clear_and_lower a s) f \<and> (\<forall>a \<in> set xs. f \<noteq> a div 4096)) \<and>
    (\<forall>w. 88 \<le> w \<and> w < next_free s' \<longrightarrow> full_word s' w)"
    by (rule Cons.IH) (use Cons.prems clear_and_lower_words[of a s] in auto)
  then show ?case by (auto simp: clear_and_lower_used)
qed simp


text \<open>The contract of dropping the last reference: the frame leaves its owner, nothing else moves.\<close>

definition release_contract :: "frames \<Rightarrow> frames \<Rightarrow> nat \<Rightarrow> bool" where
  "release_contract s s' addr \<longleftrightarrow> frame_inv s' \<and> \<not> owned s' addr \<and>
     (\<forall>a. 4096 dvd a \<and> a \<noteq> addr \<longrightarrow> owned s' a = owned s a) \<and>
     frame_refcount s' = frame_refcount s"

lemma release_to_magazine:
  assumes "frame_inv s" "pool_addr addr" "owned s addr" "length (frame_magazine s cpu) < 16"
    and s': "s' = set_magazine s cpu (addr # frame_magazine s cpu)"
  shows "release_contract s s' addr"
proof -
  have mag': "frame_magazine s' = (frame_magazine s)(cpu := addr # frame_magazine s cpu)"
    by (simp add: s' set_magazine_def)
  have in': "in_mag s' a \<longleftrightarrow> in_mag s a \<or> a = addr" for a
    using in_mag_update[OF mag', of a] in_mag_split[of s a cpu] by auto
  have u': "used s' = used s" by (simp add: s')
  have n: "addr \<notin> set (frame_magazine s c)" for c
    using assms(3) by (auto simp: owned_def in_mag_def)
  have "frame_inv s'"
  proof (rule frame_invI)
    show "frame_bitmap s' w = 0xFFFFFFFF" if "88 \<le> w" "w < next_free s'" for w
      using frame_invD(1)[OF assms(1)] that by (simp add: s' set_magazine_def)
    show "distinct (frame_magazine s' c)" "length (frame_magazine s' c) \<le> 16" for c
      using frame_invD(2,3)[OF assms(1), of c] assms(4) n mag' by auto
    show "pool_addr a \<and> used s' (a div 4096)" if "a \<in> set (frame_magazine s' c)" for c a
      using frame_invD(4,5)[OF assms(1), of a c] that assms(2,3) u' mag'
      by (auto simp: owned_def split: if_splits)
    show "c = c'" if "a \<in> set (frame_magazine s' c)" "a \<in> set (frame_magazine s' c')" for c c' a
      using frame_invD(6)[OF assms(1), of a c c'] that n mag' by (auto split: if_splits)
  qed
  then show ?thesis using in' u' by (auto simp: release_contract_def owned_def s' set_magazine_def)
qed

lemma release_by_flush:
  assumes "frame_inv s" "pool_addr addr" "owned s addr"
    and s': "s' = clear_and_lower addr
        (set_magazine (fold clear_and_lower (take 8 (frame_magazine s cpu)) s) cpu (drop 8 (frame_magazine s cpu)))"
  shows "release_contract s s' addr"
proof -
  let ?m = "frame_magazine s cpu" and ?xs = "take 8 (frame_magazine s cpu)"
  define s1 where "s1 = fold clear_and_lower ?xs s"
  have xs: "\<forall>a \<in> set ?xs. pool_addr a" using frame_invD(4)[OF assms(1)] by (meson in_set_takeD)
  have words: "\<forall>w. 88 \<le> w \<and> w < next_free s \<longrightarrow> full_word s w"
    using frame_inv_words[OF assms(1)] by blast
  note f = fold_clear[OF xs words s1_def]
  have words1: "\<forall>w. 88 \<le> w \<and> w < next_free (set_magazine s1 cpu (drop 8 ?m)) \<longrightarrow>
      full_word (set_magazine s1 cpu (drop 8 ?m)) w"
    using f by (simp add: set_magazine_def full_word_def)
  have mag': "frame_magazine s' = (frame_magazine s)(cpu := drop 8 ?m)"
    using f by (simp add: s' s1_def set_magazine_def)
  have u': "used s' g \<longleftrightarrow> used s g \<and> (\<forall>a \<in> set ?xs. g \<noteq> a div 4096) \<and> g \<noteq> addr div 4096" for g
    using f by (auto simp: s' clear_and_lower_used s1_def)
  have "distinct (?xs @ drop 8 ?m)" "set ?m = set (?xs @ drop 8 ?m)"
    using frame_invD(2)[OF assms(1), of cpu] by simp_all
  then have part: "set ?m = set ?xs \<union> set (drop 8 ?m)" "set ?xs \<inter> set (drop 8 ?m) = {}"
    by (simp_all only: set_append distinct_append)
  have mc: "frame_magazine s' cpu = drop 8 ?m" "\<And>c. c \<noteq> cpu \<Longrightarrow> frame_magazine s' c = frame_magazine s c"
    using mag' by simp_all
  have sub: "set (frame_magazine s' c) \<subseteq> set (frame_magazine s c)" for c
    by (cases "c = cpu") (simp_all add: mc set_drop_subset)
  have only: "a \<notin> set (frame_magazine s' c)" if a: "a \<in> set ?xs" for a c
  proof
    assume b: "a \<in> set (frame_magazine s' c)"
    have "a \<in> set ?m" using a by (rule in_set_takeD)
    moreover have "a \<in> set (frame_magazine s c)" using b sub by (rule rev_subsetD)
    ultimately have "cpu = c" by (rule frame_invD(6)[OF assms(1)])
    then have "a \<in> set (drop 8 ?m)" using b mc(1) by simp
    then show False using a part(2) by (simp add: disjoint_iff)
  qed
  have in': "in_mag s a \<longleftrightarrow> in_mag s' a \<or> a \<in> set ?xs" for a
    using in_mag_update[OF mag', of a] in_mag_split[of s a cpu] part by blast
  have n: "\<not> in_mag s addr" using assms(3) by (simp add: owned_def)
  have dif: "a div 4096 \<noteq> b div 4096" if "pool_addr b" "4096 dvd a" "a \<noteq> b" for a b
    using that by (auto simp: pool_addr_def)
  have al: "4096 dvd a" if "pool_addr a" for a using that by (simp add: pool_addr_def)
  have keep: "used s' (a div 4096) = used s (a div 4096)" if "4096 dvd a" "a \<noteq> addr" "a \<notin> set ?xs" for a
  proof -
    have "a div 4096 \<noteq> b div 4096" if "b \<in> set ?xs" for b
      using dif[of b a] xs that \<open>4096 dvd a\<close> \<open>a \<notin> set ?xs\<close> by blast
    then show ?thesis using u'[of "a div 4096"] dif[OF assms(2) that(1,2)] by blast
  qed
  have "frame_inv s'"
  proof (rule frame_invI)
    show "frame_bitmap s' w = 0xFFFFFFFF" if "88 \<le> w" "w < next_free s'" for w
      using clear_and_lower_words[OF assms(2) words1] that by (simp add: s' s1_def full_word_def)
    show "distinct (frame_magazine s' c)" "length (frame_magazine s' c) \<le> 16" for c
      using frame_invD(2,3)[OF assms(1), of c] mc by (cases "c = cpu"; simp)+
    show "pool_addr a \<and> used s' (a div 4096)" if a: "a \<in> set (frame_magazine s' c)" for c a
    proof -
      have a0: "a \<in> set (frame_magazine s c)" using a sub by blast
      then have p: "pool_addr a" "used s (a div 4096)" using frame_invD(4,5)[OF assms(1)] by blast+
      have "a \<noteq> addr" "a \<notin> set ?xs" using a0 n a only unfolding in_mag_def by blast+
      then show ?thesis using p keep[OF al[OF p(1)]] by simp
    qed
    show "c = c'" if "a \<in> set (frame_magazine s' c)" "a \<in> set (frame_magazine s' c')" for c c' a
      using frame_invD(6)[OF assms(1), of a c c'] that sub by blast
  qed
  moreover have "owned s' a = owned s a" if "4096 dvd a" "a \<noteq> addr" for a
    using keep[OF that] in'[of a] u'[of "a div 4096"] unfolding owned_def by blast
  moreover have "frame_refcount s' = frame_refcount s"
    using f by (simp add: s' s1_def set_magazine_def)
  ultimately show ?thesis using u'[of "addr div 4096"] unfolding release_contract_def owned_def by blast
qed

lemma release_frame_spec:
  assumes "frame_inv s" "pool_addr addr" "owned s addr"
  shows "release_contract s (release_frame_to_pool s cpu addr) addr"
proof (cases "length (frame_magazine s cpu) < 16")
  case True
  then show ?thesis using release_to_magazine[OF assms True refl]
    by (simp add: release_frame_to_pool_def FRAME_MAGAZINE_SIZE_def Let_def)
next
  case False
  then show ?thesis using release_by_flush[OF assms refl, of cpu]
    by (simp add: release_frame_to_pool_def FRAME_MAGAZINE_SIZE_def Let_def)
qed


section \<open>Reference counts\<close>

lemma frame_decref_shared:
  assumes "frame_inv s" "pool_addr addr" "1 < frame_refcount s (addr div 4096)"
  shows "frame_inv (frame_decref s cpu addr)" "owned (frame_decref s cpu addr) = owned s"
    "frame_refcount (frame_decref s cpu addr)
       = (frame_refcount s)(addr div 4096 := frame_refcount s (addr div 4096) - 1)"
proof -
  let ?s' = "s\<lparr>frame_refcount := (frame_refcount s)(addr div 4096 := frame_refcount s (addr div 4096) - 1)\<rparr>"
  have "frame_refcount s (addr div 4096) \<noteq> 0" using assms(3) by auto
  then have e: "frame_decref s cpu addr = ?s'"
    using pool_addr_count[OF assms(2)] assms(2,3)
    by (simp add: frame_decref_def Let_def PAGE_SIZE_CONST_def pool_addr_def)
  show "frame_inv (frame_decref s cpu addr)" unfolding e using assms(1) by (simp add: frame_inv_def)
  show "owned (frame_decref s cpu addr) = owned s" unfolding e by (simp add: owned_def in_mag_def fun_eq_iff)
  show "frame_refcount (frame_decref s cpu addr)
       = (frame_refcount s)(addr div 4096 := frame_refcount s (addr div 4096) - 1)" unfolding e by simp
qed

lemma frame_decref_last:
  assumes "frame_inv s" "pool_addr addr" "owned s addr" "frame_refcount s (addr div 4096) = 1"
  shows "release_contract (s\<lparr>frame_refcount := (frame_refcount s)(addr div 4096 := 0)\<rparr>)
     (frame_decref s cpu addr) addr"
proof -
  let ?s = "s\<lparr>frame_refcount := (frame_refcount s)(addr div 4096 := 0)\<rparr>"
  have "frame_decref s cpu addr = release_frame_to_pool ?s cpu addr"
    using pool_addr_count[OF assms(2)] assms(2,4)
    by (simp add: frame_decref_def Let_def PAGE_SIZE_CONST_def pool_addr_def)
  moreover have "frame_inv ?s" "owned ?s addr"
    using assms(1,3) by (simp_all add: frame_inv_def owned_def in_mag_def)
  ultimately show ?thesis using release_frame_spec[OF _ assms(2)] by simp
qed

lemma free_frame_decref: "pool_addr a \<Longrightarrow> free_frame s cpu a = frame_decref s cpu a"
  by (auto simp: free_frame_def pool_addr_def kernel_const)

lemma used_reserve_low:
  "used (frame_alloc_reserve_low s (n * 4096)) f \<longleftrightarrow> used s f \<or> f < n"
proof -
  have "used (fold (\<lambda>f s. frame_alloc_mark_used s (f * 4096)) [0..<n] s) f \<longleftrightarrow> used s f \<or> f < n"
    by (induction n) (auto simp: mark_used_used)
  moreover have "(n * 4096 + 4096 - 1) div 4096 = n" by simp
  ultimately show ?thesis by (simp add: frame_alloc_reserve_low_def PAGE_SIZE_CONST_def)
qed

section \<open>The interface of a frame pool\<close>

fun alloc_seq :: "('s \<Rightarrow> nat \<Rightarrow> 's \<times> nat option) \<Rightarrow> 's \<Rightarrow> nat list \<Rightarrow> 's \<times> nat list" where
  "alloc_seq alloc s [] = (s, [])"
| "alloc_seq alloc s (cpu # cpus) =
     (case alloc s cpu of
        (s', None) \<Rightarrow> alloc_seq alloc s' cpus
      | (s', Some a) \<Rightarrow> (case alloc_seq alloc s' cpus of (s'', as) \<Rightarrow> (s'', a # as)))"

locale frame_pool =
  fixes inv :: "'s \<Rightarrow> bool" and held :: "'s \<Rightarrow> nat \<Rightarrow> bool"
    and alloc :: "'s \<Rightarrow> nat \<Rightarrow> 's \<times> nat option"
  assumes alloc_some: "inv s \<Longrightarrow> alloc s cpu = (s', Some a) \<Longrightarrow>
      inv s' \<and> \<not> held s a \<and> (\<forall>b. held s' b \<longleftrightarrow> held s b \<or> b = a)"
    and alloc_none: "inv s \<Longrightarrow> alloc s cpu = (s', None) \<Longrightarrow> inv s' \<and> held s' = held s"
begin

text \<open>Frames handed out to any interleaving of CPUs never overlap.\<close>

lemma alloc_seq_distinct:
  "inv s \<Longrightarrow> alloc_seq alloc s cpus = (s', as) \<Longrightarrow>
   inv s' \<and> distinct as \<and> (\<forall>a \<in> set as. \<not> held s a) \<and> (\<forall>b. held s' b \<longleftrightarrow> held s b \<or> b \<in> set as)"
proof (induction cpus arbitrary: s as)
  case (Cons cpu cpus)
  obtain s1 r where al: "alloc s cpu = (s1, r)" by fastforce
  show ?case
  proof (cases r)
    case None
    then show ?thesis using Cons.IH[of s1 as] Cons.prems al alloc_none[of s cpu s1] by auto
  next
    case (Some a)
    obtain as1 where sq: "alloc_seq alloc s1 cpus = (s', as1)" "as = a # as1"
      using Cons.prems(2) al Some by (auto split: prod.splits)
    have st: "inv s1 \<and> \<not> held s a \<and> (\<forall>b. held s1 b \<longleftrightarrow> held s b \<or> b = a)"
      using alloc_some[OF Cons.prems(1)] al Some by blast
    then show ?thesis using Cons.IH[OF _ sq(1)] sq(2) by auto
  qed
qed simp

end

text \<open>Only page-aligned addresses of the pool's range are frames.\<close>

definition pool_held :: "frames \<Rightarrow> nat \<Rightarrow> bool" where
  "pool_held s a \<longleftrightarrow> pool_addr a \<and> owned s a"

interpretation fp: frame_pool frame_inv pool_held allocate_frame
proof
  fix s s' :: frames and cpu a
  assume i: "frame_inv s"
  show "frame_inv s' \<and> \<not> pool_held s a \<and> (\<forall>b. pool_held s' b \<longleftrightarrow> pool_held s b \<or> b = a)"
    if "allocate_frame s cpu = (s', Some a)"
    using allocate_frame_Some[OF i that] unfolding alloc_contract_def pool_held_def pool_addr_def by blast
  assume al: "allocate_frame s cpu = (s', None)"
  then have "alloc_frames_locked s 16 = (s', [])"
    by (auto simp: allocate_frame_def FRAME_MAGAZINE_SIZE_def split: prod.splits list.splits)
  from alloc_frames_spec[OF i this] have "grabbed s [] s'" by simp
  then have "pool_held s' = pool_held s"
    by (auto simp: grabbed_def pool_held_def owned_def in_mag_def fun_eq_iff)
  moreover have "frame_inv s'"
    using allocate_frame_None(2)[OF i al, of "0xB00000"] by (simp add: pool_addr_def kernel_const)
  ultimately show "frame_inv s' \<and> pool_held s' = pool_held s" by simp
qed


section \<open>Properties\<close>

text \<open>The frames at boot: everything below the end of the kernel heap is reserved.\<close>

definition frames_boot :: frames where
  "frames_boot = frame_alloc_reserve_low
     \<lparr>frame_bitmap = (\<lambda>_. 0), next_free = 0, frame_refcount = (\<lambda>_. 0), frame_magazine = (\<lambda>_. [])\<rparr> KERNEL_HEAP_END"

lemma reserve_low_fields:
  "next_free (frame_alloc_reserve_low s e) = next_free s"
  "frame_magazine (frame_alloc_reserve_low s e) = frame_magazine s"
  "frame_refcount (frame_alloc_reserve_low s e) = frame_refcount s"
proof -
  have "next_free (fold (\<lambda>f s. frame_alloc_mark_used s (f * PAGE_SIZE_CONST)) xs s) = next_free s \<and>
    frame_magazine (fold (\<lambda>f s. frame_alloc_mark_used s (f * PAGE_SIZE_CONST)) xs s) = frame_magazine s \<and>
    frame_refcount (fold (\<lambda>f s. frame_alloc_mark_used s (f * PAGE_SIZE_CONST)) xs s) = frame_refcount s" for xs
    by (induction xs arbitrary: s) simp_all
  then show "next_free (frame_alloc_reserve_low s e) = next_free s"
    "frame_magazine (frame_alloc_reserve_low s e) = frame_magazine s"
    "frame_refcount (frame_alloc_reserve_low s e) = frame_refcount s"
    by (simp_all add: frame_alloc_reserve_low_def)
qed

lemma frames_boot_inv: "frame_inv frames_boot" "frame_magazine frames_boot cpu = []"
  by (simp_all add: frames_boot_def frame_inv_def reserve_low_fields)

lemma pool_addr_first: "pool_addr KERNEL_HEAP_END"
  by (simp add: pool_addr_def kernel_const)

lemma frames_boot_used: "\<not> used frames_boot (KERNEL_HEAP_END div 4096)"
proof -
  have k: "KERNEL_HEAP_END = 2816 * 4096" by (simp add: KERNEL_HEAP_END_def)
  show ?thesis unfolding frames_boot_def k used_reserve_low by (simp add: used_def)
qed

lemma frames_boot_alloc: obtains s' addr where "allocate_frame frames_boot cpu = (s', Some addr)"
proof -
  obtain s' r where a: "allocate_frame frames_boot cpu = (s', r)" by fastforce
  have "r \<noteq> None"
  proof
    assume "r = None"
    with a have "allocate_frame frames_boot cpu = (s', None)" by simp
    from allocate_frame_None(1)[OF frames_boot_inv(1) this pool_addr_first] frames_boot_used show False by simp
  qed
  then show ?thesis using a that by (cases r) auto
qed



text \<open>
  (frame allocator, liveness).  Allocation fails only when memory is exhausted: as long
  as one frame between the kernel heap and the end of the identity map is free in the
  bitmap, an allocation on any CPU returns a frame.
\<close>
theorem allocate_frame_succeeds:
  assumes "frame_inv s" "pool_addr a" "\<not> used s (a div 4096)"
  shows "\<exists>s' addr. allocate_frame s cpu = (s', Some addr) \<and> pool_addr addr"
proof -
  obtain s' r where al: "allocate_frame s cpu = (s', r)" by fastforce
  then obtain addr where "r = Some addr" using allocate_frame_None(1)[OF assms(1) _ assms(2)] assms(3) by (cases r) auto
  then show ?thesis using allocate_frame_Some[OF assms(1)] al by (auto simp: alloc_contract_def)
qed

theorem allocate_frame_succeeds_witness:
  "\<exists>s' addr. allocate_frame frames_boot 3 = (s', Some addr) \<and> pool_addr addr"
  using allocate_frame_succeeds[OF frames_boot_inv(1) pool_addr_first] frames_boot_used by simp

lemma u16_one: "\<not> 1 < (r :: u16) \<Longrightarrow> r \<noteq> 0 \<Longrightarrow> r = 1"
proof -
  assume "\<not> 1 < r" "r \<noteq> 0"
  then have "unat r = 1" using unat_eq_zero[of r] by (simp add: word_less_nat_alt)
  then show "r = 1" by (metis unat_1 word_unat_eq_iff)
qed

text \<open>
  (frame allocator, functional).  Dropping a reference of a shared frame only lowers its
  count; dropping the last one releases the frame and no other, whether it goes to the
  magazine or half of the magazine is flushed to the bitmap first.
\<close>
theorem frame_decref_releases_last:
  assumes "frame_inv s" "pool_addr addr" "owned s addr" "frame_getref s addr \<noteq> 0"
  shows "frame_inv (frame_decref s cpu addr) \<and>
    frame_getref (frame_decref s cpu addr) addr = frame_getref s addr - 1 \<and>
    (owned (frame_decref s cpu addr) addr \<longleftrightarrow> 1 < frame_getref s addr) \<and>
    (\<forall>a. 4096 dvd a \<and> a \<noteq> addr \<longrightarrow> owned (frame_decref s cpu addr) a = owned s a)"
proof -
  have g: "frame_getref t addr = frame_refcount t (addr div 4096)" for t
    using pool_addr_count[OF assms(2)] by (simp add: frame_getref_def Let_def PAGE_SIZE_CONST_def)
  show ?thesis
  proof (cases "1 < frame_refcount s (addr div 4096)")
    case True
    then show ?thesis using frame_decref_shared[OF assms(1,2) True, of cpu] assms(3) by (simp add: g)
  next
    case False
    then have r: "frame_refcount s (addr div 4096) = 1"
      using u16_one assms(4) unfolding g by blast
    show ?thesis using frame_decref_last[OF assms(1-3) r, of cpu]
      by (simp add: g r release_contract_def owned_def used_def in_mag_def)
  qed
qed

theorem frame_decref_releases_last_witness:
  "\<exists>s addr. owned s addr \<and> \<not> owned (frame_decref s 0 addr) addr"
proof -
  obtain s' addr where a: "allocate_frame frames_boot 0 = (s', Some addr)" by (rule frames_boot_alloc)
  have c: "alloc_contract frames_boot s' addr" by (rule allocate_frame_Some[OF frames_boot_inv(1) a])
  then have g: "frame_getref s' addr = 1"
    using pool_addr_count[of addr] by (simp add: alloc_contract_def frame_getref_def Let_def PAGE_SIZE_CONST_def)
  show ?thesis using frame_decref_releases_last[of s' addr 0] c g by (auto simp: alloc_contract_def)
qed

text \<open>
  (frame allocator, safety).  Allocations made by any interleaving of CPUs, each with
  its own magazine, never hand out the same frame twice nor a frame that was already held.
\<close>
theorem frames_never_shared:
  assumes "frame_inv s" "alloc_seq allocate_frame s cpus = (s', as)"
  shows "distinct as \<and> (\<forall>a \<in> set as. pool_addr a \<and> \<not> owned s a \<and> owned s' a)"
  using fp.alloc_seq_distinct[OF assms] unfolding pool_held_def by blast

theorem frames_never_shared_witness:
  "\<exists>s' as. alloc_seq allocate_frame frames_boot [0, 1, 0] = (s', as) \<and> distinct as"
proof -
  obtain s' as where a: "alloc_seq allocate_frame frames_boot [0, 1, 0] = (s', as)" by fastforce
  from frames_never_shared[OF frames_boot_inv(1) a] a show ?thesis by blast
qed

end
