(* ===== verification/KString.thy ===== *)
theory KString
  imports Prelude
begin

text \<open>
  The freestanding string routines of \<^verbatim>\<open>src/kernel/lib/kstring.c\<close> on byte buffers.
  A buffer is the list of its bytes; reading or writing outside it is \<open>None\<close>.  Shown:
  on NUL-terminated arguments the loops stay inside their buffers and compute the
  operations on strings (\<open>cstr\<close>, \<open>strn\<close>) that the models of the other components use.
\<close>

section \<open>The loops\<close>

text \<open>\<open>kstrlen s\<close> from index \<open>n\<close>.\<close>

fun kstrlen :: "byte list \<Rightarrow> nat option" where
  "kstrlen [] = None"
| "kstrlen (c # s) = (if c = 0 then Some 0 else map_option Suc (kstrlen s))"

definition put_byte :: "byte list \<Rightarrow> nat \<Rightarrow> byte \<Rightarrow> byte list option" where
  "put_byte dst i c = (if i < length dst then Some (dst[i := c]) else None)"

fun kstrcpy :: "byte list \<Rightarrow> nat \<Rightarrow> byte list \<Rightarrow> byte list option" where
  "kstrcpy dst i [] = None"
| "kstrcpy dst i (c # src) =
     (case put_byte dst i c of None \<Rightarrow> None
      | Some dst' \<Rightarrow> if c = 0 then Some dst' else kstrcpy dst' (Suc i) src)"

text \<open>\<open>kstrncpy\<close> with \<open>k\<close> iterations left before the bound \<open>n - 1\<close>.\<close>

fun kstrncpy_from :: "byte list \<Rightarrow> nat \<Rightarrow> byte list \<Rightarrow> nat \<Rightarrow> byte list option" where
  "kstrncpy_from dst i src 0 = put_byte dst i 0"
| "kstrncpy_from dst i [] (Suc k) = None"
| "kstrncpy_from dst i (c # src) (Suc k) =
     (if c = 0 then put_byte dst i 0
      else (case put_byte dst i c of None \<Rightarrow> None
            | Some dst' \<Rightarrow> kstrncpy_from dst' (Suc i) src k))"

definition kstrncpy :: "byte list \<Rightarrow> byte list \<Rightarrow> nat \<Rightarrow> byte list option" where
  "kstrncpy dst src n = (if n = 0 then Some dst else kstrncpy_from dst 0 src (n - 1))"

fun kstrcmp :: "byte list \<Rightarrow> byte list \<Rightarrow> int option" where
  "kstrcmp (a # as) (b # bs) =
     (if a \<noteq> 0 \<and> a = b then kstrcmp as bs else Some (uint a - uint b))"
| "kstrcmp _ _ = None"

fun kstrncmp :: "byte list \<Rightarrow> byte list \<Rightarrow> nat \<Rightarrow> int option" where
  "kstrncmp as bs 0 = Some 0"
| "kstrncmp (a # as) (b # bs) (Suc n) =
     (if a \<noteq> b then Some (uint a - uint b)
      else if a = 0 then Some 0 else kstrncmp as bs n)"
| "kstrncmp _ _ (Suc n) = None"

fun kmemset_from :: "byte list \<Rightarrow> nat \<Rightarrow> byte \<Rightarrow> nat \<Rightarrow> byte list option" where
  "kmemset_from p i c 0 = Some p"
| "kmemset_from p i c (Suc k) =
     (case put_byte p i c of None \<Rightarrow> None | Some p' \<Rightarrow> kmemset_from p' (Suc i) c k)"

definition kmemset :: "byte list \<Rightarrow> int \<Rightarrow> nat \<Rightarrow> byte list option" where
  "kmemset p val num = kmemset_from p 0 (word_of_int val) num"

fun kmemcpy_from :: "byte list \<Rightarrow> nat \<Rightarrow> byte list \<Rightarrow> nat \<Rightarrow> byte list option" where
  "kmemcpy_from d i s 0 = Some d"
| "kmemcpy_from d i s (Suc k) =
     (if i < length s then
        (case put_byte d i (s ! i) of None \<Rightarrow> None | Some d' \<Rightarrow> kmemcpy_from d' (Suc i) s k)
      else None)"

definition kmemcpy :: "byte list \<Rightarrow> byte list \<Rightarrow> nat \<Rightarrow> byte list option" where
  "kmemcpy dest src num = kmemcpy_from dest 0 src num"

section \<open>The strings they compute\<close>

definition cstr :: "byte list \<Rightarrow> byte list" where
  "cstr buf = takeWhile (\<lambda>c. c \<noteq> 0) buf"

definition terminated :: "byte list \<Rightarrow> bool" where
  "terminated buf \<longleftrightarrow> 0 \<in> set buf"

text \<open>The string a bounded copy into an array of \<open>n\<close> characters leaves there.\<close>

definition strn :: "nat \<Rightarrow> 'a list \<Rightarrow> 'a list" where
  "strn n s = take (n - 1) s"

lemma length_strn: "0 < n \<Longrightarrow> length (strn n s) < n"
  by (simp add: strn_def)

lemma strn_idle [simp]: "length s < n \<Longrightarrow> strn n s = s"
  by (simp add: strn_def)

lemma kstrlen_cstr: "terminated s \<Longrightarrow> kstrlen s = Some (length (cstr s))"
  by (induction s) (auto simp: cstr_def terminated_def)

lemma kstrlen_none: "\<not> terminated s \<Longrightarrow> kstrlen s = None"
  by (induction s) (auto simp: terminated_def)

lemma put_byte_mid: "put_byte (pre @ x # post) (length pre) c = Some (pre @ c # post)"
  by (simp add: put_byte_def)

lemma kstrncpy_from_spec:
  assumes "terminated src" "length post = length (take k (cstr src))"
  shows "kstrncpy_from (pre @ post @ z # rest) (length pre) src k
     = Some (pre @ take k (cstr src) @ 0 # rest)"
  using assms
proof (induction k arbitrary: pre post src)
  case 0
  then show ?case using put_byte_mid[of pre z rest 0] by simp
next
  case (Suc k)
  obtain c src' where src: "src = c # src'" using Suc.prems(1) by (cases src) (auto simp: terminated_def)
  show ?case
  proof (cases "c = 0")
    case True
    then show ?thesis using Suc.prems src put_byte_mid[of pre z rest 0] by (simp add: cstr_def)
  next
    case False
    then obtain p post' where post: "post = p # post'" "length post' = length (take k (cstr src'))"
      using Suc.prems(2) src by (cases post) (auto simp: cstr_def)
    have "terminated src'" using Suc.prems(1) src False by (auto simp: terminated_def)
    from Suc.IH[OF this post(2), of "pre @ [c]"] show ?thesis
      using src False post put_byte_mid[of pre p "post' @ z # rest" c] by (simp add: cstr_def)
  qed
qed

lemma kstrcmp_zero:
  "terminated a \<Longrightarrow> terminated b \<Longrightarrow> \<exists>r. kstrcmp a b = Some r \<and> (r = 0 \<longleftrightarrow> cstr a = cstr b)"
  by (induction a b rule: kstrcmp.induct)
    (auto simp: cstr_def terminated_def word_uint_eq_iff[symmetric] unsigned_eq_0_iff)

lemma kstrncmp_zero:
  assumes "terminated a" "terminated b"
  shows "\<exists>r. kstrncmp a b n = Some r \<and> (r = 0 \<longleftrightarrow> take n (cstr a) = take n (cstr b))"
  using assms by (induction a b n rule: kstrncmp.induct)
    (auto simp: cstr_def terminated_def word_uint_eq_iff[symmetric] unsigned_eq_0_iff)

lemma kmemcpy_from_spec:
  assumes "length pre + k \<le> length src" "length old = k"
  shows "kmemcpy_from (pre @ old @ rest) (length pre) src k
     = Some (pre @ take k (drop (length pre) src) @ rest)"
  using assms
proof (induction k arbitrary: pre old)
  case 0
  then show ?case by simp
next
  case (Suc k)
  then obtain x old' where old: "old = x # old'" "length old' = k" by (cases old) auto
  have lt: "length pre < length src" using Suc.prems by simp
  have "kmemcpy_from ((pre @ [src ! length pre]) @ old' @ rest) (length (pre @ [src ! length pre])) src k
     = Some ((pre @ [src ! length pre]) @ take k (drop (length (pre @ [src ! length pre])) src) @ rest)"
    by (rule Suc.IH) (use Suc.prems old in auto)
  then show ?case using old lt put_byte_mid[of pre x "old' @ rest" "src ! length pre"]
    by (simp add: Cons_nth_drop_Suc[symmetric])
qed

lemma kmemset_from_spec:
  assumes "length old = k"
  shows "kmemset_from (pre @ old @ rest) (length pre) c k = Some (pre @ replicate k c @ rest)"
  using assms
proof (induction k arbitrary: pre old)
  case (Suc k)
  then obtain x old' where old: "old = x # old'" "length old' = k" by (cases old) auto
  from Suc.IH[OF old(2), of "pre @ [c]"] show ?case
    using old put_byte_mid[of pre x "old' @ rest" c] by (simp add: replicate_app_Cons_same)
qed simp

section \<open>Properties\<close>

text \<open>
  C40 (kstring, functional and bounds).  A bounded copy of a NUL-terminated source into a
  destination of at least \<open>n > 0\<close> bytes never leaves either buffer, and leaves exactly the
  first \<open>n - 1\<close> characters of the source followed by a NUL; the rest of the destination is
  untouched.
\<close>
theorem kstrncpy_correct:
  assumes "terminated src" "0 < n" "n \<le> length dst"
  shows "kstrncpy dst src n =
    Some (strn n (cstr src) @ 0 # drop (Suc (length (strn n (cstr src)))) dst)"
proof -
  let ?m = "length (strn n (cstr src))"
  have m: "?m < length dst" using length_strn[OF assms(2), of "cstr src"] assms(3) by simp
  then have "dst = take ?m dst @ dst ! ?m # drop (Suc ?m) dst" by (simp add: id_take_nth_drop)
  then show ?thesis
    using kstrncpy_from_spec[OF assms(1), of "take ?m dst" "n - 1" "[]" "dst ! ?m" "drop (Suc ?m) dst"]
      assms(2) m by (simp add: kstrncpy_def strn_def)
qed

theorem kstrncpy_correct_witness:
  "kstrncpy [9, 9, 9, 9] [0x61, 0x62, 0x63, 0] 3 = Some [0x61, 0x62, 0, 9]"
  using kstrncpy_correct[of "[0x61, 0x62, 0x63, 0]" 3 "[9, 9, 9, 9]"]
  by (simp add: terminated_def cstr_def strn_def)

end
