(* ===== verification/Hash_Table.thy ===== *)
theory Hash_Table
  imports Prelude
begin

text \<open>
  The chained hash table of \<^verbatim>\<open>src/kernel/lib/hashtable.c\<close> and the mixing function of
  \<^verbatim>\<open>include/kernel/hashtable.h\<close>.  A bucket is the list of its chained entries, the
  entry nodes being embedded in their owners.  A NULL value is \<open>None\<close>.  The interface
  locale \<open>keyed_table\<close> states what the clients (the pipe registry, the process table)
  rely on; the table of the code is an instance.
\<close>

section \<open>The table\<close>

definition HASH_TABLE_SIZE :: nat where [kernel_const]: "HASH_TABLE_SIZE = 1024"
definition HASH_MASK :: u32 where [kernel_const]: "HASH_MASK = 1023"

record 'v hash_table =
  buckets :: "u32 \<Rightarrow> (u32 \<times> 'v) list"
  ht_count :: u32
  ht_name :: string

definition hash_function :: "u32 \<Rightarrow> u32" where
  "hash_function key =
     (let hash = key;
          hash = hash + push_bit 10 hash;
          hash = hash XOR drop_bit 6 hash;
          hash = hash + push_bit 3 hash;
          hash = hash XOR drop_bit 11 hash;
          hash = hash + push_bit 15 hash
      in hash AND HASH_MASK)"

definition hash_table_init :: "string \<Rightarrow> 'v hash_table" where
  "hash_table_init nm = \<lparr>buckets = (\<lambda>_. []), ht_count = 0, ht_name = nm\<rparr>"

definition hash_table_insert :: "'v hash_table \<Rightarrow> u32 \<Rightarrow> 'v option \<Rightarrow> 'v hash_table res" where
  "hash_table_insert t key val =
     (case val of
        None \<Rightarrow> Inl EINVAL
      | Some v \<Rightarrow>
          let bucket = hash_function key
          in if list_ex (\<lambda>e. fst e = key) (buckets t bucket) then Inl EEXIST
             else Inr (t\<lparr>buckets := (buckets t)(bucket := (key, v) # buckets t bucket),
                         ht_count := ht_count t + 1\<rparr>))"

definition hash_table_lookup :: "'v hash_table \<Rightarrow> u32 \<Rightarrow> 'v option" where
  "hash_table_lookup t key = map_of (buckets t (hash_function key)) key"

text \<open>Unlinking walks the chain to the first entry with the key.\<close>

fun unlink_entry :: "u32 \<Rightarrow> (u32 \<times> 'v) list \<Rightarrow> ((u32 \<times> 'v) list \<times> 'v) option" where
  "unlink_entry key [] = None"
| "unlink_entry key (e # es) =
     (if fst e = key then Some (es, snd e)
      else (case unlink_entry key es of None \<Rightarrow> None | Some (es', v) \<Rightarrow> Some (e # es', v)))"

definition hash_table_remove :: "'v hash_table \<Rightarrow> u32 \<Rightarrow> 'v hash_table \<times> 'v option" where
  "hash_table_remove t key =
     (let bucket = hash_function key
      in case unlink_entry key (buckets t bucket) of
           None \<Rightarrow> (t, None)
         | Some (es, v) \<Rightarrow>
             (t\<lparr>buckets := (buckets t)(bucket := es), ht_count := ht_count t - 1\<rparr>, Some v))"

section \<open>The interface of a keyed table\<close>

datatype 'v table_op = Ins u32 "'v option" | Rem u32

text \<open>What the operations mean on a finite map.\<close>

fun map_op :: "'v table_op \<Rightarrow> (u32 \<rightharpoonup> 'v) \<Rightarrow> (u32 \<rightharpoonup> 'v)" where
  "map_op (Ins k None) m = m"
| "map_op (Ins k (Some v)) m = (if m k = None then m(k \<mapsto> v) else m)"
| "map_op (Rem k) m = m(k := None)"

fun apply_op :: "('t \<Rightarrow> u32 \<Rightarrow> 'v option \<Rightarrow> 't res) \<Rightarrow> ('t \<Rightarrow> u32 \<Rightarrow> 't \<times> 'v option)
    \<Rightarrow> 'v table_op \<Rightarrow> 't \<Rightarrow> 't" where
  "apply_op ins rem (Ins k v) t = (case ins t k v of Inl _ \<Rightarrow> t | Inr t' \<Rightarrow> t')"
| "apply_op ins rem (Rem k) t = fst (rem t k)"

locale keyed_table =
  fixes inv :: "'t \<Rightarrow> bool"
    and lookup :: "'t \<Rightarrow> u32 \<rightharpoonup> 'v"
    and insert :: "'t \<Rightarrow> u32 \<Rightarrow> 'v option \<Rightarrow> 't res"
    and remove :: "'t \<Rightarrow> u32 \<Rightarrow> 't \<times> 'v option"
  assumes insert_null: "insert t k None = Inl EINVAL"
    and insert_dup: "inv t \<Longrightarrow> lookup t k \<noteq> None \<Longrightarrow> insert t k (Some v) = Inl EEXIST"
    and insert_new: "inv t \<Longrightarrow> lookup t k = None \<Longrightarrow>
       \<exists>t'. insert t k (Some v) = Inr t' \<and> inv t' \<and> lookup t' = (lookup t)(k \<mapsto> v)"
    and remove_result: "inv t \<Longrightarrow> snd (remove t k) = lookup t k"
    and remove_inv: "inv t \<Longrightarrow> inv (fst (remove t k))"
    and remove_lookup: "inv t \<Longrightarrow> lookup (fst (remove t k)) = (lookup t)(k := None)"
begin

lemma op_refines:
  assumes "inv t"
  shows "inv (apply_op insert remove op t) \<and>
    lookup (apply_op insert remove op t) = map_op op (lookup t)"
proof (cases op)
  case (Ins k v)
  show ?thesis
  proof (cases v)
    case None
    then show ?thesis using assms Ins by (simp add: insert_null)
  next
    case (Some w)
    show ?thesis
    proof (cases "lookup t k")
      case None
      from insert_new[OF assms None, of w] obtain t' where
        "insert t k (Some w) = Inr t'" "inv t'" "lookup t' = (lookup t)(k \<mapsto> w)" by blast
      with Ins Some None show ?thesis by simp
    next
      case (Some u)
      then show ?thesis using assms Ins \<open>v = Some w\<close> by (simp add: insert_dup)
    qed
  qed
next
  case (Rem k)
  then show ?thesis using assms by (simp add: remove_inv remove_lookup)
qed

text \<open>Any sequence of insertions and removals is that sequence on a map.\<close>

lemma run_refines:
  assumes "inv t"
  shows "inv (fold (apply_op insert remove) ops t) \<and>
    lookup (fold (apply_op insert remove) ops t) = fold map_op ops (lookup t)"
  using assms by (induction ops arbitrary: t) (auto simp: op_refines)

lemma insert_Inr_iff: "inv t \<Longrightarrow> (\<exists>t'. insert t k (Some v) = Inr t') \<longleftrightarrow> lookup t k = None"
  using insert_dup insert_new by (metis Inl_Inr_False)

lemma insert_lookup:
  "inv t \<Longrightarrow> insert t k (Some v) = Inr t' \<Longrightarrow> inv t' \<and> lookup t' = (lookup t)(k \<mapsto> v)"
  using insert_dup insert_new by (metis Inl_Inr_False sum.inject(2))

end

section \<open>The code's table is an instance\<close>

text \<open>
  Every chain holds entries that hash to its bucket, no key twice, and the counter is the
  number of entries modulo the width of the counter.
\<close>

definition ht_entries :: "'v hash_table \<Rightarrow> nat" where
  "ht_entries t = (\<Sum>b < 1024. length (buckets t (of_nat b)))"

definition ht_inv :: "'v hash_table \<Rightarrow> bool" where
  "ht_inv t \<longleftrightarrow> (\<forall>b. distinct (map fst (buckets t b)) \<and> (\<forall>e \<in> set (buckets t b). hash_function (fst e) = b))
     \<and> ht_count t = of_nat (ht_entries t)"

lemma hash_function_less: "unat (hash_function key) < 1024"
proof -
  have "unat (w AND (2 ^ 10 - 1)) < 1024" for w :: u32 by (simp only: unat_and_mask) simp
  then show ?thesis by (simp add: hash_function_def HASH_MASK_def Let_def)
qed

lemma unlink_entry_None: "unlink_entry key es = None \<longleftrightarrow> key \<notin> fst ` set es"
  by (induction es) (auto split: option.splits)

lemma unlink_entry_split:
  "unlink_entry key es = Some (es', v) \<Longrightarrow>
   \<exists>pre post. es = pre @ (key, v) # post \<and> es' = pre @ post \<and> key \<notin> fst ` set pre"
proof (induction es arbitrary: es')
  case (Cons e es)
  show ?case
  proof (cases "fst e = key")
    case True
    then show ?thesis using Cons.prems by (intro exI[of _ "[]"] exI[of _ es]) auto
  next
    case False
    then obtain es1 where u: "unlink_entry key es = Some (es1, v)" "es' = e # es1"
      using Cons.prems by (auto split: option.splits)
    from Cons.IH[OF u(1)] obtain pre post where
      "es = pre @ (key, v) # post" "es1 = pre @ post" "key \<notin> fst ` set pre" by blast
    then show ?thesis using False u(2) by (intro exI[of _ "e # pre"] exI[of _ post]) auto
  qed
qed simp

lemma unlink_entry_Some:
  assumes "unlink_entry key es = Some (es', v)" "distinct (map fst es)"
  shows "map_of es key = Some v" "map_of es' = (map_of es)(key := None)"
    "set es' \<subseteq> set es" "distinct (map fst es')" "length es = Suc (length es')"
proof -
  from unlink_entry_split[OF assms(1)] obtain pre post where
    e: "es = pre @ (key, v) # post" "es' = pre @ post" and pre: "key \<notin> fst ` set pre" by blast
  have none: "map_of pre key = None" "map_of post key = None"
    using pre assms(2) e(1) by (auto simp: map_of_eq_None_iff)
  show "map_of es key = Some v" using e none by (simp add: map_add_def)
  show "map_of es' = (map_of es)(key := None)"
    using e none by (auto simp: fun_eq_iff map_add_def split: option.splits)
  show "set es' \<subseteq> set es" "distinct (map fst es')" "length es = Suc (length es')"
    using e assms(2) by auto
qed

lemma ht_lookup_other:
  assumes "\<forall>b. b \<noteq> hash_function key \<longrightarrow> buckets t' b = buckets t b"
    and "map_of (buckets t' (hash_function key)) = (map_of (buckets t (hash_function key)))(key := v)"
  shows "hash_table_lookup t' = (hash_table_lookup t)(key := v)"
proof
  fix k
  show "hash_table_lookup t' k = ((hash_table_lookup t)(key := v)) k"
    using assms by (cases "hash_function k = hash_function key") (auto simp: hash_table_lookup_def)
qed

lemma ht_entries_upd:
  "ht_entries (t\<lparr>buckets := (buckets t)(hash_function k := es)\<rparr>) + length (buckets t (hash_function k))
     = ht_entries t + length es"
proof -
  let ?n = "unat (hash_function k)"
  have sum: "(\<Sum>b < 1024. f b) = f ?n + (\<Sum>b \<in> {..<1024} - {?n}. f b)" for f :: "nat \<Rightarrow> nat"
    using hash_function_less by (intro sum.remove) auto
  have ne: "of_nat b \<noteq> hash_function k" if "b \<in> {..<1024} - {?n}" for b
  proof
    assume "of_nat b = hash_function k"
    then have "unat (of_nat b :: u32) = ?n" by simp
    then show False using that by (simp add: unat_of_nat)
  qed
  have "(\<Sum>b \<in> {..<1024} - {?n}. length (((buckets t)(hash_function k := es)) (of_nat b)))
      = (\<Sum>b \<in> {..<1024} - {?n}. length (buckets t (of_nat b)))"
    using ne by (intro sum.cong) auto
  then show ?thesis unfolding ht_entries_def sum by simp
qed

lemma list_ex_key: "list_ex (\<lambda>e. fst e = key) es \<longleftrightarrow> map_of es key \<noteq> None"
  by (induction es) auto

lemma hash_table_insert_new:
  assumes "ht_inv t" "hash_table_lookup t k = None"
  shows "\<exists>t'. hash_table_insert t k (Some v) = Inr t' \<and> ht_inv t'
     \<and> hash_table_lookup t' = (hash_table_lookup t)(k \<mapsto> v)"
proof -
  let ?b = "hash_function k"
  let ?t' = "t\<lparr>buckets := (buckets t)(?b := (k, v) # buckets t ?b), ht_count := ht_count t + 1\<rparr>"
  have no: "map_of (buckets t ?b) k = None" using assms(2) by (simp add: hash_table_lookup_def)
  then have "hash_table_insert t k (Some v) = Inr ?t'"
    by (simp add: hash_table_insert_def list_ex_key Let_def)
  moreover have "ht_entries ?t' = Suc (ht_entries t)"
    using ht_entries_upd[of t k "(k, v) # buckets t ?b"] by (simp add: ht_entries_def)
  then have "ht_inv ?t'" using assms(1) no by (auto simp: ht_inv_def map_of_eq_None_iff)
  moreover have "hash_table_lookup ?t' = (hash_table_lookup t)(k \<mapsto> v)"
    by (rule ht_lookup_other) (auto simp: map_of_Cons_code fun_eq_iff)
  ultimately show ?thesis by blast
qed

lemma hash_table_remove_spec:
  assumes "ht_inv t" "hash_table_remove t k = (t', r)"
  shows "r = hash_table_lookup t k \<and> ht_inv t' \<and> hash_table_lookup t' = (hash_table_lookup t)(k := None)"
proof (cases "unlink_entry k (buckets t (hash_function k))")
  case None
  then have "map_of (buckets t (hash_function k)) k = None"
    by (simp add: unlink_entry_None map_of_eq_None_iff)
  then show ?thesis using assms None
    by (auto simp: hash_table_remove_def hash_table_lookup_def fun_eq_iff)
next
  case (Some p)
  obtain es v where p: "p = (es, v)" by fastforce
  let ?b = "hash_function k"
  have d: "distinct (map fst (buckets t ?b))" using assms(1) by (simp add: ht_inv_def)
  note u = unlink_entry_Some[OF Some[unfolded p] d]
  have t': "t' = t\<lparr>buckets := (buckets t)(?b := es), ht_count := ht_count t - 1\<rparr>" "r = Some v"
    using assms(2) Some p by (auto simp: hash_table_remove_def)
  have e: "ht_entries t = Suc (ht_entries t')"
    using ht_entries_upd[of t k es] u(5) t' by (simp add: ht_entries_def)
  have "ht_count t = of_nat (Suc (ht_entries t'))" using assms(1) e by (simp add: ht_inv_def)
  moreover have "ht_count t' = ht_count t - 1" using t'(1) by simp
  ultimately have "ht_count t' = of_nat (ht_entries t')" by simp
  then have "ht_inv t'" using assms(1) u t'(1) by (auto simp: ht_inv_def)
  moreover have "hash_table_lookup t' = (hash_table_lookup t)(k := None)"
    using u t' by (intro ht_lookup_other) auto
  ultimately show ?thesis using u t' by (simp add: hash_table_lookup_def)
qed

interpretation ht: keyed_table ht_inv hash_table_lookup hash_table_insert hash_table_remove
proof
  fix t :: "'a hash_table" and k v
  show "hash_table_insert t k None = Inl EINVAL" by (simp add: hash_table_insert_def)
  assume i: "ht_inv t"
  show "hash_table_lookup t k \<noteq> None \<Longrightarrow> hash_table_insert t k (Some v) = Inl EEXIST"
    by (simp add: hash_table_insert_def hash_table_lookup_def list_ex_key Let_def)
  show "hash_table_lookup t k = None \<Longrightarrow> \<exists>t'. hash_table_insert t k (Some v) = Inr t' \<and> ht_inv t' \<and>
      hash_table_lookup t' = (hash_table_lookup t)(k \<mapsto> v)"
    using hash_table_insert_new[OF i] .
  show "snd (hash_table_remove t k) = hash_table_lookup t k" "ht_inv (fst (hash_table_remove t k))"
    "hash_table_lookup (fst (hash_table_remove t k)) = (hash_table_lookup t)(k := None)"
    using hash_table_remove_spec[OF i, of k] by (metis prod.collapse)+
qed

lemma hash_table_init_inv: "ht_inv (hash_table_init nm)" "hash_table_lookup (hash_table_init nm) = Map.empty"
  by (auto simp: ht_inv_def hash_table_init_def ht_entries_def hash_table_lookup_def)


section \<open>Properties\<close>

text \<open>
  C5 (hash table, refinement).  From an empty table, any sequence of insertions (null
  values, duplicates and fresh keys) and removals leaves a table whose lookup is the map
  the same sequence builds: insertions of a present key and of null change nothing,
  removals unlink exactly one entry; and the entry counter is the number of chained
  entries.
\<close>
theorem hash_table_is_map:
  "hash_table_lookup (fold (apply_op hash_table_insert hash_table_remove) ops (hash_table_init nm))
     = fold map_op ops Map.empty \<and>
   ht_count (fold (apply_op hash_table_insert hash_table_remove) ops (hash_table_init nm))
     = of_nat (ht_entries (fold (apply_op hash_table_insert hash_table_remove) ops (hash_table_init nm)))"
  using ht.run_refines[OF hash_table_init_inv(1)[of nm], of ops] 
  unfolding hash_table_init_inv(2)[of nm] by (simp add: ht_inv_def)

text \<open>
  (hash table, bounds).  The mixing function always names one of the 1024 buckets.
\<close>
theorem hash_function_in_range: "unat (hash_function key) < HASH_TABLE_SIZE"
  using hash_function_less by (simp add: HASH_TABLE_SIZE_def)

end
