(* ===== verification/Process.thy ===== *)
theory Process
  imports Hash_Table KString
begin

text \<open>
  The kernel state that scheduling, signals, wait queues, pipes and the file layer share,
  and the process lifecycle of \<^verbatim>\<open>src/kernel/core/process.c\<close> with the credential,
  priority, job-control, wait-queue and alarm operations beside it.  A process is found
  through its address in a store; \<open>NULL\<close> is \<open>None\<close>.  Outcomes of \<open>kmalloc\<close> and of the
  address-space constructor are arguments (\<open>None\<close> is a failed allocation).  Interrupts sent
  to other CPUs and the context switches performed are recorded in order.  Process ids and register values are 32-bit words.
\<close>

section \<open>Data\<close>

datatype proc_state =
    PROCESS_READY | PROCESS_RUNNING | PROCESS_BLOCKED | PROCESS_TERMINATED | PROCESS_ZOMBIE

record proc_fd =
  of_idx :: u32
  fd_offset :: u32
  fd_flags :: u32
  fd_refcount :: int

definition no_fd :: proc_fd where
  "no_fd = \<lparr>of_idx = 0, fd_offset = 0, fd_flags = 0, fd_refcount = 0\<rparr>"

record process_context =
  c_eax :: u32  c_ebx :: u32  c_ecx :: u32  c_edx :: u32
  c_esi :: u32  c_edi :: u32  c_ebp :: u32  c_esp :: u32
  c_eip :: u32  c_eflags :: u32
  c_cs :: u16  c_ds :: u16  c_es :: u16  c_fs :: u16  c_gs :: u16  c_ss :: u16

definition zero_context :: process_context where
  "zero_context = \<lparr>c_eax = 0, c_ebx = 0, c_ecx = 0, c_edx = 0, c_esi = 0, c_edi = 0, c_ebp = 0,
     c_esp = 0, c_eip = 0, c_eflags = 0, c_cs = 0, c_ds = 0, c_es = 0, c_fs = 0, c_gs = 0, c_ss = 0\<rparr>"

datatype sig_handler = SIG_DFL | SIG_IGN | SIG_USER u32

record process =
  p_pid :: u32
  p_ppid :: u32
  p_pgid :: u32
  p_sid :: u32
  p_uid :: u32
  p_gid :: u32
  p_euid :: u32
  p_egid :: u32
  p_suid :: u32
  p_sgid :: u32
  p_state :: proc_state
  p_priority :: u32
  p_mlfq_queue :: int
  p_name :: string
  p_context :: process_context
  p_memory :: "nat option"
  p_kernel_stack :: "u32 option"
  p_canary_expected :: u32
  p_first_sched :: bool
  p_exit_code :: u32
  p_tty :: int
  p_umask :: u32
  p_signal_mask :: u32
  p_signal_pending :: u32
  p_signal_handlers :: "nat \<Rightarrow> sig_handler"
  p_next :: "nat option"
  p_time_slice :: u32
  p_cwd :: string
  p_fd_table :: "nat \<Rightarrow> proc_fd"
  p_alarm_ticks :: u32
  p_children_wq :: "nat list"
  p_owner_cpu :: nat

text \<open>\<open>kmemset(proc, 0, sizeof(process_t))\<close>; the state word 0 is \<open>PROCESS_READY\<close>.\<close>

definition zero_process :: process where
  "zero_process = \<lparr>p_pid = 0, p_ppid = 0, p_pgid = 0, p_sid = 0, p_uid = 0, p_gid = 0,
     p_euid = 0, p_egid = 0, p_suid = 0, p_sgid = 0, p_state = PROCESS_READY, p_priority = 0,
     p_mlfq_queue = 0, p_name = [], p_context = zero_context, p_memory = None,
     p_kernel_stack = None, p_canary_expected = 0, p_first_sched = False, p_exit_code = 0,
     p_tty = 0, p_umask = 0, p_signal_mask = 0, p_signal_pending = 0,
     p_signal_handlers = (\<lambda>_. SIG_DFL), p_next = None, p_time_slice = 0, p_cwd = [],
     p_fd_table = (\<lambda>_. no_fd), p_alarm_ticks = 0, p_children_wq = [], p_owner_cpu = 0\<rparr>"

record cpu =
  cpu_id :: nat
  current_proc :: "nat option"
  run_queues :: "nat \<Rightarrow> nat option"
  sched_ticks :: u32
  schedule_calls :: u32
  last_steal_tick :: u32
  quantum_left :: u32
  current_queue :: int
  idle_proc :: "nat option"
  rcu_qs_count :: u32
  cpu_cr3 :: "u32 option"
  tss_esp0 :: u32

record kstate =
  procs :: "nat \<Rightarrow> process"
  proc_live :: "nat \<Rightarrow> bool"
  process_table :: "nat \<Rightarrow> nat option"
  process_table_ht :: "nat hash_table"
  next_pid :: u32
  console_pgrp :: u32
  cpus :: "nat \<Rightarrow> cpu"
  cpu_count :: nat
  this_cpu :: nat
  rr_counter :: u32
  scheduler_enabled :: bool
  ipis :: "nat list"
  wq_entry_proc :: "nat \<Rightarrow> nat option"
  page_directory :: "nat \<Rightarrow> u32 option"
  switches :: "(nat option \<times> nat) list"

definition MAX_PROCESSES_CONST :: nat where [kernel_const]: "MAX_PROCESSES_CONST = 128"
definition MAX_OPEN_FILES_CONST :: nat where [kernel_const]: "MAX_OPEN_FILES_CONST = 64"
definition MAX_CPUS :: nat where [kernel_const]: "MAX_CPUS = 8"
definition NSIG_HANDLED :: nat where [kernel_const]: "NSIG_HANDLED = 32"
definition KERNEL_STACK_SIZE :: u32 where [kernel_const]: "KERNEL_STACK_SIZE = 0x2000"

text \<open>The static \<open>kernel_proc\<close> lives at address 0 of the store.\<close>

definition kernel_proc :: nat where "kernel_proc = 0"

definition upd_proc :: "nat \<Rightarrow> (process \<Rightarrow> process) \<Rightarrow> 'a kstate_scheme \<Rightarrow> 'a kstate_scheme" where
  "upd_proc a f s = s\<lparr>procs := (procs s)(a := f (procs s a))\<rparr>"

definition upd_cpu :: "nat \<Rightarrow> (cpu \<Rightarrow> cpu) \<Rightarrow> 'a kstate_scheme \<Rightarrow> 'a kstate_scheme" where
  "upd_cpu c f s = s\<lparr>cpus := (cpus s)(c := f (cpus s c))\<rparr>"

definition set_state :: "nat \<Rightarrow> proc_state \<Rightarrow> 'a kstate_scheme \<Rightarrow> 'a kstate_scheme" where
  "set_state a st = upd_proc a (\<lambda>p. p\<lparr>p_state := st\<rparr>)"

text \<open>Compare-and-exchange on the state word.\<close>

definition cas_state :: "nat \<Rightarrow> proc_state \<Rightarrow> proc_state \<Rightarrow> 'a kstate_scheme \<Rightarrow> 'a kstate_scheme" where
  "cas_state a expected st s = (if p_state (procs s a) = expected then set_state a st s else s)"

definition smp_ipi_send :: "nat \<Rightarrow> 'a kstate_scheme \<Rightarrow> 'a kstate_scheme" where
  "smp_ipi_send c s = (if cpu_count s \<le> c then s else s\<lparr>ipis := ipis s @ [c]\<rparr>)"

definition this_cpu_id :: "'a kstate_scheme \<Rightarrow> nat" where
  "this_cpu_id s = cpu_id (cpus s (this_cpu s))"

definition current_process :: "'a kstate_scheme \<Rightarrow> nat option" where
  "current_process s = current_proc (cpus s (this_cpu s))"

definition set_current :: "nat \<Rightarrow> 'a kstate_scheme \<Rightarrow> 'a kstate_scheme" where
  "set_current a s = upd_cpu (this_cpu s) (\<lambda>c. c\<lparr>current_proc := Some a\<rparr>) s"

definition get_current_process :: "'a kstate_scheme \<Rightarrow> nat" where
  "get_current_process s = (case current_process s of Some a \<Rightarrow> a | None \<Rightarrow> kernel_proc)"

section \<open>Lookup\<close>

definition process_find_by_pid :: "'a kstate_scheme \<Rightarrow> u32 \<Rightarrow> nat option" where
  "process_find_by_pid s pid =
     (case hash_table_lookup (process_table_ht s) pid of
        None \<Rightarrow> None
      | Some a \<Rightarrow> if p_state (procs s a) = PROCESS_TERMINATED then None else Some a)"

definition process_get_by_index :: "'a kstate_scheme \<Rightarrow> nat \<Rightarrow> nat option" where
  "process_get_by_index s idx =
     (if MAX_PROCESSES_CONST \<le> idx then None
      else (case process_table s idx of
              None \<Rightarrow> None
            | Some a \<Rightarrow> if p_state (procs s a) = PROCESS_TERMINATED then None else Some a))"

definition is_child :: "'a kstate_scheme \<Rightarrow> u32 \<Rightarrow> bool \<Rightarrow> nat \<Rightarrow> bool" where
  "is_child s ppid zombie_only q \<longleftrightarrow>
     p_ppid (procs s q) = ppid \<and> p_state (procs s q) \<noteq> PROCESS_TERMINATED
     \<and> (\<not> zombie_only \<or> p_state (procs s q) = PROCESS_ZOMBIE)"

text \<open>The pid argument is signed: zero and negative values mean any child.\<close>

definition process_find_child :: "'a kstate_scheme \<Rightarrow> u32 \<Rightarrow> u32 \<Rightarrow> bool \<Rightarrow> nat option" where
  "process_find_child s ppid pid zombie_only =
     (if 0 < sint pid then
        (case hash_table_lookup (process_table_ht s) pid of
           None \<Rightarrow> None
         | Some q \<Rightarrow> if is_child s ppid zombie_only q then Some q else None)
      else
        (case find (\<lambda>i. case process_table s i of None \<Rightarrow> False | Some q \<Rightarrow> is_child s ppid zombie_only q)
               [1..<MAX_PROCESSES_CONST] of
           None \<Rightarrow> None
         | Some i \<Rightarrow> process_table s i))"

section \<open>Signals and priority of a new process\<close>

definition process_init_signals :: "process \<Rightarrow> process" where
  "process_init_signals p =
     p\<lparr>p_signal_mask := 0, p_signal_pending := 0,
       p_signal_handlers := (\<lambda>i. if i < NSIG_HANDLED then SIG_DFL else p_signal_handlers p i)\<rparr>"

definition process_init_priority :: "process \<Rightarrow> process" where
  "process_init_priority p = p\<lparr>p_priority := 20, p_time_slice := 100\<rparr>"

section \<open>Creation and termination\<close>

definition allocate_next_pid :: "'a kstate_scheme \<Rightarrow> 'a kstate_scheme \<times> u32" where
  "allocate_next_pid s = (s\<lparr>next_pid := next_pid s + 1\<rparr>, next_pid s)"

definition process_init :: "u32 option \<Rightarrow> 'a kstate_scheme \<Rightarrow> 'a kstate_scheme" where
  "process_init stack s =
     (let kp = (procs s kernel_proc)\<lparr>p_pid := 0, p_state := PROCESS_RUNNING, p_priority := 1,
                 p_pgid := 0, p_sid := 0, p_tty := -1, p_umask := 18, p_name := strn 16 ''kernel'',
                 p_kernel_stack := stack\<rparr>;
          kp = (case stack of None \<Rightarrow> kp
                | Some st \<Rightarrow> kp\<lparr>p_context := (p_context kp)\<lparr>c_esp := st + KERNEL_STACK_SIZE\<rparr>\<rparr>);
          kp = kp\<lparr>p_context := (p_context kp)\<lparr>c_eflags := 0x202\<rparr>, p_memory := None\<rparr>;
          s = s\<lparr>process_table_ht := hash_table_init ''processes'',
                procs := (procs s)(kernel_proc := kp),
                proc_live := (proc_live s)(kernel_proc := True),
                process_table := (process_table s)(0 := Some kernel_proc)\<rparr>;
          s = (case hash_table_insert (process_table_ht s) 0 (Some kernel_proc) of
                 Inl _ \<Rightarrow> s | Inr t \<Rightarrow> s\<lparr>process_table_ht := t\<rparr>)
      in set_current kernel_proc s)"

definition free_slot :: "'a kstate_scheme \<Rightarrow> nat option" where
  "free_slot s = find (\<lambda>i. process_table s i = None) [1..<MAX_PROCESSES_CONST]"

definition insert_ht :: "u32 \<Rightarrow> nat \<Rightarrow> 'a kstate_scheme \<Rightarrow> 'a kstate_scheme" where
  "insert_ht pid a s =
     (case hash_table_insert (process_table_ht s) pid (Some a) of
        Inl _ \<Rightarrow> s | Inr t \<Rightarrow> s\<lparr>process_table_ht := t\<rparr>)"

text \<open>
  \<open>process_create (name, entry_point)\<close>: \<open>node\<close>, \<open>stack\<close> and \<open>mem\<close> are what the three
  allocations return.
\<close>

definition process_create ::
  "string option \<Rightarrow> u32 \<Rightarrow> nat option \<Rightarrow> u32 option \<Rightarrow> nat option \<Rightarrow> 'a kstate_scheme
    \<Rightarrow> 'a kstate_scheme \<times> nat option" where
  "process_create name entry_point node stack mem s =
     (case (name, node) of
        (None, _) \<Rightarrow> (s, None)
      | (_, None) \<Rightarrow> (s, None)
      | (Some nm, Some proc) \<Rightarrow>
          (case free_slot s of
             None \<Rightarrow> (s, None)
           | Some slot \<Rightarrow>
               let s1 = s\<lparr>procs := (procs s)(proc := zero_process),
                          proc_live := (proc_live s)(proc := True),
                          process_table := (process_table s)(slot := Some proc)\<rparr>
               in case allocate_next_pid s1 of (s1, pid) \<Rightarrow>
                 let parent = map_option (procs s1) (current_process s1);
                     parent_pid = (case parent of Some q \<Rightarrow> p_pid q | None \<Rightarrow> 0);
                     parent_sid = (case parent of Some q \<Rightarrow> p_sid q | None \<Rightarrow> pid);
                     parent_tty = (case parent of Some q \<Rightarrow> p_tty q | None \<Rightarrow> -1);
                     parent_umask = (case parent of Some q \<Rightarrow> p_umask q | None \<Rightarrow> 18);
                     parent_cwd = (case parent of Some q \<Rightarrow> p_cwd q | None \<Rightarrow> [])
                 in case stack of
                      None \<Rightarrow> (s1\<lparr>process_table := (process_table s1)(slot := None),
                                  proc_live := (proc_live s1)(proc := False)\<rparr>, None)
                    | Some st \<Rightarrow>
                        let p = zero_process\<lparr>p_pid := pid, p_ppid := parent_pid,
                              p_state := PROCESS_READY, p_uid := 0, p_gid := 0, p_name := strn 16 nm,
                              p_context := zero_context\<lparr>c_eip := entry_point, c_eflags := 0x202,
                                c_esp := st + KERNEL_STACK_SIZE\<rparr>,
                              p_kernel_stack := Some st,
                              p_memory := (if entry_point \<noteq> 0 then mem else None)\<rparr>;
                            p = process_init_priority (process_init_signals p);
                            p = p\<lparr>p_pgid := pid, p_sid := parent_sid, p_tty := parent_tty,
                              p_umask := parent_umask,
                              p_cwd := (if parent_cwd \<noteq> [] then strn 256 (strn 256 parent_cwd) else ''/''),
                              p_children_wq := []\<rparr>;
                            s2 = s1\<lparr>procs := (procs s1)(proc := p)\<rparr>
                        in (insert_ht pid proc s2, Some proc)))"

definition process_terminate :: "nat option \<Rightarrow> 'a kstate_scheme \<Rightarrow> 'a kstate_scheme" where
  "process_terminate proc s =
     (case proc of
        None \<Rightarrow> s
      | Some a \<Rightarrow>
          if p_pid (procs s a) = 0 then s
          else
            let s = set_state a PROCESS_TERMINATED s;
                s = upd_proc a (\<lambda>p. p\<lparr>p_kernel_stack := None, p_memory := None\<rparr>) s;
                s = s\<lparr>process_table_ht := fst (hash_table_remove (process_table_ht s) (p_pid (procs s a)))\<rparr>;
                s = (case find (\<lambda>i. process_table s i = Some a) [1..<MAX_PROCESSES_CONST] of
                       None \<Rightarrow> s
                     | Some i \<Rightarrow> s\<lparr>process_table := (process_table s)(i := None)\<rparr>)
            in s\<lparr>proc_live := (proc_live s)(a := False)\<rparr>)"

definition process_switch :: "nat option \<Rightarrow> 'a kstate_scheme \<Rightarrow> 'a kstate_scheme" where
  "process_switch nxt s = (case nxt of None \<Rightarrow> s | Some a \<Rightarrow> set_current a s)"


section \<open>State access\<close>

lemma upd_proc_simps [simp]:
  "procs (upd_proc a f s) = (procs s)(a := f (procs s a))"
  "proc_live (upd_proc a f s) = proc_live s"
  "process_table (upd_proc a f s) = process_table s"
  "process_table_ht (upd_proc a f s) = process_table_ht s"
  "next_pid (upd_proc a f s) = next_pid s"
  "console_pgrp (upd_proc a f s) = console_pgrp s"
  "cpus (upd_proc a f s) = cpus s"
  "cpu_count (upd_proc a f s) = cpu_count s"
  "this_cpu (upd_proc a f s) = this_cpu s"
  "rr_counter (upd_proc a f s) = rr_counter s"
  "scheduler_enabled (upd_proc a f s) = scheduler_enabled s"
  "ipis (upd_proc a f s) = ipis s"
  "wq_entry_proc (upd_proc a f s) = wq_entry_proc s"
  "current_process (upd_proc a f s) = current_process s"
  "get_current_process (upd_proc a f s) = get_current_process s"
  by (simp_all add: upd_proc_def current_process_def get_current_process_def)

lemma upd_cpu_simps [simp]:
  "procs (upd_cpu c g s) = procs s" "proc_live (upd_cpu c g s) = proc_live s"
  "process_table (upd_cpu c g s) = process_table s"
  "process_table_ht (upd_cpu c g s) = process_table_ht s" "next_pid (upd_cpu c g s) = next_pid s"
  "cpus (upd_cpu c g s) = (cpus s)(c := g (cpus s c))" "cpu_count (upd_cpu c g s) = cpu_count s"
  "this_cpu (upd_cpu c g s) = this_cpu s" "rr_counter (upd_cpu c g s) = rr_counter s"
  "wq_entry_proc (upd_cpu c g s) = wq_entry_proc s" "ipis (upd_cpu c g s) = ipis s"
  by (simp_all add: upd_cpu_def)

lemma smp_ipi_send_simps [simp]:
  "procs (smp_ipi_send c s) = procs s" "proc_live (smp_ipi_send c s) = proc_live s"
  "process_table (smp_ipi_send c s) = process_table s"
  "process_table_ht (smp_ipi_send c s) = process_table_ht s"
  "next_pid (smp_ipi_send c s) = next_pid s" "cpus (smp_ipi_send c s) = cpus s"
  "wq_entry_proc (smp_ipi_send c s) = wq_entry_proc s" "this_cpu (smp_ipi_send c s) = this_cpu s"
  "cpu_count (smp_ipi_send c s) = cpu_count s"
  by (simp_all add: smp_ipi_send_def)

section \<open>The process table\<close>

text \<open>
  The slots hold distinct live processes, the hash table is the inverse of \<open>p_pid\<close> on
  them, and every pid in use was handed out before \<open>next_pid\<close>.
\<close>

definition pt_inv :: "'a kstate_scheme \<Rightarrow> bool" where
  "pt_inv s \<longleftrightarrow> ht_inv (process_table_ht s) \<and>
     (\<forall>i a. process_table s i = Some a \<longrightarrow> i < 128 \<and> proc_live s a) \<and>
     (\<forall>i j a. process_table s i = Some a \<and> process_table s j = Some a \<longrightarrow> i = j) \<and>
     (\<forall>pid a. hash_table_lookup (process_table_ht s) pid = Some a \<longleftrightarrow>
        p_pid (procs s a) = pid \<and> (\<exists>i. process_table s i = Some a)) \<and>
     (\<forall>i a. process_table s i = Some a \<longrightarrow> p_pid (procs s a) < next_pid s) \<and>
     process_table s 0 = Some kernel_proc \<and> p_pid (procs s kernel_proc) = 0"

lemma pt_invD:
  assumes "pt_inv s"
  shows "ht_inv (process_table_ht s)"
    and "process_table s i = Some a \<Longrightarrow> i < 128"
    and "process_table s i = Some a \<Longrightarrow> proc_live s a"
    and "process_table s i = Some a \<Longrightarrow> process_table s j = Some a \<Longrightarrow> i = j"
    and "hash_table_lookup (process_table_ht s) pid = Some a \<longleftrightarrow>
        p_pid (procs s a) = pid \<and> (\<exists>i. process_table s i = Some a)"
    and "process_table s i = Some a \<Longrightarrow> p_pid (procs s a) < next_pid s"
    and "process_table s 0 = Some kernel_proc" "p_pid (procs s kernel_proc) = 0"
  using assms unfolding pt_inv_def by blast+

text \<open>An update that keeps the pids keeps the table.\<close>

lemma pt_inv_cong:
  assumes "pt_inv s" "\<And>a. p_pid (procs s' a) = p_pid (procs s a)"
    and "proc_live s' = proc_live s" "process_table s' = process_table s"
    and "process_table_ht s' = process_table_ht s" "next_pid s' = next_pid s"
  shows "pt_inv s'"
  using assms unfolding pt_inv_def by simp

lemma pt_inv_upd_proc:
  "pt_inv s \<Longrightarrow> (\<And>p. p_pid (f p) = p_pid p) \<Longrightarrow> pt_inv (upd_proc a f s)"
  by (rule pt_inv_cong[of s]) auto

lemma pt_inv_smp_ipi_send: "pt_inv s \<Longrightarrow> pt_inv (smp_ipi_send c s)"
  by (rule pt_inv_cong[of s]) auto

lemma pt_inv_upd_cpu: "pt_inv s \<Longrightarrow> pt_inv (upd_cpu c g s)"
  by (rule pt_inv_cong[of s]) auto

lemmas pt_inv_updates [kernel_inv] = pt_inv_upd_proc pt_inv_smp_ipi_send pt_inv_upd_cpu

lemma pt_inv_set_state [kernel_inv]: "pt_inv s \<Longrightarrow> pt_inv (set_state a st s)"
  by (simp add: set_state_def kernel_inv)

lemma pt_inv_cas_state [kernel_inv]: "pt_inv s \<Longrightarrow> pt_inv (cas_state a e st s)"
  by (simp add: cas_state_def kernel_inv)

lemma free_slot_Some:
  assumes "free_slot s = Some i"
  shows "1 \<le> i" "i < 128" "process_table s i = None"
  using find_upt_SomeD[OF assms[unfolded free_slot_def]] by (auto simp: kernel_const)

lemma free_slot_None:
  "free_slot s = None \<longleftrightarrow> (\<forall>i. 1 \<le> i \<and> i < 128 \<longrightarrow> process_table s i \<noteq> None)"
  by (simp add: free_slot_def find_upt_None_iff kernel_const)

text \<open>Entering a new process: the common end of \<open>process_create\<close> and \<open>sys_fork\<close>.\<close>

lemma pt_inv_enter:
  assumes "pt_inv s" "\<not> proc_live s a" "process_table s i = None" "i < 128"
    and np: "next_pid s \<noteq> -1"
    and s': "process_table s' = (process_table s)(i := Some a)" "next_pid s' = next_pid s + 1"
      "proc_live s' = (proc_live s)(a := True)" "procs s' = (procs s)(a := p)" "p_pid p = next_pid s"
    and ht: "hash_table_insert (process_table_ht s) (next_pid s) (Some a) = Inr (process_table_ht s')"
  shows "pt_inv s'"
proof -
  note I = pt_invD[OF assms(1)]
  have lk: "ht_inv (process_table_ht s')"
    "hash_table_lookup (process_table_ht s') = (hash_table_lookup (process_table_ht s))(next_pid s \<mapsto> a)"
    using ht.insert_lookup[OF I(1) ht] by auto
  have fresh: "process_table s j \<noteq> Some a" for j using I(3) assms(2) by blast
  have npl: "hash_table_lookup (process_table_ht s) (next_pid s) = None"
    using ht.insert_Inr_iff[OF I(1)] ht by blast
  have old: "p_pid (procs s' b) = p_pid (procs s b)" if "process_table s j = Some b" for b j
    using s' that fresh by (metis fun_upd_other)
  have tab: "process_table s' j = Some b \<longleftrightarrow> (j = i \<and> b = a) \<or> process_table s j = Some b" for j b
    using s'(1) assms(3) by auto
  have slots: "(\<exists>j. process_table s' j = Some b) \<longleftrightarrow> b = a \<or> (\<exists>j. process_table s j = Some b)" for b
    using tab by blast
  have look: "hash_table_lookup (process_table_ht s') pid = Some b \<longleftrightarrow>
      p_pid (procs s' b) = pid \<and> (\<exists>j. process_table s' j = Some b)" for pid b
  proof (cases "b = a")
    case True
    have "hash_table_lookup (process_table_ht s) pid \<noteq> Some a" using I(5) fresh by blast
    then show ?thesis using True lk(2) slots s'(4,5) by auto
  next
    case False
    then have "p_pid (procs s' b) = p_pid (procs s b)" using s'(4) by simp
    moreover have "hash_table_lookup (process_table_ht s) (next_pid s) \<noteq> Some b" using npl by simp
    ultimately show ?thesis using False lk(2) slots[of b] I(5)[of pid b] by auto
  qed
  have pids: "p_pid (procs s' b) < next_pid s'" if "process_table s' j = Some b" for j b
  proof (cases "b = a")
    case True
    then show ?thesis using s' np by (simp add: u32_less_Suc)
  next
    case False
    then have "p_pid (procs s b) < next_pid s" using tab that I(6) by blast
    then show ?thesis using False s' np by (simp add: u32_less_Suc)
  qed
  have ka: "kernel_proc \<noteq> a" using fresh[of 0] I(7) by auto
  show ?thesis
    unfolding pt_inv_def
  proof (intro conjI allI impI)
    show "ht_inv (process_table_ht s')" by (rule lk(1))
    show "j < 128" "proc_live s' b" if "process_table s' j = Some b" for j b
      using that tab I(2,3) assms(4) s'(3) by auto
    show "j = k" if "process_table s' j = Some b \<and> process_table s' k = Some b" for j k b
      using that I(4)[of j b k] fresh by (auto simp: tab)
    show "process_table s' 0 = Some kernel_proc" using tab[of 0] I(7) by simp
    show "p_pid (procs s' kernel_proc) = 0" using ka s'(4) I(8) by simp
  qed (use look pids in blast)+
qed

lemma next_pid_unused:
  assumes "pt_inv s"
  shows "hash_table_lookup (process_table_ht s) (next_pid s) = None"
  using pt_invD(5,6)[OF assms] by (metis less_irrefl not_Some_eq)

lemma process_create_enters:
  assumes "pt_inv s" "\<not> proc_live s a" "next_pid s \<noteq> -1" "free_slot s = Some i"
    and "process_create (Some nm) entry (Some a) (Some st) mem s = (s', r)"
  shows "r = Some a \<and> pt_inv s' \<and> process_table s' = (process_table s)(i := Some a) \<and>
    p_pid (procs s' a) = next_pid s \<and> p_state (procs s' a) = PROCESS_READY \<and>
    (\<forall>b. b \<noteq> a \<longrightarrow> procs s' b = procs s b) \<and>
    hash_table_lookup (process_table_ht s') = (hash_table_lookup (process_table_ht s))(next_pid s \<mapsto> a)"
proof -
  note I = pt_invD[OF assms(1)]
  obtain t where t: "hash_table_insert (process_table_ht s) (next_pid s) (Some a) = Inr t"
    using ht.insert_new[OF I(1) next_pid_unused[OF assms(1)]] by blast
  have r: "r = Some a" and s': "process_table s' = (process_table s)(i := Some a)"
    "next_pid s' = next_pid s + 1" "proc_live s' = (proc_live s)(a := True)"
    "procs s' = (procs s)(a := procs s' a)" "p_pid (procs s' a) = next_pid s"
    "p_state (procs s' a) = PROCESS_READY" "process_table_ht s' = t"
    using assms(4,5) t
    by (auto simp: process_create_def Let_def allocate_next_pid_def insert_ht_def
        process_init_priority_def process_init_signals_def)
  have "pt_inv s'"
    by (rule pt_inv_enter[OF assms(1,2) _ _ assms(3) s'(1-5)]) (use free_slot_Some[OF assms(4)] t s'(7) in auto)
  moreover have "procs s' b = procs s b" if "b \<noteq> a" for b using s'(4) that by (metis fun_upd_other)
  ultimately show ?thesis using r s' ht.insert_lookup[OF I(1) t] by auto
qed

lemma process_create_fails:
  assumes "process_create nm entry node stack mem s = (s', None)"
    and fresh: "\<And>a. node = Some a \<Longrightarrow> \<not> proc_live s a"
  shows "process_table s' = process_table s" "process_table_ht s' = process_table_ht s"
    "proc_live s' = proc_live s" "\<And>b. proc_live s b \<Longrightarrow> procs s' b = procs s b"
proof -
  have "process_table s' = process_table s \<and> process_table_ht s' = process_table_ht s \<and>
    proc_live s' = proc_live s \<and> (\<forall>b. proc_live s b \<longrightarrow> procs s' b = procs s b)"
  proof (cases "nm = None \<or> node = None \<or> free_slot s = None")
    case True
    then have "s' = s" using assms(1) by (auto simp: process_create_def split: option.splits)
    then show ?thesis by simp
  next
    case False
    then obtain n a i where c: "nm = Some n" "node = Some a" "free_slot s = Some i" by auto
    then have st: "stack = None"
      using assms(1) by (cases stack) (auto simp: process_create_def Let_def allocate_next_pid_def)
    have "procs s' = (procs s)(a := zero_process)" "process_table_ht s' = process_table_ht s"
      "process_table s' = ((process_table s)(i := Some a))(i := None)"
      "proc_live s' = ((proc_live s)(a := True))(a := False)"
      using assms(1) by (auto simp: process_create_def Let_def allocate_next_pid_def c st)
    then show ?thesis using fresh[OF c(2)] free_slot_Some(3)[OF c(3)] by (auto simp: fun_eq_iff)
  qed
  then show "process_table s' = process_table s" "process_table_ht s' = process_table_ht s"
    "proc_live s' = proc_live s" "\<And>b. proc_live s b \<Longrightarrow> procs s' b = procs s b" by auto
qed

lemma process_terminate_spec:
  assumes "pt_inv s" "process_table s i = Some a" "p_pid (procs s a) \<noteq> 0" "s' = process_terminate (Some a) s"
  shows "pt_inv s' \<and> process_table s' = (process_table s)(i := None) \<and> \<not> proc_live s' a \<and>
    hash_table_lookup (process_table_ht s') = (hash_table_lookup (process_table_ht s))(p_pid (procs s a) := None) \<and>
    (\<forall>b. b \<noteq> a \<longrightarrow> procs s' b = procs s b \<and> proc_live s' b = proc_live s b)"
proof -
  note I = pt_invD[OF assms(1)]
  have "i \<noteq> 0" using assms(2,3) I(7,8) by (cases "i = 0") auto
  then have i: "1 \<le> i" "i < 128" using I(2)[OF assms(2)] by simp_all
  have f: "find (\<lambda>j. process_table s j = Some a) [1..<128] = Some i"
    by (rule find_upt_SomeI) (use i assms(2) I(4) in auto)
  define t where "t = fst (hash_table_remove (process_table_ht s) (p_pid (procs s a)))"
  have t: "ht_inv t" "hash_table_lookup t = (hash_table_lookup (process_table_ht s))(p_pid (procs s a) := None)"
    using ht.remove_inv[OF I(1)] ht.remove_lookup[OF I(1)] by (simp_all add: t_def)
  have s': "process_table s' = (process_table s)(i := None)" "process_table_ht s' = t"
    "proc_live s' = (proc_live s)(a := False)" "next_pid s' = next_pid s"
    "procs s' = (procs s)(a := procs s' a)" "p_pid (procs s' a) = p_pid (procs s a)"
    using assms(3,4) f by (simp_all add: process_terminate_def Let_def set_state_def t_def kernel_const)
  have other: "procs s' b = procs s b" if "b \<noteq> a" for b using s'(5) that by (metis fun_upd_other)
  have pid: "p_pid (procs s' b) = p_pid (procs s b)" for b using other s'(6) by (cases "b = a") auto
  have tab: "process_table s' j = Some b \<longleftrightarrow> process_table s j = Some b \<and> b \<noteq> a" for j b
  proof (cases "j = i")
    case True
    then show ?thesis using s'(1) assms(2) by auto
  next
    case False
    then have "process_table s j \<noteq> Some a" using I(4)[of j a i] assms(2) by blast
    then show ?thesis using False s'(1) by auto
  qed
  have "pt_inv s'"
    unfolding pt_inv_def
  proof (intro conjI allI impI)
    show "ht_inv (process_table_ht s')" using t s' by simp
    show "j < 128" "proc_live s' b" if "process_table s' j = Some b" for j b
      using that tab I(2,3) s'(3) by auto
    show "j = k" if "process_table s' j = Some b \<and> process_table s' k = Some b" for j k b
      using that I(4)[of j b k] by (simp add: tab)
    show "(hash_table_lookup (process_table_ht s') q = Some b) =
        (p_pid (procs s' b) = q \<and> (\<exists>j. process_table s' j = Some b))" for q b
    proof -
      have "hash_table_lookup (process_table_ht s) (p_pid (procs s a)) = Some a" using I(5) assms(2) by blast
      moreover have "(\<exists>j. process_table s' j = Some b) \<longleftrightarrow> (\<exists>j. process_table s j = Some b) \<and> b \<noteq> a"
        using tab by blast
      ultimately show ?thesis using I(5)[of q b] t(2) s'(2) pid[of b] by auto
    qed
    show "p_pid (procs s' b) < next_pid s'" if "process_table s' j = Some b" for j b
      using that tab I(6) pid s'(4) by auto
    show "process_table s' 0 = Some kernel_proc" using tab[of 0 kernel_proc] I(7,8) assms(3) by auto
    show "p_pid (procs s' kernel_proc) = 0" using pid I(8) by simp
  qed
  then show ?thesis using s' t other by simp
qed


section \<open>Boot\<close>

text \<open>The static initialisers: one CPU, empty tables, \<open>next_pid\<close> and \<open>console_pgrp\<close> are 1.\<close>

definition boot_cpu :: "nat \<Rightarrow> cpu" where
  "boot_cpu i = \<lparr>cpu_id = i, current_proc = None, run_queues = (\<lambda>_. None), sched_ticks = 0,
     schedule_calls = 0, last_steal_tick = 0, quantum_left = 0, current_queue = 0, idle_proc = None,
     rcu_qs_count = 0, cpu_cr3 = None, tss_esp0 = 0\<rparr>"

definition kstate_boot :: kstate where
  "kstate_boot = \<lparr>procs = (\<lambda>_. zero_process), proc_live = (\<lambda>_. False), process_table = (\<lambda>_. None),
     process_table_ht = hash_table_init [], next_pid = 1, console_pgrp = 1, cpus = boot_cpu,
     cpu_count = 1, this_cpu = 0, rr_counter = 0, scheduler_enabled = False, ipis = [],
     wq_entry_proc = (\<lambda>_. None), page_directory = (\<lambda>_. None), switches = []\<rparr>"

lemma process_init_inv:
  assumes "process_table s = (\<lambda>_. None)" "next_pid s = 1" "s' = process_init stack s"
  shows "pt_inv s'"
proof -
  define t :: "nat hash_table" where "t = hash_table_init ''processes''"
  have t: "ht_inv t" "hash_table_lookup t = Map.empty" by (simp_all add: t_def hash_table_init_inv)
  obtain t' where t': "hash_table_insert t 0 (Some kernel_proc) = Inr t'" "ht_inv t'"
    "hash_table_lookup t' = (hash_table_lookup t)(0 \<mapsto> kernel_proc)"
    using ht.insert_new[OF t(1), of 0 kernel_proc] t(2) by auto
  have "process_table s' = (\<lambda>_. None)(0 := Some kernel_proc)" "process_table_ht s' = t'"
    "next_pid s' = 1" "proc_live s' kernel_proc" "p_pid (procs s' kernel_proc) = 0"
    using assms t' by (simp_all add: process_init_def Let_def set_current_def t_def split: option.splits)
  then show ?thesis using t' t(2) by (auto simp: pt_inv_def)
qed


text \<open>
  A small running system: the kernel process, \<open>init\<close> (address 1, pid 1) and a child of it
  (address 2, pid 2), with \<open>init\<close> current.
\<close>

definition init_running :: kstate where
  "init_running = set_current 1
     (fst (process_create (Some ''init'') 0x8048000 (Some 1) (Some 0x400000) (Some 1)
       (process_init (Some 0x300000) kstate_boot)))"

definition init_and_child :: kstate where
  "init_and_child =
     fst (process_create (Some ''sh'') 0x8048000 (Some 2) (Some 0x402000) (Some 2) init_running)"

lemma pt_inv_set_current [kernel_inv]: "pt_inv s \<Longrightarrow> pt_inv (set_current a s)"
  by (simp add: set_current_def kernel_inv)

lemma init_running_facts:
  "process_table init_running 2 = None" "free_slot init_running = Some 2"
  "\<not> proc_live init_running 2" "next_pid init_running = 2"
  "process_table init_running 1 = Some 1" "p_pid (procs init_running 1) = 1"
  "current_process init_running = Some 1"
  by code_simp+


lemma init_running_inv: "pt_inv init_running"
proof -
  define s0 where "s0 = process_init (Some 0x300000) kstate_boot"
  have i: "pt_inv s0" using process_init_inv[OF _ _ s0_def] by (simp add: kstate_boot_def)
  have f: "free_slot s0 = Some 1" "\<not> proc_live s0 1" "next_pid s0 \<noteq> -1"
    unfolding s0_def by code_simp+
  obtain s1 r where c: "process_create (Some ''init'') 0x8048000 (Some 1) (Some 0x400000) (Some 1) s0 = (s1, r)"
    by fastforce
  then have "pt_inv s1" using process_create_enters[OF i f(2,3,1) c] by blast
  then show ?thesis using c by (simp add: init_running_def s0_def kernel_inv)
qed

lemma init_and_child_inv: "pt_inv init_and_child"
proof -
  obtain s1 r where c:
    "process_create (Some ''sh'') 0x8048000 (Some 2) (Some 0x402000) (Some 2) init_running = (s1, r)"
    by fastforce
  have "next_pid init_running \<noteq> -1" using init_running_facts by simp
  then have "pt_inv s1"
    using process_create_enters[OF init_running_inv _ _ _ c] init_running_facts by blast
  then show ?thesis using c by (simp add: init_and_child_def)
qed

lemma init_and_child_facts:
  "process_table init_and_child 2 = Some 2" "p_pid (procs init_and_child 2) = 2"
  "p_ppid (procs init_and_child 2) = 1" "p_state (procs init_and_child 2) = PROCESS_READY"
  "process_find_by_pid init_and_child 2 = Some 2" "get_current_process init_and_child = 1"
  "p_euid (procs init_and_child 1) = 0"
  by code_simp+

section \<open>Properties\<close>

text \<open>
  C9 (process table, invariant and functional).  Creating a process with a fresh node, a
  free slot and successful allocations keeps the table invariant; the new process is READY
  under the pid that was next, is found by that pid, and no other process is found
  differently or changed.
\<close>
theorem process_create_findable:
  assumes "pt_inv s" "\<not> proc_live s a" "next_pid s \<noteq> -1" "free_slot s \<noteq> None"
    and "process_create (Some nm) entry (Some a) (Some st) mem s = (s', r)"
  shows "r = Some a \<and> pt_inv s' \<and> p_pid (procs s' a) = next_pid s \<and>
    p_state (procs s' a) = PROCESS_READY \<and> (\<forall>b. b \<noteq> a \<longrightarrow> procs s' b = procs s b) \<and>
    process_find_by_pid s' (next_pid s) = Some a \<and>
    (\<forall>pid. pid \<noteq> next_pid s \<longrightarrow> process_find_by_pid s' pid = process_find_by_pid s pid)"
proof -
  obtain i where i: "free_slot s = Some i" using assms(4) by blast
  note e = process_create_enters[OF assms(1-3) i assms(5)]
  have "procs s' b = procs s b" if "hash_table_lookup (process_table_ht s) pid = Some b" for pid b
    using e that pt_invD(3,5)[OF assms(1)] assms(2) by metis
  then have "process_find_by_pid s' pid = process_find_by_pid s pid" if "pid \<noteq> next_pid s" for pid
    using that e by (simp add: process_find_by_pid_def split: option.splits)
  then show ?thesis using e by (simp add: process_find_by_pid_def)
qed

theorem process_create_findable_witness:
  "process_find_by_pid init_and_child 2 = Some 2 \<and>
   process_find_by_pid init_and_child 1 = process_find_by_pid init_running 1"
proof -
  obtain s1 r where c:
    "process_create (Some ''sh'') 0x8048000 (Some 2) (Some 0x402000) (Some 2) init_running = (s1, r)"
    by fastforce
  have s1: "s1 = init_and_child" using c by (simp add: init_and_child_def)
  from process_create_findable[OF init_running_inv _ _ _ c] init_running_facts
  show ?thesis unfolding s1 by simp
qed

text \<open>
  C10 (process table, functional).  Reaping a process of the table (any but the kernel
  process) keeps the invariant, frees its slot and its pid, and leaves every other process
  where it was: the slot is available to the next creation.
\<close>
theorem process_terminate_frees:
  assumes "pt_inv s" "process_table s i = Some a" "p_pid (procs s a) \<noteq> 0"
  shows "pt_inv (process_terminate (Some a) s) \<and>
    process_table (process_terminate (Some a) s) = (process_table s)(i := None) \<and>
    process_find_by_pid (process_terminate (Some a) s) (p_pid (procs s a)) = None \<and>
    free_slot (process_terminate (Some a) s) \<noteq> None \<and>
    (\<forall>b. b \<noteq> a \<longrightarrow> procs (process_terminate (Some a) s) b = procs s b)"
proof -
  note t = process_terminate_spec[OF assms refl]
  have "i \<noteq> 0" using assms(2,3) pt_invD(7,8)[OF assms(1)] by (cases "i = 0") auto
  moreover have "i < 128" using pt_invD(2)[OF assms(1,2)] .
  ultimately have "1 \<le> i \<and> i < 128 \<and> process_table (process_terminate (Some a) s) i = None" using t by simp
  then have "free_slot (process_terminate (Some a) s) \<noteq> None" unfolding free_slot_None by blast
  then show ?thesis using t by (simp add: process_find_by_pid_def)
qed

theorem process_terminate_frees_witness:
  "pt_inv init_and_child \<and> process_table init_and_child 2 = Some 2 \<and>
   process_find_by_pid (process_terminate (Some 2) init_and_child) 2 = None"
  using process_terminate_frees[of init_and_child 2 2] init_and_child_inv init_and_child_facts by simp

end
