(* ===== verification/Signal.thy ===== *)
theory Signal
  imports Process
begin

text \<open>
  Wait queues (\<^verbatim>\<open>src/kernel/core/waitq.c\<close>), signals (\<^verbatim>\<open>src/kernel/core/signal.c\<close>),
  alarms (\<^verbatim>\<open>alarm.c\<close>), credentials (\<^verbatim>\<open>cred.c\<close>), \<open>nice\<close> (\<^verbatim>\<open>priority.c\<close>) and job
  control (\<^verbatim>\<open>jobctl.c\<close>) on the state of theory \<open>Process\<close>.  A wait queue is the list of
  its linked entries; the process of an entry is in \<open>wq_entry_proc\<close>.
\<close>

section \<open>Wait queues\<close>

definition wait_queue_init :: "nat list" where
  "wait_queue_init = []"

definition wait_queue_prepare :: "nat list \<Rightarrow> nat \<Rightarrow> 'a kstate_scheme \<Rightarrow> nat list \<times> 'a kstate_scheme" where
  "wait_queue_prepare wq entry s =
     (case current_process s of
        None \<Rightarrow> (wq, s)
      | Some p \<Rightarrow>
          let (wq', s') = (if wq_entry_proc s entry \<noteq> Some p
                           then (entry # wq, s\<lparr>wq_entry_proc := (wq_entry_proc s)(entry := Some p)\<rparr>)
                           else (wq, s))
          in (wq', set_state p PROCESS_BLOCKED s'))"

definition wait_queue_finish :: "nat list \<Rightarrow> nat \<Rightarrow> 'a kstate_scheme \<Rightarrow> nat list \<times> 'a kstate_scheme" where
  "wait_queue_finish wq entry s =
     (let wq' = remove1 entry wq
      in case wq_entry_proc s entry of
           None \<Rightarrow> (wq', s)
         | Some p \<Rightarrow>
             let s' = cas_state p PROCESS_BLOCKED PROCESS_RUNNING s
             in (wq', s'\<lparr>wq_entry_proc := (wq_entry_proc s')(entry := None)\<rparr>))"

definition wake_entry :: "nat \<Rightarrow> 'a kstate_scheme \<Rightarrow> 'a kstate_scheme" where
  "wake_entry e s =
     (case wq_entry_proc s e of
        None \<Rightarrow> s
      | Some p \<Rightarrow>
          let s' = set_state p PROCESS_READY s
          in if p_owner_cpu (procs s' p) < MAX_CPUS \<and> p_owner_cpu (procs s' p) \<noteq> this_cpu_id s'
             then smp_ipi_send (p_owner_cpu (procs s' p)) s' else s')"

text \<open>The queue is emptied first, then the detached entries are woken in order.\<close>

definition wake_all :: "nat list \<Rightarrow> 'a kstate_scheme \<Rightarrow> nat list \<times> 'a kstate_scheme" where
  "wake_all wq s = ([], fold wake_entry wq s)"

section \<open>Signals\<close>

definition SIGKILL :: int where [kernel_const]: "SIGKILL = 9"
definition SIGUSR1 :: int where [kernel_const]: "SIGUSR1 = 10"
definition SIGUSR2 :: int where [kernel_const]: "SIGUSR2 = 12"
definition SIGPIPE :: int where [kernel_const]: "SIGPIPE = 13"
definition SIGALRM :: int where [kernel_const]: "SIGALRM = 14"
definition SIGCHLD :: int where [kernel_const]: "SIGCHLD = 17"
definition SIGCONT :: int where [kernel_const]: "SIGCONT = 18"
definition SIGSTOP :: int where [kernel_const]: "SIGSTOP = 19"

datatype sig_action = ACT_TERM | ACT_IGN

definition default_action :: "int \<Rightarrow> sig_action" where
  "default_action sig =
     (if sig = SIGCHLD \<or> sig = SIGUSR1 \<or> sig = SIGUSR2 then ACT_IGN else ACT_TERM)"

text \<open>The default actions of the signal table the user interface publishes (below 32).\<close>

datatype uapi_action = A_TERM | A_CORE | A_IGN | A_STOP | A_CONT

definition uapi_signals :: "(int \<times> uapi_action) list" where
  "uapi_signals =
    [(1, A_TERM), (2, A_TERM), (3, A_CORE), (4, A_CORE), (5, A_CORE), (6, A_CORE), (7, A_CORE), (8, A_CORE),
     (9, A_TERM), (10, A_TERM), (11, A_CORE), (12, A_TERM), (13, A_TERM), (14, A_TERM), (15, A_TERM),
     (16, A_TERM), (17, A_IGN), (18, A_CONT), (19, A_STOP), (20, A_STOP), (21, A_STOP), (22, A_STOP),
     (23, A_IGN), (24, A_CORE), (25, A_CORE), (26, A_TERM), (27, A_TERM), (28, A_IGN), (29, A_TERM),
     (30, A_TERM), (31, A_CORE)]"

definition sig_bit :: "int \<Rightarrow> u32" where
  "sig_bit sig = push_bit (nat sig) 1"

definition process_deliver_signal :: "nat \<Rightarrow> int \<Rightarrow> 'a kstate_scheme \<Rightarrow> 'a kstate_scheme" where
  "process_deliver_signal proc sig s =
     (case p_signal_handlers (procs s proc) (nat sig) of
        SIG_IGN \<Rightarrow> s
      | SIG_DFL \<Rightarrow>
          (if default_action sig = ACT_TERM
           then upd_proc proc (\<lambda>p. p\<lparr>p_state := PROCESS_TERMINATED, p_exit_code := word_of_int sig AND 0x7F\<rparr>) s
           else s)
      | SIG_USER _ \<Rightarrow>
          upd_proc proc (\<lambda>p. p\<lparr>p_signal_pending := p_signal_pending p OR sig_bit sig\<rparr>) s)"

definition may_signal :: "process \<Rightarrow> process \<Rightarrow> bool" where
  "may_signal sender target \<longleftrightarrow>
     \<not> (p_euid sender \<noteq> 0 \<and> p_euid sender \<noteq> p_uid target \<and> p_euid sender \<noteq> p_suid target)"

definition process_send_signal :: "u32 \<Rightarrow> int \<Rightarrow> 'a kstate_scheme \<Rightarrow> 'a kstate_scheme \<times> unit res" where
  "process_send_signal pid sig s =
     (if sig < 1 \<or> int NSIG_HANDLED \<le> sig then (s, Inl EINVAL)
      else (case process_find_by_pid s pid of
              None \<Rightarrow> (s, Inl ESRCH)
            | Some target \<Rightarrow>
                if \<not> may_signal (procs s (get_current_process s)) (procs s target) then (s, Inl EPERM)
                else
                  let s1 =
                    (if sig = SIGKILL then
                       upd_proc target (\<lambda>p. p\<lparr>p_state := PROCESS_TERMINATED,
                         p_exit_code := word_of_int SIGKILL AND 0x7F\<rparr>) s
                     else if sig = SIGSTOP then set_state target PROCESS_BLOCKED s
                     else if sig = SIGCONT then cas_state target PROCESS_BLOCKED PROCESS_READY s
                     else if p_signal_mask (procs s target) AND sig_bit sig \<noteq> 0 then
                       upd_proc target (\<lambda>p. p\<lparr>p_signal_pending := p_signal_pending p OR sig_bit sig\<rparr>) s
                     else process_deliver_signal target sig s);
                    owner = p_owner_cpu (procs s1 target)
                  in (if owner < cpu_count s1 \<and> owner \<noteq> this_cpu_id s1 then smp_ipi_send owner s1 else s1,
                      Inr ())))"

text \<open>The previous handler is the returned value.\<close>

definition process_set_signal_handler ::
  "nat \<Rightarrow> int \<Rightarrow> sig_handler \<Rightarrow> 'a kstate_scheme \<Rightarrow> 'a kstate_scheme \<times> sig_handler res" where
  "process_set_signal_handler proc sig h s =
     (if sig < 1 \<or> int NSIG_HANDLED \<le> sig then (s, Inl EINVAL)
      else if sig = SIGKILL \<or> sig = SIGSTOP then (s, Inl EINVAL)
      else (upd_proc proc (\<lambda>p. p\<lparr>p_signal_handlers := (p_signal_handlers p)(nat sig := h)\<rparr>) s,
            Inr (p_signal_handlers (procs s proc) (nat sig))))"

definition signal_pending_check :: "'a kstate_scheme \<Rightarrow> bool" where
  "signal_pending_check s =
     (let p = procs s (get_current_process s)
      in p_signal_pending p AND NOT (p_signal_mask p) \<noteq> 0)"

section \<open>Alarms\<close>

definition alarm_one :: "nat \<Rightarrow> 'a kstate_scheme \<Rightarrow> 'a kstate_scheme" where
  "alarm_one i s =
     (case process_get_by_index s i of
        None \<Rightarrow> s
      | Some a \<Rightarrow>
          if p_state (procs s a) = PROCESS_TERMINATED \<or> p_state (procs s a) = PROCESS_ZOMBIE then s
          else if p_alarm_ticks (procs s a) = 0 then s
          else
            let prev = p_alarm_ticks (procs s a);
                s' = upd_proc a (\<lambda>p. p\<lparr>p_alarm_ticks := p_alarm_ticks p - 1\<rparr>) s
            in if prev = 1 then fst (process_send_signal (p_pid (procs s' a)) SIGALRM s') else s')"

definition alarm_tick :: "'a kstate_scheme \<Rightarrow> 'a kstate_scheme" where
  "alarm_tick s = fold alarm_one [0..<MAX_PROCESSES_CONST] s"

section \<open>Credentials\<close>

definition cred_set_uid :: "process option \<Rightarrow> u32 \<Rightarrow> process res" where
  "cred_set_uid proc uid =
     (case proc of None \<Rightarrow> Inl ESRCH
      | Some p \<Rightarrow>
          if p_euid p = 0 then Inr (p\<lparr>p_uid := uid, p_euid := uid, p_suid := uid\<rparr>)
          else if uid = p_uid p \<or> uid = p_euid p \<or> uid = p_suid p then Inr (p\<lparr>p_euid := uid\<rparr>)
          else Inl EPERM)"

definition cred_set_gid :: "process option \<Rightarrow> u32 \<Rightarrow> process res" where
  "cred_set_gid proc gid =
     (case proc of None \<Rightarrow> Inl ESRCH
      | Some p \<Rightarrow>
          if p_euid p = 0 then Inr (p\<lparr>p_gid := gid, p_egid := gid, p_sgid := gid\<rparr>)
          else if gid = p_gid p \<or> gid = p_egid p \<or> gid = p_sgid p then Inr (p\<lparr>p_egid := gid\<rparr>)
          else Inl EPERM)"

definition cred_set_euid :: "process option \<Rightarrow> u32 \<Rightarrow> process res" where
  "cred_set_euid proc euid =
     (case proc of None \<Rightarrow> Inl ESRCH
      | Some p \<Rightarrow>
          if p_euid p = 0 \<or> euid = p_uid p \<or> euid = p_suid p then Inr (p\<lparr>p_euid := euid\<rparr>)
          else Inl EPERM)"

definition cred_set_egid :: "process option \<Rightarrow> u32 \<Rightarrow> process res" where
  "cred_set_egid proc egid =
     (case proc of None \<Rightarrow> Inl ESRCH
      | Some p \<Rightarrow>
          if p_euid p = 0 \<or> egid = p_gid p \<or> egid = p_sgid p then Inr (p\<lparr>p_egid := egid\<rparr>)
          else Inl EPERM)"

section \<open>Priority\<close>

definition sys_nice :: "int \<Rightarrow> 'a kstate_scheme \<Rightarrow> 'a kstate_scheme \<times> int" where
  "sys_nice increment s =
     (let a = get_current_process s;
          new_prio = sint (p_priority (procs s a) + word_of_int increment);
          new_prio = (if new_prio < 0 then 0 else new_prio);
          new_prio = (if 39 < new_prio then 39 else new_prio)
      in (upd_proc a (\<lambda>p. p\<lparr>p_priority := word_of_int new_prio\<rparr>) s, new_prio - 20))"

section \<open>Job control\<close>

definition process_setpgid :: "u32 \<Rightarrow> u32 \<Rightarrow> 'a kstate_scheme \<Rightarrow> 'a kstate_scheme \<times> unit res" where
  "process_setpgid pid pgid s =
     (let cur = procs s (get_current_process s);
          pid = (if pid = 0 then p_pid cur else pid);
          pgid = (if pgid = 0 then pid else pgid)
      in case process_find_by_pid s pid of
           None \<Rightarrow> (s, Inl ESRCH)
         | Some t \<Rightarrow>
             if p_pid (procs s t) \<noteq> p_pid cur \<and> p_ppid (procs s t) \<noteq> p_pid cur then (s, Inl EPERM)
             else (upd_proc t (\<lambda>p. p\<lparr>p_pgid := pgid\<rparr>) s, Inr ()))"

definition process_getpgid :: "u32 \<Rightarrow> 'a kstate_scheme \<Rightarrow> u32 res" where
  "process_getpgid pid s =
     (if pid = 0 then Inr (p_pgid (procs s (get_current_process s)))
      else (case process_find_by_pid s pid of
              None \<Rightarrow> Inl ESRCH | Some t \<Rightarrow> Inr (p_pgid (procs s t))))"

definition process_getpgrp :: "'a kstate_scheme \<Rightarrow> u32 res" where
  "process_getpgrp s = Inr (p_pgid (procs s (get_current_process s)))"

definition process_setsid :: "'a kstate_scheme \<Rightarrow> 'a kstate_scheme \<times> u32 res" where
  "process_setsid s =
     (let a = get_current_process s; cur = procs s a
      in if p_pid cur = p_pgid cur then (s, Inl EPERM)
         else (upd_proc a (\<lambda>p. p\<lparr>p_sid := p_pid p, p_pgid := p_pid p, p_tty := -1\<rparr>) s, Inr (p_pid cur)))"

definition process_getsid :: "u32 \<Rightarrow> 'a kstate_scheme \<Rightarrow> u32 res" where
  "process_getsid pid s =
     (if pid = 0 then Inr (p_sid (procs s (get_current_process s)))
      else (case process_find_by_pid s pid of
              None \<Rightarrow> Inl ESRCH | Some t \<Rightarrow> Inr (p_sid (procs s t))))"

definition process_tcgetpgrp :: "int \<Rightarrow> 'a kstate_scheme \<Rightarrow> u32 res" where
  "process_tcgetpgrp fd s = (if 2 < fd then Inl ENOTTY else Inr (console_pgrp s))"

definition process_tcsetpgrp :: "int \<Rightarrow> u32 \<Rightarrow> 'a kstate_scheme \<Rightarrow> 'a kstate_scheme \<times> unit res" where
  "process_tcsetpgrp fd pgrp s =
     (if 2 < fd then (s, Inl ENOTTY) else (s\<lparr>console_pgrp := pgrp\<rparr>, Inr ()))"


section \<open>The process table is kept\<close>

lemma pt_inv_entries [simp]: "pt_inv (s\<lparr>wq_entry_proc := e\<rparr>) = pt_inv s"
  by (auto simp: pt_inv_def)

lemma pt_inv_console [simp]: "pt_inv (s\<lparr>console_pgrp := g\<rparr>) = pt_inv s"
  by (auto simp: pt_inv_def)

lemma wait_queue_prepare_inv [kernel_inv]: "pt_inv s \<Longrightarrow> pt_inv (snd (wait_queue_prepare wq e s))"
  by (auto simp: wait_queue_prepare_def Let_def kernel_inv split: option.splits)

lemma wait_queue_finish_inv [kernel_inv]: "pt_inv s \<Longrightarrow> pt_inv (snd (wait_queue_finish wq e s))"
  by (auto simp: wait_queue_finish_def Let_def kernel_inv split: option.splits)

lemma wake_entry_inv [kernel_inv]: "pt_inv s \<Longrightarrow> pt_inv (wake_entry e s)"
  by (auto simp: wake_entry_def Let_def kernel_inv split: option.splits)

lemma wake_all_inv [kernel_inv]: "pt_inv s \<Longrightarrow> pt_inv (snd (wake_all wq s))"
proof -
  have "pt_inv s \<Longrightarrow> pt_inv (fold wake_entry wq s)"
    by (induction wq arbitrary: s) (simp_all add: wake_entry_inv)
  then show "pt_inv s \<Longrightarrow> pt_inv (snd (wake_all wq s))" by (simp add: wake_all_def)
qed

lemma process_deliver_signal_inv [kernel_inv]: "pt_inv s \<Longrightarrow> pt_inv (process_deliver_signal a sig s)"
  by (auto simp: process_deliver_signal_def kernel_inv split: sig_handler.splits)

lemma process_send_signal_inv [kernel_inv]: "pt_inv s \<Longrightarrow> pt_inv (fst (process_send_signal pid sig s))"
  by (auto simp: process_send_signal_def Let_def kernel_inv split: option.splits)

lemma alarm_one_inv [kernel_inv]: "pt_inv s \<Longrightarrow> pt_inv (alarm_one i s)"
  by (auto simp: alarm_one_def Let_def kernel_inv split: option.splits)

lemma alarm_tick_inv [kernel_inv]: "pt_inv s \<Longrightarrow> pt_inv (alarm_tick s)"
proof -
  have "pt_inv s \<Longrightarrow> pt_inv (fold alarm_one is s)" for "is"
    by (induction "is" arbitrary: s) (simp_all add: alarm_one_inv)
  then show "pt_inv s \<Longrightarrow> pt_inv (alarm_tick s)" by (simp add: alarm_tick_def)
qed

section \<open>Who is touched by a signal\<close>

lemma find_by_pid_pid:
  assumes "pt_inv s" "process_find_by_pid s pid = Some a"
  shows "p_pid (procs s a) = pid" "p_state (procs s a) \<noteq> PROCESS_TERMINATED"
  using assms pt_invD(5)[OF assms(1)]
  by (auto simp: process_find_by_pid_def split: option.splits if_splits)

lemma find_by_pid_table:
  assumes "pt_inv s" "process_table s i = Some a" "p_state (procs s a) \<noteq> PROCESS_TERMINATED"
  shows "process_find_by_pid s (p_pid (procs s a)) = Some a"
proof -
  have "hash_table_lookup (process_table_ht s) (p_pid (procs s a)) = Some a"
    using pt_invD(5)[OF assms(1)] assms(2) by blast
  then show ?thesis using assms(3) by (simp add: process_find_by_pid_def)
qed

lemma deliver_other: "b \<noteq> a \<Longrightarrow> procs (process_deliver_signal a sig s) b = procs s b"
  by (simp add: process_deliver_signal_def split: sig_handler.splits)

lemma send_signal_other:
  assumes "pt_inv s" "p_pid (procs s b) \<noteq> pid"
  shows "procs (fst (process_send_signal pid sig s)) b = procs s b"
proof (cases "process_find_by_pid s pid")
  case None
  then show ?thesis by (simp add: process_send_signal_def)
next
  case (Some a)
  then have "b \<noteq> a" using find_by_pid_pid[OF assms(1) Some] assms(2) by blast
  then show ?thesis using Some
    by (simp add: process_send_signal_def Let_def set_state_def cas_state_def deliver_other)
qed

lemma send_signal_alarm_ticks:
  "p_alarm_ticks (procs (fst (process_send_signal pid sig s)) b) = p_alarm_ticks (procs s b)"
  "p_pid (procs (fst (process_send_signal pid sig s)) b) = p_pid (procs s b)"
  "process_table (fst (process_send_signal pid sig s)) = process_table s"
  by (auto simp: process_send_signal_def Let_def process_deliver_signal_def set_state_def cas_state_def
      split: option.splits sig_handler.splits)

section \<open>Credentials cannot be amplified\<close>

datatype cred_op = Set_uid u32 | Set_gid u32 | Set_euid u32 | Set_egid u32

fun cred_run :: "cred_op \<Rightarrow> process \<Rightarrow> process" where
  "cred_run (Set_uid u) p = (case cred_set_uid (Some p) u of Inl _ \<Rightarrow> p | Inr p' \<Rightarrow> p')"
| "cred_run (Set_gid u) p = (case cred_set_gid (Some p) u of Inl _ \<Rightarrow> p | Inr p' \<Rightarrow> p')"
| "cred_run (Set_euid u) p = (case cred_set_euid (Some p) u of Inl _ \<Rightarrow> p | Inr p' \<Rightarrow> p')"
| "cred_run (Set_egid u) p = (case cred_set_egid (Some p) u of Inl _ \<Rightarrow> p | Inr p' \<Rightarrow> p')"

definition uids :: "process \<Rightarrow> u32 set" where
  "uids p = {p_uid p, p_euid p, p_suid p}"

definition gids :: "process \<Rightarrow> u32 set" where
  "gids p = {p_gid p, p_egid p, p_sgid p}"

lemma cred_run_step:
  assumes "0 \<notin> uids p"
  shows "uids (cred_run op p) \<subseteq> uids p" "gids (cred_run op p) \<subseteq> gids p"
  using assms
  by (cases op; auto simp: uids_def gids_def cred_set_uid_def cred_set_gid_def cred_set_euid_def
      cred_set_egid_def split: if_splits)+


section \<open>Alarms one process at a time\<close>

lemma pids_differ:
  assumes "pt_inv s" "process_table s i = Some a" "process_table s j = Some b" "i \<noteq> j"
  shows "a \<noteq> b" "p_pid (procs s a) \<noteq> p_pid (procs s b)"
proof -
  show "a \<noteq> b" using pt_invD(4)[OF assms(1), of i a j] assms(2-4) by blast
  then show "p_pid (procs s a) \<noteq> p_pid (procs s b)"
    using pt_invD(5)[OF assms(1)] assms(2,3) by (metis option.inject)
qed

lemma alarm_one_table [simp]: "process_table (alarm_one j s) = process_table s"
  by (simp add: alarm_one_def Let_def send_signal_alarm_ticks split: option.splits)

lemma alarm_one_other:
  assumes "pt_inv s" "process_table s i = Some a" "i \<noteq> j"
  shows "procs (alarm_one j s) a = procs s a"
proof (cases "process_get_by_index s j")
  case None
  then show ?thesis by (simp add: alarm_one_def)
next
  case (Some b)
  then have j: "process_table s j = Some b"
    by (auto simp: process_get_by_index_def split: if_splits option.splits)
  note d = pids_differ[OF assms(1,2) j assms(3)]
  define s1 where "s1 = upd_proc b (\<lambda>p. p\<lparr>p_alarm_ticks := p_alarm_ticks p - 1\<rparr>) s"
  have "pt_inv s1" using assms(1) by (simp add: s1_def kernel_inv)
  then have "procs (fst (process_send_signal (p_pid (procs s1 b)) SIGALRM s1)) a = procs s1 a"
    using d by (intro send_signal_other) (auto simp: s1_def)
  then show ?thesis using Some d by (simp add: alarm_one_def Let_def s1_def[symmetric]) (simp add: s1_def)
qed

lemma alarm_fold_other:
  assumes "pt_inv s" "process_table s i = Some a" "i \<notin> set js"
  shows "procs (fold alarm_one js s) a = procs s a \<and> process_table (fold alarm_one js s) = process_table s
    \<and> pt_inv (fold alarm_one js s)"
  using assms
proof (induction js arbitrary: s)
  case (Cons j js)
  then show ?case using Cons.IH[of "alarm_one j s"] alarm_one_other[of s i a j]
    by (simp add: alarm_one_inv)
qed simp

lemma alarm_tick_at:
  fixes s :: "'s kstate_scheme"
  assumes "pt_inv s" "process_table s i = Some a"
  shows "\<exists>s1 :: 's kstate_scheme. pt_inv s1 \<and> process_table s1 = process_table s \<and> procs s1 a = procs s a
     \<and> procs (alarm_tick s) a = procs (alarm_one i s1) a"
proof -
  have i: "i < 128" using pt_invD(2)[OF assms] .
  then have sp: "[0..<128] = [0..<i] @ i # [Suc i..<128]"
    using upt_add_eq_append[of 0 i "128 - i"] upt_conv_Cons[of i 128] by simp
  define s1 where "s1 = fold alarm_one [0..<i] s"
  have a: "procs s1 a = procs s a \<and> process_table s1 = process_table s \<and> pt_inv s1"
    using alarm_fold_other[OF assms, of "[0..<i]"] by (simp add: s1_def)
  have "procs (fold alarm_one [Suc i..<128] (alarm_one i s1)) a = procs (alarm_one i s1) a"
    using alarm_fold_other[of "alarm_one i s1" i a "[Suc i..<128]"] a assms by (simp add: alarm_one_inv)
  then have "procs (alarm_tick s) a = procs (alarm_one i s1) a"
    by (simp add: alarm_tick_def MAX_PROCESSES_CONST_def sp s1_def del: upt_rec_numeral)
  then show ?thesis using a by blast
qed

section \<open>Properties\<close>

text \<open>
  C11 (credentials, safety).  A process none of whose real, effective and saved user ids is
  root can never obtain an id, user or group, outside the ones it already holds, whatever
  sequence of \<open>setuid\<close>, \<open>setgid\<close>, \<open>seteuid\<close> and \<open>setegid\<close> calls it makes.
\<close>
theorem cred_no_amplification:
  assumes "0 \<notin> uids p"
  shows "uids (fold cred_run ops p) \<subseteq> uids p \<and> gids (fold cred_run ops p) \<subseteq> gids p"
  using assms
proof (induction ops arbitrary: p)
  case (Cons op ops)
  have s: "uids (cred_run op p) \<subseteq> uids p" "gids (cred_run op p) \<subseteq> gids p"
    using cred_run_step[OF Cons.prems] by auto
  then have "0 \<notin> uids (cred_run op p)" using Cons.prems by blast
  then show ?case using Cons.IH[of "cred_run op p"] s by auto
qed simp

theorem cred_no_amplification_witness:
  "let p = zero_process\<lparr>p_uid := 1000, p_euid := 1001, p_suid := 1000\<rparr>
   in p_euid (cred_run (Set_euid 1000) p) = 1000 \<and>
      uids (fold cred_run [Set_euid 1000, Set_uid 0] p) \<subseteq> {1000, 1001}"
  using cred_no_amplification[of "zero_process\<lparr>p_uid := 1000, p_euid := 1001, p_suid := 1000\<rparr>"
      "[Set_euid 1000, Set_uid 0]"]
  by (simp add: uids_def zero_process_def cred_set_euid_def cred_set_uid_def Let_def)

text \<open>
  C12 (signals, safety).  A sender that is not root and whose effective id is neither the
  real nor the saved id of a process cannot change any process with a signal: the state is
  the one before, and the answer is an error.
\<close>
theorem send_signal_denied:
  assumes "process_find_by_pid s pid = Some t"
    and "p_euid (procs s (get_current_process s)) \<notin> {0, p_uid (procs s t), p_suid (procs s t)}"
  shows "fst (process_send_signal pid sig s) = s \<and>
    snd (process_send_signal pid sig s) \<in> {Inl EINVAL, Inl EPERM}"
  using assms by (simp add: process_send_signal_def may_signal_def)

theorem send_signal_denied_witness:
  "let s = upd_proc 1 (\<lambda>p. p\<lparr>p_euid := 1000\<rparr>) init_and_child
   in process_find_by_pid s 2 = Some 2 \<and> fst (process_send_signal 2 15 s) = s"
proof -
  define s where "s = upd_proc 1 (\<lambda>p. p\<lparr>p_euid := 1000\<rparr>) init_and_child"
  have f: "process_find_by_pid s 2 = Some 2"
    "p_euid (procs s (get_current_process s)) \<notin> {0, p_uid (procs s 2), p_suid (procs s 2)}"
    unfolding s_def by code_simp+
  then show ?thesis using send_signal_denied[OF f, of 15] by (simp add: s_def)
qed

text \<open>
  C34 (signals, liveness of reaping).  A child that SIGKILL terminates is never found again
  by the search \<open>waitpid\<close> uses, zombie or not, while its slot of the process table stays
  occupied: nothing can reap it.
\<close>
theorem sigkill_child_unreapable:
  assumes "pt_inv s" "process_table s i = Some c" "p_pid (procs s c) = pid" "0 < sint pid"
    and "p_ppid (procs s c) = ppid" "process_send_signal pid SIGKILL s = (s', Inr ())"
  shows "process_find_child s' ppid pid z = None \<and> process_find_by_pid s' pid = None
     \<and> process_table s' i = Some c"
proof -
  obtain a where f: "process_find_by_pid s pid = Some a"
    using assms(6) by (auto simp: process_send_signal_def split: if_splits option.splits)
  have lk: "hash_table_lookup (process_table_ht s) pid = Some c"
    using pt_invD(5)[OF assms(1)] assms(2,3) by blast
  then have ac: "a = c" using f by (auto simp: process_find_by_pid_def split: if_splits)
  have st: "p_state (procs s' c) = PROCESS_TERMINATED" "process_table_ht s' = process_table_ht s"
    "process_table s' = process_table s"
    using assms(6) f ac
    by (auto simp: process_send_signal_def kernel_const Let_def split: if_splits)
  show ?thesis using st lk assms(2,4)
    by (auto simp: process_find_child_def process_find_by_pid_def is_child_def)
qed


theorem sigkill_child_unreapable_witness:
  "process_find_child (fst (process_send_signal 2 SIGKILL init_and_child)) 1 2 False = None"
proof -
  have "snd (process_send_signal 2 SIGKILL init_and_child) = Inr ()" by code_simp
  then have k: "process_send_signal 2 SIGKILL init_and_child
      = (fst (process_send_signal 2 SIGKILL init_and_child), Inr ())" by (metis prod.collapse)
  show ?thesis
    using sigkill_child_unreapable[OF init_and_child_inv init_and_child_facts(1,2) _ _ k] init_and_child_facts
    by simp
qed

lemma wake_entry_state:
  "p_state (procs (wake_entry x s) p) = (if wq_entry_proc s x = Some p then PROCESS_READY else p_state (procs s p))"
  "wq_entry_proc (wake_entry x s) = wq_entry_proc s"
  by (auto simp: wake_entry_def Let_def set_state_def split: option.splits)

text \<open>Every process with an entry on the queue is READY after the wake.\<close>

lemma fold_wake_ready:
  assumes "e \<in> set q" "wq_entry_proc s e = Some p"
  shows "p_state (procs (fold wake_entry q s) p) = PROCESS_READY"
proof -
  have ready: "p_state (procs s p) = PROCESS_READY \<Longrightarrow> p_state (procs (fold wake_entry xs s) p) = PROCESS_READY"
    for xs and s :: "'a kstate_scheme"
    by (induction xs arbitrary: s) (simp_all add: wake_entry_state)
  show ?thesis using assms by (induction q arbitrary: s) (auto simp: wake_entry_state ready)
qed

text \<open>
  C35 (wait queues, safety).  \<open>wake_all\<close> stores READY unconditionally: a waiter that a signal
  terminated while it slept is runnable again afterwards.
\<close>
theorem wake_all_revives_terminated:
  assumes "e \<in> set wq" "wq_entry_proc s e = Some p" "p_state (procs s p) = PROCESS_TERMINATED"
  shows "p_state (procs (snd (wake_all wq s)) p) = PROCESS_READY"
  using fold_wake_ready[OF assms(1,2)] by (simp add: wake_all_def)

theorem wake_all_revives_terminated_witness:
  "let (wq, s) = wait_queue_prepare [] 7 init_and_child; s = fst (process_send_signal 1 SIGKILL s)
   in p_state (procs s 1) = PROCESS_TERMINATED \<and> p_state (procs (snd (wake_all wq s)) 1) = PROCESS_READY"
proof -
  define s where "s = fst (process_send_signal 1 SIGKILL (snd (wait_queue_prepare [] 7 init_and_child)))"
  have f: "fst (wait_queue_prepare [] 7 init_and_child) = [7]"
    "wq_entry_proc s 7 = Some 1" "p_state (procs s 1) = PROCESS_TERMINATED"
    unfolding s_def by code_simp+
  then have "p_state (procs (snd (wake_all [7] s)) 1) = PROCESS_READY"
    using wake_all_revives_terminated[of 7 "[7]" s 1] by simp
  then show ?thesis using f by (simp add: s_def split_beta Let_def)
qed

text \<open>
  C13 (alarms, functional).  One tick decrements the alarm counter of every process in the
  table that is neither zombie nor terminated and whose counter is set, and leaves every
  other counter alone, whatever signals the tick delivers to other processes.
\<close>
theorem alarm_tick_counts_down:
  assumes "pt_inv s" "process_table s i = Some a"
  shows "p_alarm_ticks (procs (alarm_tick s) a) =
    (if p_state (procs s a) \<in> {PROCESS_TERMINATED, PROCESS_ZOMBIE} \<or> p_alarm_ticks (procs s a) = 0
     then p_alarm_ticks (procs s a) else p_alarm_ticks (procs s a) - 1)"
proof -
  obtain s1 :: "'a kstate_scheme" where s1: "pt_inv s1" "process_table s1 = process_table s"
    "procs s1 a = procs s a" "procs (alarm_tick s) a = procs (alarm_one i s1) a"
    using alarm_tick_at[OF assms] by blast
  have "i < 128" using pt_invD(2)[OF assms] .
  then show ?thesis using s1 assms(2)
    by (auto simp: alarm_one_def Let_def process_get_by_index_def kernel_const send_signal_alarm_ticks)
qed

theorem alarm_tick_counts_down_witness:
  "p_alarm_ticks (procs (alarm_tick (upd_proc 2 (\<lambda>p. p\<lparr>p_alarm_ticks := 5\<rparr>) init_and_child)) 2) = 4"
proof -
  let ?s = "upd_proc 2 (\<lambda>p. p\<lparr>p_alarm_ticks := 5\<rparr>) init_and_child"
  have "pt_inv ?s" using init_and_child_inv by (simp add: kernel_inv)
  from alarm_tick_counts_down[OF this, of 2 2] init_and_child_facts show ?thesis by simp
qed

text \<open>
  (alarms, safety).  An alarm that expires while a process that may not signal its owner
  is current is lost: the counter reaches zero and no signal is delivered or left pending.
\<close>
theorem alarm_lost_when_sender_denied:
  assumes "pt_inv s" "process_table s i = Some a" "p_alarm_ticks (procs s a) = 1"
    and "p_state (procs s a) \<notin> {PROCESS_TERMINATED, PROCESS_ZOMBIE}" "get_current_process s \<noteq> a"
    and "p_euid (procs s (get_current_process s)) \<notin> {0, p_uid (procs s a), p_suid (procs s a)}"
  shows "alarm_one i s = upd_proc a (\<lambda>p. p\<lparr>p_alarm_ticks := 0\<rparr>) s"
proof -
  define s1 where "s1 = upd_proc a (\<lambda>p. p\<lparr>p_alarm_ticks := p_alarm_ticks p - 1\<rparr>) s"
  have "pt_inv s1" using assms(1) by (simp add: s1_def kernel_inv)
  then have "process_find_by_pid s1 (p_pid (procs s1 a)) = Some a"
    by (rule find_by_pid_table[of _ i]) (use assms(2,4) in \<open>auto simp: s1_def\<close>)
  then have "fst (process_send_signal (p_pid (procs s1 a)) SIGALRM s1) = s1"
    using assms(5,6) by (simp add: process_send_signal_def kernel_const may_signal_def s1_def)
  moreover have "i < 128" using pt_invD(2)[OF assms(1,2)] .
  ultimately have "alarm_one i s = s1"
    using assms(2-4) by (simp add: alarm_one_def process_get_by_index_def kernel_const Let_def s1_def[symmetric])
  also have "s1 = upd_proc a (\<lambda>p. p\<lparr>p_alarm_ticks := 0\<rparr>) s"
    using assms(3) by (simp add: s1_def upd_proc_def)
  finally show ?thesis .
qed

theorem alarm_lost_when_sender_denied_witness:
  "let s = upd_proc 2 (\<lambda>p. p\<lparr>p_alarm_ticks := 1\<rparr>) (upd_proc 1 (\<lambda>p. p\<lparr>p_euid := 1000\<rparr>) init_and_child)
   in alarm_one 2 s = upd_proc 2 (\<lambda>p. p\<lparr>p_alarm_ticks := 0\<rparr>) s"
proof -
  let ?s = "upd_proc 2 (\<lambda>p. p\<lparr>p_alarm_ticks := 1\<rparr>) (upd_proc 1 (\<lambda>p. p\<lparr>p_euid := 1000\<rparr>) init_and_child)"
  have "pt_inv ?s" using init_and_child_inv by (simp add: kernel_inv)
  moreover have "p_uid (procs init_and_child 2) = 0" "p_suid (procs init_and_child 2) = 0"
    by code_simp+
  ultimately show ?thesis
    using alarm_lost_when_sender_denied[of ?s 2 2] init_and_child_facts by simp
qed

end
