(* ===== verification/Sched.thy ===== *)
theory Sched
  imports Signal "HOL-Library.Monad_Syntax"
begin

text \<open>
  The multi-level feedback scheduler of \<^verbatim>\<open>src/kernel/core/sched.c\<close>: per-CPU run queues
  that are circular lists linked through \<open>proc->next\<close>, round-robin placement, throttled
  work stealing, demotion at the end of a quantum and the dispatch of \<open>schedule\<close>.  The
  links are kept as pointers; the walk that looks for the predecessor of a process may not
  end on a broken ring, so it is a partial function.  Shown: under the ring invariant every
  operation returns and is the corresponding list operation, no process is lost or
  duplicated by scheduling, and the dispatched process is the head of the best queue.
\<close>

section \<open>Run queues\<close>

definition NUM_QUEUES :: nat where [kernel_const]: "NUM_QUEUES = 4"
definition STEAL_MIN_INTERVAL :: u32 where [kernel_const]: "STEAL_MIN_INTERVAL = 4"

definition queue_quantum :: "nat \<Rightarrow> u32" where
  "queue_quantum q = [5, 10, 20, 40] ! q"

definition rq_head :: "'a kstate_scheme \<Rightarrow> nat \<Rightarrow> nat \<Rightarrow> nat option" where
  "rq_head s c q = run_queues (cpus s c) q"

definition set_rq_head :: "nat \<Rightarrow> nat \<Rightarrow> nat option \<Rightarrow> 'a kstate_scheme \<Rightarrow> 'a kstate_scheme" where
  "set_rq_head c q h = upd_cpu c (\<lambda>cpu. cpu\<lparr>run_queues := (run_queues cpu)(q := h)\<rparr>)"

definition nxt :: "'a kstate_scheme \<Rightarrow> nat \<Rightarrow> nat option" where
  "nxt s a = p_next (procs s a)"

definition set_nxt :: "nat \<Rightarrow> nat option \<Rightarrow> 'a kstate_scheme \<Rightarrow> 'a kstate_scheme" where
  "set_nxt a n = upd_proc a (\<lambda>p. p\<lparr>p_next := n\<rparr>)"

definition clamp_queue :: "int \<Rightarrow> nat" where
  "clamp_queue q = (if q < 0 then 0 else if int NUM_QUEUES \<le> q then NUM_QUEUES - 1 else nat q)"

definition add_to_queue :: "nat \<Rightarrow> nat \<Rightarrow> int \<Rightarrow> 'a kstate_scheme \<Rightarrow> 'a kstate_scheme" where
  "add_to_queue c proc queue s =
     (let q = clamp_queue queue;
          s = upd_proc proc (\<lambda>p. p\<lparr>p_mlfq_queue := int q\<rparr>) s
      in case rq_head s c q of
           None \<Rightarrow> set_nxt proc (Some proc) (set_rq_head c q (Some proc) s)
         | Some h \<Rightarrow> set_nxt h (Some proc) (set_nxt proc (nxt s h) s))"

text \<open>
  The walk from \<open>prev\<close> to the node before \<open>proc\<close>: \<open>Some None\<close> is the return after a full
  turn; a null link has no continuation.
\<close>

partial_function (option) find_prev ::
  "(nat \<Rightarrow> nat option) \<Rightarrow> nat \<Rightarrow> nat \<Rightarrow> nat \<Rightarrow> nat option option" where
  "find_prev nx head proc prev =
     (case nx prev of
        None \<Rightarrow> None
      | Some n \<Rightarrow> if n = proc then Some (Some prev)
                  else if n = head then Some None
                  else find_prev nx head proc n)"

declare find_prev.simps [code]

definition remove_from_queue :: "nat \<Rightarrow> nat \<Rightarrow> 'a kstate_scheme \<Rightarrow> 'a kstate_scheme option" where
  "remove_from_queue c proc s =
     (let queue = p_mlfq_queue (procs s proc); q = nat queue
      in if queue < 0 \<or> int NUM_QUEUES \<le> queue then Some s
         else (case rq_head s c q of
                 None \<Rightarrow> Some s
               | Some h \<Rightarrow>
                   if h = proc \<and> nxt s proc = Some proc
                   then Some (set_nxt proc None (set_rq_head c q None s))
                   else do {
                     found \<leftarrow> find_prev (nxt s) h proc h;
                     case found of
                       None \<Rightarrow> Some s
                     | Some prev \<Rightarrow>
                         let s1 = set_nxt prev (nxt s proc) s;
                             s2 = (if h = proc then set_rq_head c q (nxt s1 proc) s1 else s1)
                         in Some (set_nxt proc None s2)
                   }))"

definition scheduler_enable :: "'a kstate_scheme \<Rightarrow> 'a kstate_scheme" where
  "scheduler_enable s = s\<lparr>scheduler_enabled := True\<rparr>"

text \<open>Registering a null idle process panics (\<open>None\<close>).\<close>

definition scheduler_register_idle ::
  "nat \<Rightarrow> nat option \<Rightarrow> 'a kstate_scheme \<Rightarrow> 'a kstate_scheme option" where
  "scheduler_register_idle c idle s =
     (case idle of None \<Rightarrow> None | Some a \<Rightarrow> Some (upd_cpu c (\<lambda>cpu. cpu\<lparr>idle_proc := Some a\<rparr>) s))"

definition scheduler_add_process :: "nat option \<Rightarrow> 'a kstate_scheme \<Rightarrow> 'a kstate_scheme" where
  "scheduler_add_process proc s =
     (case proc of
        None \<Rightarrow> s
      | Some a \<Rightarrow>
          if p_pid (procs s a) = 0 then s
          else
            let s = set_state a PROCESS_READY s;
                s = upd_proc a (\<lambda>p. p\<lparr>p_time_slice := queue_quantum 0\<rparr>) s;
                n = rr_counter s;
                s = s\<lparr>rr_counter := n + 1\<rparr>;
                target_id = (if 0 < cpu_count s then unat n mod cpu_count s else 0);
                s = upd_proc a (\<lambda>p. p\<lparr>p_owner_cpu := target_id\<rparr>) s;
                s = add_to_queue target_id a 0 s
            in if target_id \<noteq> this_cpu_id s then smp_ipi_send target_id s else s)"

definition scheduler_remove_process :: "nat option \<Rightarrow> 'a kstate_scheme \<Rightarrow> 'a kstate_scheme option" where
  "scheduler_remove_process proc s =
     (case proc of None \<Rightarrow> Some s | Some a \<Rightarrow> remove_from_queue (p_owner_cpu (procs s a)) a s)"

section \<open>Picking the next process\<close>

definition find_next_process :: "nat \<Rightarrow> 'a kstate_scheme \<Rightarrow> nat option \<times> nat" where
  "find_next_process me s =
     (case find (\<lambda>q. rq_head s me q \<noteq> None) [0..<NUM_QUEUES] of
        None \<Rightarrow> (None, 0)
      | Some q \<Rightarrow> (rq_head s me q, q))"

definition stealable :: "'a kstate_scheme \<Rightarrow> nat \<Rightarrow> nat \<Rightarrow> bool" where
  "stealable s v q \<longleftrightarrow> (case rq_head s v q of None \<Rightarrow> False | Some h \<Rightarrow> nxt s h \<noteq> Some h)"

text \<open>
  Taking the second process of the first queue of CPU \<open>v\<close> that has two; a broken link
  stops the model (\<open>None\<close>).
\<close>

definition steal_from :: "nat \<Rightarrow> nat \<Rightarrow> 'a kstate_scheme \<Rightarrow> ('a kstate_scheme \<times> nat option) option" where
  "steal_from me v s =
     (case find (stealable s v) [0..<NUM_QUEUES] of
        None \<Rightarrow> Some (s, None)
      | Some q \<Rightarrow> do {
          h \<leftarrow> rq_head s v q;
          steal \<leftarrow> nxt s h;
          let s = set_nxt h (nxt s steal) s;
          let s = set_nxt steal None s;
          let s = upd_proc steal (\<lambda>p. p\<lparr>p_owner_cpu := cpu_id (cpus s me)\<rparr>) s;
          Some (add_to_queue me steal (p_mlfq_queue (procs s steal)) s, Some steal)
        })"

fun steal_loop :: "nat \<Rightarrow> nat list \<Rightarrow> 'a kstate_scheme \<Rightarrow> ('a kstate_scheme \<times> nat option) option" where
  "steal_loop me [] s = Some (s, None)"
| "steal_loop me (i # is) s =
     (if i = cpu_id (cpus s me) then steal_loop me is s
      else do {
        (s', r) \<leftarrow> steal_from me i s;
        case r of Some p \<Rightarrow> Some (s', Some p) | None \<Rightarrow> steal_loop me is s'
      })"

definition try_steal_work :: "nat \<Rightarrow> 'a kstate_scheme \<Rightarrow> ('a kstate_scheme \<times> nat option) option" where
  "try_steal_work me s =
     (let now = sched_ticks (cpus s me)
      in if STEAL_MIN_INTERVAL \<le> now \<and> now - last_steal_tick (cpus s me) < STEAL_MIN_INTERVAL
         then Some (s, None)
         else steal_loop me [0..<cpu_count s] (upd_cpu me (\<lambda>c. c\<lparr>last_steal_tick := now\<rparr>) s))"

definition not_running :: "'a kstate_scheme \<Rightarrow> nat \<Rightarrow> bool" where
  "not_running s a \<longleftrightarrow> p_state (procs s a) \<noteq> PROCESS_RUNNING"

definition skip_current :: "nat \<Rightarrow> 'a kstate_scheme \<Rightarrow> 'a kstate_scheme \<times> nat option \<times> nat" where
  "skip_current me s =
     (case find_next_process me s of (pick, q) \<Rightarrow>
        (case pick of
           Some p \<Rightarrow>
             if Some p = current_process s \<and> not_running s p then
               let s = set_rq_head me q (nxt s p) s
               in case find_next_process me s of (pick', q') \<Rightarrow>
                    (s, if pick' = current_process s then None else pick', q')
             else (s, Some p, q)
         | None \<Rightarrow> (s, None, q)))"

definition pick_next_or_idle :: "nat \<Rightarrow> 'a kstate_scheme \<Rightarrow> ('a kstate_scheme \<times> nat option \<times> nat) option" where
  "pick_next_or_idle me s =
     (case skip_current me s of (s, pick, q) \<Rightarrow>
        (case pick of
           Some p \<Rightarrow> Some (s, Some p, q)
         | None \<Rightarrow> do {
             (s, r) \<leftarrow> try_steal_work me s;
             case r of
               Some p \<Rightarrow> Some (s, Some p, nat (p_mlfq_queue (procs s p)))
             | None \<Rightarrow> Some (s, idle_proc (cpus s me), q)
           }))"

definition demote_quantum_exhausted :: "nat \<Rightarrow> nat option \<Rightarrow> 'a kstate_scheme \<Rightarrow> 'a kstate_scheme option" where
  "demote_quantum_exhausted me cur s =
     (case cur of
        None \<Rightarrow> Some s
      | Some a \<Rightarrow>
          if Some a = idle_proc (cpus s me) \<or> not_running s a \<or> quantum_left (cpus s me) \<noteq> 0 then Some s
          else do {
            s \<leftarrow> remove_from_queue me a s;
            let q = p_mlfq_queue (procs s a) + 1;
            let q = (if int NUM_QUEUES \<le> q then int NUM_QUEUES - 1 else q);
            Some (add_to_queue me a q (set_state a PROCESS_READY s))
          })"

section \<open>Dispatch\<close>

definition switch_page_directory :: "u32 \<Rightarrow> 'a kstate_scheme \<Rightarrow> 'a kstate_scheme" where
  "switch_page_directory d s = upd_cpu (this_cpu s) (\<lambda>c. c\<lparr>cpu_cr3 := Some d\<rparr>) s"

definition load_page_directory :: "nat \<Rightarrow> nat \<Rightarrow> 'a kstate_scheme \<Rightarrow> 'a kstate_scheme" where
  "load_page_directory old new s =
     (let new_dir = Option.bind (p_memory (procs s new)) (page_directory s);
          old_dir = Option.bind (p_memory (procs s old)) (page_directory s)
      in case new_dir of
           None \<Rightarrow> s
         | Some d \<Rightarrow> if p_memory (procs s old) = None \<or> old_dir \<noteq> new_dir
                     then switch_page_directory d s else s)"

definition load_kernel_stack :: "nat \<Rightarrow> 'a kstate_scheme \<Rightarrow> 'a kstate_scheme" where
  "load_kernel_stack new s =
     (case p_kernel_stack (procs s new) of
        None \<Rightarrow> s
      | Some st \<Rightarrow> upd_cpu (this_cpu s) (\<lambda>c. c\<lparr>tss_esp0 := st + KERNEL_STACK_SIZE\<rparr>) s)"

text \<open>
  The register switch itself is recorded: which context was saved (none for a dead
  process) and which loaded.
\<close>

definition switch_registers :: "nat \<Rightarrow> nat \<Rightarrow> 'a kstate_scheme \<Rightarrow> 'a kstate_scheme" where
  "switch_registers old new s =
     (if p_state (procs s old) = PROCESS_ZOMBIE \<or> p_state (procs s old) = PROCESS_TERMINATED
      then s\<lparr>switches := switches s @ [(None, new)]\<rparr>
      else s\<lparr>switches := switches s @ [(Some old, new)]\<rparr>)"

definition context_switch :: "nat \<Rightarrow> nat \<Rightarrow> 'a kstate_scheme \<Rightarrow> 'a kstate_scheme" where
  "context_switch old new s =
     (if old = new then s
      else
        let s = cas_state old PROCESS_RUNNING PROCESS_READY s;
            s = set_state new PROCESS_RUNNING s;
            s = set_current new s;
            s = load_page_directory old new s;
            s = load_kernel_stack new s;
            s = upd_proc new (\<lambda>p. p\<lparr>p_first_sched := False\<rparr>) s
        in switch_registers old new s)"

definition rotate_queue :: "nat \<Rightarrow> nat \<Rightarrow> 'a kstate_scheme \<Rightarrow> 'a kstate_scheme" where
  "rotate_queue me q s =
     (case rq_head s me q of None \<Rightarrow> s | Some h \<Rightarrow> set_rq_head me q (nxt s h) s)"

definition dispatch :: "nat \<Rightarrow> nat \<Rightarrow> nat \<Rightarrow> 'a kstate_scheme \<Rightarrow> 'a kstate_scheme" where
  "dispatch me next next_queue s =
     (let old = current_process s;
          s = set_current next s;
          s = upd_cpu me (\<lambda>c. c\<lparr>current_queue := int next_queue\<rparr>) s;
          s = set_state next PROCESS_RUNNING s;
          s = upd_cpu me (\<lambda>c. c\<lparr>quantum_left := queue_quantum next_queue\<rparr>) s;
          s = rotate_queue me next_queue s
      in case old of None \<Rightarrow> s | Some a \<Rightarrow> context_switch a next s)"

text \<open>The refill of the quantum when the current process keeps the CPU.\<close>

definition set_quantum :: "nat \<Rightarrow> 'a kstate_scheme \<Rightarrow> 'a kstate_scheme" where
  "set_quantum me s = (case current_process s of None \<Rightarrow> s
     | Some c \<Rightarrow> upd_cpu me (\<lambda>cp. cp\<lparr>quantum_left := queue_quantum (nat (p_mlfq_queue (procs s c)))\<rparr>) s)"

definition schedule :: "'a kstate_scheme \<Rightarrow> 'a kstate_scheme option" where
  "schedule s =
     (let me = this_cpu s;
          s = upd_cpu me (\<lambda>c. c\<lparr>schedule_calls := schedule_calls c + 1, rcu_qs_count := rcu_qs_count c + 1\<rparr>) s
      in do {
        (s, next, next_queue) \<leftarrow> pick_next_or_idle me s;
        let idle = idle_proc (cpus s me);
        let cur = current_process s;
        if next = idle then
          (case (idle, cur) of
             (Some i, Some c) \<Rightarrow>
               if c \<noteq> i \<and> not_running s c
               then Some (context_switch c i (set_state i PROCESS_RUNNING (set_current i s)))
               else Some s
           | _ \<Rightarrow> Some s)
        else if cur = idle \<or> quantum_left (cpus s me) = 0 \<or> cur = None
             \<or> (case cur of Some c \<Rightarrow> not_running s c | None \<Rightarrow> False)
        then do {
          s \<leftarrow> demote_quantum_exhausted me cur s;
          (s, next, next_queue) \<leftarrow> pick_next_or_idle me s;
          (case next of
             Some n \<Rightarrow> if Some n \<noteq> current_process s \<and> Some n \<noteq> idle then Some (dispatch me n next_queue s)
                       else Some (set_quantum me s)
           | None \<Rightarrow> Some (set_quantum me s))
        }
        else Some s
      })"

definition timer_tick :: "'a kstate_scheme \<Rightarrow> 'a kstate_scheme" where
  "timer_tick s =
     (if \<not> scheduler_enabled s then s
      else upd_cpu (this_cpu s) (\<lambda>c. c\<lparr>sched_ticks := sched_ticks c + 1,
             quantum_left := (if 0 < quantum_left c then quantum_left c - 1 else quantum_left c)\<rparr>) s)"


section \<open>Linked rings\<close>

text \<open>\<open>links nx xs z\<close>: following \<open>nx\<close> from the first element runs through \<open>xs\<close> and ends in \<open>z\<close>.\<close>

fun links :: "(nat \<Rightarrow> nat option) \<Rightarrow> nat list \<Rightarrow> nat \<Rightarrow> bool" where
  "links nx [] z \<longleftrightarrow> True"
| "links nx [x] z \<longleftrightarrow> nx x = Some z"
| "links nx (x # y # ys) z \<longleftrightarrow> nx x = Some y \<and> links nx (y # ys) z"

lemma links_cong: "(\<And>x. x \<in> set xs \<Longrightarrow> nx' x = nx x) \<Longrightarrow> links nx' xs z = links nx xs z"
  by (induction nx xs z rule: links.induct) auto

lemma links_append:
  "links nx (xs @ y # ys) z \<longleftrightarrow> links nx xs y \<and> links nx (y # ys) z"
proof (induction xs)
  case (Cons x xs)
  then show ?case by (cases xs) auto
qed simp

lemma links_last: "links nx (x # xs) z \<Longrightarrow> nx (last (x # xs)) = Some z"
  by (induction nx "x # xs" z arbitrary: x xs rule: links.induct) auto

lemma links_relink:
  assumes "links nx (x # xs) z" "distinct (x # xs)"
  shows "links (nx(last (x # xs) := Some w)) (x # xs) w"
  using assms by (induction nx "x # xs" z arbitrary: x xs rule: links.induct) auto

lemma find_prev_found:
  assumes "links nx (x # xs) p" "p \<notin> set xs" "h \<notin> set xs"
  shows "find_prev nx h p x = Some (Some (last (x # xs)))"
  using assms
proof (induction xs arbitrary: x)
  case Nil
  then show ?case by (simp add: find_prev.simps[of nx h p x])
next
  case (Cons y ys)
  then show ?case by (simp add: find_prev.simps[of nx h p x])
qed

lemma find_prev_absent:
  assumes "links nx (x # xs) h" "p \<notin> set xs" "h \<notin> set xs" "p \<noteq> h"
  shows "find_prev nx h p x = Some None"
  using assms
proof (induction xs arbitrary: x)
  case Nil
  then show ?case by (simp add: find_prev.simps[of nx h p x])
next
  case (Cons y ys)
  then show ?case by (simp add: find_prev.simps[of nx h p x])
qed

text \<open>A ring: the head first, closed by the link of its last element.\<close>

definition ring :: "(nat \<Rightarrow> nat option) \<Rightarrow> nat option \<Rightarrow> nat list \<Rightarrow> bool" where
  "ring nx head xs \<longleftrightarrow> distinct xs \<and>
     (case head of None \<Rightarrow> xs = [] | Some h \<Rightarrow> (\<exists>ys. xs = h # ys) \<and> links nx xs h)"

lemma ring_cong: "(\<And>x. x \<in> set xs \<Longrightarrow> nx' x = nx x) \<Longrightarrow> ring nx' head xs = ring nx head xs"
  using links_cong[of xs nx' nx] by (auto simp: ring_def split: option.splits)

lemma ring_None [simp]: "ring nx None xs \<longleftrightarrow> xs = []"
  by (auto simp: ring_def)

lemma ring_Some: "ring nx (Some h) xs \<longleftrightarrow> (\<exists>ys. xs = h # ys \<and> distinct xs \<and> links nx xs h)"
  by (auto simp: ring_def)

lemma ring_singleton: "ring nx (Some h) xs \<Longrightarrow> nx h = Some h \<longleftrightarrow> xs = [h]"
proof -
  assume r: "ring nx (Some h) xs"
  then obtain ys where ys: "xs = h # ys" "distinct (h # ys)" "links nx (h # ys) h" by (auto simp: ring_Some)
  then show ?thesis by (cases ys) auto
qed

text \<open>The five pointer manipulations of the scheduler.\<close>

lemma ring_insert_second:
  assumes "ring nx (Some h) (h # ys)" "p \<notin> set (h # ys)"
  shows "ring (nx(p := nx h, h := Some p)) (Some h) (h # p # ys)"
proof -
  let ?nx' = "nx(p := nx h, h := Some p)"
  have l: "links nx (h # ys) h" and d: "distinct (h # ys)" using assms(1) by (auto simp: ring_Some)
  have "links ?nx' (p # ys) h"
  proof (cases ys)
    case Nil
    then show ?thesis using l assms(2) by simp
  next
    case (Cons y zs)
    then have "links nx ys h" "nx h = Some y" using l by auto
    moreover have "links ?nx' ys h = links nx ys h" using assms(2) d by (intro links_cong) auto
    ultimately show ?thesis using Cons assms(2) by simp
  qed
  then show ?thesis using assms(2) d by (auto simp: ring_Some)
qed

lemma ring_rotate:
  assumes "ring nx (Some h) (h # ys)"
  shows "ring nx (nx h) (ys @ [h])"
proof (cases ys)
  case Nil
  then show ?thesis using assms by (simp add: ring_Some)
next
  case (Cons y zs)
  then have l: "nx h = Some y" "links nx ys h" and d: "distinct (h # ys)" using assms by (auto simp: ring_Some)
  have "links nx (ys @ [h]) y" using l by (simp add: links_append)
  then show ?thesis using l d Cons by (auto simp: ring_Some)
qed

lemma ring_drop_inner:
  assumes "ring nx (Some h) (h # pre @ p # post)"
  shows "ring (nx(last (h # pre) := nx p)) (Some h) (h # pre @ post)"
proof -
  let ?w = "last (h # pre)"
  have l: "links nx ((h # pre) @ p # post) h" and d: "distinct ((h # pre) @ p # post)"
    using assms by (auto simp: ring_Some)
  then have l1: "links nx (h # pre) p" and l2: "links nx (p # post) h" by (simp_all only: links_append)
  have w: "?w \<in> set (h # pre)" using last_in_set by blast
  show ?thesis
  proof (cases post)
    case Nil
    then have "nx p = Some h" using l2 by simp
    then show ?thesis using links_relink[OF l1, of h] d Nil by (auto simp: ring_Some)
  next
    case (Cons q qs)
    then have np: "nx p = Some q" "links nx post h" using l2 by auto
    have "links (nx(?w := Some q)) (h # pre) q" using links_relink[OF l1, of q] d by auto
    moreover have "links (nx(?w := Some q)) post h = links nx post h"
      using w d by (intro links_cong) auto
    ultimately have "links (nx(?w := Some q)) ((h # pre) @ post) h"
      using np Cons by (simp only: links_append)
    then show ?thesis using np d by (auto simp: ring_Some)
  qed
qed

lemma ring_drop_head:
  assumes "ring nx (Some h) (h # ys)" "ys \<noteq> []"
  shows "ring (nx(last ys := nx h)) (nx h) ys"
proof -
  obtain y zs where ys: "ys = y # zs" using assms(2) by (cases ys) auto
  then have l: "nx h = Some y" "links nx (y # zs) h" "distinct (h # y # zs)" using assms(1) by (auto simp: ring_Some)
  then show ?thesis using links_relink[OF l(2), of y] ys by (auto simp: ring_Some)
qed


section \<open>The run queues as lists\<close>

definition qof :: "'a kstate_scheme \<Rightarrow> nat \<Rightarrow> int" where "qof s a = p_mlfq_queue (procs s a)"
definition own :: "'a kstate_scheme \<Rightarrow> nat \<Rightarrow> nat" where "own s a = p_owner_cpu (procs s a)"

definition rings :: "(nat \<Rightarrow> nat option) \<Rightarrow> (nat \<Rightarrow> nat \<Rightarrow> nat option) \<Rightarrow> (nat \<Rightarrow> int) \<Rightarrow> (nat \<Rightarrow> nat)
    \<Rightarrow> (nat \<Rightarrow> nat \<Rightarrow> nat list) \<Rightarrow> bool" where
  "rings nx hq qf ow R \<longleftrightarrow> (\<forall>c q. ring nx (hq c q) (R c q)) \<and>
     (\<forall>c q a. a \<in> set (R c q) \<longrightarrow> q < 4 \<and> qf a = int q \<and> ow a = c)"

text \<open>\<open>rq_ok s R\<close>: the pointer structure of \<open>s\<close> represents the queues \<open>R\<close>.\<close>

definition rq_ok :: "'a kstate_scheme \<Rightarrow> (nat \<Rightarrow> nat \<Rightarrow> nat list) \<Rightarrow> bool" where
  "rq_ok s R \<longleftrightarrow> rings (nxt s) (rq_head s) (qof s) (own s) R"

definition upd_rq :: "(nat \<Rightarrow> nat \<Rightarrow> nat list) \<Rightarrow> nat \<Rightarrow> nat \<Rightarrow> nat list \<Rightarrow> (nat \<Rightarrow> nat \<Rightarrow> nat list)" where
  "upd_rq R c q xs = R(c := (R c)(q := xs))"

lemma upd_rq_apply: "upd_rq R c q xs c' q' = (if c' = c \<and> q' = q then xs else R c' q')"
  by (simp add: upd_rq_def)

definition queued :: "(nat \<Rightarrow> nat \<Rightarrow> nat list) \<Rightarrow> nat \<Rightarrow> bool" where
  "queued R a \<longleftrightarrow> (\<exists>c q. a \<in> set (R c q))"

lemma rings_unique:
  assumes "rings nx hq qf ow R" "a \<in> set (R c q)" "a \<in> set (R c' q')"
  shows "c' = c" "q' = q"
  using assms unfolding rings_def by (metis of_nat_eq_iff)+

lemma rings_update:
  assumes r: "rings nx hq qf ow R"
    and hq': "\<And>c' q'. hq' c' q' = (if c' = c \<and> q' = q then h' else hq c' q')"
    and new: "ring nx' h' xs'" "\<And>a. a \<in> set xs' \<Longrightarrow> q < 4 \<and> qf' a = int q \<and> ow' a = c"
    and old: "\<And>c' q' x. x \<in> set (R c' q') \<Longrightarrow> \<not> (c' = c \<and> q' = q) \<Longrightarrow>
        nx' x = nx x \<and> qf' x = qf x \<and> ow' x = ow x"
  shows "rings nx' hq' qf' ow' (upd_rq R c q xs')"
  unfolding rings_def
proof (intro conjI allI)
  fix c' q'
  show "ring nx' (hq' c' q') (upd_rq R c q xs' c' q')"
  proof (cases "c' = c \<and> q' = q")
    case True
    then show ?thesis using new(1) hq' by (simp add: upd_rq_apply)
  next
    case False
    then have "ring nx' (hq c' q') (R c' q') = ring nx (hq c' q') (R c' q')" using old by (intro ring_cong) blast
    then show ?thesis using False hq' r by (auto simp: upd_rq_apply rings_def)
  qed
  fix a
  show "a \<in> set (upd_rq R c q xs' c' q') \<longrightarrow> q' < 4 \<and> qf' a = int q' \<and> ow' a = c'"
    using new(2)[of a] old[of a c' q'] r by (auto simp: upd_rq_apply rings_def)
qed

lemma sched_simps [simp]:
  "nxt (set_nxt a n s) = (nxt s)(a := n)" "nxt (set_rq_head c q h s) = nxt s"
  "nxt (upd_cpu c g s) = nxt s" "nxt (s\<lparr>rr_counter := r\<rparr>) = nxt s"
  "nxt (smp_ipi_send c s) = nxt s" "nxt (s\<lparr>switches := w\<rparr>) = nxt s"
  "rq_head (set_nxt a n s) = rq_head s" "rq_head (upd_proc a f s) = rq_head s"
  "rq_head (smp_ipi_send c s) = rq_head s" "rq_head (s\<lparr>rr_counter := r\<rparr>) = rq_head s"
  "rq_head (s\<lparr>switches := w\<rparr>) = rq_head s"
  "qof (set_nxt a n s) = qof s" "qof (set_rq_head c q h s) = qof s" "qof (upd_cpu c g s) = qof s"
  "qof (smp_ipi_send c s) = qof s" "qof (s\<lparr>rr_counter := r\<rparr>) = qof s" "qof (s\<lparr>switches := w\<rparr>) = qof s"
  "own (set_nxt a n s) = own s" "own (set_rq_head c q h s) = own s" "own (upd_cpu c g s) = own s"
  "own (smp_ipi_send c s) = own s" "own (s\<lparr>rr_counter := r\<rparr>) = own s" "own (s\<lparr>switches := w\<rparr>) = own s"
  by (auto simp: nxt_def set_nxt_def set_rq_head_def rq_head_def qof_def own_def fun_eq_iff)

lemma cpus_set_nxt [simp]: "cpus (set_nxt a n s) = cpus s"
  by (simp add: set_nxt_def)

lemma rq_head_set [simp]:
  "rq_head (set_rq_head c q h s) c' q' = (if c' = c \<and> q' = q then h else rq_head s c' q')"
  by (auto simp: rq_head_def set_rq_head_def)

lemma nxt_upd_proc: "(\<And>p. p_next (f p) = p_next p) \<Longrightarrow> nxt (upd_proc a f s) = nxt s"
  by (auto simp: nxt_def)

lemma qof_upd_proc: "qof (upd_proc a f s) = (qof s)(a := p_mlfq_queue (f (procs s a)))"
  by (auto simp: qof_def)

lemma own_upd_proc: "own (upd_proc a f s) = (own s)(a := p_owner_cpu (f (procs s a)))"
  by (auto simp: own_def)

lemma rq_head_upd_cpu: "(\<And>x. run_queues (g x) = run_queues x) \<Longrightarrow> rq_head (upd_cpu c g s) = rq_head s"
  by (auto simp: rq_head_def fun_eq_iff)

lemmas sched_upd = nxt_upd_proc qof_upd_proc own_upd_proc rq_head_upd_cpu

text \<open>Updates that leave links, heads, levels and owners alone keep the representation.\<close>

lemma rq_ok_cong:
  "rq_ok s R \<Longrightarrow> nxt s' = nxt s \<Longrightarrow> rq_head s' = rq_head s \<Longrightarrow> qof s' = qof s \<Longrightarrow> own s' = own s \<Longrightarrow> rq_ok s' R"
  by (simp add: rq_ok_def)

lemma rq_ok_set_state [simp]: "rq_ok (set_state a st s) R = rq_ok s R"
proof -
  have "(qof s)(a := qof s a) = qof s" "(own s)(a := own s a) = own s" by simp_all
  then show ?thesis by (simp add: rq_ok_def set_state_def sched_upd qof_def[symmetric] own_def[symmetric])
qed

lemma rq_ok_cas_state [simp]: "rq_ok (cas_state a e st s) R = rq_ok s R"
  by (simp add: cas_state_def)

section \<open>Queue operations as list operations\<close>

fun ins_second :: "'a \<Rightarrow> 'a list \<Rightarrow> 'a list" where
  "ins_second p [] = [p]"
| "ins_second p (h # ys) = h # p # ys"

lemma set_ins_second [simp]: "set (ins_second p xs) = insert p (set xs)"
  by (cases xs) auto

lemma clamp_queue_less: "clamp_queue q < 4"
  by (auto simp: clamp_queue_def kernel_const)

lemma add_to_queue_refines:
  assumes ok: "rq_ok s R" and new: "\<not> queued R a" and c: "own s a = c"
  shows "rq_ok (add_to_queue c a q s) (upd_rq R c (clamp_queue q) (ins_second a (R c (clamp_queue q))))"
proof -
  let ?q = "clamp_queue q"
  define s1 where "s1 = upd_proc a (\<lambda>p. p\<lparr>p_mlfq_queue := int ?q\<rparr>) s"
  have s1: "nxt s1 = nxt s" "rq_head s1 = rq_head s" "qof s1 = (qof s)(a := int ?q)" "own s1 = own s"
    by (simp_all add: s1_def sched_upd own_def[symmetric])
  have r: "rings (nxt s) (rq_head s) (qof s) (own s) R" using ok by (simp add: rq_ok_def)
  have ring: "ring (nxt s) (rq_head s c ?q) (R c ?q)" using r by (simp add: rings_def)
  have mem: "x \<in> set (R c ?q) \<Longrightarrow> qof s x = int ?q \<and> own s x = c" for x using r by (simp add: rings_def)
  have na: "a \<notin> set (R c' q')" for c' q' using new by (auto simp: queued_def)
  show ?thesis
  proof (cases "rq_head s c ?q")
    case None
    define s2 where "s2 = set_nxt a (Some a) (set_rq_head c ?q (Some a) s1)"
    have "add_to_queue c a q s = s2"
      using None s1(2) by (simp add: add_to_queue_def Let_def s1_def[symmetric] s2_def)
    moreover have "rings (nxt s2) (rq_head s2) (qof s2) (own s2) (upd_rq R c ?q [a])"
    proof (rule rings_update[OF r, where h' = "Some a"])
      show "rq_head s2 c' q' = (if c' = c \<and> q' = ?q then Some a else rq_head s c' q')" for c' q'
        by (simp add: s2_def s1)
      show "ring (nxt s2) (Some a) [a]" by (simp add: ring_Some s2_def)
      show "?q < 4 \<and> qof s2 x = int ?q \<and> own s2 x = c" if "x \<in> set [a]" for x
        using that c clamp_queue_less by (simp add: s2_def s1)
      show "nxt s2 x = nxt s x \<and> qof s2 x = qof s x \<and> own s2 x = own s x"
        if "x \<in> set (R c' q')" for c' q' x
        using that na by (auto simp: s2_def s1)
    qed
    ultimately show ?thesis using None ring by (simp add: rq_ok_def)
  next
    case (Some h)
    obtain ys where ys: "R c ?q = h # ys" using ring Some by (auto simp: ring_Some)
    define s2 where "s2 = set_nxt h (Some a) (set_nxt a (nxt s1 h) s1)"
    have "add_to_queue c a q s = s2"
      using Some s1(2) by (simp add: add_to_queue_def Let_def s1_def[symmetric] s2_def)
    moreover have "rings (nxt s2) (rq_head s2) (qof s2) (own s2) (upd_rq R c ?q (h # a # ys))"
    proof (rule rings_update[OF r, where h' = "Some h"])
      show "rq_head s2 c' q' = (if c' = c \<and> q' = ?q then Some h else rq_head s c' q')" for c' q'
        using Some by (simp add: s2_def s1)
      have "nxt s2 = (nxt s)(a := nxt s h, h := Some a)" by (simp add: s2_def s1)
      then show "ring (nxt s2) (Some h) (h # a # ys)"
        using ring_insert_second[of "nxt s" h ys a] ring Some ys na[of c ?q] by simp
      show "?q < 4 \<and> qof s2 x = int ?q \<and> own s2 x = c" if "x \<in> set (h # a # ys)" for x
        using that c clamp_queue_less mem[of x] ys na[of c ?q] by (auto simp: s2_def s1)
      show "nxt s2 x = nxt s x \<and> qof s2 x = qof s x \<and> own s2 x = own s x"
        if "x \<in> set (R c' q')" "\<not> (c' = c \<and> q' = ?q)" for c' q' x
      proof -
        have "x \<noteq> a" using that na by blast
        moreover have "x \<noteq> h" using rings_unique[OF r that(1), of c ?q] that(2) ys by auto
        ultimately show ?thesis by (simp add: s2_def s1)
      qed
    qed
    ultimately show ?thesis using ys by (simp add: rq_ok_def)
  qed
qed


lemma remove1_inner: "p \<notin> set pre \<Longrightarrow> remove1 p (pre @ p # post) = pre @ post"
  by (simp add: remove1_append)

text \<open>Unlinking a queued process.\<close>

lemma remove_links:
  assumes r: "rings (nxt s) (rq_head s) (qof s) (own s) R" and a: "a \<in> set (R c q)"
    and h: "rq_head s c q = Some h" and s': "remove_from_queue c a s = Some s'"
  shows "rq_ok s' (upd_rq R c q (remove1 a (R c q)))"
proof -
  have ring: "ring (nxt s) (Some h) (R c q)" and qa: "qof s a = int q" and q4: "q < 4"
    and mem: "\<And>x. x \<in> set (R c q) \<Longrightarrow> qof s x = int q \<and> own s x = c"
    using r a h unfolding rings_def by (metis, blast+)
  obtain ys where ys: "R c q = h # ys" and d: "distinct (h # ys)" using ring by (auto simp: ring_Some)
  have guard: "\<not> (p_mlfq_queue (procs s a) < 0 \<or> int NUM_QUEUES \<le> p_mlfq_queue (procs s a))"
    "nat (p_mlfq_queue (procs s a)) = q"
    using qa q4 by (simp_all add: qof_def kernel_const)
  note upd = rings_update[OF r, where c = c and q = q]
  have goal: "rq_ok s2 (upd_rq R c q xs)"
    if e: "s2 = set_nxt a None t" and t: "ring (nxt t) (rq_head t c q) xs" "set xs \<subseteq> set (R c q) - {a}"
      "\<And>x. x \<notin> set (R c q) \<Longrightarrow> nxt t x = nxt s x" "qof t = qof s" "own t = own s"
      "\<And>c' q'. \<not> (c' = c \<and> q' = q) \<Longrightarrow> rq_head t c' q' = rq_head s c' q'" for s2 t xs
    unfolding rq_ok_def e
  proof (rule upd)
    show "rq_head (set_nxt a None t) c' q' = (if c' = c \<and> q' = q then rq_head t c q else rq_head s c' q')"
      for c' q' using t(6) by auto
    have "ring ((nxt t)(a := None)) (rq_head t c q) xs = ring (nxt t) (rq_head t c q) xs"
      using t(2) by (intro ring_cong) auto
    then show "ring (nxt (set_nxt a None t)) (rq_head t c q) xs" using t(1) by simp
    show "q < 4 \<and> qof (set_nxt a None t) x = int q \<and> own (set_nxt a None t) x = c" if "x \<in> set xs" for x
      using that t mem q4 by auto
    show "nxt (set_nxt a None t) x = nxt s x \<and> qof (set_nxt a None t) x = qof s x \<and>
        own (set_nxt a None t) x = own s x" if "x \<in> set (R c' q')" "\<not> (c' = c \<and> q' = q)" for c' q' x
    proof -
      have "x \<notin> set (R c q)" using rings_unique[OF r that(1)] that(2) by blast
      then show ?thesis using t a by auto
    qed
  qed
  show ?thesis
  proof (cases "h = a")
    case True
    show ?thesis
    proof (cases "ys = []")
      case True
      have "nxt s a = Some a" using ring_singleton[OF ring] True ys \<open>h = a\<close> by simp
      then have "s' = set_nxt a None (set_rq_head c q None s)"
        using s' guard h \<open>h = a\<close> by (simp add: remove_from_queue_def Let_def)
      then show ?thesis by (rule goal) (use ys True \<open>h = a\<close> in auto)
    next
      case False
      have rg: "ring (nxt s) (Some a) (a # ys)" using ring ys True by simp
      have "nxt s a \<noteq> Some a" using ring_singleton[OF ring] False ys True by simp
      moreover have "find_prev (nxt s) a a a = Some (Some (last (a # ys)))"
        by (rule find_prev_found) (use rg d True in \<open>auto simp: ring_Some\<close>)
      moreover have "(nxt s)(last ys := nxt s a) \<noteq> nxt s \<longrightarrow> last ys \<noteq> a" by auto
      moreover have la: "last ys \<noteq> a" "last ys \<in> set ys" using False d True by auto
      ultimately have "s' = set_nxt a None
          (set_rq_head c q (nxt s a) (set_nxt (last ys) (nxt s a) s))"
        using s' guard h True False by (simp add: remove_from_queue_def Let_def)
      then show ?thesis
        by (rule goal) (use ring_drop_head[OF rg False] ys True d la in auto)
    qed
  next
    case False
    then obtain pre post where pp: "ys = pre @ a # post" "a \<notin> set pre"
      using a ys by (metis set_ConsD split_list_first)
    have rg: "ring (nxt s) (Some h) (h # pre @ a # post)" using ring ys pp by simp
    have "links (nxt s) ((h # pre) @ a # post) h" using rg by (simp add: ring_Some)
    then have "links (nxt s) (h # pre) a" by (simp only: links_append)
    then have "find_prev (nxt s) h a h = Some (Some (last (h # pre)))"
      by (rule find_prev_found) (use pp d in auto)
    then have e: "s' = set_nxt a None (set_nxt (last (h # pre)) (nxt s a) s)"
      using s' guard h False by (simp add: remove_from_queue_def Let_def)
    have rm: "remove1 a (R c q) = h # pre @ post"
      using ys pp False remove1_inner[of a "h # pre" post] by simp
    have la: "last (h # pre) \<in> set (R c q)" using ys pp by auto
    show ?thesis unfolding rm
      by (rule goal[OF e]) (use ring_drop_inner[OF rg] h ys pp d False la in auto)
  qed
qed

lemma remove_from_queue_returns:
  assumes "rq_ok s R" "own s a = c"
  shows "\<exists>s'. remove_from_queue c a s = Some s'"
proof (cases "p_mlfq_queue (procs s a) < 0 \<or> int NUM_QUEUES \<le> p_mlfq_queue (procs s a)
    \<or> rq_head s c (nat (p_mlfq_queue (procs s a))) = None")
  case True
  then show ?thesis by (auto simp: remove_from_queue_def Let_def)
next
  case False
  define q where "q = nat (p_mlfq_queue (procs s a))"
  obtain h where h: "rq_head s c q = Some h" using False by (auto simp: q_def)
  have ring: "ring (nxt s) (Some h) (R c q)" using assms(1) h unfolding rq_ok_def rings_def by metis
  then obtain ys where ys: "R c q = h # ys" "distinct (h # ys)" "links (nxt s) (h # ys) h" by (auto simp: ring_Some)
  have "\<exists>r. find_prev (nxt s) h a h = Some r"
  proof (cases "a \<in> set ys \<or> a = h")
    case True
    then consider "a = h" | pre post where "ys = pre @ a # post" "a \<notin> set pre"
      by (metis split_list_first)
    then show ?thesis
    proof cases
      case 1
      then show ?thesis using find_prev_found[of "nxt s" h ys h h] ys by auto
    next
      case (2 pre post)
      then have "links (nxt s) ((h # pre) @ a # post) h" using ys(3) by simp
      then have "links (nxt s) (h # pre) a" by (simp only: links_append)
      from find_prev_found[OF this] 2 ys(2) show ?thesis by auto
    qed
  next
    case False
    then show ?thesis using find_prev_absent[OF ys(3), of a] ys(2) by auto
  qed
  then obtain r where r: "find_prev (nxt s) h a h = Some r" by blast
  show ?thesis using False h by (auto simp: remove_from_queue_def Let_def q_def[symmetric] r split: option.splits)
qed

lemma remove_absent:
  assumes "rq_ok s R" "\<not> queued R a"
  shows "remove_from_queue c a s = Some s"
proof (cases "p_mlfq_queue (procs s a) < 0 \<or> int NUM_QUEUES \<le> p_mlfq_queue (procs s a)
    \<or> rq_head s c (nat (p_mlfq_queue (procs s a))) = None")
  case True
  then show ?thesis by (auto simp: remove_from_queue_def Let_def)
next
  case False
  define q where "q = nat (p_mlfq_queue (procs s a))"
  obtain h where h: "rq_head s c q = Some h" using False by (auto simp: q_def)
  have ring: "ring (nxt s) (Some h) (R c q)" using assms(1) h unfolding rq_ok_def rings_def by metis
  then obtain ys where ys: "R c q = h # ys" "distinct (h # ys)" "links (nxt s) (h # ys) h" by (auto simp: ring_Some)
  have "a \<notin> set (R c q)" using assms(2) by (auto simp: queued_def)
  then have "a \<notin> set (h # ys)" using ys(1) by simp
  then have "find_prev (nxt s) h a h = Some None" "h \<noteq> a"
    using find_prev_absent[OF ys(3), of a] ys(2) by auto
  then show ?thesis using False h by (simp add: remove_from_queue_def Let_def q_def)
qed

text \<open>The whole contract of \<open>remove_from_queue\<close> on the owner's queues.\<close>

lemma remove_from_queue_refines:
  assumes ok: "rq_ok s R" and c: "own s a = c"
  shows "\<exists>s'. remove_from_queue c a s = Some s' \<and>
    rq_ok s' (upd_rq R c (nat (qof s a)) (remove1 a (R c (nat (qof s a)))))"
proof (cases "queued R a")
  case True
  have r: "rings (nxt s) (rq_head s) (qof s) (own s) R" using ok by (simp add: rq_ok_def)
  obtain c' q where a: "a \<in> set (R c' q)" using True by (auto simp: queued_def)
  then have q: "qof s a = int q" "c' = c" using r c by (auto simp: rings_def)
  then have "R c q \<noteq> []" using a by auto
  then obtain h where h: "rq_head s c q = Some h" using r unfolding rings_def by (metis option.exhaust ring_None)
  obtain s' where s': "remove_from_queue c a s = Some s'" using remove_from_queue_returns[OF ok c] by blast
  show ?thesis using remove_links[OF r _ h s'] a q s' by simp
next
  case False
  then have "a \<notin> set (R c (nat (qof s a)))" by (auto simp: queued_def)
  moreover have "upd_rq R c (nat (qof s a)) (R c (nat (qof s a))) = R" by (simp add: upd_rq_def)
  ultimately show ?thesis using remove_absent[OF ok False] ok by (simp add: remove1_idem)
qed


section \<open>Frames of the scheduling steps\<close>

text \<open>What picking a process leaves alone.\<close>

definition sframe :: "nat \<Rightarrow> 'a kstate_scheme \<Rightarrow> 'a kstate_scheme \<Rightarrow> bool" where
  "sframe me s s' \<longleftrightarrow> this_cpu s' = this_cpu s \<and> cpu_count s' = cpu_count s \<and>
     (\<forall>c. cpu_id (cpus s' c) = cpu_id (cpus s c) \<and> idle_proc (cpus s' c) = idle_proc (cpus s c) \<and>
        quantum_left (cpus s' c) = quantum_left (cpus s c) \<and> current_proc (cpus s' c) = current_proc (cpus s c)) \<and>
     (\<forall>a. p_state (procs s' a) = p_state (procs s a)) \<and> (\<forall>a. own s a = me \<longrightarrow> own s' a = me)"

lemma sframe_refl: "sframe me s s"
  by (simp add: sframe_def)

lemma sframe_trans: "sframe me s s1 \<Longrightarrow> sframe me s1 s2 \<Longrightarrow> sframe me s s2"
  by (simp add: sframe_def)

lemma sframe_current: "sframe me s s' \<Longrightarrow> current_process s' = current_process s"
  by (simp add: sframe_def current_process_def)

lemma sframe_set_nxt: "sframe me s (set_nxt a n s)"
  by (simp add: sframe_def) (simp add: set_nxt_def)

lemma sframe_set_rq_head: "sframe me s (set_rq_head c q h s)"
  by (simp add: sframe_def) (simp add: set_rq_head_def)

lemma sframe_add_to_queue: "sframe me s (add_to_queue c a q s)"
  by (simp add: sframe_def add_to_queue_def Let_def set_nxt_def set_rq_head_def own_def split: option.splits)

lemma remove_frame:
  assumes "remove_from_queue c a s = Some s'"
  shows "sframe me s s'" "qof s' = qof s" "own s' = own s"
proof -
  have "sframe me s s' \<and> qof s' = qof s \<and> own s' = own s"
    using assms
    by (auto simp: remove_from_queue_def Let_def bind_eq_Some_conv
        intro!: sframe_refl sframe_set_nxt sframe_set_rq_head
        intro: sframe_trans[OF sframe_set_nxt] sframe_trans[OF sframe_trans[OF sframe_set_nxt sframe_set_rq_head]]
          sframe_trans[OF sframe_set_rq_head] sframe_trans[OF sframe_set_nxt sframe_set_nxt]
          sframe_trans[OF sframe_trans[OF sframe_set_nxt sframe_set_rq_head] sframe_set_nxt]
          sframe_trans[OF sframe_set_rq_head sframe_set_nxt]
        split: if_splits option.splits)
  then show "sframe me s s'" "qof s' = qof s" "own s' = own s" by auto
qed

section \<open>Stealing, rotating and picking\<close>

lemma rotate_refines:
  assumes "rq_ok s R" "rq_head s c q = Some h"
  shows "rq_ok (set_rq_head c q (nxt s h) s) (upd_rq R c q (rotate1 (R c q)))"
  unfolding rq_ok_def
proof (rule rings_update[where h' = "nxt s h"])
  show r: "rings (nxt s) (rq_head s) (qof s) (own s) R" using assms(1) by (simp add: rq_ok_def)
  then have "ring (nxt s) (Some h) (R c q)" using assms(2) unfolding rings_def by metis
  then obtain ys where "R c q = h # ys" "ring (nxt s) (Some h) (h # ys)" by (auto simp: ring_Some)
  then show "ring (nxt (set_rq_head c q (nxt s h) s)) (nxt s h) (rotate1 (R c q))"
    using ring_rotate by simp
  show "q < 4 \<and> qof (set_rq_head c q (nxt s h) s) a = int q \<and> own (set_rq_head c q (nxt s h) s) a = c"
    if "a \<in> set (rotate1 (R c q))" for a using that r by (simp add: rings_def)
qed simp_all

lemma queued_upd_rq:
  "queued (upd_rq R c q xs) a \<longleftrightarrow> a \<in> set xs \<or> (\<exists>c' q'. \<not> (c' = c \<and> q' = q) \<and> a \<in> set (R c' q'))"
  by (auto simp: queued_def upd_rq_apply split: if_splits)

lemma queued_same_set: "set xs = set (R c q) \<Longrightarrow> queued (upd_rq R c q xs) = queued R"
  by (auto simp: queued_def upd_rq_apply fun_eq_iff split: if_splits)

lemma queued_split:
  "queued R a \<longleftrightarrow> a \<in> set (R c q) \<or> (\<exists>c' q'. \<not> (c' = c \<and> q' = q) \<and> a \<in> set (R c' q'))"
  by (auto simp: queued_def)

lemma queued_insert:
  "set xs = insert p (set (R c q)) \<Longrightarrow> queued (upd_rq R c q xs) a \<longleftrightarrow> queued R a \<or> a = p"
  using queued_split[of R a c q] by (auto simp: queued_upd_rq)

lemma steal_from_refines:
  assumes ok: "rq_ok s R" and ids: "\<forall>c. cpu_id (cpus s c) = c" and ne: "v \<noteq> me"
  shows "\<exists>s' r R'. steal_from me v s = Some (s', r) \<and> rq_ok s' R' \<and> queued R' = queued R \<and> sframe me s s' \<and>
    (\<forall>p. r = Some p \<longrightarrow> (\<exists>q. p \<in> set (R' me q)))"
proof (cases "find (stealable s v) [0..<4]")
  case None
  then show ?thesis using ok sframe_refl by (auto simp: steal_from_def kernel_const)
next
  case (Some q)
  have r: "rings (nxt s) (rq_head s) (qof s) (own s) R" using ok by (simp add: rq_ok_def)
  have q: "q < 4" "stealable s v q" using find_upt_SomeD[OF Some] by auto
  then obtain h where h: "rq_head s v q = Some h" "nxt s h \<noteq> Some h" by (auto simp: stealable_def split: option.splits)
  have ring: "ring (nxt s) (Some h) (R v q)" using r h unfolding rings_def by metis
  then obtain ys where ys: "R v q = h # ys" "links (nxt s) (h # ys) h" "distinct (h # ys)" by (auto simp: ring_Some)
  have "ys \<noteq> []" using h(2) ring_singleton[OF ring] ys(1) by auto
  then obtain st rest where st: "ys = st # rest" by (cases ys) auto
  have nst: "nxt s h = Some st" using ys st by simp
  have mem: "x \<in> set (R v q) \<Longrightarrow> qof s x = int q \<and> own s x = v" for x using r by (simp add: rings_def)
  define s1 where "s1 = upd_proc st (\<lambda>p. p\<lparr>p_owner_cpu := me\<rparr>) (set_nxt st None (set_nxt h (nxt s st) s))"
  have s1: "nxt s1 = (nxt s)(h := nxt s st, st := None)" "rq_head s1 = rq_head s" "qof s1 = qof s"
    "own s1 = (own s)(st := me)"
    by (simp_all add: s1_def sched_upd) (simp add: qof_def set_nxt_def fun_eq_iff)
  have ok1: "rq_ok s1 (upd_rq R v q (h # rest))"
    unfolding rq_ok_def s1
  proof (rule rings_update[OF r, where h' = "Some h"])
    have "ring ((nxt s)(h := nxt s st)) (Some h) (h # rest)"
      using ring_drop_inner[of "nxt s" h "[]" st rest] ring ys st by simp
    moreover have "ring ((nxt s)(h := nxt s st, st := None)) (Some h) (h # rest)
        = ring ((nxt s)(h := nxt s st)) (Some h) (h # rest)" using ys(3) st by (intro ring_cong) auto
    ultimately show "ring ((nxt s)(h := nxt s st, st := None)) (Some h) (h # rest)" by simp
    show "q < 4 \<and> qof s a = int q \<and> ((own s)(st := me)) a = v" if "a \<in> set (h # rest)" for a
      using that mem[of a] ys st q by auto
    show "((nxt s)(h := nxt s st, st := None)) x = nxt s x \<and> qof s x = qof s x \<and> ((own s)(st := me)) x = own s x"
      if "x \<in> set (R c' q')" "\<not> (c' = v \<and> q' = q)" for c' q' x
    proof -
      have "x \<notin> set (R v q)" using rings_unique[OF r that(1), of v q] that(2) by auto
      then show ?thesis using ys st by auto
    qed
  qed (use h in auto)
  have nq: "\<not> queued (upd_rq R v q (h # rest)) st"
  proof -
    have "st \<notin> set (R c' q')" if "\<not> (c' = v \<and> q' = q)" for c' q'
      using rings_unique[OF r, of st v q c' q'] that ys st by auto
    then show ?thesis using ys(3) st by (auto simp: queued_upd_rq)
  qed
  have qs: "p_mlfq_queue (procs s1 st) = int q" using mem[of st] ys st s1(3) by (simp add: qof_def fun_eq_iff)
  let ?R1 = "upd_rq R v q (h # rest)"
  let ?R2 = "upd_rq ?R1 me q (ins_second st (?R1 me q))"
  have cl: "clamp_queue (int q) = q" using q by (simp add: clamp_queue_def kernel_const)
  have ok2: "rq_ok (add_to_queue me st (int q) s1) ?R2"
    using add_to_queue_refines[OF ok1 nq, of me "int q"] s1(4) cl by simp
  have "steal_from me v s = Some (add_to_queue me st (int q) s1, Some st)"
    using Some h nst ids qs by (simp add: steal_from_def kernel_const Let_def s1_def)
  moreover have "queued ?R2 = queued R"
  proof
    fix a
    have "queued ?R1 a \<longleftrightarrow> queued R a \<and> a \<noteq> st"
      using nq queued_split[of R a v q] ys st by (auto simp: queued_upd_rq)
    moreover have "queued R st" using queued_split[of R st v q] ys st by simp
    ultimately show "queued ?R2 a = queued R a"
      using queued_insert[of "ins_second st (?R1 me q)" st ?R1 me q a] by auto
  qed
  moreover have "sframe me s s1"
    unfolding sframe_def by (simp add: s1_def own_upd_proc) (simp add: set_nxt_def)
  then have "sframe me s (add_to_queue me st (int q) s1)" using sframe_trans sframe_add_to_queue by blast
  moreover have "st \<in> set (?R2 me q)" by (simp add: upd_rq_apply)
  ultimately show ?thesis using ok2 by blast
qed


lemma steal_loop_refines:
  assumes "rq_ok s R" "\<forall>c. cpu_id (cpus s c) = c"
  shows "\<exists>s' r R'. steal_loop me is s = Some (s', r) \<and> rq_ok s' R' \<and> queued R' = queued R \<and> sframe me s s' \<and>
    (\<forall>p. r = Some p \<longrightarrow> (\<exists>q. p \<in> set (R' me q)))"
  using assms
proof (induction "is" arbitrary: s R)
  case Nil
  then show ?case using sframe_refl by auto
next
  case (Cons i "is")
  show ?case
  proof (cases "i = me")
    case True
    then show ?thesis using Cons.IH[OF Cons.prems] Cons.prems(2) by simp
  next
    case False
    obtain s1 r1 R1 where st: "steal_from me i s = Some (s1, r1)" "rq_ok s1 R1" "queued R1 = queued R"
      "sframe me s s1" "\<forall>p. r1 = Some p \<longrightarrow> (\<exists>q. p \<in> set (R1 me q))"
      using steal_from_refines[OF Cons.prems False] by blast
    show ?thesis
    proof (cases r1)
      case None
      have ids1: "\<forall>c. cpu_id (cpus s1 c) = c" using st(4) Cons.prems(2) by (simp add: sframe_def)
      obtain s2 r2 R2 where lp: "steal_loop me is s1 = Some (s2, r2)" "rq_ok s2 R2" "queued R2 = queued R1"
        "sframe me s1 s2" "\<forall>p. r2 = Some p \<longrightarrow> (\<exists>q. p \<in> set (R2 me q))"
        using Cons.IH[OF st(2) ids1] by blast
      show ?thesis
        using None False Cons.prems(2) st lp sframe_trans[OF st(4) lp(4)]
        by (intro exI[of _ s2] exI[of _ r2] exI[of _ R2]) simp
    next
      case (Some p)
      then show ?thesis using False Cons.prems(2) st by (intro exI[of _ s1] exI[of _ r1] exI[of _ R1]) simp
    qed
  qed
qed

lemma sframe_upd_cpu:
  assumes "\<And>x. cpu_id (g x) = cpu_id x \<and> idle_proc (g x) = idle_proc x \<and> quantum_left (g x) = quantum_left x
    \<and> current_proc (g x) = current_proc x"
  shows "sframe me s (upd_cpu c g s)"
  using assms by (simp add: sframe_def)

lemma rq_ok_upd_cpu:
  "rq_ok s R \<Longrightarrow> (\<And>x. run_queues (g x) = run_queues x) \<Longrightarrow> rq_ok (upd_cpu c g s) R"
  by (rule rq_ok_cong) (simp_all add: sched_upd)

lemma try_steal_refines:
  assumes "rq_ok s R" "\<forall>c. cpu_id (cpus s c) = c"
  shows "\<exists>s' r R'. try_steal_work me s = Some (s', r) \<and> rq_ok s' R' \<and> queued R' = queued R \<and> sframe me s s' \<and>
    (\<forall>p. r = Some p \<longrightarrow> (\<exists>q. p \<in> set (R' me q)))"
proof -
  define s1 where "s1 = upd_cpu me (\<lambda>c. c\<lparr>last_steal_tick := sched_ticks (cpus s me)\<rparr>) s"
  have f: "sframe me s s1" unfolding s1_def by (rule sframe_upd_cpu) simp
  have ok1: "rq_ok s1 R" unfolding s1_def using assms(1) by (rule rq_ok_upd_cpu) simp
  have ids1: "\<forall>c. cpu_id (cpus s1 c) = c" using assms(2) f by (simp add: sframe_def)
  obtain s' r R' where lp: "steal_loop me [0..<cpu_count s] s1 = Some (s', r)" "rq_ok s' R'"
    "queued R' = queued R" "sframe me s1 s'" "\<forall>p. r = Some p \<longrightarrow> (\<exists>q. p \<in> set (R' me q))"
    using steal_loop_refines[OF ok1 ids1] by blast
  have "try_steal_work me s = Some (s, None) \<or> try_steal_work me s = Some (s', r)"
    using lp(1) by (simp add: try_steal_work_def Let_def s1_def)
  then show ?thesis
  proof
    assume "try_steal_work me s = Some (s, None)"
    then show ?thesis using assms(1) sframe_refl by (intro exI[of _ s] exI[of _ None] exI[of _ R]) simp
  next
    assume "try_steal_work me s = Some (s', r)"
    then show ?thesis using lp sframe_trans[OF f lp(4)] by (intro exI[of _ s'] exI[of _ r] exI[of _ R']) simp
  qed
qed

lemma find_next_Some:
  assumes "find_next_process me s = (Some p, q)"
  shows "rq_head s me q = Some p" "q < 4" "\<And>q'. q' < q \<Longrightarrow> rq_head s me q' = None"
proof -
  have "find (\<lambda>q. rq_head s me q \<noteq> None) [0..<4] = Some q \<and> rq_head s me q = Some p"
    using assms by (simp add: find_next_process_def kernel_const split: option.splits)
  then show "rq_head s me q = Some p" "q < 4" "\<And>q'. q' < q \<Longrightarrow> rq_head s me q' = None"
    using find_upt_SomeD[of "\<lambda>q. rq_head s me q \<noteq> None" 0 4 q] by auto
qed

lemma rq_ok_head:
  assumes "rq_ok s R" "rq_head s c q = Some h"
  shows "h \<in> set (R c q)"
proof -
  have "ring (nxt s) (Some h) (R c q)" using assms unfolding rq_ok_def rings_def by metis
  then show ?thesis by (auto simp: ring_Some)
qed

lemma skip_current_refines:
  assumes "rq_ok s R" "skip_current me s = (s', pick, q)"
  shows "\<exists>R'. rq_ok s' R' \<and> queued R' = queued R \<and> sframe me s s' \<and>
    (\<forall>p. pick = Some p \<longrightarrow> p \<in> set (R' me q))"
proof -
  obtain pk q0 where f: "find_next_process me s = (pk, q0)" by fastforce
  show ?thesis
  proof (cases "pk \<noteq> None \<and> pk = current_process s \<and> not_running s (the pk)")
    case True
    then obtain p where p: "pk = Some p" by blast
    note h = find_next_Some[OF f[unfolded p]]
    have cp: "current_process s = Some p" "not_running s p" using True p by auto
    define s1 where "s1 = set_rq_head me q0 (nxt s p) s"
    have ok1: "rq_ok s1 (upd_rq R me q0 (rotate1 (R me q0)))"
      unfolding s1_def by (rule rotate_refines[OF assms(1) h(1)])
    have sk: "s' = s1" "find_next_process me s1 = (pick, q) \<or> pick = None"
      using assms(2) f p cp by (auto simp: skip_current_def Let_def s1_def split: prod.splits if_splits)
    have "p' \<in> set (upd_rq R me q0 (rotate1 (R me q0)) me q)" if "pick = Some p'" for p'
      using sk(2) that find_next_Some(1) rq_ok_head[OF ok1] by (metis option.distinct(1))
    then show ?thesis using ok1 sk(1) sframe_set_rq_head[of me s me q0] queued_same_set[of "rotate1 (R me q0)" R me q0]
      by (auto simp: s1_def)
  next
    case False
    then have "s' = s" "pick = pk" "q = q0"
      using assms(2) f by (cases pk; auto simp: skip_current_def)+
    moreover have "p \<in> set (R me q0)" if "pk = Some p" for p
      using rq_ok_head[OF assms(1) find_next_Some(1)[OF f[unfolded that]]] .
    ultimately show ?thesis using assms(1) sframe_refl by (intro exI[of _ R]) simp
  qed
qed

lemma pick_refines:
  assumes "rq_ok s R" "\<forall>c. cpu_id (cpus s c) = c"
  shows "\<exists>s' pick q R'. pick_next_or_idle me s = Some (s', pick, q) \<and> rq_ok s' R' \<and> queued R' = queued R \<and>
    sframe me s s' \<and> (pick = idle_proc (cpus s me) \<or> (\<exists>p. pick = Some p \<and> p \<in> set (R' me q)))"
proof -
  obtain s1 pk q1 where sk: "skip_current me s = (s1, pk, q1)" by (metis prod_cases3)
  obtain R1 where R1: "rq_ok s1 R1" "queued R1 = queued R" "sframe me s s1"
    "\<forall>p. pk = Some p \<longrightarrow> p \<in> set (R1 me q1)"
    using skip_current_refines[OF assms(1) sk] by blast
  show ?thesis
  proof (cases pk)
    case (Some p)
    then have "pick_next_or_idle me s = Some (s1, Some p, q1)" using sk by (simp add: pick_next_or_idle_def)
    then show ?thesis using R1 Some by blast
  next
    case None
    have ids1: "\<forall>c. cpu_id (cpus s1 c) = c" using assms(2) R1(3) by (simp add: sframe_def)
    obtain s2 r R2 where st: "try_steal_work me s1 = Some (s2, r)" "rq_ok s2 R2" "queued R2 = queued R1"
      "sframe me s1 s2" "\<forall>p. r = Some p \<longrightarrow> (\<exists>q. p \<in> set (R2 me q))"
      using try_steal_refines[OF R1(1) ids1] by blast
    note fr = sframe_trans[OF R1(3) st(4)]
    show ?thesis
    proof (cases r)
      case None
      then have "pick_next_or_idle me s = Some (s2, idle_proc (cpus s2 me), q1)"
        using sk st \<open>pk = None\<close> by (simp add: pick_next_or_idle_def)
      then show ?thesis using st R1 fr by (auto simp: sframe_def)
    next
      case (Some p)
      then obtain q where q: "p \<in> set (R2 me q)" using st(5) by blast
      then have "p_mlfq_queue (procs s2 p) = int q" using st(2) by (auto simp: rq_ok_def rings_def qof_def)
      then have "pick_next_or_idle me s = Some (s2, Some p, q)"
        using sk st Some \<open>pk = None\<close> by (simp add: pick_next_or_idle_def)
      then show ?thesis using st R1 fr q by auto
    qed
  qed
qed


section \<open>Demotion and dispatch\<close>

lemma demote_refines:
  assumes ok: "rq_ok s R" and cur: "\<And>a. cur = Some a \<Longrightarrow> Some a \<noteq> idle_proc (cpus s me) \<Longrightarrow>
      p_state (procs s a) = PROCESS_RUNNING \<Longrightarrow> own s a = me \<and> queued R a"
  shows "\<exists>s' R'. demote_quantum_exhausted me cur s = Some s' \<and> rq_ok s' R' \<and> queued R' = queued R \<and>
    this_cpu s' = this_cpu s \<and> (\<forall>c. cpu_id (cpus s' c) = cpu_id (cpus s c))"
proof (cases "cur = None \<or> cur = idle_proc (cpus s me) \<or> not_running s (the cur) \<or> quantum_left (cpus s me) \<noteq> 0")
  case True
  then have "demote_quantum_exhausted me cur s = Some s" by (auto simp: demote_quantum_exhausted_def split: option.splits)
  then show ?thesis using ok by auto
next
  case False
  then obtain a where a: "cur = Some a" "Some a \<noteq> idle_proc (cpus s me)" "p_state (procs s a) = PROCESS_RUNNING"
    "quantum_left (cpus s me) = 0" by (auto simp: not_running_def)
  then have oa: "own s a = me" "queued R a" using cur by blast+
  have r: "rings (nxt s) (rq_head s) (qof s) (own s) R" using ok by (simp add: rq_ok_def)
  then obtain q where q: "a \<in> set (R me q)" "qof s a = int q" using oa by (auto simp: rings_def queued_def)
  obtain s1 where s1: "remove_from_queue me a s = Some s1" "rq_ok s1 (upd_rq R me q (remove1 a (R me q)))"
    using remove_from_queue_refines[OF ok oa(1)] q by auto
  note fr = remove_frame(1)[OF s1(1), of me] remove_frame(2,3)[OF s1(1)]
  let ?R1 = "upd_rq R me q (remove1 a (R me q))"
  let ?s2 = "set_state a PROCESS_READY s1"
  have d: "distinct (R me q)" using r by (auto simp: rings_def ring_def)
  have nq: "\<not> queued ?R1 a"
    using d rings_unique[OF r q(1)] by (auto simp: queued_upd_rq)
  have "qof ?s2 = qof s1" "own ?s2 = own s1"
    by (auto simp: set_state_def qof_def own_def)
  then have own2: "own ?s2 a = me" using fr oa by simp
  obtain nq' where step: "demote_quantum_exhausted me cur s = Some (add_to_queue me a nq' ?s2)"
    using a s1(1) by (auto simp: demote_quantum_exhausted_def not_running_def Let_def)
  have ok2: "rq_ok ?s2 ?R1" using s1(2) by simp
  let ?R2 = "upd_rq ?R1 me (clamp_queue nq') (ins_second a (?R1 me (clamp_queue nq')))"
  have ok3: "rq_ok (add_to_queue me a nq' ?s2) ?R2" by (rule add_to_queue_refines[OF ok2 nq own2])
  have "queued ?R2 b = queued R b" for b
  proof -
    have "queued ?R1 b \<longleftrightarrow> queued R b \<and> b \<noteq> a"
      using nq d queued_split[of R b me q] by (auto simp: queued_upd_rq)
    then show ?thesis
      using queued_insert[of "ins_second a (?R1 me (clamp_queue nq'))" a ?R1 me "clamp_queue nq'" b] oa(2) by auto
  qed
  moreover have "this_cpu (add_to_queue me a nq' ?s2) = this_cpu s"
    "cpu_id (cpus (add_to_queue me a nq' ?s2) c) = cpu_id (cpus s c)" for c
    using fr sframe_add_to_queue[of me ?s2 me a nq'] by (simp_all add: sframe_def set_state_def)
  ultimately show ?thesis using step ok3 by (intro exI[of _ "add_to_queue me a nq' ?s2"] exI[of _ ?R2]) auto
qed

lemma rq_ok_set_current [simp]: "rq_ok (set_current a s) R = rq_ok s R"
  by (simp add: rq_ok_def set_current_def sched_upd)

lemma rq_ok_upd_proc_other:
  assumes "\<And>p. p_next (f p) = p_next p \<and> p_mlfq_queue (f p) = p_mlfq_queue p \<and> p_owner_cpu (f p) = p_owner_cpu p"
  shows "rq_ok (upd_proc a f s) R = rq_ok s R"
proof -
  have "qof (upd_proc a f s) = qof s" "own (upd_proc a f s) = own s"
    using assms by (auto simp: qof_def own_def fun_eq_iff)
  then show ?thesis using assms by (simp add: rq_ok_def nxt_upd_proc)
qed

lemma rq_ok_upd_cpu_iff:
  "(\<And>x. run_queues (g x) = run_queues x) \<Longrightarrow> rq_ok (upd_cpu c g s) R = rq_ok s R"
  by (simp add: rq_ok_def sched_upd)

lemma rq_ok_switches [simp]: "rq_ok (s\<lparr>switches := w\<rparr>) R = rq_ok s R"
  by (simp add: rq_ok_def)

lemma context_switch_rq [simp]: "rq_ok (context_switch a b s) R = rq_ok s R"
proof -
  have "rq_ok (load_page_directory a b t) R = rq_ok t R" "rq_ok (load_kernel_stack b t) R = rq_ok t R"
    "rq_ok (switch_registers a b t) R = rq_ok t R" for t :: "'a kstate_scheme"
    by (simp_all add: load_page_directory_def load_kernel_stack_def switch_registers_def Let_def
        switch_page_directory_def rq_ok_upd_cpu_iff split: option.splits)
  then show ?thesis by (simp add: context_switch_def Let_def rq_ok_upd_proc_other)
qed

lemma dispatch_refines:
  assumes "rq_ok s R"
  shows "\<exists>R'. rq_ok (dispatch me n q s) R' \<and> queued R' = queued R"
proof -
  define s1 where "s1 = upd_cpu me (\<lambda>c. c\<lparr>quantum_left := queue_quantum q\<rparr>)
    (set_state n PROCESS_RUNNING (upd_cpu me (\<lambda>c. c\<lparr>current_queue := int q\<rparr>) (set_current n s)))"
  have ok1: "rq_ok s1 R" using assms by (simp add: s1_def rq_ok_upd_cpu_iff)
  define s2 where "s2 = rotate_queue me q s1"
  have "\<exists>R'. rq_ok s2 R' \<and> queued R' = queued R"
  proof (cases "rq_head s1 me q")
    case None
    then show ?thesis using ok1 by (auto simp: s2_def rotate_queue_def)
  next
    case (Some h)
    then show ?thesis using rotate_refines[OF ok1 Some] queued_same_set[of "rotate1 (R me q)" R me q]
      by (auto simp: s2_def rotate_queue_def)
  qed
  moreover have "dispatch me n q s = (case current_process s of None \<Rightarrow> s2 | Some a \<Rightarrow> context_switch a n s2)"
    by (simp only: dispatch_def Let_def s1_def s2_def)
  ultimately show ?thesis by (auto split: option.splits)
qed


text \<open>One step past the decision to look for another process.\<close>

lemma reschedule_refines:
  assumes ok: "rq_ok s R" and ids: "\<forall>c. cpu_id (cpus s c) = c"
    and cur: "\<And>a. current_process s = Some a \<Longrightarrow> Some a \<noteq> idle_proc (cpus s me) \<Longrightarrow>
      p_state (procs s a) = PROCESS_RUNNING \<Longrightarrow> own s a = me \<and> queued R a"
  shows "\<exists>s1 s2 nx q R2. demote_quantum_exhausted me (current_process s) s = Some s1 \<and>
    pick_next_or_idle me s1 = Some (s2, nx, q) \<and> rq_ok s2 R2 \<and> queued R2 = queued R"
proof -
  obtain s1 R1 where d: "demote_quantum_exhausted me (current_process s) s = Some s1" "rq_ok s1 R1"
    "queued R1 = queued R" "\<forall>c. cpu_id (cpus s1 c) = cpu_id (cpus s c)"
    using demote_refines[OF ok cur] by blast
  have ids1: "\<forall>c. cpu_id (cpus s1 c) = c" using d(4) ids by simp
  obtain s2 nx q R2 where "pick_next_or_idle me s1 = Some (s2, nx, q)" "rq_ok s2 R2" "queued R2 = queued R1"
    using pick_refines[OF d(2) ids1] by blast
  then show ?thesis using d by auto
qed

lemma rq_ok_set_quantum [simp]: "rq_ok (set_quantum me s) R = rq_ok s R"
  by (simp add: set_quantum_def rq_ok_upd_cpu_iff split: option.splits)

lemma schedule_refines:
  assumes ok: "rq_ok s R" and ids: "\<forall>c. cpu_id (cpus s c) = c"
    and cur: "\<And>a. current_process s = Some a \<Longrightarrow> Some a \<noteq> idle_proc (cpus s (this_cpu s)) \<Longrightarrow>
      p_state (procs s a) = PROCESS_RUNNING \<Longrightarrow> own s a = this_cpu s \<and> queued R a"
  shows "\<exists>s' R'. schedule s = Some s' \<and> rq_ok s' R' \<and> queued R' = queued R"
proof -
  let ?me = "this_cpu s"
  define s0 where "s0 = upd_cpu ?me (\<lambda>c. c\<lparr>schedule_calls := schedule_calls c + 1, rcu_qs_count := rcu_qs_count c + 1\<rparr>) s"
  have fr0: "sframe ?me s s0" unfolding s0_def by (rule sframe_upd_cpu) simp
  have ok0: "rq_ok s0 R" unfolding s0_def using ok by (rule rq_ok_upd_cpu) simp
  have ids0: "\<forall>c. cpu_id (cpus s0 c) = c" using fr0 ids by (simp add: sframe_def)
  obtain s1 nx nq R1 where p: "pick_next_or_idle ?me s0 = Some (s1, nx, nq)" "rq_ok s1 R1" "queued R1 = queued R"
    "sframe ?me s0 s1" using pick_refines[OF ok0 ids0] by blast
  note fr = sframe_trans[OF fr0 p(4)]
  have ids1: "\<forall>c. cpu_id (cpus s1 c) = c" using fr ids by (simp add: sframe_def)
  have cur1: "own s1 a = ?me \<and> queued R1 a" if "current_process s1 = Some a"
    "Some a \<noteq> idle_proc (cpus s1 ?me)" "p_state (procs s1 a) = PROCESS_RUNNING" for a
  proof -
    have "current_process s = Some a" "Some a \<noteq> idle_proc (cpus s ?me)" "p_state (procs s a) = PROCESS_RUNNING"
      using that fr sframe_current[OF fr] by (simp_all add: sframe_def)
    then have "own s a = ?me \<and> queued R a" by (rule cur)
    then show ?thesis using fr p(3) by (simp add: sframe_def)
  qed
  obtain s2 s3 nx' q' R3 where rs: "demote_quantum_exhausted ?me (current_process s1) s1 = Some s2"
    "pick_next_or_idle ?me s2 = Some (s3, nx', q')" "rq_ok s3 R3" "queued R3 = queued R1"
    using reschedule_refines[OF p(2) ids1 cur1] by blast
  obtain R4 where R4: "\<And>n. nx' = Some n \<Longrightarrow> rq_ok (dispatch ?me n q' s3) R4" "queued R4 = queued R3"
  proof (cases nx')
    case None
    then show ?thesis using that[of R3] by simp
  next
    case (Some n)
    then show ?thesis using dispatch_refines[OF rs(3), of ?me n q'] that by blast
  qed
  have "\<exists>s'. schedule s = Some s' \<and> (rq_ok s' R1 \<or> rq_ok s' R3 \<or> rq_ok s' R4)"
    unfolding schedule_def Let_def s0_def[symmetric] p(1)
    using p(2) rs R4(1) by (simp split: option.splits)
  then show ?thesis using p(3) rs(4) R4(2) by auto
qed


section \<open>Placement\<close>

lemma rq_ok_rr [simp]: "rq_ok (s\<lparr>rr_counter := n\<rparr>) R = rq_ok s R"
  by (simp add: rq_ok_def)

lemma rq_ok_ipi [simp]: "rq_ok (smp_ipi_send c s) R = rq_ok s R"
  by (simp add: rq_ok_def)

lemma rq_ok_own_upd:
  assumes "rq_ok s R" "\<not> queued R a" "\<And>p. p_next (f p) = p_next p"
  shows "rq_ok (upd_proc a f s) R"
proof -
  have na: "x \<in> set (R c q) \<Longrightarrow> x \<noteq> a" for x c q using assms(2) by (auto simp: queued_def)
  show ?thesis using assms(1,3) na
    unfolding rq_ok_def rings_def by (simp add: nxt_upd_proc qof_upd_proc own_upd_proc)
qed

lemma scheduler_add_refines:
  assumes "rq_ok s R" "\<not> queued R a" "p_pid (procs s a) \<noteq> 0"
  shows "\<exists>R'. rq_ok (scheduler_add_process (Some a) s) R' \<and> (\<forall>b. queued R' b \<longleftrightarrow> queued R b \<or> b = a)"
proof -
  define t where "t = (if 0 < cpu_count s then unat (rr_counter s) mod cpu_count s else 0)"
  define s1 where "s1 = upd_proc a (\<lambda>p. p\<lparr>p_owner_cpu := t\<rparr>) ((upd_proc a (\<lambda>p. p\<lparr>p_time_slice := queue_quantum 0\<rparr>)
      (set_state a PROCESS_READY s))\<lparr>rr_counter := rr_counter s + 1\<rparr>)"
  have ok1: "rq_ok s1 R" unfolding s1_def
    by (rule rq_ok_own_upd) (use assms in \<open>auto simp: rq_ok_upd_proc_other\<close>)
  have "own s1 a = t" by (simp add: s1_def own_upd_proc)
  from add_to_queue_refines[OF ok1 assms(2) this, of 0]
  have ok2: "rq_ok (add_to_queue t a 0 s1) (upd_rq R t (clamp_queue 0) (ins_second a (R t (clamp_queue 0))))" .
  have "scheduler_add_process (Some a) s = add_to_queue t a 0 s1 \<or>
      scheduler_add_process (Some a) s = smp_ipi_send t (add_to_queue t a 0 s1)"
    using assms(3) by (simp add: scheduler_add_process_def Let_def s1_def t_def set_state_def)
  then have "rq_ok (scheduler_add_process (Some a) s) (upd_rq R t (clamp_queue 0) (ins_second a (R t (clamp_queue 0))))"
    using ok2 by auto
  moreover have "queued (upd_rq R t (clamp_queue 0) (ins_second a (R t (clamp_queue 0)))) b \<longleftrightarrow> queued R b \<or> b = a" for b
    by (rule queued_insert) simp
  ultimately show ?thesis by blast
qed

lemma rq_ok_empty: "(\<And>c q. rq_head s c q = None) \<Longrightarrow> rq_ok s (\<lambda>_ _. [])"
  by (simp add: rq_ok_def rings_def)

section \<open>Example: two processes on one CPU\<close>

text \<open>
  Processes 1 and 2 queued on CPU 0, where the kernel process (address 0) is idle and
  current; CPU 1 runs its idle process at address 9.
\<close>

definition sched_example :: kstate where
  "sched_example = kstate_boot\<lparr>
     procs := (\<lambda>_. zero_process)
       (1 := zero_process\<lparr>p_pid := 1, p_next := Some 2\<rparr>,
        2 := zero_process\<lparr>p_pid := 2, p_next := Some 1\<rparr>),
     cpus := boot_cpu
       (0 := (boot_cpu 0)\<lparr>current_proc := Some 0, idle_proc := Some 0, run_queues := [0 \<mapsto> 1]\<rparr>,
        1 := (boot_cpu 1)\<lparr>current_proc := Some 9, idle_proc := Some 9\<rparr>),
     cpu_count := 2\<rparr>"

lemma sched_example_ok:
  "rq_ok sched_example (\<lambda>c q. if c = 0 \<and> q = 0 then [1, 2] else [])"
  "\<forall>c. cpu_id (cpus sched_example c) = c" "current_process sched_example = Some 0"
  "idle_proc (cpus sched_example (this_cpu sched_example)) = Some 0"
  by (auto simp: rq_ok_def rings_def sched_example_def nxt_def rq_head_def qof_def own_def
      kstate_boot_def boot_cpu_def zero_process_def ring_def current_process_def)

section \<open>Properties\<close>



lemma find_next_empty: "(\<And>q. rq_head s me q = None) \<Longrightarrow> find_next_process me s = (None, 0)"
  using find_upt_None_iff[of "\<lambda>q. rq_head s me q \<noteq> None" 0 NUM_QUEUES] by (simp add: find_next_process_def)

lemma find_next_only:
  assumes "q < 4" "rq_head s me q = Some p" "\<And>q'. q' \<noteq> q \<Longrightarrow> rq_head s me q' = None"
  shows "find_next_process me s = (Some p, q)"
proof -
  have "find (\<lambda>q. rq_head s me q \<noteq> None) [0..<4] = Some q"
    by (rule find_upt_SomeI) (use assms in auto)
  then show ?thesis using assms(2) by (simp add: find_next_process_def NUM_QUEUES_def)
qed

lemma steal_from_first:
  assumes "rq_head s v q = Some h" "nxt s h = Some r" "r \<noteq> h" "q < 4" "\<And>q'. q' < q \<Longrightarrow> \<not> stealable s v q'"
  shows "steal_from me v s = Some (add_to_queue me r (p_mlfq_queue (procs s r))
      (upd_proc r (\<lambda>p. p\<lparr>p_owner_cpu := cpu_id (cpus s me)\<rparr>) (set_nxt r None (set_nxt h (nxt s r) s))), Some r)"
proof -
  have "find (stealable s v) [0..<4] = Some q"
    by (rule find_upt_SomeI) (use assms in \<open>auto simp: stealable_def\<close>)
  moreover have "p_mlfq_queue (procs (set_nxt r None (set_nxt h (nxt s r) s)) r) = p_mlfq_queue (procs s r)"
    using assms(3) by (simp add: set_nxt_def)
  ultimately show ?thesis using assms(1,2) by (simp add: steal_from_def NUM_QUEUES_def Let_def)
qed

text \<open>
  An idle CPU with empty queues next to a CPU 0 whose best queue has two processes, the
  second of which is the one CPU 0 is running.
\<close>

definition steal_setup :: "'a kstate_scheme \<Rightarrow> nat \<Rightarrow> nat \<Rightarrow> nat \<Rightarrow> nat \<Rightarrow> nat \<Rightarrow> bool" where
  "steal_setup s me q h r idle \<longleftrightarrow> this_cpu s = me \<and> me \<noteq> 0 \<and> 0 < cpu_count s \<and> cpu_id (cpus s me) = me \<and>
     sched_ticks (cpus s me) < STEAL_MIN_INTERVAL \<and> current_proc (cpus s me) = Some idle \<and>
     idle_proc (cpus s me) = Some idle \<and> (\<forall>q'. rq_head s me q' = None) \<and> q < 4 \<and>
     rq_head s 0 q = Some h \<and> nxt s h = Some r \<and> r \<noteq> h \<and> r \<noteq> idle \<and> (\<forall>q' < q. \<not> stealable s 0 q') \<and>
     p_mlfq_queue (procs s r) = int q \<and> current_proc (cpus s 0) = Some r \<and> p_state (procs s r) = PROCESS_RUNNING"

lemma pick_steals:
  assumes "steal_setup s me q h r idle"
  shows "\<exists>s'. pick_next_or_idle me s = Some (s', Some r, q) \<and> rq_head s' me = (\<lambda>_. None)(q := Some r) \<and>
    nxt s' r = Some r \<and> this_cpu s' = me \<and> sframe me s s'"
proof -
  note S = assms[unfolded steal_setup_def]
  define s1 where "s1 = upd_cpu me (\<lambda>c. c\<lparr>last_steal_tick := sched_ticks (cpus s me)\<rparr>) s"
  have e: "skip_current me s = (s, None, 0)" using S by (simp add: skip_current_def find_next_empty)
  have s1: "rq_head s1 = rq_head s" "nxt s1 = nxt s" "procs s1 = procs s" "cpu_id (cpus s1 me) = me"
    "stealable s1 0 = stealable s 0"
    using S by (simp_all add: s1_def rq_head_upd_cpu stealable_def fun_eq_iff split: option.splits)
  define s2 where "s2 = upd_proc r (\<lambda>p. p\<lparr>p_owner_cpu := cpu_id (cpus s1 me)\<rparr>)
      (set_nxt r None (set_nxt h (nxt s1 r) s1))"
  have sf: "steal_from me 0 s1 = Some (add_to_queue me r (p_mlfq_queue (procs s1 r)) s2, Some r)"
    unfolding s2_def by (rule steal_from_first[of _ _ q h]) (use S s1 in auto)
  define s3 where "s3 = add_to_queue me r (int q) s2"
  have sf': "steal_from me 0 s1 = Some (s3, Some r)" using sf S s1 by (simp add: s3_def)
  have ts: "try_steal_work me s = Some (s3, Some r)"
  proof -
    obtain n where n: "cpu_count s = Suc n" using S by (cases "cpu_count s") auto
    have "\<not> STEAL_MIN_INTERVAL \<le> sched_ticks (cpus s me)" using S by (simp add: linorder_not_le)
    moreover have "[0..<cpu_count s] = 0 # [1..<cpu_count s]" using n by (simp add: upt_conv_Cons)
    ultimately show ?thesis using sf' s1 S by (simp add: try_steal_work_def s1_def[symmetric])
  qed
  have cl: "clamp_queue (int q) = q" using S by (simp add: clamp_queue_def kernel_const)
  have h2: "rq_head s2 = rq_head s" by (simp add: s2_def s1)
  have "rq_head s2 me q = None" using S h2 by simp
  then have s3: "s3 = set_nxt r (Some r) (set_rq_head me q (Some r) (upd_proc r (\<lambda>p. p\<lparr>p_mlfq_queue := int q\<rparr>) s2))"
    by (simp add: s3_def add_to_queue_def Let_def cl)
  have "p_mlfq_queue (procs s3 r) = int q" by (simp add: s3 set_nxt_def set_rq_head_def)
  then have "pick_next_or_idle me s = Some (s3, Some r, q)"
    using e ts by (simp add: pick_next_or_idle_def)
  moreover have "rq_head s3 me = (\<lambda>_. None)(q := Some r)" using S h2 by (auto simp: s3)
  moreover have "sframe me s s3"
  proof -
    have "sframe me s s1" unfolding s1_def by (rule sframe_upd_cpu) simp
    moreover have "sframe me s1 s2"
      unfolding sframe_def using s1(4) by (simp add: s2_def own_upd_proc) (simp add: set_nxt_def)
    moreover have "sframe me s2 s3" unfolding s3_def by (rule sframe_add_to_queue)
    ultimately show ?thesis using sframe_trans by blast
  qed
  moreover have "nxt s3 r = Some r" by (simp add: s3)
  moreover have "this_cpu s3 = me" using S \<open>sframe me s s3\<close> by (simp add: sframe_def)
  ultimately show ?thesis by blast
qed

lemma sframe_cpus:
  "sframe me s s' \<Longrightarrow> current_proc (cpus s' c) = current_proc (cpus s c)"
  "sframe me s s' \<Longrightarrow> idle_proc (cpus s' c) = idle_proc (cpus s c)"
  "sframe me s s' \<Longrightarrow> quantum_left (cpus s' c) = quantum_left (cpus s c)"
  "sframe me s s' \<Longrightarrow> p_state (procs s' a) = p_state (procs s a)"
  by (simp_all add: sframe_def)

lemma current_proc_steps [simp]:
  "current_proc (cpus (load_page_directory a b t) c) = current_proc (cpus t c)"
  "current_proc (cpus (load_kernel_stack b t) c) = current_proc (cpus t c)"
  "current_proc (cpus (switch_registers a b t) c) = current_proc (cpus t c)"
  "current_proc (cpus (rotate_queue me q t) c) = current_proc (cpus t c)"
  "this_cpu (rotate_queue me q t) = this_cpu t"
  "p_state (procs (load_page_directory a b t) x) = p_state (procs t x)"
  "p_state (procs (load_kernel_stack b t) x) = p_state (procs t x)"
  "p_state (procs (switch_registers a b t) x) = p_state (procs t x)"
  by (simp_all add: load_page_directory_def load_kernel_stack_def switch_registers_def rotate_queue_def Let_def
      switch_page_directory_def set_rq_head_def split: option.splits)

lemma context_switch_current:
  assumes "old \<noteq> new"
  shows "current_proc (cpus (context_switch old new s) c) =
      (if c = this_cpu s then Some new else current_proc (cpus s c))"
    "p_state (procs (context_switch old new s) new) = PROCESS_RUNNING"
  using assms by (simp_all add: context_switch_def Let_def set_current_def cas_state_def set_state_def)

lemma current_proc_dispatch:
  assumes "current_process s = Some old" "old \<noteq> n" "this_cpu s = me"
  shows "current_proc (cpus (dispatch me n q s) me) = Some n" "p_state (procs (dispatch me n q s) n) = PROCESS_RUNNING"
    "c \<noteq> me \<Longrightarrow> current_proc (cpus (dispatch me n q s) c) = current_proc (cpus s c)"
  using assms
  by (simp_all add: dispatch_def Let_def context_switch_current set_current_def set_state_def)

section \<open>More properties\<close>

text \<open>
  (scheduler, safety).  Work stealing takes the process after the head of the victim's
  queue whatever its state.  When that process is the one the victim is running, an idle
  CPU that schedules dispatches it as well: afterwards two CPUs have the same current
  process.
\<close>
theorem steal_runs_process_twice:
  assumes "steal_setup s me q h r idle"
  shows "\<exists>s'. schedule s = Some s' \<and> current_proc (cpus s' 0) = Some r \<and> current_proc (cpus s' me) = Some r"
proof -
  note S = assms[unfolded steal_setup_def]
  define s0 where "s0 = upd_cpu me (\<lambda>c. c\<lparr>schedule_calls := schedule_calls c + 1, rcu_qs_count := rcu_qs_count c + 1\<rparr>) s"
  have fr0: "sframe me s s0" unfolding s0_def by (rule sframe_upd_cpu) simp
  have "stealable s0 = stealable s"
    by (simp add: s0_def stealable_def fun_eq_iff rq_head_upd_cpu split: option.splits)
  then have "steal_setup s0 me q h r idle"
    using S by (simp add: steal_setup_def s0_def rq_head_upd_cpu)
  from pick_steals[OF this] obtain s1 where p1: "pick_next_or_idle me s0 = Some (s1, Some r, q)"
    and rq1: "rq_head s1 me = (\<lambda>_. None)(q := Some r)" and n1: "nxt s1 r = Some r"
    and t1: "this_cpu s1 = me" and f1: "sframe me s0 s1" by blast
  note fr = sframe_trans[OF fr0 f1]
  have c1: "current_process s1 = Some idle" "idle_proc (cpus s1 me) = Some idle" "current_proc (cpus s1 0) = Some r"
    using S t1 sframe_cpus[OF fr] by (simp_all add: current_process_def)
  have "find_next_process me s1 = (Some r, q)" by (rule find_next_only) (use S rq1 in auto)
  then have p2: "pick_next_or_idle me s1 = Some (s1, Some r, q)"
    using c1 S by (simp add: pick_next_or_idle_def skip_current_def)
  have "schedule s = Some (dispatch me r q s1)"
    using S p1 p2 c1 by (simp add: schedule_def s0_def[symmetric] Let_def demote_quantum_exhausted_def)
  moreover have "idle \<noteq> r" "0 \<noteq> me" using S by auto
  ultimately show ?thesis
    using current_proc_dispatch(1)[OF c1(1) _ t1, of r q] current_proc_dispatch(3)[OF c1(1) _ t1, of r 0 q] c1(3)
    by (intro exI[of _ "dispatch me r q s1"]) simp
qed

theorem steal_runs_process_twice_witness:
  "\<exists>s'. schedule (upd_proc 2 (\<lambda>p. p\<lparr>p_state := PROCESS_RUNNING\<rparr>) (upd_cpu 0 (\<lambda>c. c\<lparr>current_proc := Some 2\<rparr>)
       (sched_example\<lparr>this_cpu := 1\<rparr>))) = Some s' \<and>
     current_proc (cpus s' 0) = Some 2 \<and> current_proc (cpus s' 1) = Some 2"
  by (rule steal_runs_process_twice[of _ 1 0 1 2 9])
    (simp add: steal_setup_def sched_example_def kstate_boot_def boot_cpu_def zero_process_def
      rq_head_def nxt_def STEAL_MIN_INTERVAL_def)

text \<open>
  (scheduler, safety).  The dispatcher looks only at queue heads, not at states: with
  the idle process current, the head of the best non-empty queue is dispatched and becomes
  RUNNING even when a fatal signal has marked it TERMINATED.
\<close>
theorem schedule_runs_terminated:
  assumes "this_cpu s = me" "current_proc (cpus s me) = Some i" "idle_proc (cpus s me) = Some i" "q < 4"
    and "rq_head s me q = Some p" "\<forall>q'. q' \<noteq> q \<longrightarrow> rq_head s me q' = None" "p \<noteq> i"
    and "p_state (procs s p) = PROCESS_TERMINATED"
  shows "\<exists>s'. schedule s = Some s' \<and> current_proc (cpus s' me) = Some p \<and> p_state (procs s' p) = PROCESS_RUNNING"
proof -
  define s0 where "s0 = upd_cpu me (\<lambda>c. c\<lparr>schedule_calls := schedule_calls c + 1, rcu_qs_count := rcu_qs_count c + 1\<rparr>) s"
  have s0: "rq_head s0 = rq_head s" "current_process s0 = Some i" "idle_proc (cpus s0 me) = Some i" "this_cpu s0 = me"
    using assms(1-3) by (simp_all add: s0_def rq_head_upd_cpu current_process_def)
  have "find_next_process me s0 = (Some p, q)" by (rule find_next_only) (use assms s0 in auto)
  then have pk: "pick_next_or_idle me s0 = Some (s0, Some p, q)"
    using s0 assms(7) by (simp add: pick_next_or_idle_def skip_current_def)
  have "schedule s = Some (dispatch me p q s0)"
    using assms(1,7) pk s0 by (simp add: schedule_def s0_def[symmetric] Let_def demote_quantum_exhausted_def)
  then show ?thesis using current_proc_dispatch(1,2)[OF s0(2) _ s0(4), of p q] assms(7) by auto
qed

theorem schedule_runs_terminated_witness:
  "let s = fst (process_send_signal 2 SIGKILL (upd_cpu 0 (\<lambda>c. c\<lparr>idle_proc := Some 0, run_queues := [0 \<mapsto> 2]\<rparr>)
             (set_current 0 init_and_child)))
   in p_state (procs s 2) = PROCESS_TERMINATED \<and>
      (\<exists>s'. schedule s = Some s' \<and> p_state (procs s' 2) = PROCESS_RUNNING)"
proof -
  define s where "s = fst (process_send_signal 2 SIGKILL (upd_cpu 0 (\<lambda>c. c\<lparr>idle_proc := Some 0, run_queues := [0 \<mapsto> 2]\<rparr>)
             (set_current 0 init_and_child)))"
  have f: "this_cpu s = 0" "current_proc (cpus s 0) = Some 0" "idle_proc (cpus s 0) = Some 0"
    "p_state (procs s 2) = PROCESS_TERMINATED" unfolding s_def by code_simp+
  have c: "cpus (fst (process_send_signal pid sig t)) = cpus t" for pid sig and t :: kstate
    by (simp add: process_send_signal_def Let_def process_deliver_signal_def set_state_def cas_state_def
        split: option.splits sig_handler.splits)
  have "rq_head s 0 q = (if q = 0 then Some 2 else None)" for q by (simp add: s_def rq_head_def c)
  then show ?thesis using schedule_runs_terminated[of s 0 0 0 2] f by (auto simp: s_def[symmetric])
qed

end
