(* ===== verification/Uaccess.thy ===== *)
theory Uaccess
  imports Prelude
begin

text \<open>
  Copies between kernel and user memory, \<^verbatim>\<open>src/kernel/mm/uaccess.c\<close>.  The address
  space of the current process is its translation (\<open>get_physical_addr_current\<close>, 0 for an
  absent page) and the bytes behind its addresses.  A user pointer is a 32-bit word, null
  is 0; of a kernel pointer only whether it is null matters.  Shown: a copy that succeeds
  touches exactly the resident user bytes it was asked for, one that fails touches nothing,
  and no accepted range reaches the kernel half or wraps around.
\<close>

section \<open>Address spaces and range checks\<close>

record aspace =
  as_phys :: "u32 \<Rightarrow> u32"
  as_mem :: "u32 \<Rightarrow> byte"

definition KERNEL_BASE :: u32 where [kernel_const]: "KERNEL_BASE = 0xC0000000"
definition USER_MIN_VA :: u32 where [kernel_const]: "USER_MIN_VA = 4096"
definition PAGE_MASK :: u32 where [kernel_const]: "PAGE_MASK = 4095"

definition access_ok :: "u32 \<Rightarrow> u32 \<Rightarrow> bool" where
  "access_ok addr sz =
     (if addr = 0 then False
      else if KERNEL_BASE \<le> addr then False
      else if addr + sz < addr then False
      else if KERNEL_BASE < addr + sz then False
      else if addr < USER_MIN_VA then False
      else True)"

text \<open>The loop over the pages of a range: \<open>k\<close> pages are left after this one.\<close>

fun pages_resident :: "aspace \<Rightarrow> u32 \<Rightarrow> nat \<Rightarrow> bool" where
  "pages_resident m page k =
     (if as_phys m page = 0 then False
      else if k = 0 then True
      else pages_resident m (page + 4096) (k - 1))"

declare pages_resident.simps [simp del]

definition user_range_resident :: "aspace \<Rightarrow> u32 \<Rightarrow> u32 \<Rightarrow> bool" where
  "user_range_resident m addr sz =
     (if sz = 0 then True
      else
        let start = addr AND NOT PAGE_MASK; end_page = (addr + sz - 1) AND NOT PAGE_MASK
        in pages_resident m start (unat (end_page - start) div 4096))"

definition user_addr_resident :: "aspace \<Rightarrow> u32 \<Rightarrow> bool" where
  "user_addr_resident m addr \<longleftrightarrow> as_phys m (addr AND NOT PAGE_MASK) \<noteq> 0"

section \<open>Copies\<close>

definition user_bytes :: "aspace \<Rightarrow> u32 \<Rightarrow> nat \<Rightarrow> byte list" where
  "user_bytes m addr n = map (\<lambda>i. as_mem m (addr + of_nat i)) [0..<n]"

definition put_user_bytes :: "aspace \<Rightarrow> u32 \<Rightarrow> byte list \<Rightarrow> aspace" where
  "put_user_bytes m addr xs =
     m\<lparr>as_mem := (\<lambda>a. if unat (a - addr) < length xs then xs ! unat (a - addr) else as_mem m a)\<rparr>"

definition copy_from_user :: "bool \<Rightarrow> aspace \<Rightarrow> u32 \<Rightarrow> u32 \<Rightarrow> byte list res" where
  "copy_from_user dst m src n =
     (if \<not> dst \<or> src = 0 then Inl EINVAL
      else if n = 0 then Inr []
      else if \<not> access_ok src n then Inl EFAULT
      else if \<not> user_range_resident m src n then Inl EFAULT
      else Inr (user_bytes m src (unat n)))"

text \<open>The kernel buffer has at least \<open>n\<close> bytes \<open>src\<close>; \<open>None\<close> is the null pointer.\<close>

definition copy_to_user :: "aspace \<Rightarrow> u32 \<Rightarrow> byte list option \<Rightarrow> u32 \<Rightarrow> aspace \<times> unit res" where
  "copy_to_user m dst src n =
     (case src of
        None \<Rightarrow> (m, Inl EINVAL)
      | Some xs \<Rightarrow>
          if dst = 0 then (m, Inl EINVAL)
          else if n = 0 then (m, Inr ())
          else if \<not> access_ok dst n then (m, Inl EFAULT)
          else if \<not> user_range_resident m dst n then (m, Inl EFAULT)
          else (put_user_bytes m dst (take (unat n) xs), Inr ()))"

text \<open>
  The loop of \<open>copy_str_from_user\<close> from index \<open>i\<close> on, with \<open>k\<close> iterations left, the page
  last found resident and the bytes stored so far.
\<close>

fun copy_str_loop :: "aspace \<Rightarrow> u32 \<Rightarrow> nat \<Rightarrow> nat \<Rightarrow> u32 \<Rightarrow> byte list \<Rightarrow> byte list \<times> nat res" where
  "copy_str_loop m base i 0 cur dst = (dst @ [0], Inl EOVERFLOW)"
| "copy_str_loop m base i (Suc k) cur dst =
     (let addr = base + of_nat i; page = addr AND NOT PAGE_MASK
      in if page \<noteq> cur \<and> \<not> user_addr_resident m addr then (dst, Inl EFAULT)
         else
           let c = as_mem m addr
           in if c = 0 then (dst @ [c], Inr i)
              else copy_str_loop m base (Suc i) k page (dst @ [c]))"

text \<open>The bytes written to the kernel buffer and the return value.\<close>

definition copy_str_from_user :: "bool \<Rightarrow> aspace \<Rightarrow> u32 \<Rightarrow> u32 \<Rightarrow> byte list \<times> nat res" where
  "copy_str_from_user dst m src maxlen =
     (if \<not> dst \<or> src = 0 \<or> maxlen = 0 then ([], Inl EINVAL)
      else if \<not> access_ok src maxlen then ([], Inl EFAULT)
      else if \<not> user_addr_resident m src then ([], Inl EFAULT)
      else copy_str_loop m src 0 (unat maxlen - 1) (src AND NOT PAGE_MASK) [])"

definition validate_kernel_string :: "byte list option \<Rightarrow> nat \<Rightarrow> unit res" where
  "validate_kernel_string str max_len =
     (case str of
        None \<Rightarrow> Inl EINVAL
      | Some xs \<Rightarrow> if list_ex (\<lambda>i. xs ! i = 0) [0..<max_len] then Inr () else Inl EOVERFLOW)"

section \<open>Ranges\<close>

lemma access_okD:
  assumes "access_ok addr sz"
  shows "4096 \<le> unat addr" "unat addr + unat sz \<le> 0xC0000000" "unat (addr + sz) = unat addr + unat sz"
proof -
  have a: "\<not> addr + sz < addr" "addr + sz \<le> 0xC0000000" "4096 \<le> addr"
    using assms by (auto simp: access_ok_def kernel_const split: if_splits)
  show u: "unat (addr + sz) = unat addr + unat sz"
    using a(1) by (simp add: unat_plus_simple[symmetric] not_less)
  show "unat addr + unat sz \<le> 0xC0000000" using a(2) u by (simp add: word_le_nat_alt)
  show "4096 \<le> unat addr" using a(3) by (simp add: word_le_nat_alt)
qed

lemma access_ok_iff:
  "access_ok addr sz \<longleftrightarrow> 4096 \<le> unat addr \<and> unat addr < 0xC0000000 \<and> unat addr + unat sz \<le> 0xC0000000"
proof
  assume r: "4096 \<le> unat addr \<and> unat addr < 0xC0000000 \<and> unat addr + unat sz \<le> 0xC0000000"
  then have u: "unat (addr + sz) = unat addr + unat sz" by (simp add: unat_word_ariths)
  have "addr \<noteq> 0" using r by auto
  then show "access_ok addr sz"
    using r u by (simp add: access_ok_def kernel_const word_le_nat_alt word_less_nat_alt)
next
  assume a: "access_ok addr sz"
  have "\<not> 0xC0000000 \<le> addr" using a by (auto simp: access_ok_def kernel_const split: if_splits)
  then show "4096 \<le> unat addr \<and> unat addr < 0xC0000000 \<and> unat addr + unat sz \<le> 0xC0000000"
    using access_okD[OF a] by (simp add: word_le_nat_alt)
qed

lemma pages_resident_iff:
  "pages_resident m page k \<longleftrightarrow> (\<forall>j \<le> k. as_phys m (page + of_nat (j * 4096)) \<noteq> 0)"
proof (induction k arbitrary: page)
  case 0
  then show ?case by (simp add: pages_resident.simps)
next
  case (Suc k)
  have "(\<forall>j \<le> Suc k. as_phys m (page + of_nat (j * 4096)) \<noteq> 0) \<longleftrightarrow>
    as_phys m page \<noteq> 0 \<and> (\<forall>j \<le> k. as_phys m (page + of_nat (Suc j * 4096)) \<noteq> 0)"
    by (metis (no_types, lifting) Suc_le_mono le0 mult_0 not0_implies_Suc of_nat_0 add_0_right)
  then show ?case using Suc by (subst pages_resident.simps) (simp add: add.assoc)
qed

lemma page_unat: "unat (a AND NOT PAGE_MASK) = unat a div 4096 * 4096"
proof -
  have m: "PAGE_MASK = 2 ^ 12 - 1" by (simp add: PAGE_MASK_def)
  have "a = (a AND NOT PAGE_MASK) + (a AND PAGE_MASK)"
    by (subst disjunctive_add) (auto simp: bit_simps intro!: bit_eqI)
  then have "a AND PAGE_MASK = a - (a AND NOT PAGE_MASK)" by (simp add: algebra_simps)
  then have l: "unat (a AND PAGE_MASK) = unat a - unat (a AND NOT PAGE_MASK)"
    using unat_sub[of "a AND NOT PAGE_MASK" a] by (simp add: word_and_le2)
  have "unat (a AND PAGE_MASK) = unat a mod 4096" unfolding m by (simp only: unat_and_mask) simp
  moreover have "unat (a AND NOT PAGE_MASK) \<le> unat a"
    using word_and_le2[of a "NOT PAGE_MASK"] by (simp add: word_le_nat_alt)
  ultimately have "unat (a AND NOT PAGE_MASK) = unat a - unat a mod 4096" using l by linarith
  then show ?thesis by (simp add: minus_mod_eq_div_mult)
qed

lemma all_shift: "s \<le> t \<Longrightarrow> (\<forall>j \<le> t - s. P (s + j)) \<longleftrightarrow> (\<forall>p. s \<le> p \<and> p \<le> (t :: nat) \<longrightarrow> P p)"
  by (metis le_add1 le_add_diff_inverse le_diff_conv2 add.commute diff_le_mono)

text \<open>The page walk covers every byte of an accepted range.\<close>

lemma user_range_resident_iff:
  assumes "access_ok addr sz"
  shows "user_range_resident m addr sz \<longleftrightarrow> (\<forall>i < unat sz. user_addr_resident m (addr + of_nat i))"
proof (cases "sz = 0")
  case True
  then show ?thesis by (simp add: user_range_resident_def)
next
  case False
  define a n where "a = unat addr" and "n = unat sz"
  have n: "0 < n" using False by (simp add: n_def unat_gt_0)
  have b: "a + n \<le> 0xC0000000" using access_okD[OF assms] by (simp add: a_def n_def)
  have i_addr: "unat (addr + of_nat i) = a + i" if "i < n" for i
    using that b by (simp add: unat_word_ariths a_def unsigned_of_nat take_bit_nat_eq_self)
  have e: "addr + sz - 1 = addr + of_nat (n - 1)"
    using n by (simp add: n_def of_nat_diff)
  define s t where "s = a div 4096" and "t = (a + n - 1) div 4096"
  have st: "s \<le> t" using n by (simp add: s_def t_def div_le_mono)
  have us: "unat (addr AND NOT PAGE_MASK) = s * 4096" by (simp add: page_unat s_def a_def)
  have ue: "unat ((addr + sz - 1) AND NOT PAGE_MASK) = t * 4096"
    using n i_addr[of "n - 1"] by (simp add: page_unat e t_def)
  have d: "unat ((addr + sz - 1 AND NOT PAGE_MASK) - (addr AND NOT PAGE_MASK)) div 4096 = t - s"
    using us ue st by (simp add: unat_sub word_le_nat_alt diff_mult_distrib[symmetric])
  have pg: "(addr AND NOT PAGE_MASK) + of_nat (j * 4096) = (of_nat ((s + j) * 4096) :: u32)" for j
    using us by (metis add_mult_distrib of_nat_add of_nat_unat ucast_id)
  have pi: "(addr + of_nat i) AND NOT PAGE_MASK = of_nat ((a + i) div 4096 * 4096)" if "i < n" for i
    using page_unat[of "addr + of_nat i"] i_addr[OF that] by (metis of_nat_unat ucast_id)
  have "user_range_resident m addr sz \<longleftrightarrow> (\<forall>p. s \<le> p \<and> p \<le> t \<longrightarrow> as_phys m (of_nat (p * 4096)) \<noteq> 0)"
  proof -
    have "user_range_resident m addr sz \<longleftrightarrow> (\<forall>j \<le> t - s. as_phys m (of_nat ((s + j) * 4096)) \<noteq> 0)"
      using False unfolding user_range_resident_def Let_def pages_resident_iff d pg by simp
    also have "\<dots> \<longleftrightarrow> (\<forall>p. s \<le> p \<and> p \<le> t \<longrightarrow> as_phys m (of_nat (p * 4096)) \<noteq> 0)"
      using all_shift[OF st, of "\<lambda>p. as_phys m (of_nat (p * 4096)) \<noteq> 0"] .
    finally show ?thesis .
  qed
  also have "\<dots> \<longleftrightarrow> (\<forall>i < n. as_phys m (of_nat ((a + i) div 4096 * 4096)) \<noteq> 0)"
  proof safe
    fix i assume h: "\<forall>p. s \<le> p \<and> p \<le> t \<longrightarrow> as_phys m (of_nat (p * 4096)) \<noteq> 0" "i < n"
      "as_phys m (of_nat ((a + i) div 4096 * 4096)) = 0"
    have "s \<le> (a + i) div 4096" "(a + i) div 4096 \<le> t"
      using h(2) by (auto simp: s_def t_def intro!: div_le_mono)
    then show False using h by blast
  next
    fix p assume h: "\<forall>i < n. as_phys m (of_nat ((a + i) div 4096 * 4096)) \<noteq> 0" "s \<le> p" "p \<le> t"
      "as_phys m (of_nat (p * 4096)) = 0"
    define i where "i = (if p = s then 0 else p * 4096 - a)"
    have "i < n \<and> (a + i) div 4096 = p"
    proof (cases "p = s")
      case True
      then show ?thesis using n by (simp add: i_def s_def)
    next
      case False
      then have "a div 4096 < p" using h(2) by (simp add: s_def)
      then have l: "a < p * 4096" by (simp add: div_less_iff_less_mult)
      have "p * 4096 \<le> a + n - 1" using h(3) by (simp add: t_def less_eq_div_iff_mult_less_eq)
      then show ?thesis using l n False by (simp add: i_def)
    qed
    then show False using h(1,4) by blast
  qed
  finally show ?thesis by (simp add: user_addr_resident_def pi n_def[symmetric])
qed

section \<open>Strings\<close>

lemma copy_str_loop_spec:
  assumes "\<forall>j < length cs. as_mem m (base + of_nat (i + j)) = cs ! j" "0 \<notin> set cs"
    and "as_mem m (base + of_nat (i + length cs)) = 0"
    and "\<forall>j \<le> length cs. user_addr_resident m (base + of_nat (i + j))"
  shows "copy_str_loop m base i k cur dst =
    (if length cs < k then (dst @ cs @ [0], Inr (i + length cs)) else (dst @ take k cs @ [0], Inl EOVERFLOW))"
  using assms
proof (induction k arbitrary: i cur dst cs)
  case (Suc k)
  have r: "user_addr_resident m (base + of_nat i)" using Suc.prems(4) by (auto dest: spec[of _ 0])
  show ?case
  proof (cases cs)
    case Nil
    then show ?thesis using Suc.prems(3) r by (simp add: Let_def)
  next
    case (Cons c cs')
    have c: "as_mem m (base + of_nat i) = c" "c \<noteq> 0"
      using Suc.prems(1,2) Cons by (auto dest: spec[of _ 0])
    have "copy_str_loop m base (Suc i) k p (dst @ [c]) =
      (if length cs' < k then ((dst @ [c]) @ cs' @ [0], Inr (Suc i + length cs'))
       else ((dst @ [c]) @ take k cs' @ [0], Inl EOVERFLOW))" for p
    proof (rule Suc.IH)
      show "\<forall>j < length cs'. as_mem m (base + of_nat (Suc i + j)) = cs' ! j"
      proof (intro allI impI)
        fix j assume "j < length cs'"
        then show "as_mem m (base + of_nat (Suc i + j)) = cs' ! j"
          using Suc.prems(1)[rule_format, of "Suc j"] Cons by (simp del: of_nat_add of_nat_Suc)
      qed
      show "\<forall>j \<le> length cs'. user_addr_resident m (base + of_nat (Suc i + j))"
      proof (intro allI impI)
        fix j assume "j \<le> length cs'"
        then show "user_addr_resident m (base + of_nat (Suc i + j))"
          using Suc.prems(4)[rule_format, of "Suc j"] Cons by (simp del: of_nat_add of_nat_Suc)
      qed
    qed (use Suc.prems(2,3) Cons in auto)
    then show ?thesis using c r Cons by (simp add: Let_def del: of_nat_Suc)
  qed
qed simp

section \<open>Properties\<close>


definition one_page :: aspace where
  "one_page = \<lparr>as_phys = (\<lambda>p. if p = 0x8048000 then 0xB00000 else 0), as_mem = (\<lambda>_. 0)\<rparr>"


text \<open>
  C26 (user copies, roundtrip).  Bytes copied to user memory are the bytes copied back.
\<close>
theorem copy_user_roundtrip:
  assumes "copy_to_user m dst (Some xs) n = (m', Inr ())" "unat n \<le> length xs"
  shows "copy_from_user True m' dst n = Inr (take (unat n) xs)"
proof (cases "n = 0")
  case True
  then show ?thesis using assms by (auto simp: copy_to_user_def copy_from_user_def split: if_splits)
next
  case False
  have c: "dst \<noteq> 0" "access_ok dst n" "user_range_resident m dst n"
    and m': "m' = put_user_bytes m dst (take (unat n) xs)"
    using assms(1) False by (auto simp: copy_to_user_def split: if_splits)
  have r: "user_range_resident m' dst n"
    using user_range_resident_iff[OF c(2), of m] user_range_resident_iff[OF c(2), of m'] c(3)
    by (simp add: m' put_user_bytes_def user_addr_resident_def)
  have "unat ((dst + of_nat i) - dst) = i" if "i < unat n" for i
    using that unat_u32_bound[of n] by (simp add: unsigned_of_nat take_bit_nat_eq_self)
  then have "user_bytes m' dst (unat n) = take (unat n) xs"
    using assms(2) by (intro nth_equalityI) (simp_all add: user_bytes_def m' put_user_bytes_def)
  then show ?thesis using c r False by (simp add: copy_from_user_def)
qed

theorem copy_user_roundtrip_witness:
  "\<exists>m'. copy_to_user one_page 0x8048FFD (Some [5, 6, 7]) 3 = (m', Inr ()) \<and>
     copy_from_user True m' 0x8048FFD 3 = Inr [5, 6, 7]"
proof -
  obtain m' r where c: "copy_to_user one_page 0x8048FFD (Some [5, 6, 7]) 3 = (m', r)" by fastforce
  have "snd (copy_to_user one_page 0x8048FFD (Some [5, 6, 7]) 3) = Inr ()" by code_simp
  then have c': "copy_to_user one_page 0x8048FFD (Some [5, 6, 7]) 3 = (m', Inr ())" using c by simp
  from copy_user_roundtrip[OF this] c' show ?thesis by simp
qed

text \<open>
  C27 (user copies, functional).  Reading a resident user string into a buffer of \<open>maxlen\<close>
  bytes returns its length and stores it with its NUL when it has at most \<open>maxlen - 2\<close>
  characters; a longer one, even the one that would just fit, is cut to \<open>maxlen - 1\<close>
  characters, terminated, and reported as an overflow.  The buffer is never exceeded.
\<close>
theorem copy_str_from_user_exact:
  assumes "access_ok src maxlen" "maxlen \<noteq> 0" "0 \<notin> set cs"
    and "user_bytes m src (Suc (length cs)) = cs @ [0]"
    and "\<forall>j \<le> length cs. user_addr_resident m (src + of_nat j)"
  shows "copy_str_from_user True m src maxlen =
    (if length cs < unat maxlen - 1 then (cs @ [0], Inr (length cs))
     else (take (unat maxlen - 1) cs @ [0], Inl EOVERFLOW))"
proof -
  have b: "as_mem m (src + of_nat j) = (cs @ [0]) ! j" if "j < Suc (length cs)" for j
    using arg_cong[OF assms(4), of "\<lambda>l. l ! j"] that by (simp add: user_bytes_def del: upt_Suc)
  have "src \<noteq> 0" using assms(1) by (auto simp: access_ok_def)
  moreover have "user_addr_resident m src" using assms(5) by (auto dest: spec[of _ 0])
  moreover have "copy_str_loop m src 0 (unat maxlen - 1) cur [] =
    (if length cs < unat maxlen - 1 then ([] @ cs @ [0], Inr (0 + length cs))
     else ([] @ take (unat maxlen - 1) cs @ [0], Inl EOVERFLOW))" for cur
    by (rule copy_str_loop_spec) (use assms b in \<open>auto simp: nth_append\<close>)
  ultimately show ?thesis using assms(1,2) by (simp add: copy_str_from_user_def)
qed

theorem copy_str_from_user_exact_witness:
  "let m = put_user_bytes one_page 0x8048010 [0x2F, 0x61]
   in copy_str_from_user True m 0x8048010 4 = ([0x2F, 0x61, 0], Inr 2) \<and>
      copy_str_from_user True m 0x8048010 3 = ([0x2F, 0x61, 0], Inl EOVERFLOW)"
proof -
  define m where "m = put_user_bytes one_page 0x8048010 [0x2F, 0x61]"
  have b: "user_bytes m 0x8048010 (Suc (length [0x2F, 0x61 :: byte])) = [0x2F, 0x61] @ [0]"
    "user_addr_resident m 0x8048010" "user_addr_resident m 0x8048011" "user_addr_resident m 0x8048012"
    "access_ok 0x8048010 4" "access_ok 0x8048010 3"
    unfolding m_def by code_simp+
  have r: "\<forall>j \<le> length [0x2F, 0x61 :: byte]. user_addr_resident m (0x8048010 + of_nat j)"
    using b(2-4) by (auto simp: le_Suc_eq)
  show ?thesis
    using copy_str_from_user_exact[OF b(5) _ _ b(1) r] copy_str_from_user_exact[OF b(6) _ _ b(1) r]
    by (simp add: m_def[symmetric] Let_def)
qed

end
