(* ===== verification/Pipe.thy ===== *)
theory Pipe
  imports Circular Signal Uaccess
begin

text \<open>
  Pipes, \<^verbatim>\<open>src/kernel/ipc/pipe.c\<close>: the registry of pipe buffers, \<open>sys_pipe\<close> and the
  operations by pipe id.  The state extends that of the process table by a heap of pipe
  buffers and the registry.  A read or write that has to wait gives up the CPU: what the
  rest of the system does during each of those calls of \<open>schedule\<close> is an argument, a list
  of state transformers, and \<open>None\<close> says that the caller still waits when the list is used
  up.  The address space of the caller is an argument too, as are the outcomes of
  \<open>kmalloc\<close>.  Sections under a spinlock are atomic.
\<close>

section \<open>State\<close>

record pipe_buffer =
  pb_data :: "nat \<Rightarrow> byte"
  pb_size :: nat
  read_pos :: nat
  write_pos :: nat
  pb_count :: nat
  readers :: u32
  writers :: u32
  pb_flags :: u32
  rd_wq :: "nat list"
  wr_wq :: "nat list"

record pipe_state = kstate +
  pipe_heap :: "nat \<Rightarrow> pipe_buffer"
  pipe_live :: "nat \<Rightarrow> bool"
  pipe_table :: "nat hash_table"
  next_pipe_id :: u32
  active_pipes :: u32

definition PIPE_BUF :: nat where [kernel_const]: "PIPE_BUF = 4096"
definition PIPE_MAX_SIZE :: nat where [kernel_const]: "PIPE_MAX_SIZE = 65536"
definition PIPE_FD_BASE :: u32 where [kernel_const]: "PIPE_FD_BASE = 1000"
definition CONSOLE_INODE_MAGIC :: u32 where [kernel_const]: "CONSOLE_INODE_MAGIC = 0xC0C0"
definition O_RDONLY :: u32 where [kernel_const]: "O_RDONLY = 0"
definition O_WRONLY :: u32 where [kernel_const]: "O_WRONLY = 1"
definition O_NONBLOCK :: u32 where [kernel_const]: "O_NONBLOCK = 0x800"

definition upd_pipe :: "nat \<Rightarrow> (pipe_buffer \<Rightarrow> pipe_buffer) \<Rightarrow> 'a pipe_state_scheme \<Rightarrow> 'a pipe_state_scheme" where
  "upd_pipe a f s = s\<lparr>pipe_heap := (pipe_heap s)(a := f (pipe_heap s a))\<rparr>"

section \<open>Buffers\<close>

text \<open>The two allocations are arguments; bytes of a fresh buffer are whatever they were.\<close>

definition pipe_create_buffer ::
  "nat \<Rightarrow> nat option \<Rightarrow> bool \<Rightarrow> 'a pipe_state_scheme \<Rightarrow> 'a pipe_state_scheme \<times> nat option" where
  "pipe_create_buffer sz node data s =
     (let sz = (if PIPE_MAX_SIZE < sz then PIPE_MAX_SIZE else sz);
          sz = (if sz < PIPE_BUF then PIPE_BUF else sz)
      in case node of
           None \<Rightarrow> (s, None)
         | Some a \<Rightarrow>
             if \<not> data then (s, None)
             else (upd_pipe a (\<lambda>p. p\<lparr>pb_size := sz, read_pos := 0, write_pos := 0, pb_count := 0,
                      readers := 0, writers := 0, pb_flags := 0,
                      rd_wq := wait_queue_init, wr_wq := wait_queue_init\<rparr>)
                     (s\<lparr>pipe_live := (pipe_live s)(a := True)\<rparr>), Some a))"

definition pipe_destroy_buffer :: "nat \<Rightarrow> 'a pipe_state_scheme \<Rightarrow> 'a pipe_state_scheme" where
  "pipe_destroy_buffer a s = s\<lparr>pipe_live := (pipe_live s)(a := False)\<rparr>"

text \<open>The copies out of and into the circular data, lines 138 to 147 and 187 to 197.\<close>

definition pipe_take :: "pipe_buffer \<Rightarrow> nat \<Rightarrow> pipe_buffer \<times> byte list" where
  "pipe_take p count =
     (let to_read = (if count < pb_count p then count else pb_count p);
          first = pb_size p - read_pos p;
          first = (if to_read < first then to_read else first);
          buf = slice_of (pb_data p) (read_pos p) first;
          buf = (if first < to_read then buf @ slice_of (pb_data p) 0 (to_read - first) else buf)
      in (p\<lparr>read_pos := (read_pos p + to_read) mod pb_size p, pb_count := pb_count p - to_read\<rparr>, buf))"

definition pipe_store :: "pipe_buffer \<Rightarrow> byte list \<Rightarrow> pipe_buffer \<times> nat" where
  "pipe_store p buf =
     (let available = pb_size p - pb_count p;
          to_write = (if length buf < available then length buf else available);
          first = pb_size p - write_pos p;
          first = (if to_write < first then to_write else first);
          d = copy_into (pb_data p) (write_pos p) (take first buf);
          d = (if first < to_write then copy_into d 0 (take (to_write - first) (drop first buf)) else d)
      in (p\<lparr>pb_data := d, write_pos := (write_pos p + to_write) mod pb_size p,
            pb_count := pb_count p + to_write\<rparr>, to_write))"

section \<open>Waiting\<close>

text \<open>
  \<open>wait_event_locked\<close> on the read queue (\<open>True\<close>) or the write queue of the pipe at \<open>a\<close>;
  \<open>e\<close> is the entry on the caller's stack.  The remaining transformers are returned.
\<close>

definition set_wq :: "bool \<Rightarrow> nat list \<Rightarrow> pipe_buffer \<Rightarrow> pipe_buffer" where
  "set_wq rd q p = (if rd then p\<lparr>rd_wq := q\<rparr> else p\<lparr>wr_wq := q\<rparr>)"

definition get_wq :: "bool \<Rightarrow> pipe_buffer \<Rightarrow> nat list" where
  "get_wq rd p = (if rd then rd_wq p else wr_wq p)"

definition pipe_prepare :: "bool \<Rightarrow> nat \<Rightarrow> nat \<Rightarrow> 'a pipe_state_scheme \<Rightarrow> 'a pipe_state_scheme" where
  "pipe_prepare rd a e s =
     (case wait_queue_prepare (get_wq rd (pipe_heap s a)) e s of (q, s) \<Rightarrow> upd_pipe a (set_wq rd q) s)"

definition pipe_finish :: "bool \<Rightarrow> nat \<Rightarrow> nat \<Rightarrow> 'a pipe_state_scheme \<Rightarrow> 'a pipe_state_scheme" where
  "pipe_finish rd a e s =
     (case wait_queue_finish (get_wq rd (pipe_heap s a)) e s of (q, s) \<Rightarrow> upd_pipe a (set_wq rd q) s)"

definition pipe_wake :: "bool \<Rightarrow> nat \<Rightarrow> 'a pipe_state_scheme \<Rightarrow> 'a pipe_state_scheme" where
  "pipe_wake rd a s =
     (case wake_all (get_wq rd (pipe_heap s a)) s of (q, s) \<Rightarrow> upd_pipe a (set_wq rd q) s)"

fun wait_event_locked ::
  "bool \<Rightarrow> nat \<Rightarrow> nat \<Rightarrow> (pipe_buffer \<Rightarrow> bool) \<Rightarrow> ('a pipe_state_scheme \<Rightarrow> 'a pipe_state_scheme) list
    \<Rightarrow> 'a pipe_state_scheme \<Rightarrow> ('a pipe_state_scheme \<times> ('a pipe_state_scheme \<Rightarrow> 'a pipe_state_scheme) list) option" where
  "wait_event_locked rd a e cond [] s = (if cond (pipe_heap s a) then Some (s, []) else None)"
| "wait_event_locked rd a e cond (f # env) s =
     (if cond (pipe_heap s a) then Some (s, f # env)
      else wait_event_locked rd a e cond env (pipe_finish rd a e (f (pipe_prepare rd a e s))))"

lemma wait_event_env: "wait_event_locked rd a e cond env s = Some (s', env') \<Longrightarrow> length env' \<le> length env"
  by (induction rd a e cond env s rule: wait_event_locked.induct) (fastforce split: if_splits)+

lemma wait_event_env_less:
  "wait_event_locked rd a e cond env s = Some (s', env') \<Longrightarrow> \<not> cond (pipe_heap s a) \<Longrightarrow> length env' < length env"
  by (cases env) (auto dest: wait_event_env)

section \<open>Reading and writing\<close>

text \<open>
  The loop that waits for data; \<open>Inr False\<close> is the end of file, \<open>Inr True\<close> that there is data.
\<close>

definition rd_cond :: "pipe_buffer \<Rightarrow> bool" where
  "rd_cond p \<longleftrightarrow> 0 < pb_count p \<or> writers p = 0"

definition wr_cond :: "pipe_buffer \<Rightarrow> bool" where
  "wr_cond p \<longleftrightarrow> pb_count p < pb_size p \<or> readers p = 0"

function pipe_read_wait ::
  "nat \<Rightarrow> nat \<Rightarrow> ('a pipe_state_scheme \<Rightarrow> 'a pipe_state_scheme) list \<Rightarrow> 'a pipe_state_scheme
    \<Rightarrow> ('a pipe_state_scheme \<times> bool res) option" where
  "pipe_read_wait a e env s =
     (let p = pipe_heap s a
      in if pb_count p \<noteq> 0 then Some (s, Inr True)
         else if writers p = 0 then Some (s, Inr False)
         else if pb_flags p AND O_NONBLOCK \<noteq> 0 then Some (s, Inl EAGAIN)
         else if signal_pending_check s then Some (s, Inl EINTR)
         else (case wait_event_locked True a e rd_cond env s of
                 None \<Rightarrow> None
               | Some (s, env) \<Rightarrow> pipe_read_wait a e env s))"
  by pat_completeness auto
termination
  by (relation "measure (\<lambda>(a, e, env, s). length env)")
    (auto dest!: wait_event_env_less simp: rd_cond_def)

declare pipe_read_wait.simps [simp del]

definition pipe_read_buffer ::
  "nat \<Rightarrow> nat \<Rightarrow> nat \<Rightarrow> ('a pipe_state_scheme \<Rightarrow> 'a pipe_state_scheme) list \<Rightarrow> 'a pipe_state_scheme
    \<Rightarrow> ('a pipe_state_scheme \<times> byte list res) option" where
  "pipe_read_buffer a count e env s =
     (if writers (pipe_heap s a) = 0 \<and> pb_count (pipe_heap s a) = 0 then Some (s, Inr [])
      else (case pipe_read_wait a e env s of
              None \<Rightarrow> None
            | Some (s, Inl err) \<Rightarrow> Some (s, Inl err)
            | Some (s, Inr False) \<Rightarrow> Some (s, Inr [])
            | Some (s, Inr True) \<Rightarrow>
                let (p, buf) = pipe_take (pipe_heap s a) count; s = upd_pipe a (\<lambda>_. p) s
                in Some (if buf \<noteq> [] then pipe_wake False a s else s, Inr buf)))"

definition pipe_broken :: "'a pipe_state_scheme \<Rightarrow> 'a pipe_state_scheme" where
  "pipe_broken s = fst (process_send_signal (p_pid (procs s (get_current_process s))) SIGPIPE s)"

function pipe_write_wait ::
  "nat \<Rightarrow> nat \<Rightarrow> ('a pipe_state_scheme \<Rightarrow> 'a pipe_state_scheme) list \<Rightarrow> 'a pipe_state_scheme
    \<Rightarrow> ('a pipe_state_scheme \<times> unit res) option" where
  "pipe_write_wait a e env s =
     (let p = pipe_heap s a
      in if pb_count p \<noteq> pb_size p then Some (s, Inr ())
         else if readers p = 0 then Some (pipe_broken s, Inl EPIPE)
         else if pb_flags p AND O_NONBLOCK \<noteq> 0 then Some (s, Inl EAGAIN)
         else if signal_pending_check s then Some (s, Inl EINTR)
         else (case wait_event_locked False a e wr_cond env s of
                 None \<Rightarrow> None
               | Some (s, env) \<Rightarrow> pipe_write_wait a e env s))"
  by pat_completeness auto
termination
  by (relation "measure (\<lambda>(a, e, env, s). length env)")
    (auto dest!: wait_event_env_less simp: wr_cond_def)

declare pipe_write_wait.simps [simp del]

definition pipe_write_buffer ::
  "nat \<Rightarrow> byte list \<Rightarrow> nat \<Rightarrow> ('a pipe_state_scheme \<Rightarrow> 'a pipe_state_scheme) list \<Rightarrow> 'a pipe_state_scheme
    \<Rightarrow> ('a pipe_state_scheme \<times> nat res) option" where
  "pipe_write_buffer a buf e env s =
     (if readers (pipe_heap s a) = 0 then Some (pipe_broken s, Inl EPIPE)
      else (case pipe_write_wait a e env s of
              None \<Rightarrow> None
            | Some (s, Inl err) \<Rightarrow> Some (s, Inl err)
            | Some (s, Inr _) \<Rightarrow>
                let (p, n) = pipe_store (pipe_heap s a) buf; s = upd_pipe a (\<lambda>_. p) s
                in Some (if 0 < n then pipe_wake True a s else s, Inr n)))"

section \<open>Registry\<close>

definition pipe_registry_init :: "'a pipe_state_scheme \<Rightarrow> 'a pipe_state_scheme" where
  "pipe_registry_init s = s\<lparr>pipe_table := hash_table_init ''pipes'', next_pipe_id := 1, active_pipes := 0\<rparr>"

definition pipe_allocate_id :: "nat \<Rightarrow> 'a pipe_state_scheme \<Rightarrow> 'a pipe_state_scheme \<times> u32" where
  "pipe_allocate_id a s =
     (let pipe_id = next_pipe_id s; s = s\<lparr>next_pipe_id := next_pipe_id s + 1\<rparr>
      in case hash_table_insert (pipe_table s) pipe_id (Some a) of
           Inr t \<Rightarrow> (s\<lparr>pipe_table := t, active_pipes := active_pipes s + 1\<rparr>, pipe_id)
         | Inl _ \<Rightarrow> (s, -1))"

definition pipe_registry_remove :: "u32 \<Rightarrow> 'a pipe_state_scheme \<Rightarrow> 'a pipe_state_scheme" where
  "pipe_registry_remove pipe_id s =
     s\<lparr>pipe_table := fst (hash_table_remove (pipe_table s) pipe_id), active_pipes := active_pipes s - 1\<rparr>"

definition pipe_registry_lookup :: "u32 \<Rightarrow> 'a pipe_state_scheme \<Rightarrow> nat option" where
  "pipe_registry_lookup pipe_id s = hash_table_lookup (pipe_table s) pipe_id"

section \<open>System calls\<close>

definition set_fd :: "nat \<Rightarrow> nat \<Rightarrow> (proc_fd \<Rightarrow> proc_fd) \<Rightarrow> 'a kstate_scheme \<Rightarrow> 'a kstate_scheme" where
  "set_fd proc i f = upd_proc proc (\<lambda>p. p\<lparr>p_fd_table := (p_fd_table p)(i := f (p_fd_table p i))\<rparr>)"

definition fd_unused :: "proc_fd \<Rightarrow> bool" where
  "fd_unused f \<longleftrightarrow> of_idx f = 0 \<and> fd_flags f = 0"

text \<open>The loop that takes up to two free descriptors; \<open>fds\<close> are the ones found so far.\<close>

fun claim_fds :: "nat \<Rightarrow> u32 \<Rightarrow> nat list \<Rightarrow> nat list \<Rightarrow> 'a kstate_scheme \<Rightarrow> 'a kstate_scheme \<times> nat list" where
  "claim_fds proc pipe_id [] fds s = (s, fds)"
| "claim_fds proc pipe_id (i # is) fds s =
     (if \<not> length fds < 2 then (s, fds)
      else if fd_unused (p_fd_table (procs s proc) i) then
        claim_fds proc pipe_id is (fds @ [i])
          (set_fd proc i (\<lambda>f. f\<lparr>of_idx := PIPE_FD_BASE + pipe_id,
             fd_flags := (if fds = [] then O_RDONLY else O_WRONLY), fd_offset := 0, fd_refcount := 1\<rparr>) s)
      else claim_fds proc pipe_id is fds s)"

definition release_fds :: "nat \<Rightarrow> nat list \<Rightarrow> 'a kstate_scheme \<Rightarrow> 'a kstate_scheme" where
  "release_fds proc fds s = fold (\<lambda>i. set_fd proc i (\<lambda>f. f\<lparr>of_idx := 0, fd_flags := 0\<rparr>)) fds s"

definition sys_pipe ::
  "u32 \<Rightarrow> nat option \<Rightarrow> bool \<Rightarrow> aspace \<Rightarrow> 'a pipe_state_scheme \<Rightarrow> 'a pipe_state_scheme \<times> aspace \<times> unit res" where
  "sys_pipe pipefd node data m s =
     (if pipefd = 0 then (s, m, Inl EINVAL)
      else (case pipe_create_buffer PIPE_BUF node data s of
        (s, None) \<Rightarrow> (s, m, Inl ENOMEM)
      | (s, Some a) \<Rightarrow>
          (case pipe_allocate_id a s of (s, pipe_id) \<Rightarrow>
             if sint pipe_id < 0 then (pipe_destroy_buffer a s, m, Inl EMFILE)
             else
               let proc = get_current_process s
               in case claim_fds proc pipe_id [3..<MAX_OPEN_FILES_CONST] [] s of (s, fds) \<Rightarrow>
                 if length fds < 2
                 then (pipe_destroy_buffer a (pipe_registry_remove pipe_id (release_fds proc fds s)), m, Inl EMFILE)
                 else
                   let s = upd_pipe a (\<lambda>p. p\<lparr>readers := 1, writers := 1\<rparr>) s
                   in case copy_to_user m pipefd (Some (concat (map (\<lambda>i. word_bytes (of_nat i)) fds))) 8 of
                        (m, Inl err) \<Rightarrow>
                          (pipe_destroy_buffer a (pipe_registry_remove pipe_id (release_fds proc fds s)), m, Inl err)
                      | (m, Inr _) \<Rightarrow> (s, m, Inr ()))))"

text \<open>\<open>None\<close> is the answer 0, \<open>Some\<close> the id stored through the out parameter.\<close>

definition is_pipe_fd :: "nat \<Rightarrow> 'a kstate_scheme \<Rightarrow> u32 option" where
  "is_pipe_fd fd s =
     (if MAX_OPEN_FILES_CONST \<le> fd then None
      else
        let node_idx = of_idx (p_fd_table (procs s (get_current_process s)) fd)
        in if PIPE_FD_BASE \<le> node_idx \<and> node_idx \<noteq> CONSOLE_INODE_MAGIC
           then Some (node_idx - PIPE_FD_BASE) else None)"

definition pipe_read_by_id ::
  "u32 \<Rightarrow> u32 \<Rightarrow> u32 \<Rightarrow> bool \<Rightarrow> nat \<Rightarrow> ('a pipe_state_scheme \<Rightarrow> 'a pipe_state_scheme) list \<Rightarrow> aspace
    \<Rightarrow> 'a pipe_state_scheme \<Rightarrow> ('a pipe_state_scheme \<times> aspace \<times> nat res) option" where
  "pipe_read_by_id pipe_id buf count kbuf e env m s =
     (case pipe_registry_lookup pipe_id s of
        None \<Rightarrow> Some (s, m, Inl EBADF)
      | Some a \<Rightarrow>
          if \<not> kbuf then Some (s, m, Inl ENOMEM)
          else (case pipe_read_buffer a (unat count) e env s of
                  None \<Rightarrow> None
                | Some (s, Inl err) \<Rightarrow> Some (s, m, Inl err)
                | Some (s, Inr bytes) \<Rightarrow>
                    if bytes \<noteq> [] then
                      (case copy_to_user m buf (Some bytes) (of_nat (length bytes)) of
                         (m, Inl err) \<Rightarrow> Some (s, m, Inl err)
                       | (m, Inr _) \<Rightarrow> Some (s, m, Inr (length bytes)))
                    else Some (s, m, Inr 0)))"

definition pipe_write_by_id ::
  "u32 \<Rightarrow> u32 \<Rightarrow> u32 \<Rightarrow> bool \<Rightarrow> nat \<Rightarrow> ('a pipe_state_scheme \<Rightarrow> 'a pipe_state_scheme) list \<Rightarrow> aspace
    \<Rightarrow> 'a pipe_state_scheme \<Rightarrow> ('a pipe_state_scheme \<times> nat res) option" where
  "pipe_write_by_id pipe_id buf count kbuf e env m s =
     (case pipe_registry_lookup pipe_id s of
        None \<Rightarrow> Some (s, Inl EBADF)
      | Some a \<Rightarrow>
          if \<not> kbuf then Some (s, Inl ENOMEM)
          else (case copy_from_user True m buf count of
                  Inl err \<Rightarrow> Some (s, Inl err)
                | Inr bytes \<Rightarrow> pipe_write_buffer a bytes e env s))"

definition pipe_close_by_id :: "u32 \<Rightarrow> bool \<Rightarrow> 'a pipe_state_scheme \<Rightarrow> 'a pipe_state_scheme \<times> unit res" where
  "pipe_close_by_id pipe_id is_write_end s =
     (case pipe_registry_lookup pipe_id s of
        None \<Rightarrow> (s, Inl EBADF)
      | Some a \<Rightarrow>
          let s = upd_pipe a (\<lambda>p. if is_write_end then p\<lparr>writers := writers p - 1\<rparr>
                                  else p\<lparr>readers := readers p - 1\<rparr>) s;
              readers_now = readers (pipe_heap s a); writers_now = writers (pipe_heap s a);
              s = pipe_wake False a (pipe_wake True a s)
          in (if readers_now = 0 \<and> writers_now = 0
              then pipe_destroy_buffer a (pipe_registry_remove pipe_id s) else s, Inr ()))"

definition pipe_subsystem_init :: "'a pipe_state_scheme \<Rightarrow> 'a pipe_state_scheme" where
  "pipe_subsystem_init s = pipe_registry_init s"

section \<open>The buffer as a byte channel\<close>

definition pb_inv :: "pipe_buffer \<Rightarrow> bool" where
  "pb_inv p \<longleftrightarrow> 0 < pb_size p \<and> read_pos p < pb_size p \<and> pb_count p \<le> pb_size p \<and>
     write_pos p = (read_pos p + pb_count p) mod pb_size p"

definition pb_contents :: "pipe_buffer \<Rightarrow> byte list" where
  "pb_contents p = circ (pb_data p) (pb_size p) (read_pos p) (pb_count p)"

definition pb_room :: "pipe_buffer \<Rightarrow> nat" where
  "pb_room p = pb_size p - pb_count p"

lemma length_pb_contents [simp]: "length (pb_contents p) = pb_count p"
  by (simp add: pb_contents_def)

lemma pipe_take_spec:
  assumes "pb_inv p" "pipe_take p n = (p', ys)"
  shows "ys = take n (pb_contents p)" "pb_contents p' = drop n (pb_contents p)"
    "pb_room p' = pb_room p + length ys" "pb_inv p'"
    "readers p' = readers p" "writers p' = writers p" "rd_wq p' = rd_wq p" "wr_wq p' = wr_wq p"
proof -
  define k where "k = min n (pb_count p)"
  define f where "f = min (pb_size p - read_pos p) k"
  have k: "(if n < pb_count p then n else pb_count p) = k" by (simp add: k_def)
  have f: "(if k < pb_size p - read_pos p then k else pb_size p - read_pos p) = f" by (simp add: f_def)
  have inv: "0 < pb_size p" "read_pos p < pb_size p" "pb_count p \<le> pb_size p"
    "write_pos p = (read_pos p + pb_count p) mod pb_size p" using assms(1) by (simp_all add: pb_inv_def)
  have p': "p' = p\<lparr>read_pos := (read_pos p + k) mod pb_size p, pb_count := pb_count p - k\<rparr>"
    and ys: "ys = slice_of (pb_data p) (read_pos p) f @ slice_of (pb_data p) 0 (k - f)"
    using assms(2) by (auto simp: pipe_take_def Let_def k f slice_of_def split: if_splits)
  have "ys = circ (pb_data p) (pb_size p) (read_pos p) k"
    unfolding ys by (rule circ_two_slices) (use inv f_def k_def in auto)
  also have "\<dots> = take n (pb_contents p)"
    by (cases "n \<le> pb_count p") (simp_all add: pb_contents_def k_def min_absorb2 circ_take)
  finally show e: "ys = take n (pb_contents p)" .
  show "pb_contents p' = drop n (pb_contents p)"
    using circ_drop[of "pb_data p" "pb_size p" "read_pos p" k "pb_count p"]
    by (auto simp: pb_contents_def p' k_def min_def)
  show "pb_room p' = pb_room p + length ys" using inv by (simp add: pb_room_def p' e k_def)
  have "((read_pos p + k) mod pb_size p + (pb_count p - k)) mod pb_size p = (read_pos p + pb_count p) mod pb_size p"
    using mod_add_left_eq[of "read_pos p + k" "pb_size p" "pb_count p - k"] by (simp add: k_def)
  then show "pb_inv p'" using inv by (simp add: pb_inv_def p')
  show "readers p' = readers p" "writers p' = writers p" "rd_wq p' = rd_wq p" "wr_wq p' = wr_wq p"
    by (simp_all add: p')
qed

lemma pipe_store_spec:
  assumes "pb_inv p" "pipe_store p xs = (p', k)"
  shows "k = min (length xs) (pb_room p)" "pb_contents p' = pb_contents p @ take k xs"
    "pb_room p' = pb_room p - k" "pb_inv p'"
    "readers p' = readers p" "writers p' = writers p" "rd_wq p' = rd_wq p" "wr_wq p' = wr_wq p"
proof -
  define n where "n = min (length xs) (pb_room p)"
  define f where "f = min (pb_size p - write_pos p) n"
  define ys where "ys = take n xs"
  have k: "(if length xs < pb_size p - pb_count p then length xs else pb_size p - pb_count p) = n"
    by (simp add: n_def pb_room_def)
  have f: "(if n < pb_size p - write_pos p then n else pb_size p - write_pos p) = f" by (simp add: f_def)
  have inv: "0 < pb_size p" "read_pos p < pb_size p" "pb_count p \<le> pb_size p"
    "write_pos p = (read_pos p + pb_count p) mod pb_size p" using assms(1) by (simp_all add: pb_inv_def)
  have ly: "length ys = n" by (simp add: ys_def n_def)
  have y: "take f xs = take f ys" "take (n - f) (drop f xs) = drop f ys"
    by (simp_all add: ys_def drop_take f_def)
  define d' where "d' = copy_into (copy_into (pb_data p) (write_pos p) (take f ys)) 0 (drop f ys)"
  have d: "(if f < n then copy_into (copy_into (pb_data p) (write_pos p) (take f xs)) 0 (take (n - f) (drop f xs))
      else copy_into (pb_data p) (write_pos p) (take f xs)) = d'"
    using ly by (simp add: d'_def y)
  have p': "p' = p\<lparr>pb_data := d', write_pos := (write_pos p + n) mod pb_size p, pb_count := pb_count p + n\<rparr>"
    and kn: "k = n"
    using assms(2) unfolding pipe_store_def Let_def k f d by auto
  show "k = min (length xs) (pb_room p)" using kn n_def by simp
  have w: "write_pos p < pb_size p" using inv by simp
  have ln: "length ys \<le> pb_size p" "pb_count p + length ys \<le> pb_size p"
    using ly inv by (auto simp: n_def pb_room_def)
  have fy: "f = min (pb_size p - write_pos p) (length ys)" by (simp add: f_def ly)
  note c = copy_two_slices[OF w ln(1) fy d'_def]
  have wi: "(write_pos p + i) mod pb_size p = (read_pos p + pb_count p + i) mod pb_size p" for i
    by (simp add: inv(4) mod_add_left_eq)
  have "circ d' (pb_size p) (read_pos p) (pb_count p + length ys) = circ (pb_data p) (pb_size p) (read_pos p) (pb_count p) @ ys"
    by (rule circ_write) (use ln c wi in auto)
  then show "pb_contents p' = pb_contents p @ take k xs"
    using ly kn by (simp add: pb_contents_def p' ys_def)
  show "pb_room p' = pb_room p - k" by (simp add: pb_room_def p' kn)
  show "pb_inv p'" using inv ln ly wi[of n] by (simp add: pb_inv_def p' add.assoc)
  show "readers p' = readers p" "writers p' = writers p" "rd_wq p' = rd_wq p" "wr_wq p' = wr_wq p"
    by (simp_all add: p')
qed

interpretation pc: byte_channel pb_inv pb_contents pb_room pipe_store pipe_take
  by unfold_locales (rule pipe_store_spec pipe_take_spec, assumption, assumption)+

section \<open>Frames of the process operations\<close>

text \<open>Queue operations, signals and descriptors leave the pipe part of the state alone.\<close>

lemma upd_proc_pipe [simp]:
  "pipe_heap (upd_proc a f s) = pipe_heap s" "pipe_live (upd_proc a f s) = pipe_live s"
  "pipe_table (upd_proc a f s) = pipe_table s" "next_pipe_id (upd_proc a f s) = next_pipe_id s"
  "active_pipes (upd_proc a f s) = active_pipes s"
  by (simp_all add: upd_proc_def)

lemma ipi_pipe [simp]:
  "pipe_heap (smp_ipi_send c s) = pipe_heap s" "pipe_live (smp_ipi_send c s) = pipe_live s"
  "pipe_table (smp_ipi_send c s) = pipe_table s"
  by (simp_all add: smp_ipi_send_def)

lemma set_state_pipe [simp]:
  "pipe_heap (set_state a st s) = pipe_heap s" "pipe_live (set_state a st s) = pipe_live s"
  "pipe_table (set_state a st s) = pipe_table s"
  "pipe_heap (cas_state a st st' s) = pipe_heap s" "pipe_live (cas_state a st st' s) = pipe_live s"
  "pipe_table (cas_state a st st' s) = pipe_table s"
  by (simp_all add: set_state_def cas_state_def)

lemma wake_entry_pipe [simp]:
  "pipe_heap (wake_entry e s) = pipe_heap s" "pipe_live (wake_entry e s) = pipe_live s"
  "pipe_table (wake_entry e s) = pipe_table s"
  by (simp_all add: wake_entry_def Let_def split: option.splits)

lemma fold_wake_pipe [simp]:
  "pipe_heap (fold wake_entry q s) = pipe_heap s" "pipe_live (fold wake_entry q s) = pipe_live s"
  "pipe_table (fold wake_entry q s) = pipe_table s"
  by (induction q arbitrary: s) simp_all

lemma upd_pipe_simps [simp]:
  "pipe_heap (upd_pipe a f s) = (pipe_heap s)(a := f (pipe_heap s a))" "procs (upd_pipe a f s) = procs s"
  "pipe_live (upd_pipe a f s) = pipe_live s" "pipe_table (upd_pipe a f s) = pipe_table s"
  "wq_entry_proc (upd_pipe a f s) = wq_entry_proc s" "cpus (upd_pipe a f s) = cpus s"
  "this_cpu (upd_pipe a f s) = this_cpu s" "next_pipe_id (upd_pipe a f s) = next_pipe_id s"
  by (simp_all add: upd_pipe_def)

lemma set_wq_simps [simp]:
  "pb_contents (set_wq rd q p) = pb_contents p" "pb_inv (set_wq rd q p) = pb_inv p"
  "pb_count (set_wq rd q p) = pb_count p" "readers (set_wq rd q p) = readers p"
  "writers (set_wq rd q p) = writers p" "pb_size (set_wq rd q p) = pb_size p" "pb_flags (set_wq rd q p) = pb_flags p"
  by (simp_all add: set_wq_def pb_contents_def pb_inv_def)

lemma pipe_wake_simps [simp]:
  "pipe_heap (pipe_wake rd a s) = (pipe_heap s)(a := set_wq rd [] (pipe_heap s a))"
  "pipe_live (pipe_wake rd a s) = pipe_live s" "pipe_table (pipe_wake rd a s) = pipe_table s"
  "procs (pipe_wake rd a s) = procs (fold wake_entry (get_wq rd (pipe_heap s a)) s)"
  by (simp_all add: pipe_wake_def wake_all_def)

lemma pipe_prepare_heap [simp]: "pb_contents (pipe_heap (pipe_prepare rd a e s) b) = pb_contents (pipe_heap s b)"
  by (auto simp: pipe_prepare_def wait_queue_prepare_def Let_def split: option.splits)

lemma pipe_finish_heap [simp]:
  "pb_contents (pipe_heap (pipe_finish rd a e s) b) = pb_contents (pipe_heap s b)"
  "pb_inv (pipe_heap (pipe_finish rd a e s) b) = pb_inv (pipe_heap s b)"
  "pb_count (pipe_heap (pipe_finish rd a e s) b) = pb_count (pipe_heap s b)"
  "writers (pipe_heap (pipe_finish rd a e s) b) = writers (pipe_heap s b)"
  by (auto simp: pipe_finish_def wait_queue_finish_def Let_def split: option.splits)

section \<open>Reading and writing without waiting\<close>

lemma pipe_read_now:
  assumes "pb_inv (pipe_heap s a)" "pb_contents (pipe_heap s a) \<noteq> []" "0 < n"
  shows "\<exists>s'. pipe_read_buffer a n e env s = Some (s', Inr (take n (pb_contents (pipe_heap s a)))) \<and>
    pb_contents (pipe_heap s' a) = drop n (pb_contents (pipe_heap s a)) \<and> pb_inv (pipe_heap s' a) \<and>
    pipe_table s' = pipe_table s"
proof -
  obtain p ys where t: "pipe_take (pipe_heap s a) n = (p, ys)" by fastforce
  note sp = pipe_take_spec[OF assms(1) t]
  have c: "pb_count (pipe_heap s a) \<noteq> 0" using assms(2) by (metis length_0_conv length_pb_contents)
  have "ys \<noteq> []" using sp(1) assms(2,3) by simp
  then have "pipe_read_buffer a n e env s = Some (pipe_wake False a (upd_pipe a (\<lambda>_. p) s), Inr ys)"
    using c t by (simp add: pipe_read_buffer_def pipe_read_wait.simps Let_def)
  then show ?thesis using sp by simp
qed

lemma pipe_write_now:
  assumes "pb_inv (pipe_heap s a)" "readers (pipe_heap s a) \<noteq> 0" "pb_room (pipe_heap s a) \<noteq> 0" "xs \<noteq> []"
    and n: "n = min (length xs) (pb_room (pipe_heap s a))"
  shows "\<exists>p. pipe_write_buffer a xs e env s = Some (pipe_wake True a (upd_pipe a (\<lambda>_. p) s), Inr n) \<and>
    pb_contents p = pb_contents (pipe_heap s a) @ take n xs \<and> pb_inv p \<and>
    rd_wq p = rd_wq (pipe_heap s a) \<and> writers p = writers (pipe_heap s a)"
proof -
  obtain p k where t: "pipe_store (pipe_heap s a) xs = (p, k)" by fastforce
  note sp = pipe_store_spec[OF assms(1) t]
  have kn: "k = n" using sp(1) n by simp
  have k: "0 < k" using sp(1) assms(3,4) by simp
  have "pb_count (pipe_heap s a) \<noteq> pb_size (pipe_heap s a)" using assms(3) by (auto simp: pb_room_def)
  then have "pipe_write_buffer a xs e env s = Some (pipe_wake True a (upd_pipe a (\<lambda>_. p) s), Inr k)"
    using assms(2) t k by (simp add: pipe_write_buffer_def pipe_write_wait.simps Let_def)
  then show ?thesis using sp kn by auto
qed

section \<open>Descriptors and the registry\<close>

abbreviation fdt :: "'a kstate_scheme \<Rightarrow> nat \<Rightarrow> nat \<Rightarrow> proc_fd" where
  "fdt s proc \<equiv> p_fd_table (procs s proc)"

lemma set_fd_simps [simp]:
  "procs (set_fd proc i f s) = (procs s)(proc := (procs s proc)\<lparr>p_fd_table := (fdt s proc)(i := f (fdt s proc i))\<rparr>)"
  "pipe_heap (set_fd proc i f t) = pipe_heap t" "pipe_live (set_fd proc i f t) = pipe_live t"
  "pipe_table (set_fd proc i f t) = pipe_table t" "next_pipe_id (set_fd proc i f t) = next_pipe_id t"
  "get_current_process (set_fd proc i f s) = get_current_process s"
  by (simp_all add: set_fd_def)

lemma claim_fds_pipe [simp]:
  "pipe_heap (fst (claim_fds proc k is fds s)) = pipe_heap s" "pipe_live (fst (claim_fds proc k is fds s)) = pipe_live s"
  "pipe_table (fst (claim_fds proc k is fds s)) = pipe_table s"
  "next_pipe_id (fst (claim_fds proc k is fds s)) = next_pipe_id s"
  by (induction "is" arbitrary: fds s) simp_all

lemma claim_fds_frame:
  assumes "claim_fds proc k is fds s = (s', fds')"
  shows "pipe_heap s' = pipe_heap s" "pipe_table s' = pipe_table s"
  using claim_fds_pipe(1,3)[of proc k "is" fds s] unfolding assms by simp_all

lemma release_fds_pipe [simp]:
  "pipe_heap (release_fds proc fds s) = pipe_heap s" "pipe_live (release_fds proc fds s) = pipe_live s"
  "pipe_table (release_fds proc fds s) = pipe_table s"
proof -
  have "pipe_heap (fold (\<lambda>i. set_fd proc i f) fds s) = pipe_heap s \<and> pipe_live (fold (\<lambda>i. set_fd proc i f) fds s) = pipe_live s
    \<and> pipe_table (fold (\<lambda>i. set_fd proc i f) fds s) = pipe_table s" for f
    by (induction fds arbitrary: s) simp_all
  then show "pipe_heap (release_fds proc fds s) = pipe_heap s" "pipe_live (release_fds proc fds s) = pipe_live s"
    "pipe_table (release_fds proc fds s) = pipe_table s" by (simp_all add: release_fds_def)
qed

definition claimed :: "u32 \<Rightarrow> bool \<Rightarrow> proc_fd \<Rightarrow> proc_fd" where
  "claimed k rd f = f\<lparr>of_idx := PIPE_FD_BASE + k, fd_flags := (if rd then O_RDONLY else O_WRONLY),
     fd_offset := 0, fd_refcount := 1\<rparr>"

lemma claim_fds_spec:
  assumes "claim_fds proc k is fds s = (s', fds')" "distinct is" "length fds \<le> 2"
  shows "\<exists>new. fds' = fds @ new \<and> length fds' \<le> 2 \<and> set new \<subseteq> set is \<and> distinct new \<and>
    (\<forall>i \<in> set new. fd_unused (fdt s proc i)) \<and>
    fdt s' proc = (\<lambda>i. if i \<in> set new then claimed k (fds = [] \<and> i = hd new) (fdt s proc i) else fdt s proc i) \<and>
    procs s' = (procs s)(proc := (procs s proc)\<lparr>p_fd_table := fdt s' proc\<rparr>)"
  using assms
proof (induction "is" arbitrary: fds s)
  case Nil
  then show ?case by (intro exI[of _ "[]"]) simp
next
  case (Cons i "is")
  have dis: "distinct is" using Cons.prems(2) by simp
  consider "\<not> length fds < 2" | "length fds < 2" "\<not> fd_unused (fdt s proc i)" | "length fds < 2" "fd_unused (fdt s proc i)"
    by blast
  then show ?case
  proof cases
    case 1
    then show ?thesis using Cons.prems by (intro exI[of _ "[]"]) simp
  next
    case 2
    then have "claim_fds proc k is fds s = (s', fds')" using Cons.prems by simp
    from Cons.IH[OF this dis Cons.prems(3)] obtain new where new: "fds' = fds @ new" "length fds' \<le> 2" "set new \<subseteq> set is"
      "distinct new" "\<forall>i \<in> set new. fd_unused (fdt s proc i)"
      "fdt s' proc = (\<lambda>i. if i \<in> set new then claimed k (fds = [] \<and> i = hd new) (fdt s proc i) else fdt s proc i)"
      "procs s' = (procs s)(proc := (procs s proc)\<lparr>p_fd_table := fdt s' proc\<rparr>)" by (elim exE conjE) (rule that)
    moreover have "set new \<subseteq> set (i # is)" using new(3) by auto
    ultimately show ?thesis by blast
  next
    case 3
    define s1 where "s1 = set_fd proc i (claimed k (fds = [])) s"
    have "claim_fds proc k is (fds @ [i]) s1 = (s', fds')"
      using 3 Cons.prems(1) by (simp add: s1_def claimed_def[abs_def])
    moreover have "length (fds @ [i]) \<le> 2" using 3 by simp
    ultimately obtain new where new: "fds' = (fds @ [i]) @ new" "length fds' \<le> 2"
      "set new \<subseteq> set is" "distinct new" "\<forall>j \<in> set new. fd_unused (fdt s1 proc j)"
      "fdt s' proc = (\<lambda>j. if j \<in> set new then claimed k (fds @ [i] = [] \<and> j = hd new) (fdt s1 proc j) else fdt s1 proc j)"
      "procs s' = (procs s1)(proc := (procs s1 proc)\<lparr>p_fd_table := fdt s' proc\<rparr>)"
      using Cons.IH[OF _ dis, of "fds @ [i]" s1] by blast
    have i: "i \<notin> set new" using new(3) Cons.prems(2) by auto
    have f1: "fdt s1 proc = (fdt s proc)(i := claimed k (fds = []) (fdt s proc i))" by (simp add: s1_def)
    have "fdt s' proc = (\<lambda>j. if j \<in> set (i # new) then claimed k (fds = [] \<and> j = i) (fdt s proc j) else fdt s proc j)"
      unfolding new(6) f1 using i by (auto simp: fun_eq_iff)
    moreover have "procs s' = (procs s)(proc := (procs s proc)\<lparr>p_fd_table := fdt s' proc\<rparr>)"
      by (subst new(7)) (simp add: s1_def)
    moreover have "\<forall>j \<in> set (i # new). fd_unused (fdt s proc j)"
      using new(5) f1 i 3 by (metis fun_upd_other set_ConsD)
    ultimately show ?thesis using new(1-4) i by (intro exI[of _ "i # new"]) auto
  qed
qed

lemma claim_fds_new:
  assumes "claim_fds proc k [3..<64] [] s = (s', fds)"
  shows "length fds \<le> 2" "set fds \<subseteq> {3..<64}" "distinct fds" "\<forall>i \<in> set fds. fd_unused (fdt s proc i)"
    "fdt s' proc = (\<lambda>i. if i \<in> set fds then claimed k (i = hd fds) (fdt s proc i) else fdt s proc i)"
    "procs s' = (procs s)(proc := (procs s proc)\<lparr>p_fd_table := fdt s' proc\<rparr>)"
proof -
  have "length ([] :: nat list) \<le> 2" by simp
  from claim_fds_spec[OF assms distinct_upt this]
  have *: "length fds \<le> 2 \<and> set fds \<subseteq> {3..<64} \<and> distinct fds \<and> (\<forall>i \<in> set fds. fd_unused (fdt s proc i)) \<and>
    fdt s' proc = (\<lambda>i. if i \<in> set fds then claimed k (i = hd fds) (fdt s proc i) else fdt s proc i) \<and>
    procs s' = (procs s)(proc := (procs s proc)\<lparr>p_fd_table := fdt s' proc\<rparr>)"
    unfolding append_Nil set_upt simp_thms by blast
  show "length fds \<le> 2" "set fds \<subseteq> {3..<64}" "distinct fds" "\<forall>i \<in> set fds. fd_unused (fdt s proc i)"
    "fdt s' proc = (\<lambda>i. if i \<in> set fds then claimed k (i = hd fds) (fdt s proc i) else fdt s proc i)"
    "procs s' = (procs s)(proc := (procs s proc)\<lparr>p_fd_table := fdt s' proc\<rparr>)"
    using * by - (elim conjE, assumption)+
qed

lemma release_fds_spec:
  "procs (release_fds proc fds s) = (procs s)(proc := (procs s proc)\<lparr>p_fd_table :=
     (\<lambda>i. if i \<in> set fds then (fdt s proc i)\<lparr>of_idx := 0, fd_flags := 0\<rparr> else fdt s proc i)\<rparr>)"
  unfolding release_fds_def
proof (induction fds arbitrary: s)
  case (Cons i fds)
  then show ?case by (auto simp: fun_eq_iff)
qed simp

lemma allocate_id_spec:
  assumes "pipe_allocate_id a s = (s', k)" "ht_inv (pipe_table s)" "0 \<le> sint k"
  shows "k = next_pipe_id s" "ht_inv (pipe_table s')" "pipe_registry_lookup k s = None"
    "hash_table_lookup (pipe_table s') = (hash_table_lookup (pipe_table s))(k \<mapsto> a)"
    "pipe_heap s' = pipe_heap s" "procs s' = procs s" "get_current_process s' = get_current_process s"
    "pipe_live s' = pipe_live s"
proof -
  obtain t where t: "hash_table_insert (pipe_table s) (next_pipe_id s) (Some a) = Inr t" and k: "k = next_pipe_id s"
    and s': "s' = s\<lparr>next_pipe_id := next_pipe_id s + 1, pipe_table := t, active_pipes := active_pipes s + 1\<rparr>"
    using assms(1,3) by (auto simp: pipe_allocate_id_def Let_def split: sum.splits)
  show "k = next_pipe_id s" by (rule k)
  show "ht_inv (pipe_table s')" "hash_table_lookup (pipe_table s') = (hash_table_lookup (pipe_table s))(k \<mapsto> a)"
    using ht.insert_lookup[OF assms(2) t] by (simp_all add: s' k)
  show "pipe_registry_lookup k s = None"
    using ht.insert_Inr_iff[OF assms(2), of "next_pipe_id s" a] t by (simp add: pipe_registry_lookup_def k)
  show "pipe_heap s' = pipe_heap s" "procs s' = procs s" "pipe_live s' = pipe_live s"
    "get_current_process s' = get_current_process s"
    by (simp_all add: s' get_current_process_def current_process_def)
qed

section \<open>Properties\<close>

text \<open>
  C15 (pipes, refinement).  The data of a newly created pipe is a bounded first-in first-out
  byte stream: after any interleaving of stores and takes, the bytes taken followed by the
  bytes buffered are the bytes stored, in order, and at most 4096 are buffered.
\<close>
theorem pipe_stream:
  assumes "pipe_create_buffer PIPE_BUF node data s = (s', Some a)"
    and "chan_run pipe_store pipe_take (pipe_heap s' a) ops = (p, acc, del)"
  shows "del @ pb_contents p = acc \<and> length (pb_contents p) \<le> 4096"
proof -
  have p: "pb_inv (pipe_heap s' a)" "pb_contents (pipe_heap s' a) = []" "pb_room (pipe_heap s' a) = 4096"
    using assms(1)
    by (auto simp: pipe_create_buffer_def Let_def kernel_const pb_inv_def pb_contents_def pb_room_def
        split: option.splits if_splits)
  show ?thesis using pc.stream_fifo[OF p(1) assms(2)] pc.stream_bound[OF p(1) assms(2)] p(2,3) by simp
qed

text \<open>
  C29 (pipes, roundtrip).  What one process writes into an empty pipe, another reads: a write
  of up to a buffer's worth of user bytes is accepted whole, and a read of at least as many
  puts the same bytes at the reader's address and returns their number.
\<close>
theorem pipe_write_read_roundtrip:
  assumes "pipe_registry_lookup pipe_id s = Some a" "pb_inv (pipe_heap s a)" "pb_count (pipe_heap s a) = 0"
    and "readers (pipe_heap s a) \<noteq> 0" "copy_from_user True wm wbuf n = Inr xs" "n \<noteq> 0"
    and "unat n \<le> pb_size (pipe_heap s a)" "n \<le> count"
    and "copy_to_user rm rbuf (Some xs) n = (rm', Inr ())"
  shows "\<exists>s1 s2. pipe_write_by_id pipe_id wbuf n True we wenv wm s = Some (s1, Inr (unat n)) \<and>
    pipe_read_by_id pipe_id rbuf count True re renv rm s1 = Some (s2, rm', Inr (unat n)) \<and>
    pb_count (pipe_heap s2 a) = 0"
proof -
  have xs: "length xs = unat n" using assms(5,6) by (auto simp: copy_from_user_def user_bytes_def split: if_splits)
  have ne: "xs \<noteq> []" using xs assms(6) unat_eq_zero[of n] by auto
  have room: "pb_room (pipe_heap s a) = pb_size (pipe_heap s a)" using assms(3) by (simp add: pb_room_def)
  have r0: "pb_room (pipe_heap s a) \<noteq> 0" using assms(2) room by (simp add: pb_inv_def)
  have mn: "unat n = min (length xs) (pb_room (pipe_heap s a))" using xs room assms(7) by simp
  have c0: "pb_contents (pipe_heap s a) = []" using assms(3) by (metis length_0_conv length_pb_contents)
  obtain p where p: "pipe_write_buffer a xs we wenv s = Some (pipe_wake True a (upd_pipe a (\<lambda>_. p) s), Inr (unat n))"
    "pb_contents p = xs" "pb_inv p"
    using pipe_write_now[OF assms(2,4) r0 ne mn] c0 xs by auto
  define s1 where "s1 = pipe_wake True a (upd_pipe a (\<lambda>_. p) s)"
  have w: "pipe_write_by_id pipe_id wbuf n True we wenv wm s = Some (s1, Inr (unat n))"
    using assms(1,5) p(1) by (simp add: pipe_write_by_id_def s1_def)
  have h: "pb_inv (pipe_heap s1 a)" "pb_contents (pipe_heap s1 a) = xs" "pipe_table s1 = pipe_table s"
    using p by (simp_all add: s1_def)
  have "0 < unat n" "unat n \<le> unat count" using assms(6,8) by (simp_all add: unat_gt_0 word_le_nat_alt)
  then obtain s2 where s2: "pipe_read_buffer a (unat count) re renv s1 = Some (s2, Inr xs)"
    "pb_contents (pipe_heap s2 a) = []"
    using pipe_read_now[OF h(1), of "unat count" re renv] h(2) ne xs by auto
  have l: "pipe_registry_lookup pipe_id s1 = Some a" using assms(1) h(3) by (simp add: pipe_registry_lookup_def)
  have "pipe_read_by_id pipe_id rbuf count True re renv rm s1 = Some (s2, rm', Inr (unat n))"
    using l s2(1) assms(9) ne xs by (simp add: pipe_read_by_id_def)
  then show ?thesis using w s2(2) by (metis length_0_conv length_pb_contents)
qed

text \<open>
  C30 (pipes, liveness).  No wakeup is lost: a process that went to sleep in a read is on the
  queue, and a write of at least one byte by anyone makes it READY.
\<close>
theorem pipe_write_wakes_reader:
  assumes "current_process s = Some r" "wq_entry_proc s e \<noteq> Some r"
    and "pipe_prepare True a e s = s1" "procs s2 = procs s1" "wq_entry_proc s2 = wq_entry_proc s1"
    and "pipe_heap s2 = pipe_heap s1" "pb_inv (pipe_heap s2 a)" "pb_room (pipe_heap s2 a) \<noteq> 0"
    and "readers (pipe_heap s2 a) \<noteq> 0" "xs \<noteq> []"
  shows "p_state (procs s1 r) = PROCESS_BLOCKED \<and>
    (\<exists>s3 n. pipe_write_buffer a xs e' env s2 = Some (s3, Inr n) \<and> 0 < n \<and> p_state (procs s3 r) = PROCESS_READY)"
proof -
  have s1: "p_state (procs s1 r) = PROCESS_BLOCKED" "e \<in> set (rd_wq (pipe_heap s1 a))" "wq_entry_proc s1 e = Some r"
    using assms(1-3)
    by (auto simp: pipe_prepare_def wait_queue_prepare_def Let_def get_wq_def set_wq_def set_state_def upd_proc_def)
  obtain p where p: "pipe_write_buffer a xs e' env s2
      = Some (pipe_wake True a (upd_pipe a (\<lambda>_. p) s2), Inr (min (length xs) (pb_room (pipe_heap s2 a))))"
    "rd_wq p = rd_wq (pipe_heap s2 a)"
    using pipe_write_now[OF assms(7,9,8,10) refl] by blast
  have "p_state (procs (fold wake_entry (rd_wq p) (upd_pipe a (\<lambda>_. p) s2)) r) = PROCESS_READY"
    using fold_wake_ready[of e "rd_wq p" "upd_pipe a (\<lambda>_. p) s2" r] s1 p(2) assms(5,6) by simp
  then show ?thesis using p s1(1) assms(8,10) by (auto simp: get_wq_def)
qed

text \<open>The outcome of \<open>sys_pipe\<close>: a pipe at \<open>a\<close> with both ends in the caller's table, or no trace.\<close>

definition pipe_installed :: "nat \<Rightarrow> nat \<Rightarrow> u32 \<Rightarrow> aspace \<Rightarrow> 'a pipe_state_scheme \<Rightarrow> aspace \<Rightarrow> 'a pipe_state_scheme \<Rightarrow> bool" where
  "pipe_installed proc a pipefd m s m' s' \<longleftrightarrow>
     (\<exists>i j. i \<noteq> j \<and> {i, j} \<subseteq> {3..<64} \<and> fd_unused (fdt s proc i) \<and> fd_unused (fdt s proc j) \<and>
        fdt s' proc = (fdt s proc)(i := claimed (next_pipe_id s) True (fdt s proc i),
                                   j := claimed (next_pipe_id s) False (fdt s proc j)) \<and>
        copy_to_user m pipefd (Some (word_bytes (of_nat i) @ word_bytes (of_nat j))) 8 = (m', Inr ())) \<and>
     pipe_registry_lookup (next_pipe_id s) s' = Some a \<and> pb_contents (pipe_heap s' a) = [] \<and>
     readers (pipe_heap s' a) = 1 \<and> writers (pipe_heap s' a) = 1"

definition pipe_undone :: "aspace \<Rightarrow> 'a pipe_state_scheme \<Rightarrow> aspace \<Rightarrow> 'a pipe_state_scheme \<Rightarrow> bool" where
  "pipe_undone m s m' s' \<longleftrightarrow> m' = m \<and> hash_table_lookup (pipe_table s') = hash_table_lookup (pipe_table s) \<and>
     (\<forall>b i. of_idx (fdt s' b i) = of_idx (fdt s b i) \<and> fd_flags (fdt s' b i) = fd_flags (fdt s b i))"

lemma pipe_undone_same:
  "m' = m \<Longrightarrow> pipe_table s' = pipe_table s \<Longrightarrow> procs s' = procs s \<Longrightarrow> pipe_undone m s m' s'"
  by (simp add: pipe_undone_def)

text \<open>Taking back the claimed descriptors and the registration restores everything observed.\<close>

lemma pipe_rollback:
  assumes "ht_inv (pipe_table s2)" "hash_table_lookup (pipe_table s2) = (hash_table_lookup (pipe_table s))(k \<mapsto> a)"
    and "hash_table_lookup (pipe_table s) k = None" "procs s2 = procs s"
    and cl: "claim_fds proc k [3..<64] [] s2 = (s3, fds)" and s4: "procs s4 = procs s3" "pipe_table s4 = pipe_table s3"
  shows "pipe_undone m s m (pipe_destroy_buffer a (pipe_registry_remove k (release_fds proc fds s4)))"
proof -
  note new = claim_fds_new[OF cl]
  let ?s = "pipe_destroy_buffer a (pipe_registry_remove k (release_fds proc fds s4))"
  note t3 = claim_fds_frame(2)[OF cl]
  have "hash_table_lookup (pipe_table ?s) = (hash_table_lookup (pipe_table s2))(k := None)"
    using ht.remove_lookup[OF assms(1)] by (simp add: pipe_destroy_buffer_def pipe_registry_remove_def s4 t3)
  also have "\<dots> = hash_table_lookup (pipe_table s)" using assms(2,3) by (auto simp: fun_eq_iff)
  finally have l: "hash_table_lookup (pipe_table ?s) = hash_table_lookup (pipe_table s)" .
  have pr: "procs ?s = procs (release_fds proc fds s4)" by (simp add: pipe_destroy_buffer_def pipe_registry_remove_def)
  have "of_idx (fdt ?s b i) = of_idx (fdt s b i) \<and> fd_flags (fdt ?s b i) = fd_flags (fdt s b i)" for b i
  proof (cases "b = proc")
    case True
    then show ?thesis using new(4,5) assms(4) by (auto simp: pr release_fds_spec s4 fd_unused_def)
  next
    case False
    then have "procs s3 b = procs s2 b" by (subst new(6)) simp
    then show ?thesis using False assms(4) by (simp add: pr release_fds_spec s4)
  qed
  then show ?thesis using l by (simp add: pipe_undone_def)
qed

lemma pipe_install:
  assumes "hash_table_lookup (pipe_table s2) k = Some a" "k = next_pipe_id s" "procs s2 = procs s"
    and "pb_contents (pipe_heap s2 a) = []" "claim_fds proc k [3..<64] [] s2 = (s3, fds)" "\<not> length fds < 2"
    and "copy_to_user m pipefd (Some (concat (map (\<lambda>i. word_bytes (of_nat i)) fds))) 8 = (m', Inr ())"
  shows "pipe_installed proc a pipefd m s m' (upd_pipe a (\<lambda>p. p\<lparr>readers := 1, writers := 1\<rparr>) s3)"
proof -
  note new = claim_fds_new[OF assms(5)]
  have "length fds = 2" using new(1) assms(6) by simp
  then obtain i j where ij: "fds = [i, j]" by (auto simp: length_Suc_conv numeral_2_eq_2)
  note s3 = claim_fds_frame[OF assms(5)]
  have "fdt s3 proc = (fdt s proc)(i := claimed k True (fdt s proc i), j := claimed k False (fdt s proc j))"
    using new(3,5) ij assms(3) by (auto simp: fun_eq_iff)
  then show ?thesis unfolding pipe_installed_def
    using new(2-4) ij assms(1,2,3,4,7) s3 by (intro conjI exI[of _ i] exI[of _ j])
      (auto simp: pipe_registry_lookup_def pb_contents_def)
qed

text \<open>
  C28 (pipes, error).  \<open>sys_pipe\<close> is all or nothing while pipe ids are below 2 to the 31.
  On success two free descriptors of the caller from 3 on are the read and the write end of
  an empty registered pipe with one reader and one writer, their numbers are stored at the
  user's address, and no other descriptor changes; on every error, be it memory, descriptors
  or the user's pointer, user memory, the registry and the target and mode of every
  descriptor are as before.
\<close>
theorem sys_pipe_all_or_nothing:
  assumes "ht_inv (pipe_table s)" "0 \<le> sint (next_pipe_id s)"
    and "sys_pipe pipefd node data m s = (s', m', r)"
  shows "case r of
      Inr _ \<Rightarrow> \<exists>a. node = Some a \<and> pipe_installed (get_current_process s) a pipefd m s m' s'
    | Inl _ \<Rightarrow> pipe_undone m s m' s'"
proof -
  consider (null) "pipefd = 0" | (nomem) "pipefd \<noteq> 0" "node = None \<or> \<not> data" | (buf) a where "pipefd \<noteq> 0" "node = Some a" data
    by (cases node) auto
  then show ?thesis
  proof cases
    case null
    then show ?thesis using assms(3) by (auto simp: sys_pipe_def pipe_undone_def)
  next
    case nomem
    then show ?thesis using assms(3)
      by (auto simp: sys_pipe_def pipe_create_buffer_def pipe_undone_def Let_def split: option.splits)
  next
    case buf
    obtain s1 where cb: "pipe_create_buffer PIPE_BUF node data s = (s1, Some a)"
      using buf by (simp add: pipe_create_buffer_def)
    then have c: "procs s1 = procs s" "pipe_table s1 = pipe_table s" "next_pipe_id s1 = next_pipe_id s"
      "get_current_process s1 = get_current_process s" "pb_contents (pipe_heap s1 a) = []"
      by (auto simp: pipe_create_buffer_def Let_def get_current_process_def current_process_def pb_contents_def
          split: option.splits if_splits)
    obtain s2 k where al: "pipe_allocate_id a s1 = (s2, k)" by fastforce
    show ?thesis
    proof (cases "sint k < 0")
      case True
      then have "pipe_table s2 = pipe_table s1 \<and> procs s2 = procs s1"
        using al c(3) assms(2) by (auto simp: pipe_allocate_id_def Let_def split: sum.splits)
      moreover have "s' = pipe_destroy_buffer a s2" "m' = m" "r = Inl EMFILE"
        using assms(3) buf cb al True by (simp_all add: sys_pipe_def)
      ultimately show ?thesis using c by (simp add: pipe_undone_same pipe_destroy_buffer_def)
    next
      case False
      have t1: "ht_inv (pipe_table s1)" and k0: "0 \<le> sint k" using assms(1) c(2) False by simp_all
      note A = allocate_id_spec[OF al t1 k0]
      define proc where "proc = get_current_process s"
      obtain s3 fds where cl: "claim_fds proc k [3..<64] [] s2 = (s3, fds)" by fastforce
      have g: "get_current_process s2 = proc" using A(7) c(4) by (simp add: proc_def)
      have l2: "hash_table_lookup (pipe_table s2) = (hash_table_lookup (pipe_table s))(k \<mapsto> a)" using A(4) c(2) by simp
      have n: "hash_table_lookup (pipe_table s) k = None" using A(3) c(2) by (simp add: pipe_registry_lookup_def)
      have p2: "procs s2 = procs s" using A(6) c(1) by simp
      define s4 where "s4 = upd_pipe a (\<lambda>p. p\<lparr>readers := 1, writers := 1\<rparr>) s3"
      note rb = pipe_rollback[OF A(2) l2 n p2 cl, of _ m]
      have e: "(s', m', r) =
        (if length fds < 2
         then (pipe_destroy_buffer a (pipe_registry_remove k (release_fds proc fds s3)), m, Inl EMFILE)
         else case copy_to_user m pipefd (Some (concat (map (\<lambda>i. word_bytes (of_nat i)) fds))) 8 of
                (m1, Inl err) \<Rightarrow> (pipe_destroy_buffer a (pipe_registry_remove k (release_fds proc fds s4)), m1, Inl err)
              | (m1, Inr _) \<Rightarrow> (s4, m1, Inr ()))"
        unfolding s4_def assms(3)[symmetric] sys_pipe_def using buf cb al False g cl
        by (simp add: Let_def MAX_OPEN_FILES_CONST_def del: claim_fds.simps upt_rec_numeral)
      show ?thesis
      proof (cases "length fds < 2")
        case True
        then show ?thesis using e rb[of s3] by simp
      next
        case two: False
        obtain m1 q where cp: "copy_to_user m pipefd (Some (concat (map (\<lambda>i. word_bytes (of_nat i)) fds))) 8 = (m1, q)"
          by fastforce
        show ?thesis
        proof (cases q)
          case (Inl err)
          then have "m1 = m" using cp by (auto simp: copy_to_user_def split: if_splits)
          then show ?thesis using e two cp Inl rb[of s4] by (simp add: s4_def)
        next
          case (Inr u)
          have "pipe_installed proc a pipefd m s m1 s4" unfolding s4_def
            by (rule pipe_install[OF _ _ p2 _ cl two]) (use l2 A(1,5) c(3,5) cp Inr in \<open>simp_all del: upt_rec_numeral\<close>)
          then show ?thesis using e two cp Inr buf(2) by (simp add: proc_def)
        qed
      qed
    qed
  qed
qed

text \<open>A freshly booted system with an empty registry, and one with a small pipe.\<close>

definition pipe_boot :: pipe_state where
  "pipe_boot = pipe_subsystem_init (kstate.extend init_and_child
     \<lparr>pipe_heap = (\<lambda>_. \<lparr>pb_data = (\<lambda>_. 0), pb_size = 0, read_pos = 0, write_pos = 0, pb_count = 0, readers = 0,
        writers = 0, pb_flags = 0, rd_wq = [], wr_wq = []\<rparr>),
      pipe_live = (\<lambda>_. False), pipe_table = hash_table_init [], next_pipe_id = 0, active_pipes = 0\<rparr>)"

definition pipe_one :: pipe_state where
  "pipe_one = upd_pipe 5 (\<lambda>p. p\<lparr>pb_size := 8, readers := 1, writers := 1\<rparr>) (set_fd 1 3 (claimed 1 True)
     (pipe_boot\<lparr>pipe_table := \<lparr>buckets = (\<lambda>b. if b = hash_function 1 then [(1, 5)] else []), ht_count = 1, ht_name = []\<rparr>\<rparr>))"

lemma pipe_boot_simps:
  "procs pipe_boot = procs init_and_child" "cpus pipe_boot = cpus init_and_child" "this_cpu pipe_boot = this_cpu init_and_child"
  "wq_entry_proc pipe_boot = wq_entry_proc init_and_child" "pipe_table pipe_boot = hash_table_init ''pipes''"
  "next_pipe_id pipe_boot = 1" "ht_inv (pipe_table pipe_boot)" "pb_size (pipe_heap pipe_boot a) = 0" "pb_count (pipe_heap pipe_boot a) = 0"
  "read_pos (pipe_heap pipe_boot a) = 0" "write_pos (pipe_heap pipe_boot a) = 0" "pb_data (pipe_heap pipe_boot a) = (\<lambda>_. 0)"
  by (simp_all add: pipe_boot_def pipe_subsystem_init_def pipe_registry_init_def kstate.defs hash_table_init_inv)

lemma pipe_boot_facts:
  "current_process pipe_boot = Some 1" "get_current_process pipe_boot = 1" "wq_entry_proc pipe_boot 7 = None"
  "p_fd_table (procs init_and_child 1) 3 = no_fd" "p_fd_table (procs init_and_child 1) 4 = no_fd"
proof -
  have f: "current_process init_and_child = Some 1" "wq_entry_proc init_and_child 7 = None"
    "p_fd_table (procs init_and_child 1) 3 = no_fd" "p_fd_table (procs init_and_child 1) 4 = no_fd"
    by code_simp+
  then show "current_process pipe_boot = Some 1" "get_current_process pipe_boot = 1" "wq_entry_proc pipe_boot 7 = None"
    "p_fd_table (procs init_and_child 1) 3 = no_fd" "p_fd_table (procs init_and_child 1) 4 = no_fd"
    by (simp_all add: current_process_def get_current_process_def pipe_boot_simps)
qed

lemma pipe_one_facts:
  "pipe_registry_lookup 1 pipe_one = Some 5" "pb_count (pipe_heap pipe_one 5) = 0" "readers (pipe_heap pipe_one 5) = 1"
  "pb_size (pipe_heap pipe_one 5) = 8" "read_pos (pipe_heap pipe_one 5) = 0" "write_pos (pipe_heap pipe_one 5) = 0"
  "current_process pipe_one = Some 1" "wq_entry_proc pipe_one 7 = None" "get_current_process pipe_one = 1"
  "fdt pipe_one 1 3 = claimed 1 True no_fd"
  using pipe_boot_facts
  by (simp_all add: pipe_one_def pipe_registry_lookup_def hash_table_lookup_def pipe_boot_simps set_fd_def
      get_current_process_def current_process_def)

lemma pipe_one_inv: "pb_inv (pipe_heap pipe_one 5)"
  by (simp add: pb_inv_def pipe_one_facts)

theorem pipe_stream_witness:
  "\<exists>s' p'. pipe_create_buffer PIPE_BUF (Some 5) True pipe_boot = (s', Some 5) \<and>
     chan_run pipe_store pipe_take (pipe_heap s' 5) [Put [1, 2, 3], Get 2] = (p', [1, 2, 3], [1, 2]) \<and> pb_contents p' = [3]"
proof -
  obtain s' where c: "pipe_create_buffer PIPE_BUF (Some 5) True pipe_boot = (s', Some 5)"
    by (simp add: pipe_create_buffer_def Let_def)
  then have h: "pipe_heap s' 5 = (pipe_heap pipe_boot 5)\<lparr>pb_size := 4096, read_pos := 0, write_pos := 0, pb_count := 0,
      readers := 0, writers := 0, pb_flags := 0, rd_wq := [], wr_wq := []\<rparr>"
    by (auto simp: pipe_create_buffer_def Let_def kernel_const wait_queue_init_def)
  obtain p' where r: "chan_run pipe_store pipe_take (pipe_heap s' 5) [Put [1, 2, 3], Get 2] = (p', [1, 2, 3], [1, 2])"
    by (simp add: h pipe_store_def pipe_take_def Let_def slice_of_def copy_into_def upt_rec)
  from pipe_stream[OF c r] c r show ?thesis by auto
qed

theorem sys_pipe_all_or_nothing_witness:
  "(\<exists>s' m'. sys_pipe 0x8048000 (Some 5) True one_page pipe_boot = (s', m', Inr ()) \<and>
      pipe_installed 1 5 0x8048000 one_page pipe_boot m' s') \<and>
   (\<exists>s' m'. sys_pipe 0x8048000 (Some 5) False one_page pipe_boot = (s', m', Inl ENOMEM) \<and>
      pipe_undone one_page pipe_boot m' s')"
proof -
  obtain s' m' r where r: "sys_pipe 0x8048000 (Some 5) True one_page pipe_boot = (s', m', r)" by (metis prod_cases3)
  have "access_ok 0x8048000 8" "user_range_resident one_page 0x8048000 8" by code_simp+
  then have c: "copy_to_user one_page 0x8048000 (Some xs) 8 = (put_user_bytes one_page 0x8048000 (take (unat (8 :: u32)) xs), Inr ())" for xs
    by (simp add: copy_to_user_def)
  have "[3..<64] = 3 # 4 # 5 # [6..<64]" by (simp add: upt_rec)
  then have "r = Inr ()"
    using r pipe_boot_facts c
    by (simp add: sys_pipe_def pipe_create_buffer_def pipe_allocate_id_def hash_table_insert_def hash_table_init_def
        Let_def pipe_boot_simps MAX_OPEN_FILES_CONST_def get_current_process_def current_process_def fd_unused_def no_fd_def
        del: upt_rec_numeral)
  moreover obtain s2 m2 where q: "sys_pipe 0x8048000 (Some 5) False one_page pipe_boot = (s2, m2, Inl ENOMEM)"
    by (simp add: sys_pipe_def pipe_create_buffer_def Let_def)
  ultimately show ?thesis
    using sys_pipe_all_or_nothing[OF pipe_boot_simps(7) _ r] sys_pipe_all_or_nothing[OF pipe_boot_simps(7) _ q]
      r q pipe_boot_facts(2) by (simp add: pipe_boot_simps)
qed

theorem pipe_write_read_roundtrip_witness:
  "\<exists>s1 s2 m'. pipe_write_by_id 1 0x8048100 3 True 7 [] (put_user_bytes one_page 0x8048100 [1, 2, 3]) pipe_one = Some (s1, Inr 3) \<and>
     pipe_read_by_id 1 0x8048200 100 True 8 [] one_page s1 = Some (s2, m', Inr 3) \<and> user_bytes m' 0x8048200 3 = [1, 2, 3]"
proof -
  define m' where "m' = fst (copy_to_user one_page 0x8048200 (Some [1, 2, 3]) 3)"
  have "snd (copy_to_user one_page 0x8048200 (Some [1, 2, 3]) 3) = Inr ()" by code_simp
  then have c: "copy_to_user one_page 0x8048200 (Some [1, 2, 3]) 3 = (m', Inr ())" by (metis m'_def prod.collapse)
  have f: "copy_from_user True (put_user_bytes one_page 0x8048100 [1, 2, 3]) 0x8048100 3 = Inr [1, 2, 3]"
    "user_bytes m' 0x8048200 3 = [1, 2, 3]" unfolding m'_def by code_simp+
  from pipe_write_read_roundtrip[OF pipe_one_facts(1) pipe_one_inv pipe_one_facts(2) _ f(1) _ _ _ c, of 100 7 "[]" 8 "[]"]
  show ?thesis using f(2) by (auto simp: pipe_one_facts)
qed

theorem pipe_write_wakes_reader_witness:
  "let s1 = pipe_prepare True 5 7 pipe_one
   in p_state (procs s1 1) = PROCESS_BLOCKED \<and>
      (\<exists>s3 n. pipe_write_buffer 5 [9] 8 [] (set_current 2 s1) = Some (s3, Inr n) \<and> p_state (procs s3 1) = PROCESS_READY)"
proof -
  let ?s1 = "pipe_prepare True 5 7 pipe_one"
  have h: "pb_inv (pipe_heap ?s1 5)" "pb_room (pipe_heap ?s1 5) \<noteq> 0" "readers (pipe_heap ?s1 5) \<noteq> 0"
    using pipe_one_inv
    by (simp_all add: pipe_prepare_def wait_queue_prepare_def pipe_one_facts Let_def pb_room_def)
  have c: "procs (set_current 2 ?s1) = procs ?s1" "wq_entry_proc (set_current 2 ?s1) = wq_entry_proc ?s1"
    "pipe_heap (set_current 2 ?s1) = pipe_heap ?s1"
    by (simp_all add: set_current_def upd_cpu_def)
  from pipe_write_wakes_reader[OF pipe_one_facts(7) _ refl c, of "[9]" 8 "[]"] h
  show ?thesis by (auto simp: pipe_one_facts c Let_def)
qed

text \<open>
  C40 (pipes, functional).  A descriptor of a pipe is recognised with its pipe id, for every
  id below 2 to the 31 but one: the descriptor of pipe 48344 carries the number that marks
  the console, and is no pipe descriptor to \<open>read\<close>, \<open>write\<close> and \<open>close\<close>.
\<close>
theorem pipe_fd_recognised:
  assumes "fd < 64" "unat k < 2 ^ 31" "fdt s (get_current_process s) fd = claimed k rd f"
  shows "is_pipe_fd fd s = (if k = 48344 then None else Some k)"
proof -
  have u: "unat (1000 + k) = 1000 + unat k" using assms(2) by (simp add: unat_word_ariths)
  have "1000 \<le> 1000 + k" using u by (simp add: word_le_nat_alt)
  moreover have "1000 + k = 0xC0C0 \<longleftrightarrow> k = 48344"
    by (auto simp: word_unat_eq_iff u)
  ultimately show ?thesis using assms(1,3) by (simp add: is_pipe_fd_def claimed_def kernel_const Let_def)
qed

theorem pipe_fd_recognised_witness: "is_pipe_fd 3 pipe_one = Some 1"
  using pipe_fd_recognised[of 3 1 pipe_one True no_fd] pipe_one_facts(9,10) by simp

end
