(* ===== verification/Ramfs.thy ===== *)
theory Ramfs
  imports Prelude
begin

text \<open>
  The in-memory file system, \<^verbatim>\<open>src/kernel/fs/ramfs.c\<close> with its adapter
  \<^verbatim>\<open>ramfs_ops.c\<close>: a table of 128 inodes, directories as arrays of at most 64 children,
  file data in one buffer that grows by pages.  Inode 0 is the answer \<open>not found\<close>, inode 1
  the root.  The array of children with its count is the list of its entries, a buffer is
  the function from its indices, the three time stamps (never read or written) are left out,
  and the outcome of \<open>kmalloc\<close> is an argument.  The adapter's methods are collected in a
  record with the fields of \<open>fs_ops_t\<close>.
\<close>

section \<open>Inodes\<close>

datatype inode_type = INODE_FREE | INODE_FILE | INODE_DIR

record ramfs_inode =
  i_type :: inode_type
  i_mode :: u32
  i_uid :: u32
  i_gid :: u32
  i_size :: nat
  i_nlink :: nat
  i_name :: string
  i_parent :: nat
  i_children :: "nat list"
  i_data :: "(nat \<Rightarrow> byte) option"
  i_capacity :: nat

record ramfs =
  inode_table :: "nat \<Rightarrow> ramfs_inode"
  inode_open_count :: "nat \<Rightarrow> u32"

definition RAMFS_MAX_INODES :: nat where [kernel_const]: "RAMFS_MAX_INODES = 128"
definition RAMFS_MAX_CHILDREN :: nat where [kernel_const]: "RAMFS_MAX_CHILDREN = 64"
definition RAMFS_MAX_NAME :: nat where [kernel_const]: "RAMFS_MAX_NAME = 64"
definition RAMFS_BLOCK_SIZE :: nat where [kernel_const]: "RAMFS_BLOCK_SIZE = 4096"
definition RAMFS_MAX_FILE_SIZE :: nat where [kernel_const]: "RAMFS_MAX_FILE_SIZE = 16 * 1024 * 1024"
definition RAMFS_ROOT_INO :: nat where [kernel_const]: "RAMFS_ROOT_INO = 1"

definition zero_inode :: ramfs_inode where
  "zero_inode = \<lparr>i_type = INODE_FREE, i_mode = 0, i_uid = 0, i_gid = 0, i_size = 0, i_nlink = 0, i_name = [],
     i_parent = 0, i_children = [], i_data = None, i_capacity = 0\<rparr>"

definition upd_inode :: "nat \<Rightarrow> (ramfs_inode \<Rightarrow> ramfs_inode) \<Rightarrow> ramfs \<Rightarrow> ramfs" where
  "upd_inode i f s = s\<lparr>inode_table := (inode_table s)(i := f (inode_table s i))\<rparr>"

definition ramfs_get_open_count :: "ramfs \<Rightarrow> nat \<Rightarrow> u32" where
  "ramfs_get_open_count s idx = inode_open_count s idx"

definition ramfs_inc_open_count :: "nat \<Rightarrow> ramfs \<Rightarrow> ramfs" where
  "ramfs_inc_open_count idx s = s\<lparr>inode_open_count := (inode_open_count s)(idx := inode_open_count s idx + 1)\<rparr>"

definition ramfs_dec_open_count :: "nat \<Rightarrow> ramfs \<Rightarrow> ramfs" where
  "ramfs_dec_open_count idx s = s\<lparr>inode_open_count := (inode_open_count s)(idx := inode_open_count s idx - 1)\<rparr>"

definition ramfs_alloc_inode :: "ramfs \<Rightarrow> ramfs \<times> nat" where
  "ramfs_alloc_inode s =
     (case find (\<lambda>i. i_type (inode_table s i) = INODE_FREE) [2..<RAMFS_MAX_INODES] of
        None \<Rightarrow> (s, 0)
      | Some i \<Rightarrow> (upd_inode i (\<lambda>_. zero_inode\<lparr>i_nlink := 1\<rparr>) s, i))"

definition ramfs_free_inode :: "nat \<Rightarrow> ramfs \<Rightarrow> ramfs" where
  "ramfs_free_inode idx s =
     (if idx = 0 \<or> RAMFS_MAX_INODES \<le> idx then s
      else (upd_inode idx (\<lambda>_. zero_inode) s)\<lparr>inode_open_count := (inode_open_count s)(idx := 0)\<rparr>)"

definition ramfs_get_inode :: "ramfs \<Rightarrow> nat \<Rightarrow> ramfs_inode" where
  "ramfs_get_inode s idx = inode_table s idx"

definition ramfs_lookup_child :: "ramfs \<Rightarrow> nat \<Rightarrow> string \<Rightarrow> nat" where
  "ramfs_lookup_child s parent nm =
     (let pnode = inode_table s parent
      in if i_type pnode \<noteq> INODE_DIR then 0
         else (case find (\<lambda>c. i_name (inode_table s c) = nm) (i_children pnode) of None \<Rightarrow> 0 | Some c \<Rightarrow> c))"

definition ramfs_add_child :: "nat \<Rightarrow> nat \<Rightarrow> ramfs \<Rightarrow> ramfs \<times> unit res" where
  "ramfs_add_child parent child s =
     (let pnode = inode_table s parent
      in if i_type pnode \<noteq> INODE_DIR then (s, Inl ENOTDIR)
         else if RAMFS_MAX_CHILDREN \<le> length (i_children pnode) then (s, Inl ENOSPC)
         else (upd_inode child (\<lambda>n. n\<lparr>i_parent := parent\<rparr>)
                 (upd_inode parent (\<lambda>n. n\<lparr>i_children := i_children n @ [child]\<rparr>) s), Inr ()))"

definition ramfs_remove_child :: "nat \<Rightarrow> nat \<Rightarrow> ramfs \<Rightarrow> ramfs \<times> unit res" where
  "ramfs_remove_child parent child s =
     (let pnode = inode_table s parent
      in if i_type pnode \<noteq> INODE_DIR then (s, Inl ENOTDIR)
         else if child \<in> set (i_children pnode)
         then (upd_inode parent (\<lambda>n. n\<lparr>i_children := remove1 child (i_children n)\<rparr>) s, Inr ())
         else (s, Inl ENOENT))"

section \<open>Data\<close>

text \<open>The bytes the caller's buffer holds after the read; \<open>buf\<close> is what it held before.\<close>

definition ramfs_read_data :: "ramfs \<Rightarrow> nat \<Rightarrow> byte list \<Rightarrow> u32 \<Rightarrow> u32 \<Rightarrow> byte list res" where
  "ramfs_read_data s idx buf count offset =
     (let inode = inode_table s idx
      in if i_type inode \<noteq> INODE_FILE then Inl EISDIR
         else if i_size inode \<le> unat offset then Inr []
         else
           let available = i_size inode - unat offset;
               to_read = (if unat count < available then unat count else available)
           in if to_read = 0 then Inr []
              else (case i_data inode of
                      None \<Rightarrow> Inr (take to_read buf)
                    | Some d \<Rightarrow> Inr (slice_of d (unat offset) to_read)))"

definition round_block :: "nat \<Rightarrow> nat" where
  "round_block n = (n + RAMFS_BLOCK_SIZE - 1) div RAMFS_BLOCK_SIZE * RAMFS_BLOCK_SIZE"

text \<open>A zeroed buffer that receives the old bytes; the old buffer is freed.\<close>

definition grow :: "nat \<Rightarrow> nat \<Rightarrow> ramfs_inode \<Rightarrow> ramfs_inode" where
  "grow new_cap copy_size inode =
     inode\<lparr>i_data := Some (case i_data inode of
              Some d \<Rightarrow> if 0 < i_size inode then copy_into (\<lambda>_. 0) 0 (slice_of d 0 copy_size) else (\<lambda>_. 0)
            | None \<Rightarrow> (\<lambda>_. 0)),
           i_capacity := new_cap\<rparr>"

definition ramfs_write_data :: "bool \<Rightarrow> nat \<Rightarrow> byte list \<Rightarrow> u32 \<Rightarrow> ramfs \<Rightarrow> ramfs \<times> nat res" where
  "ramfs_write_data mem idx buf offset s =
     (let inode = inode_table s idx; count = length buf
      in if i_type inode = INODE_DIR then (s, Inl EISDIR)
         else if 0xFFFFFFFF - unat offset < count then (s, Inl EFBIG)
         else
           let end_pos = unat offset + count
           in if RAMFS_MAX_FILE_SIZE < end_pos then (s, Inl EFBIG)
              else
                let new_cap = (if RAMFS_MAX_FILE_SIZE < round_block end_pos then RAMFS_MAX_FILE_SIZE
                               else round_block end_pos)
                in if i_capacity inode < end_pos \<and> \<not> mem then (s, Inl ENOSPC)
                   else
                     let inode = (if i_capacity inode < end_pos then grow new_cap (i_size inode) inode else inode);
                         inode = inode\<lparr>i_data := map_option (\<lambda>d. copy_into d (unat offset) buf) (i_data inode)\<rparr>;
                         inode = (if i_size inode < end_pos then inode\<lparr>i_size := end_pos\<rparr> else inode)
                     in (upd_inode idx (\<lambda>_. inode) s, Inr count))"

definition ramfs_truncate_inode :: "bool \<Rightarrow> nat \<Rightarrow> u32 \<Rightarrow> ramfs \<Rightarrow> ramfs \<times> unit res" where
  "ramfs_truncate_inode mem idx len s =
     (let inode = inode_table s idx; n = unat len
      in if i_type inode \<noteq> INODE_FILE then (s, Inl EISDIR)
         else if RAMFS_MAX_FILE_SIZE < n then (s, Inl EFBIG)
         else if i_capacity inode < n \<and> \<not> mem then (s, Inl ENOSPC)
         else
           let copy_size = (if i_size inode < n then i_size inode else n);
               inode = (if i_capacity inode < n then grow (round_block n) copy_size inode else inode)
           in (upd_inode idx (\<lambda>_. inode\<lparr>i_size := n\<rparr>) s, Inr ()))"

section \<open>Creation and attributes\<close>

definition ramfs_init :: ramfs where
  "ramfs_init = \<lparr>inode_table = (\<lambda>_. zero_inode)(RAMFS_ROOT_INO :=
     zero_inode\<lparr>i_type := INODE_DIR, i_mode := 0x1ED, i_nlink := 2, i_name := ''/''\<rparr>),
     inode_open_count = (\<lambda>_. 0)\<rparr>"

definition ramfs_create_dir :: "nat \<Rightarrow> string \<Rightarrow> u32 \<Rightarrow> ramfs \<Rightarrow> ramfs \<times> nat res" where
  "ramfs_create_dir parent nm mode s =
     (if i_type (inode_table s parent) \<noteq> INODE_DIR then (s, Inl ENOTDIR)
      else if ramfs_lookup_child s parent nm \<noteq> 0 then (s, Inl EEXIST)
      else (case ramfs_alloc_inode s of (s, idx) \<Rightarrow>
        if idx = 0 then (s, Inl ENOSPC)
        else
          let s = upd_inode idx (\<lambda>n. n\<lparr>i_type := INODE_DIR, i_mode := mode AND 0x1FF, i_nlink := 2,
                    i_name := take (RAMFS_MAX_NAME - 1) nm\<rparr>) s
          in case ramfs_add_child parent idx s of
               (s, Inl e) \<Rightarrow> (ramfs_free_inode idx s, Inl e)
             | (s, Inr _) \<Rightarrow> (upd_inode parent (\<lambda>n. n\<lparr>i_nlink := i_nlink n + 1\<rparr>) s, Inr idx)))"

definition ramfs_create_file :: "nat \<Rightarrow> string \<Rightarrow> u32 \<Rightarrow> ramfs \<Rightarrow> ramfs \<times> nat res" where
  "ramfs_create_file parent nm mode s =
     (if i_type (inode_table s parent) \<noteq> INODE_DIR then (s, Inl ENOTDIR)
      else (case ramfs_alloc_inode s of (s, idx) \<Rightarrow>
        if idx = 0 then (s, Inl ENOSPC)
        else
          let s = upd_inode idx (\<lambda>n. n\<lparr>i_type := INODE_FILE, i_mode := mode AND 0x1FF, i_nlink := 1,
                    i_name := take (RAMFS_MAX_NAME - 1) nm\<rparr>) s
          in case ramfs_add_child parent idx s of
               (s, Inl e) \<Rightarrow> (ramfs_free_inode idx s, Inl e)
             | (s, Inr _) \<Rightarrow> (s, Inr idx)))"

text \<open>The fields of \<open>struct stat\<close> that a file system fills in.\<close>

record kstat =
  st_ino :: nat
  st_mode :: u16
  st_nlink :: u16
  st_uid :: u16
  st_gid :: u16
  st_size :: nat
  st_blksize :: nat
  st_blocks :: nat

definition ramfs_fill_stat :: "ramfs \<Rightarrow> nat \<Rightarrow> kstat option" where
  "ramfs_fill_stat s idx =
     (let inode = inode_table s idx
      in if i_type inode = INODE_FREE then None
         else Some \<lparr>st_ino = idx,
                st_mode = ucast (i_mode inode) OR (if i_type inode = INODE_DIR then 0x4000 else 0x8000),
                st_nlink = of_nat (i_nlink inode), st_uid = 0, st_gid = 0, st_size = i_size inode,
                st_blksize = RAMFS_BLOCK_SIZE, st_blocks = (i_size inode + 511) div 512\<rparr>)"

definition ramfs_inode_dtype :: "ramfs \<Rightarrow> nat \<Rightarrow> nat" where
  "ramfs_inode_dtype s idx =
     (case i_type (inode_table s idx) of INODE_DIR \<Rightarrow> 4 | INODE_FILE \<Rightarrow> 8 | INODE_FREE \<Rightarrow> 0)"

definition ramfs_set_mode :: "nat \<Rightarrow> u32 \<Rightarrow> ramfs \<Rightarrow> ramfs \<times> unit res" where
  "ramfs_set_mode idx mode s =
     (if idx = 0 \<or> RAMFS_MAX_INODES \<le> idx then (s, Inl ENOENT)
      else if i_type (inode_table s idx) = INODE_FREE then (s, Inl ENOENT)
      else (upd_inode idx (\<lambda>n. n\<lparr>i_mode := mode AND 0xFFF\<rparr>) s, Inr ()))"

definition ramfs_set_owner :: "nat \<Rightarrow> u32 \<Rightarrow> u32 \<Rightarrow> ramfs \<Rightarrow> ramfs \<times> unit res" where
  "ramfs_set_owner idx uid gid s =
     (if idx = 0 \<or> RAMFS_MAX_INODES \<le> idx then (s, Inl ENOENT)
      else if i_type (inode_table s idx) = INODE_FREE then (s, Inl ENOENT)
      else
        let s = (if uid \<noteq> -1 then upd_inode idx (\<lambda>n. n\<lparr>i_uid := uid\<rparr>) s else s);
            s = (if gid \<noteq> -1 then upd_inode idx (\<lambda>n. n\<lparr>i_gid := gid\<rparr>) s else s)
        in (s, Inr ()))"

definition ramfs_root_inode :: nat where
  "ramfs_root_inode = RAMFS_ROOT_INO"

definition ramfs_set_name :: "nat \<Rightarrow> string \<Rightarrow> ramfs \<Rightarrow> ramfs \<times> unit res" where
  "ramfs_set_name idx nm s =
     (if idx = 0 \<or> RAMFS_MAX_INODES \<le> idx then (s, Inl ENOENT)
      else if i_type (inode_table s idx) = INODE_FREE then (s, Inl ENOENT)
      else (upd_inode idx (\<lambda>n. n\<lparr>i_name := take (RAMFS_MAX_NAME - 1) nm\<rparr>) s, Inr ()))"

section \<open>The adapter\<close>

record dirent =
  d_ino :: nat
  d_off :: nat
  d_reclen :: nat
  d_name :: string

text \<open>
  The table of methods a file system gives to the VFS; a method is optional, the state
  \<open>'fs\<close> is what the methods reach through \<open>fs_priv\<close> and their static data.
\<close>

record 'fs fs_ops =
  op_resolve :: "('fs \<Rightarrow> nat \<Rightarrow> string \<Rightarrow> nat) option"
  op_read :: "('fs \<Rightarrow> nat \<Rightarrow> byte list \<Rightarrow> u32 \<Rightarrow> u32 \<Rightarrow> byte list res) option"
  op_write :: "(nat \<Rightarrow> byte list \<Rightarrow> u32 \<Rightarrow> 'fs \<Rightarrow> 'fs \<times> nat res) option"
  op_stat :: "('fs \<Rightarrow> nat \<Rightarrow> kstat res) option"
  op_readdir :: "('fs \<Rightarrow> nat \<Rightarrow> nat \<Rightarrow> nat \<Rightarrow> (dirent list \<times> nat) res) option"
  op_mkdir :: "(nat \<Rightarrow> string \<Rightarrow> u32 \<Rightarrow> 'fs \<Rightarrow> 'fs \<times> nat res) option"
  op_create :: "(nat \<Rightarrow> string \<Rightarrow> u32 \<Rightarrow> 'fs \<Rightarrow> 'fs \<times> nat res) option"
  op_unlink :: "(nat \<Rightarrow> string \<Rightarrow> 'fs \<Rightarrow> 'fs \<times> unit res) option"
  op_rmdir :: "(nat \<Rightarrow> string \<Rightarrow> 'fs \<Rightarrow> 'fs \<times> unit res) option"
  op_truncate :: "(nat \<Rightarrow> u32 \<Rightarrow> 'fs \<Rightarrow> 'fs \<times> unit res) option"
  op_chmod :: "(nat \<Rightarrow> u32 \<Rightarrow> 'fs \<Rightarrow> 'fs \<times> unit res) option"
  op_chown :: "(nat \<Rightarrow> u32 \<Rightarrow> u32 \<Rightarrow> 'fs \<Rightarrow> 'fs \<times> unit res) option"
  op_rename :: "(nat \<Rightarrow> string \<Rightarrow> nat \<Rightarrow> string \<Rightarrow> 'fs \<Rightarrow> 'fs \<times> unit res) option"
  op_dtype :: "('fs \<Rightarrow> nat \<Rightarrow> nat) option"
  op_inc_open :: "(nat \<Rightarrow> 'fs \<Rightarrow> 'fs) option"
  op_dec_open :: "(nat \<Rightarrow> 'fs \<Rightarrow> 'fs) option"
  op_get_open :: "('fs \<Rightarrow> nat \<Rightarrow> u32) option"
  op_release :: "(nat \<Rightarrow> 'fs \<Rightarrow> 'fs) option"

definition ramfs_op_resolve :: "ramfs \<Rightarrow> nat \<Rightarrow> string \<Rightarrow> nat" where
  "ramfs_op_resolve s parent nm =
     (if nm = ''..'' then i_parent (ramfs_get_inode s parent) else ramfs_lookup_child s parent nm)"

definition ramfs_op_stat :: "ramfs \<Rightarrow> nat \<Rightarrow> kstat res" where
  "ramfs_op_stat s idx = (case ramfs_fill_stat s idx of None \<Rightarrow> Inl ENOENT | Some st \<Rightarrow> Inr st)"

definition dirent_reclen :: "string \<Rightarrow> nat" where
  "dirent_reclen nm = (10 + length nm + 1 + 3) div 4 * 4"

text \<open>The loop over the children from index \<open>i\<close> on; the new cursor is returned.\<close>

fun readdir_loop :: "ramfs \<Rightarrow> nat list \<Rightarrow> nat \<Rightarrow> nat \<Rightarrow> nat \<Rightarrow> dirent list \<times> nat" where
  "readdir_loop s [] i written sz = ([], i)"
| "readdir_loop s (child # rest) i written sz =
     (let nm = i_name (ramfs_get_inode s child); reclen = dirent_reclen nm
      in if sz < written + reclen then ([], i)
         else (case readdir_loop s rest (i + 1) (written + reclen) sz of
                 (ents, pos) \<Rightarrow> (\<lparr>d_ino = child, d_off = i + 1, d_reclen = reclen, d_name = nm\<rparr> # ents, pos)))"

definition ramfs_op_readdir :: "ramfs \<Rightarrow> nat \<Rightarrow> nat \<Rightarrow> nat \<Rightarrow> (dirent list \<times> nat) res" where
  "ramfs_op_readdir s idx sz pos =
     (let dir = ramfs_get_inode s idx
      in if i_type dir \<noteq> INODE_DIR then Inl ENOTDIR
         else Inr (readdir_loop s (drop pos (i_children dir)) pos 0 sz))"

definition ramfs_op_unlink :: "nat \<Rightarrow> string \<Rightarrow> ramfs \<Rightarrow> ramfs \<times> unit res" where
  "ramfs_op_unlink parent nm s =
     (let idx = ramfs_lookup_child s parent nm
      in if idx = 0 then (s, Inl ENOENT)
         else if i_type (ramfs_get_inode s idx) = INODE_DIR then (s, Inl EISDIR)
         else
           let s = fst (ramfs_remove_child parent idx s);
               s = (if 0 < i_nlink (ramfs_get_inode s idx)
                    then upd_inode idx (\<lambda>n. n\<lparr>i_nlink := i_nlink n - 1\<rparr>) s else s)
           in (if i_nlink (ramfs_get_inode s idx) = 0 \<and> ramfs_get_open_count s idx = 0
               then ramfs_free_inode idx s else s, Inr ()))"

definition ramfs_op_rmdir :: "nat \<Rightarrow> string \<Rightarrow> ramfs \<Rightarrow> ramfs \<times> unit res" where
  "ramfs_op_rmdir parent nm s =
     (let idx = ramfs_lookup_child s parent nm; dir = ramfs_get_inode s idx
      in if idx = 0 then (s, Inl ENOENT)
         else if i_type dir \<noteq> INODE_DIR then (s, Inl ENOTDIR)
         else if i_children dir \<noteq> [] then (s, Inl ENOTEMPTY)
         else
           let s = fst (ramfs_remove_child parent idx s);
               s = (if 0 < i_nlink (ramfs_get_inode s parent)
                    then upd_inode parent (\<lambda>n. n\<lparr>i_nlink := i_nlink n - 1\<rparr>) s else s)
           in (ramfs_free_inode idx s, Inr ()))"

definition ramfs_op_rename :: "nat \<Rightarrow> string \<Rightarrow> nat \<Rightarrow> string \<Rightarrow> ramfs \<Rightarrow> ramfs \<times> unit res" where
  "ramfs_op_rename old_parent old_name new_parent new_name s =
     (let idx = ramfs_lookup_child s old_parent old_name
      in if idx = 0 then (s, Inl ENOENT)
         else (case ramfs_remove_child old_parent idx s of
                 (s, Inl e) \<Rightarrow> (s, Inl e)
               | (s, Inr _) \<Rightarrow>
                   let s = fst (ramfs_set_name idx new_name s)
                   in case ramfs_add_child new_parent idx s of
                        (s, Inl e) \<Rightarrow> (fst (ramfs_add_child old_parent idx s), Inl e)
                      | (s, Inr _) \<Rightarrow> (s, Inr ())))"

definition ramfs_ops :: "bool \<Rightarrow> ramfs fs_ops" where
  "ramfs_ops mem =
     \<lparr>op_resolve = Some ramfs_op_resolve, op_read = Some ramfs_read_data,
      op_write = Some (ramfs_write_data mem), op_stat = Some ramfs_op_stat,
      op_readdir = Some ramfs_op_readdir, op_mkdir = Some ramfs_create_dir, op_create = Some ramfs_create_file,
      op_unlink = Some ramfs_op_unlink, op_rmdir = Some ramfs_op_rmdir,
      op_truncate = Some (ramfs_truncate_inode mem), op_chmod = Some ramfs_set_mode,
      op_chown = Some ramfs_set_owner, op_rename = Some ramfs_op_rename, op_dtype = Some ramfs_inode_dtype,
      op_inc_open = Some ramfs_inc_open_count, op_dec_open = Some ramfs_dec_open_count,
      op_get_open = Some ramfs_get_open_count, op_release = Some ramfs_free_inode\<rparr>"

section \<open>Data\<close>

definition data_ok :: "ramfs_inode \<Rightarrow> bool" where
  "data_ok n \<longleftrightarrow> i_size n \<le> i_capacity n \<and> i_capacity n \<le> RAMFS_MAX_FILE_SIZE \<and> (i_data n = None \<longrightarrow> i_capacity n = 0)"

text \<open>The contents of a file: the first \<open>size\<close> bytes of its buffer.\<close>

definition file_bytes :: "ramfs_inode \<Rightarrow> byte list" where
  "file_bytes n = (case i_data n of None \<Rightarrow> [] | Some d \<Rightarrow> slice_of d 0 (i_size n))"

lemma length_file_bytes: "data_ok n \<Longrightarrow> length (file_bytes n) = i_size n"
  by (auto simp: file_bytes_def data_ok_def split: option.splits)

text \<open>Writing \<open>buf\<close> at \<open>off\<close> into contents that end at or after \<open>off\<close>.\<close>

definition splice :: "byte list \<Rightarrow> nat \<Rightarrow> byte list \<Rightarrow> byte list" where
  "splice xs off buf = take off xs @ buf @ drop (off + length buf) xs"

lemma round_block_le: "n \<le> round_block n"
  using div_mod_decomp[of "n + 4095" 4096] mod_less_divisor[of 4096 "n + 4095"]
  by (simp add: round_block_def RAMFS_BLOCK_SIZE_def)

lemma round_block_max: "n \<le> RAMFS_MAX_FILE_SIZE \<Longrightarrow> round_block n \<le> RAMFS_MAX_FILE_SIZE"
  by (simp add: round_block_def kernel_const)

lemma grow_spec:
  assumes "data_ok n" "i_capacity n \<le> cap" "cap \<le> RAMFS_MAX_FILE_SIZE"
  shows "data_ok (grow cap (i_size n) n)" "file_bytes (grow cap (i_size n) n) = file_bytes n"
    "i_size (grow cap k n) = i_size n" "i_type (grow cap k n) = i_type n" "i_capacity (grow cap k n) = cap"
    "i_data (grow cap k n) \<noteq> None"
proof -
  show "data_ok (grow cap (i_size n) n)" using assms by (simp add: data_ok_def grow_def)
  show "file_bytes (grow cap (i_size n) n) = file_bytes n"
    using assms(1) by (auto simp: file_bytes_def grow_def data_ok_def slice_of_def copy_into_def split: option.splits)
qed (simp_all add: grow_def)

lemma slice_splice:
  assumes "off \<le> n"
  shows "slice_of (copy_into d off buf) 0 (max n (off + length buf)) = splice (slice_of d 0 n) off buf"
proof (rule nth_equalityI)
  show "length (slice_of (copy_into d off buf) 0 (max n (off + length buf))) = length (splice (slice_of d 0 n) off buf)"
    using assms by (simp add: splice_def max_def)
  fix i assume "i < length (slice_of (copy_into d off buf) 0 (max n (off + length buf)))"
  then have i: "i < max n (off + length buf)" by simp
  consider "i < off" | "off \<le> i" "i < off + length buf" | "off + length buf \<le> i" by linarith
  then show "slice_of (copy_into d off buf) 0 (max n (off + length buf)) ! i = splice (slice_of d 0 n) off buf ! i"
    using i assms by cases (auto simp: copy_into_def splice_def nth_append)
qed

lemma write_data_spec:
  assumes "ramfs_write_data mem idx buf off s = (s', Inr n)" "data_ok (inode_table s idx)"
    and "unat off \<le> i_size (inode_table s idx)"
  shows "n = length buf" "data_ok (inode_table s' idx)"
    "file_bytes (inode_table s' idx) = splice (file_bytes (inode_table s idx)) (unat off) buf"
    "\<And>j. j \<noteq> idx \<Longrightarrow> inode_table s' j = inode_table s j"
    "i_type (inode_table s' idx) = i_type (inode_table s idx)" "inode_open_count s' = inode_open_count s"
proof -
  let ?i = "inode_table s idx" and ?o = "unat off"
  let ?e = "?o + length buf"
  let ?cap = "if RAMFS_MAX_FILE_SIZE < round_block ?e then RAMFS_MAX_FILE_SIZE else round_block ?e"
  define i1 where "i1 = (if i_capacity ?i < ?e then grow ?cap (i_size ?i) ?i else ?i)"
  define i2 where "i2 = i1\<lparr>i_data := map_option (\<lambda>d. copy_into d ?o buf) (i_data i1)\<rparr>"
  define i3 where "i3 = (if i_size i2 < ?e then i2\<lparr>i_size := ?e\<rparr> else i2)"
  have max: "?e \<le> RAMFS_MAX_FILE_SIZE" and n: "n = length buf" and s': "s' = upd_inode idx (\<lambda>_. i3) s"
    using assms(1) by (auto simp: ramfs_write_data_def Let_def i1_def i2_def i3_def split: if_splits)
  have cap: "?e \<le> ?cap" "?cap \<le> RAMFS_MAX_FILE_SIZE" using round_block_le[of ?e] max by auto
  have c1: "i_capacity ?i \<le> ?cap" if "i_capacity ?i < ?e" using that cap(1) by linarith
  have g: "data_ok i1" "file_bytes i1 = file_bytes ?i" "i_size i1 = i_size ?i" "i_type i1 = i_type ?i" "?e \<le> i_capacity i1"
    using grow_spec[OF assms(2) c1 cap(2)] assms(2) cap(1) by (auto simp: i1_def)
  have sz: "i_size i3 = max (i_size ?i) ?e" "i_capacity i3 = i_capacity i1" "i_data i3 = map_option (\<lambda>d. copy_into d ?o buf) (i_data i1)"
    "i_type i3 = i_type ?i" using g by (auto simp: i3_def i2_def)
  show "n = length buf" by (rule n)
  show "data_ok (inode_table s' idx)"
    using g sz by (auto simp: s' upd_inode_def data_ok_def)
  have "file_bytes i3 = splice (file_bytes i1) ?o buf"
  proof (cases "i_data i1")
    case None
    then have "?e = 0" using g by (simp add: data_ok_def)
    then show ?thesis using None sz(3) by (simp add: file_bytes_def splice_def)
  next
    case (Some d)
    then show ?thesis using slice_splice[OF assms(3), of d buf] sz(1,3) g(3) by (simp add: file_bytes_def)
  qed
  then show "file_bytes (inode_table s' idx) = splice (file_bytes ?i) ?o buf" using g(2) by (simp add: s' upd_inode_def)
  show "inode_table s' j = inode_table s j" if "j \<noteq> idx" for j using that by (simp add: s' upd_inode_def)
  show "i_type (inode_table s' idx) = i_type ?i" "inode_open_count s' = inode_open_count s"
    using sz(4) by (simp_all add: s' upd_inode_def)
qed

lemma read_data_spec:
  assumes "data_ok (inode_table s idx)" "i_type (inode_table s idx) = INODE_FILE"
  shows "ramfs_read_data s idx buf count off = Inr (take (unat count) (drop (unat off) (file_bytes (inode_table s idx))))"
proof -
  let ?i = "inode_table s idx"
  have l: "length (file_bytes ?i) = i_size ?i" by (rule length_file_bytes[OF assms(1)])
  show ?thesis
  proof (cases "i_size ?i \<le> unat off \<or> unat count = 0")
    case True
    then show ?thesis using assms(2) l by (auto simp: ramfs_read_data_def Let_def)
  next
    case False
    then obtain d where d: "i_data ?i = Some d" using assms(1) by (auto simp: data_ok_def)
    let ?n = "if unat count < i_size ?i - unat off then unat count else i_size ?i - unat off"
    have "ramfs_read_data s idx buf count off = Inr (slice_of d (unat off) ?n)"
      using False assms(2) d by (simp add: ramfs_read_data_def Let_def)
    moreover have "slice_of d (unat off) ?n = take (unat count) (drop (unat off) (file_bytes ?i))"
      using False by (intro nth_equalityI) (auto simp: file_bytes_def d split: if_splits)
    ultimately show ?thesis by simp
  qed
qed

section \<open>The tree\<close>

text \<open>
  Links are consistent: the root is a directory, a listed child is an allocated inode that
  knows its parent, is listed once, and a listed file has a positive link count.
\<close>

definition tree_ok :: "ramfs \<Rightarrow> bool" where
  "tree_ok s \<longleftrightarrow> i_type (inode_table s 1) = INODE_DIR \<and>
     (\<forall>i. i_type (inode_table s i) \<noteq> INODE_FREE \<longrightarrow> 1 \<le> i \<and> i < 128) \<and>
     (\<forall>d c. c \<in> set (i_children (inode_table s d)) \<longrightarrow>
        2 \<le> c \<and> i_type (inode_table s d) = INODE_DIR \<and> i_type (inode_table s c) \<noteq> INODE_FREE \<and>
        i_parent (inode_table s c) = d \<and> (i_type (inode_table s c) = INODE_FILE \<longrightarrow> 1 \<le> i_nlink (inode_table s c))) \<and>
     (\<forall>d. distinct (i_children (inode_table s d)) \<and> length (i_children (inode_table s d)) \<le> 64)"

definition ramfs_inv :: "ramfs \<Rightarrow> bool" where
  "ramfs_inv s \<longleftrightarrow> tree_ok s \<and> (\<forall>i. data_ok (inode_table s i))"

lemma tree_okI:
  assumes "i_type (inode_table s 1) = INODE_DIR"
    and "\<And>i. i_type (inode_table s i) \<noteq> INODE_FREE \<Longrightarrow> 1 \<le> i \<and> i < 128"
    and "\<And>d c. c \<in> set (i_children (inode_table s d)) \<Longrightarrow> 2 \<le> c \<and> i_type (inode_table s d) = INODE_DIR \<and>
       i_type (inode_table s c) \<noteq> INODE_FREE \<and> i_parent (inode_table s c) = d \<and>
       (i_type (inode_table s c) = INODE_FILE \<longrightarrow> 1 \<le> i_nlink (inode_table s c))"
    and "\<And>d. distinct (i_children (inode_table s d)) \<and> length (i_children (inode_table s d)) \<le> 64"
  shows "tree_ok s"
  using assms unfolding tree_ok_def by blast

lemma tree_okD:
  assumes "tree_ok s"
  shows "i_type (inode_table s 1) = INODE_DIR"
    and "i_type (inode_table s i) \<noteq> INODE_FREE \<Longrightarrow> 1 \<le> i \<and> i < 128"
    and "c \<in> set (i_children (inode_table s d)) \<Longrightarrow> 2 \<le> c \<and> i_type (inode_table s d) = INODE_DIR \<and>
       i_type (inode_table s c) \<noteq> INODE_FREE \<and> i_parent (inode_table s c) = d \<and>
       (i_type (inode_table s c) = INODE_FILE \<longrightarrow> 1 \<le> i_nlink (inode_table s c))"
    and "distinct (i_children (inode_table s d))" "length (i_children (inode_table s d)) \<le> 64"
  using assms unfolding tree_ok_def by blast+

lemma upd_inode_simps [simp]:
  "inode_table (upd_inode i f s) = (inode_table s)(i := f (inode_table s i))"
  "inode_open_count (upd_inode i f s) = inode_open_count s"
  by (simp_all add: upd_inode_def)

lemma tree_ok_cong:
  assumes "tree_ok s" "\<And>i. i_type (inode_table s' i) = i_type (inode_table s i)"
    and "\<And>i. i_children (inode_table s' i) = i_children (inode_table s i)"
    and "\<And>i. i_parent (inode_table s' i) = i_parent (inode_table s i)"
    and "\<And>i. i_type (inode_table s i) = INODE_FILE \<Longrightarrow> i_nlink (inode_table s' i) = i_nlink (inode_table s i)"
  shows "tree_ok s'"
  by (rule tree_okI) (use tree_okD[OF assms(1)] assms(2-5) in auto)

text \<open>A child that is on no list: a free inode, or one just taken off.\<close>

definition unlisted :: "ramfs \<Rightarrow> nat \<Rightarrow> bool" where
  "unlisted s c \<longleftrightarrow> (\<forall>d. c \<notin> set (i_children (inode_table s d)))"

lemma free_unlisted: "tree_ok s \<Longrightarrow> i_type (inode_table s c) = INODE_FREE \<Longrightarrow> unlisted s c"
  unfolding unlisted_def using tree_okD(3) by blast

lemma tree_ok_add:
  assumes "tree_ok s" "unlisted s c" "2 \<le> c" "i_type (inode_table s c) \<noteq> INODE_FREE"
    and "i_type (inode_table s c) = INODE_FILE \<Longrightarrow> 1 \<le> i_nlink (inode_table s c)"
    and "ramfs_add_child p c s = (s', r)"
  shows "tree_ok s'"
proof (cases r)
  case (Inl e)
  then have "s' = s" using assms(6) by (auto simp: ramfs_add_child_def Let_def split: if_splits)
  then show ?thesis using assms(1) by simp
next
  case (Inr u)
  have dir: "i_type (inode_table s p) = INODE_DIR" and len: "length (i_children (inode_table s p)) < 64"
    and s': "s' = upd_inode c (\<lambda>n. n\<lparr>i_parent := p\<rparr>) (upd_inode p (\<lambda>n. n\<lparr>i_children := i_children n @ [c]\<rparr>) s)"
    using assms(6) Inr by (auto simp: ramfs_add_child_def Let_def kernel_const split: if_splits)
  have ty: "i_type (inode_table s' i) = i_type (inode_table s i)" "i_nlink (inode_table s' i) = i_nlink (inode_table s i)" for i
    by (simp_all add: s')
  have ch: "i_children (inode_table s' d) = (if d = p then i_children (inode_table s p) @ [c] else i_children (inode_table s d))" for d
    by (simp add: s')
  have pa: "i_parent (inode_table s' i) = (if i = c then p else i_parent (inode_table s i))" for i by (simp add: s')
  note D = tree_okD[OF assms(1)]
  show ?thesis
  proof (rule tree_okI)
    show "i_type (inode_table s' 1) = INODE_DIR" using D(1) ty by simp
    show "1 \<le> i \<and> i < 128" if "i_type (inode_table s' i) \<noteq> INODE_FREE" for i using that D(2) ty by simp
    show "distinct (i_children (inode_table s' d)) \<and> length (i_children (inode_table s' d)) \<le> 64" for d
      using D(4,5)[of d] D(4)[of p] len assms(2) by (simp add: ch unlisted_def)
    fix d x assume x: "x \<in> set (i_children (inode_table s' d))"
    show "2 \<le> x \<and> i_type (inode_table s' d) = INODE_DIR \<and> i_type (inode_table s' x) \<noteq> INODE_FREE \<and>
      i_parent (inode_table s' x) = d \<and> (i_type (inode_table s' x) = INODE_FILE \<longrightarrow> 1 \<le> i_nlink (inode_table s' x))"
    proof (cases "x = c")
      case True
      then have "d = p" using x assms(2) by (auto simp: ch unlisted_def split: if_splits)
      then show ?thesis using True assms(3-5) dir by (simp add: ty pa)
    next
      case False
      then have "x \<in> set (i_children (inode_table s d))" using x by (auto simp: ch split: if_splits)
      then show ?thesis using D(3)[of x d] False by (simp add: ty pa)
    qed
  qed
qed

lemma tree_ok_remove:
  assumes "tree_ok s" "ramfs_remove_child p c s = (s', r)"
  shows "tree_ok s'" "\<And>i. i_type (inode_table s' i) = i_type (inode_table s i)"
    "\<And>i. i_nlink (inode_table s' i) = i_nlink (inode_table s i)" "\<And>i. data_ok (inode_table s' i) = data_ok (inode_table s i)"
    "r = Inr () \<Longrightarrow> unlisted s' c" "c \<in> set (i_children (inode_table s p)) \<Longrightarrow> r = Inr ()"
    "\<And>d. i_children (inode_table s' d) = (if d = p then remove1 c (i_children (inode_table s p)) else i_children (inode_table s d))
       \<or> s' = s"
proof -
  note D = tree_okD[OF assms(1)]
  have e: "s' = s \<and> r \<noteq> Inr () \<or> c \<in> set (i_children (inode_table s p)) \<and> r = Inr () \<and>
      s' = upd_inode p (\<lambda>n. n\<lparr>i_children := remove1 c (i_children n)\<rparr>) s"
    using assms(2) by (auto simp: ramfs_remove_child_def Let_def split: if_splits)
  show ty: "i_type (inode_table s' i) = i_type (inode_table s i)" "i_nlink (inode_table s' i) = i_nlink (inode_table s i)"
    "data_ok (inode_table s' i) = data_ok (inode_table s i)" for i
    using e by (cases "i = p"; auto simp: data_ok_def)+
  have pa: "i_parent (inode_table s' i) = i_parent (inode_table s i)" for i using e by auto
  show ch: "i_children (inode_table s' d) = (if d = p then remove1 c (i_children (inode_table s p)) else i_children (inode_table s d))
       \<or> s' = s" for d using e by auto
  have sub: "x \<in> set (i_children (inode_table s' d)) \<Longrightarrow> x \<in> set (i_children (inode_table s d))" for x d
    using e set_remove1_subset[of c "i_children (inode_table s p)"] by (auto split: if_splits)
  show "tree_ok s'"
  proof (rule tree_okI)
    show "distinct (i_children (inode_table s' d)) \<and> length (i_children (inode_table s' d)) \<le> 64" for d
      using D(4,5)[of d] e by (auto simp: length_remove1)
    show "2 \<le> x \<and> i_type (inode_table s' d) = INODE_DIR \<and> i_type (inode_table s' x) \<noteq> INODE_FREE \<and>
      i_parent (inode_table s' x) = d \<and> (i_type (inode_table s' x) = INODE_FILE \<longrightarrow> 1 \<le> i_nlink (inode_table s' x))"
      if "x \<in> set (i_children (inode_table s' d))" for d x
      using D(3)[OF sub[OF that]] by (simp add: ty pa)
  qed (use D(1,2) ty in simp_all)
  show "unlisted s' c" if "r = Inr ()"
    unfolding unlisted_def
  proof (intro allI notI)
    fix d assume x: "c \<in> set (i_children (inode_table s' d))"
    have "c \<in> set (i_children (inode_table s p))" using e that by blast
    then have "d = p" using sub[OF x] D(3) by metis
    then show False using x e that D(4)[of p] by auto
  qed
  show "r = Inr ()" if "c \<in> set (i_children (inode_table s p))"
    using assms(2) that D(3)[OF that] by (auto simp: ramfs_remove_child_def Let_def)
qed

lemma lookup_child_SomeD:
  assumes "tree_ok s" "ramfs_lookup_child s p nm = c" "c \<noteq> 0"
  shows "c \<in> set (i_children (inode_table s p))" "i_name (inode_table s c) = nm"
  using assms by (auto simp: ramfs_lookup_child_def Let_def find_Some_iff split: if_splits option.splits)

section \<open>Every operation keeps the invariant\<close>

lemma tree_ok_free:
  assumes "tree_ok s" "unlisted s c" "i_children (inode_table s c) = []" "c \<noteq> 1"
  shows "tree_ok (ramfs_free_inode c s)"
proof (cases "c = 0 \<or> 128 \<le> c")
  case True
  then show ?thesis using assms(1) by (auto simp: ramfs_free_inode_def kernel_const)
next
  case False
  note D = tree_okD[OF assms(1)]
  have t: "inode_table (ramfs_free_inode c s) i = (if i = c then zero_inode else inode_table s i)" for i
    using False by (simp add: ramfs_free_inode_def kernel_const)
  show ?thesis
  proof (rule tree_okI)
    fix d x assume x: "x \<in> set (i_children (inode_table (ramfs_free_inode c s) d))"
    then have "x \<in> set (i_children (inode_table s d))" "d \<noteq> c" by (auto simp: t zero_inode_def split: if_splits)
    moreover have "x \<noteq> c" using calculation assms(2) by (auto simp: unlisted_def)
    ultimately show "2 \<le> x \<and> i_type (inode_table (ramfs_free_inode c s) d) = INODE_DIR \<and>
       i_type (inode_table (ramfs_free_inode c s) x) \<noteq> INODE_FREE \<and> i_parent (inode_table (ramfs_free_inode c s) x) = d \<and>
       (i_type (inode_table (ramfs_free_inode c s) x) = INODE_FILE \<longrightarrow> 1 \<le> i_nlink (inode_table (ramfs_free_inode c s) x))"
      using D(3)[of x d] by (simp add: t)
  qed (use D assms(4) in \<open>auto simp: t zero_inode_def split: if_splits\<close>)
qed

lemma data_ok_zero [simp]: "data_ok zero_inode" "data_ok (n\<lparr>i_nlink := k\<rparr>) = data_ok n" "data_ok (n\<lparr>i_parent := k\<rparr>) = data_ok n"
  "data_ok (n\<lparr>i_children := cs\<rparr>) = data_ok n" "data_ok (n\<lparr>i_name := nm\<rparr>) = data_ok n" "data_ok (n\<lparr>i_mode := m\<rparr>) = data_ok n"
  "data_ok (n\<lparr>i_type := t\<rparr>) = data_ok n" "data_ok (n\<lparr>i_uid := m\<rparr>) = data_ok n" "data_ok (n\<lparr>i_gid := m\<rparr>) = data_ok n"
  by (simp_all add: data_ok_def zero_inode_def)

lemma ramfs_init_inv: "ramfs_inv ramfs_init"
  unfolding ramfs_inv_def tree_ok_def by (simp add: ramfs_init_def zero_inode_def data_ok_def RAMFS_ROOT_INO_def)

text \<open>A fresh inode of either kind, before it is put on its parent's list.\<close>

lemma alloc_SomeD:
  assumes "ramfs_alloc_inode s = (s', idx)" "idx \<noteq> 0"
  shows "2 \<le> idx" "idx < 128" "i_type (inode_table s idx) = INODE_FREE"
    "s' = upd_inode idx (\<lambda>_. zero_inode\<lparr>i_nlink := 1\<rparr>) s"
  using assms by (auto simp: ramfs_alloc_inode_def kernel_const simp del: upt_rec_numeral dest: find_upt_SomeD split: option.splits)

lemma alloc_none: "ramfs_alloc_inode s = (s', 0) \<Longrightarrow> s' = s"
  by (auto simp: ramfs_alloc_inode_def kernel_const simp del: upt_rec_numeral dest: find_upt_SomeD(1) split: option.splits)

lemma tree_ok_fresh:
  assumes "tree_ok s" "i_type (inode_table s c) = INODE_FREE" "2 \<le> c" "c < 128"
    and "i_children n = []" "i_type n \<noteq> INODE_FREE"
  shows "tree_ok (upd_inode c (\<lambda>_. n) s)" "unlisted (upd_inode c (\<lambda>_. n) s) c"
proof -
  have u: "unlisted s c" by (rule free_unlisted[OF assms(1,2)])
  note D = tree_okD[OF assms(1)]
  have e: "inode_table (upd_inode c (\<lambda>_. n) s) i = (if i = c then n else inode_table s i)" for i by simp
  show "unlisted (upd_inode c (\<lambda>_. n) s) c" using u assms(5) by (simp add: unlisted_def)
  show "tree_ok (upd_inode c (\<lambda>_. n) s)"
  proof (rule tree_okI)
    fix d x assume "x \<in> set (i_children (inode_table (upd_inode c (\<lambda>_. n) s) d))"
    then have x: "x \<in> set (i_children (inode_table s d))" "d \<noteq> c" using assms(5) by (auto split: if_splits)
    moreover have "x \<noteq> c" using x u by (auto simp: unlisted_def)
    ultimately show "2 \<le> x \<and> i_type (inode_table (upd_inode c (\<lambda>_. n) s) d) = INODE_DIR \<and>
       i_type (inode_table (upd_inode c (\<lambda>_. n) s) x) \<noteq> INODE_FREE \<and> i_parent (inode_table (upd_inode c (\<lambda>_. n) s) x) = d \<and>
       (i_type (inode_table (upd_inode c (\<lambda>_. n) s) x) = INODE_FILE \<longrightarrow> 1 \<le> i_nlink (inode_table (upd_inode c (\<lambda>_. n) s) x))"
      using D(3)[of x d] by simp
  qed (use D assms(3-6) in \<open>auto split: if_splits\<close>)
qed

lemma add_child_data: "ramfs_add_child p c s = (s', r) \<Longrightarrow> data_ok (inode_table s' i) = data_ok (inode_table s i)"
  by (auto simp: ramfs_add_child_def Let_def split: if_splits)

lemma free_data: "data_ok (inode_table s i) \<Longrightarrow> data_ok (inode_table (ramfs_free_inode c s) i)"
  by (simp add: ramfs_free_inode_def)

lemma create_common:
  assumes "ramfs_inv s" "ramfs_alloc_inode s = (s1, idx)" "idx \<noteq> 0"
    and "n = (zero_inode\<lparr>i_nlink := 1\<rparr>)\<lparr>i_type := t, i_mode := m, i_nlink := k, i_name := nm\<rparr>" "t \<noteq> INODE_FREE" "1 \<le> k"
    and "ramfs_add_child p idx (upd_inode idx (\<lambda>_. n) s1) = (s2, r)"
  shows "ramfs_inv s2" "r = Inl e \<Longrightarrow> ramfs_inv (ramfs_free_inode idx s2)"
proof -
  note al = alloc_SomeD[OF assms(2,3)]
  have inv: "tree_ok s" "\<And>i. data_ok (inode_table s i)" using assms(1) by (simp_all add: ramfs_inv_def)
  have u: "upd_inode idx (\<lambda>_. n) s1 = upd_inode idx (\<lambda>_. n) s" by (simp add: al(4) upd_inode_def)
  have n: "i_children n = []" "i_type n \<noteq> INODE_FREE" "data_ok n" "i_nlink n = k"
    using assms(4,5) by (simp_all add: zero_inode_def data_ok_def)
  note f = tree_ok_fresh[OF inv(1) al(3,1,2) n(1,2)]
  have t2: "tree_ok s2"
    by (rule tree_ok_add[OF f al(1) _ _ assms(7)[unfolded u]]) (use n assms(6) in auto)
  have d2: "data_ok (inode_table s2 i)" for i
    using add_child_data[OF assms(7)[unfolded u]] inv(2) n(3) by simp
  show "ramfs_inv s2" using t2 d2 by (simp add: ramfs_inv_def)
  assume "r = Inl e"
  then have "s2 = upd_inode idx (\<lambda>_. n) s"
    using assms(7)[unfolded u] by (auto simp: ramfs_add_child_def Let_def split: if_splits)
  then have "tree_ok (ramfs_free_inode idx s2)" using tree_ok_free[OF t2] f(2) n(1) al(1) by simp
  then show "ramfs_inv (ramfs_free_inode idx s2)" using free_data d2 by (simp add: ramfs_inv_def)
qed

lemma nlink_inv: "ramfs_inv s \<Longrightarrow> i_type (inode_table s p) = INODE_DIR \<Longrightarrow> ramfs_inv (upd_inode p (\<lambda>n. n\<lparr>i_nlink := f n\<rparr>) s)"
  unfolding ramfs_inv_def by (auto intro!: tree_ok_cong[of s])

lemma create_file_inv: "ramfs_inv s \<Longrightarrow> ramfs_create_file p nm m s = (s', r) \<Longrightarrow> ramfs_inv s'"
proof -
  assume i: "ramfs_inv s" and c: "ramfs_create_file p nm m s = (s', r)"
  obtain s1 idx where al: "ramfs_alloc_inode s = (s1, idx)" by fastforce
  define n where "n = (zero_inode\<lparr>i_nlink := 1\<rparr>)\<lparr>i_type := INODE_FILE, i_mode := m AND 0x1FF, i_nlink := 1, i_name := take 63 nm\<rparr>"
  obtain s2 r2 where ad: "ramfs_add_child p idx (upd_inode idx (\<lambda>_. n) s1) = (s2, r2)" by fastforce
  show ?thesis
  proof (cases "i_type (inode_table s p) = INODE_DIR \<and> idx \<noteq> 0")
    case True
    then have "upd_inode idx (\<lambda>x. x\<lparr>i_type := INODE_FILE, i_mode := m AND 0x1FF, i_nlink := 1, i_name := take 63 nm\<rparr>) s1
        = upd_inode idx (\<lambda>_. n) s1" using alloc_SomeD(4)[OF al] by (simp add: upd_inode_def n_def)
    then have "s' = (case r2 of Inl e \<Rightarrow> ramfs_free_inode idx s2 | Inr _ \<Rightarrow> s2)"
      using c al ad True by (auto simp: ramfs_create_file_def Let_def kernel_const split: sum.splits)
    then show ?thesis using create_common[OF i al _ n_def _ _ ad] True by (auto split: sum.splits)
  next
    case False
    then show ?thesis using i c al alloc_none[of s s1] by (auto simp: ramfs_create_file_def split: if_splits)
  qed
qed

lemma create_dir_inv: "ramfs_inv s \<Longrightarrow> ramfs_create_dir p nm m s = (s', r) \<Longrightarrow> ramfs_inv s'"
proof -
  assume i: "ramfs_inv s" and c: "ramfs_create_dir p nm m s = (s', r)"
  obtain s1 idx where al: "ramfs_alloc_inode s = (s1, idx)" by fastforce
  define n where "n = (zero_inode\<lparr>i_nlink := 1\<rparr>)\<lparr>i_type := INODE_DIR, i_mode := m AND 0x1FF, i_nlink := 2, i_name := take 63 nm\<rparr>"
  obtain s2 r2 where ad: "ramfs_add_child p idx (upd_inode idx (\<lambda>_. n) s1) = (s2, r2)" by fastforce
  show ?thesis
  proof (cases "i_type (inode_table s p) = INODE_DIR \<and> ramfs_lookup_child s p nm = 0 \<and> idx \<noteq> 0")
    case True
    then have e: "upd_inode idx (\<lambda>x. x\<lparr>i_type := INODE_DIR, i_mode := m AND 0x1FF, i_nlink := 2, i_name := take 63 nm\<rparr>) s1
        = upd_inode idx (\<lambda>_. n) s1" using alloc_SomeD(4)[OF al] by (simp add: upd_inode_def n_def)
    then have s': "s' = (case r2 of Inl e \<Rightarrow> ramfs_free_inode idx s2
        | Inr _ \<Rightarrow> upd_inode p (\<lambda>n. n\<lparr>i_nlink := i_nlink n + 1\<rparr>) s2)"
      using c al ad True by (auto simp: ramfs_create_dir_def Let_def kernel_const split: sum.splits)
    have cc: "ramfs_inv s2" "\<And>e. r2 = Inl e \<Longrightarrow> ramfs_inv (ramfs_free_inode idx s2)"
      using create_common[OF i al _ n_def _ _ ad] True by auto
    have "i_type (inode_table s2 p) = INODE_DIR" if "r2 = Inr u" for u
      using ad that by (auto simp: ramfs_add_child_def Let_def split: if_splits)
    then show ?thesis using s' cc nlink_inv[of s2 p "\<lambda>n. i_nlink n + 1"] by (auto split: sum.splits)
  next
    case False
    then show ?thesis using i c al alloc_none[of s s1] by (auto simp: ramfs_create_dir_def split: if_splits)
  qed
qed

lemma unlink_inv: "ramfs_inv s \<Longrightarrow> ramfs_op_unlink p nm s = (s', r) \<Longrightarrow> ramfs_inv s'"
proof -
  assume i: "ramfs_inv s" and c: "ramfs_op_unlink p nm s = (s', r)"
  have inv: "tree_ok s" "\<And>i. data_ok (inode_table s i)" using i by (simp_all add: ramfs_inv_def)
  define idx where "idx = ramfs_lookup_child s p nm"
  obtain s1 r1 where rm: "ramfs_remove_child p idx s = (s1, r1)" by fastforce
  note R = tree_ok_remove[OF inv(1) rm]
  show ?thesis
  proof (cases "idx = 0 \<or> i_type (inode_table s idx) = INODE_DIR")
    case True
    then show ?thesis using i c by (auto simp: ramfs_op_unlink_def Let_def idx_def[symmetric] ramfs_get_inode_def split: if_splits)
  next
    case False
    have ch: "idx \<in> set (i_children (inode_table s p))" using lookup_child_SomeD(1)[OF inv(1)] False idx_def by blast
    have r1: "r1 = Inr ()" by (rule R(6)[OF ch])
    have fl: "i_type (inode_table s idx) = INODE_FILE" "1 \<le> i_nlink (inode_table s idx)" "2 \<le> idx"
      using tree_okD(3)[OF inv(1) ch] False by (cases "i_type (inode_table s idx)"; simp)+
    have pos: "0 < i_nlink (inode_table s1 idx)" using fl R(3) by simp
    define s2 where "s2 = upd_inode idx (\<lambda>n. n\<lparr>i_nlink := i_nlink n - 1\<rparr>) s1"
    have s': "s' = (if i_nlink (inode_table s2 idx) = 0 \<and> inode_open_count s2 idx = 0 then ramfs_free_inode idx s2 else s2)"
      using c False rm pos by (auto simp: ramfs_op_unlink_def Let_def idx_def[symmetric] ramfs_get_inode_def
          ramfs_get_open_count_def s2_def split: if_splits)
    have u: "unlisted s2 idx" using R(5)[OF r1] by (simp add: unlisted_def s2_def)
    have t2: "tree_ok s2"
    proof (rule tree_okI)
      fix d x assume "x \<in> set (i_children (inode_table s2 d))"
      then have x: "x \<in> set (i_children (inode_table s1 d))" by (simp add: s2_def split: if_splits)
      then have "x \<noteq> idx" using R(5)[OF r1] by (auto simp: unlisted_def)
      then show "2 \<le> x \<and> i_type (inode_table s2 d) = INODE_DIR \<and> i_type (inode_table s2 x) \<noteq> INODE_FREE \<and>
         i_parent (inode_table s2 x) = d \<and> (i_type (inode_table s2 x) = INODE_FILE \<longrightarrow> 1 \<le> i_nlink (inode_table s2 x))"
        using tree_okD(3)[OF R(1) x] by (auto simp: s2_def)
    qed (use tree_okD[OF R(1)] in \<open>auto simp: s2_def split: if_splits\<close>)
    have d2: "data_ok (inode_table s2 j)" for j using R(4) inv(2) by (simp add: s2_def)
    have "i_children (inode_table s2 idx) = []"
    proof (rule ccontr)
      assume "i_children (inode_table s2 idx) \<noteq> []"
      then obtain x where "x \<in> set (i_children (inode_table s2 idx))" by (cases "i_children (inode_table s2 idx)") auto
      then have "i_type (inode_table s2 idx) = INODE_DIR" using tree_okD(3)[OF t2] by blast
      then show False using R(2)[of idx] fl(1) by (simp add: s2_def)
    qed
    then have "tree_ok (ramfs_free_inode idx s2)" using tree_ok_free[OF t2 u] fl(3) by simp
    then show ?thesis using s' t2 d2 free_data by (simp add: ramfs_inv_def)
  qed
qed

lemma rmdir_inv: "ramfs_inv s \<Longrightarrow> ramfs_op_rmdir p nm s = (s', r) \<Longrightarrow> ramfs_inv s'"
proof -
  assume i: "ramfs_inv s" and c: "ramfs_op_rmdir p nm s = (s', r)"
  have inv: "tree_ok s" "\<And>i. data_ok (inode_table s i)" using i by (simp_all add: ramfs_inv_def)
  define idx where "idx = ramfs_lookup_child s p nm"
  obtain s1 r1 where rm: "ramfs_remove_child p idx s = (s1, r1)" by fastforce
  note R = tree_ok_remove[OF inv(1) rm]
  show ?thesis
  proof (cases "idx \<noteq> 0 \<and> i_type (inode_table s idx) = INODE_DIR \<and> i_children (inode_table s idx) = []")
    case False
    then show ?thesis using i c
      by (auto simp: ramfs_op_rmdir_def Let_def idx_def[symmetric] ramfs_get_inode_def split: if_splits)
  next
    case True
    have ch: "idx \<in> set (i_children (inode_table s p))" using lookup_child_SomeD(1)[OF inv(1)] True idx_def by blast
    have pd: "i_type (inode_table s p) = INODE_DIR" "2 \<le> idx" using tree_okD(3)[OF inv(1) ch] by simp_all
    have r1: "r1 = Inr ()" by (rule R(6)[OF ch])
    have pid: "p \<noteq> idx" using True ch by auto
    define s2 where "s2 = (if 0 < i_nlink (inode_table s1 p) then upd_inode p (\<lambda>n. n\<lparr>i_nlink := i_nlink n - 1\<rparr>) s1 else s1)"
    have s': "s' = ramfs_free_inode idx s2"
      using c True rm by (simp add: ramfs_op_rmdir_def Let_def idx_def[symmetric] ramfs_get_inode_def s2_def)
    have i1: "ramfs_inv s1" using R(1,4) inv(2) by (simp add: ramfs_inv_def)
    have i2: "ramfs_inv s2" using i1 nlink_inv[OF i1] R(2) pd(1) by (simp add: s2_def)
    have u: "unlisted s2 idx" using R(5)[OF r1] by (auto simp: unlisted_def s2_def)
    have "i_children (inode_table s2 idx) = []" using R(7)[of idx] True pid by (auto simp: s2_def)
    then have "tree_ok (ramfs_free_inode idx s2)"
      using tree_ok_free[OF _ u] i2 pd(2) by (simp add: ramfs_inv_def)
    then show ?thesis using s' i2 free_data by (simp add: ramfs_inv_def)
  qed
qed

lemma set_name_frame:
  "ramfs_set_name c nm s = (s', r) \<Longrightarrow> i_type (inode_table s' i) = i_type (inode_table s i) \<and>
     i_children (inode_table s' i) = i_children (inode_table s i) \<and> i_parent (inode_table s' i) = i_parent (inode_table s i) \<and>
     i_nlink (inode_table s' i) = i_nlink (inode_table s i) \<and> data_ok (inode_table s' i) = data_ok (inode_table s i)"
  by (auto simp: ramfs_set_name_def split: if_splits)

lemma rename_inv: "ramfs_inv s \<Longrightarrow> ramfs_op_rename p nm q nm' s = (s', r) \<Longrightarrow> ramfs_inv s'"
proof -
  assume i: "ramfs_inv s" and c: "ramfs_op_rename p nm q nm' s = (s', r)"
  have inv: "tree_ok s" "\<And>i. data_ok (inode_table s i)" using i by (simp_all add: ramfs_inv_def)
  define idx where "idx = ramfs_lookup_child s p nm"
  obtain s1 r1 where rm: "ramfs_remove_child p idx s = (s1, r1)" by fastforce
  note R = tree_ok_remove[OF inv(1) rm]
  show ?thesis
  proof (cases "idx = 0")
    case True
    then show ?thesis using i c by (simp add: ramfs_op_rename_def Let_def idx_def[symmetric])
  next
    case False
    have ch: "idx \<in> set (i_children (inode_table s p))" using lookup_child_SomeD(1)[OF inv(1)] False idx_def by blast
    note r1 = R(6)[OF ch]
    obtain s2 r2 where sn: "ramfs_set_name idx nm' s1 = (s2, r2)" by fastforce
    note N = set_name_frame[OF sn]
    have t2: "tree_ok s2" by (rule tree_ok_cong[OF R(1)]) (use N in simp_all)
    have u2: "unlisted s2 idx" using R(5)[OF r1] N by (simp add: unlisted_def)
    have l2: "2 \<le> idx" "i_type (inode_table s2 idx) \<noteq> INODE_FREE"
      "i_type (inode_table s2 idx) = INODE_FILE \<Longrightarrow> 1 \<le> i_nlink (inode_table s2 idx)"
      using tree_okD(3)[OF inv(1) ch] N R(2,3) by simp_all
    obtain s3 r3 where ad: "ramfs_add_child q idx s2 = (s3, r3)" by fastforce
    obtain s4 r4 where ro: "ramfs_add_child p idx s3 = (s4, r4)" by fastforce
    have s': "s' = (case r3 of Inl _ \<Rightarrow> s4 | Inr _ \<Rightarrow> s3)"
      using c False rm r1 sn ad ro by (auto simp: ramfs_op_rename_def Let_def idx_def[symmetric] split: sum.splits)
    have t3: "tree_ok s3" by (rule tree_ok_add[OF t2 u2 l2 ad])
    have t4: "tree_ok s4" if "r3 = Inl e" for e
    proof -
      have "s3 = s2" using ad that by (auto simp: ramfs_add_child_def Let_def split: if_splits)
      then show ?thesis using tree_ok_add[OF t2 u2 l2] ro by simp
    qed
    have "data_ok (inode_table s3 j)" "data_ok (inode_table s4 j)" for j
      using add_child_data[OF ad] add_child_data[OF ro] N R(4) inv(2) by simp_all
    then show ?thesis using s' t3 t4 by (auto simp: ramfs_inv_def split: sum.splits)
  qed
qed

lemma data_inv:
  assumes "ramfs_inv s" "data_ok n"
    and "i_type n = i_type (inode_table s i)" "i_children n = i_children (inode_table s i)"
    "i_parent n = i_parent (inode_table s i)" "i_nlink n = i_nlink (inode_table s i)"
  shows "ramfs_inv (upd_inode i (\<lambda>_. n) s)"
  using assms unfolding ramfs_inv_def by (auto intro!: tree_ok_cong[of s])

lemma write_inv: "ramfs_inv s \<Longrightarrow> ramfs_write_data mem idx buf off s = (s', r) \<Longrightarrow> ramfs_inv s'"
proof -
  assume i: "ramfs_inv s" and c: "ramfs_write_data mem idx buf off s = (s', r)"
  let ?i = "inode_table s idx" and ?o = "unat off"
  let ?e = "?o + length buf"
  let ?cap = "if RAMFS_MAX_FILE_SIZE < round_block ?e then RAMFS_MAX_FILE_SIZE else round_block ?e"
  have ok: "data_ok ?i" using i by (simp add: ramfs_inv_def)
  show ?thesis
  proof (cases r)
    case (Inl e)
    then show ?thesis using i c by (auto simp: ramfs_write_data_def Let_def split: if_splits)
  next
    case (Inr n)
    define i1 where "i1 = (if i_capacity ?i < ?e then grow ?cap (i_size ?i) ?i else ?i)"
    define i2 where "i2 = i1\<lparr>i_data := map_option (\<lambda>d. copy_into d ?o buf) (i_data i1)\<rparr>"
    define i3 where "i3 = (if i_size i2 < ?e then i2\<lparr>i_size := ?e\<rparr> else i2)"
    have max: "?e \<le> RAMFS_MAX_FILE_SIZE" and s': "s' = upd_inode idx (\<lambda>_. i3) s"
      using c Inr by (auto simp: ramfs_write_data_def Let_def i1_def i2_def i3_def split: if_splits)
    have cap: "?e \<le> ?cap" "?cap \<le> RAMFS_MAX_FILE_SIZE" using round_block_le[of ?e] max by auto
    have "i_capacity ?i \<le> ?cap" if "i_capacity ?i < ?e" using that cap(1) by linarith
    then have g: "data_ok i1" "?e \<le> i_capacity i1" using grow_spec[OF ok _ cap(2)] ok cap(1) by (auto simp: i1_def)
    have "i_type i1 = i_type ?i" "i_children i1 = i_children ?i" "i_parent i1 = i_parent ?i" "i_nlink i1 = i_nlink ?i"
      by (simp_all add: i1_def grow_def)
    moreover have "data_ok i3" using g by (auto simp: i3_def i2_def data_ok_def)
    ultimately show ?thesis unfolding s' by (intro data_inv[OF i]) (simp_all add: i3_def i2_def)
  qed
qed

lemma truncate_inv: "ramfs_inv s \<Longrightarrow> ramfs_truncate_inode mem idx len s = (s', r) \<Longrightarrow> ramfs_inv s'"
proof -
  assume i: "ramfs_inv s" and c: "ramfs_truncate_inode mem idx len s = (s', r)"
  let ?i = "inode_table s idx" and ?n = "unat len"
  have ok: "data_ok ?i" using i by (simp add: ramfs_inv_def)
  show ?thesis
  proof (cases r)
    case (Inl e)
    then show ?thesis using i c by (auto simp: ramfs_truncate_inode_def Let_def split: if_splits)
  next
    case (Inr u)
    let ?k = "if i_size ?i < ?n then i_size ?i else ?n"
    define i1 where "i1 = (if i_capacity ?i < ?n then grow (round_block ?n) ?k ?i else ?i)\<lparr>i_size := ?n\<rparr>"
    have max: "?n \<le> RAMFS_MAX_FILE_SIZE" and s': "s' = upd_inode idx (\<lambda>_. i1) s"
      using c Inr by (auto simp: ramfs_truncate_inode_def Let_def i1_def split: if_splits)
    have "data_ok i1" using ok max round_block_le[of ?n] round_block_max[OF max] by (auto simp: i1_def data_ok_def grow_def)
    then show ?thesis unfolding s' by (intro data_inv[OF i]) (simp_all add: i1_def grow_def)
  qed
qed

section \<open>Reachable file systems\<close>

text \<open>
  What the last close of an open file does to its inode (\<open>__vfs_close_locked\<close>): the open count
  goes down, and when it reaches 0 an inode whose \<open>stat\<close> reports link count 0 is released,
  whatever its type.
\<close>

definition ramfs_last_close :: "nat \<Rightarrow> ramfs \<Rightarrow> ramfs" where
  "ramfs_last_close idx s =
     (let s = ramfs_dec_open_count idx s
      in if ramfs_get_open_count s idx = 0 then
           (case ramfs_fill_stat s idx of
              None \<Rightarrow> s
            | Some st \<Rightarrow> if st_nlink st = 0 then ramfs_free_inode idx s else s)
         else s)"

text \<open>
  One call of the VFS into the file system, with the inode a close is about as its label.
\<close>

datatype ramfs_event = Call | Close nat

inductive ramfs_step :: "ramfs \<Rightarrow> ramfs_event \<Rightarrow> ramfs \<Rightarrow> bool" where
  step_write: "ramfs_write_data mem idx buf off s = (s', r) \<Longrightarrow> ramfs_step s Call s'"
| step_truncate: "ramfs_truncate_inode mem idx len s = (s', r) \<Longrightarrow> ramfs_step s Call s'"
| step_create: "ramfs_create_file p nm m s = (s', r) \<Longrightarrow> ramfs_step s Call s'"
| step_mkdir: "ramfs_create_dir p nm m s = (s', r) \<Longrightarrow> ramfs_step s Call s'"
| step_unlink: "ramfs_op_unlink p nm s = (s', r) \<Longrightarrow> ramfs_step s Call s'"
| step_rmdir: "ramfs_op_rmdir p nm s = (s', r) \<Longrightarrow> ramfs_step s Call s'"
| step_rename: "ramfs_op_rename p nm q nm' s = (s', r) \<Longrightarrow> ramfs_step s Call s'"
| step_chmod: "ramfs_set_mode idx m s = (s', r) \<Longrightarrow> ramfs_step s Call s'"
| step_chown: "ramfs_set_owner idx u g s = (s', r) \<Longrightarrow> ramfs_step s Call s'"
| step_open: "ramfs_step s Call (ramfs_inc_open_count idx s)"
| step_close: "ramfs_step s (Close idx) (ramfs_last_close idx s)"

text \<open>
  The closes that break the tree: those of a directory whose reported link count has drifted
  to 0.  \<open>ramfs_reach\<close> are the states of the runs without one.
\<close>

definition closes_dead_dir :: "ramfs \<Rightarrow> ramfs_event \<Rightarrow> bool" where
  "closes_dead_dir s e = (case e of Call \<Rightarrow> False
     | Close idx \<Rightarrow> i_type (inode_table s idx) = INODE_DIR \<and> (of_nat (i_nlink (inode_table s idx)) :: u16) = 0)"

inductive ramfs_reach :: "ramfs \<Rightarrow> bool" where
  reach_init: "ramfs_reach ramfs_init"
| reach_step: "ramfs_reach s \<Longrightarrow> ramfs_step s e s' \<Longrightarrow> \<not> closes_dead_dir s e \<Longrightarrow> ramfs_reach s'"

text \<open>No file has more than one link: there are no hard links.\<close>

definition file_links :: "ramfs \<Rightarrow> bool" where
  "file_links s \<longleftrightarrow> (\<forall>i. i_type (inode_table s i) = INODE_FILE \<longrightarrow> i_nlink (inode_table s i) \<le> 1)"

lemma chmod_inv: "ramfs_inv s \<Longrightarrow> ramfs_set_mode idx m s = (s', r) \<Longrightarrow> ramfs_inv s'"
  unfolding ramfs_inv_def by (auto simp: ramfs_set_mode_def intro!: tree_ok_cong[of s] split: if_splits)

lemma chown_inv: "ramfs_inv s \<Longrightarrow> ramfs_set_owner idx u g s = (s', r) \<Longrightarrow> ramfs_inv s'"
  unfolding ramfs_inv_def by (auto simp: ramfs_set_owner_def Let_def intro!: tree_ok_cong[of s] split: if_splits)

lemma open_count_inv:
  "ramfs_inv s \<Longrightarrow> ramfs_inv (ramfs_inc_open_count idx s)" "ramfs_inv s \<Longrightarrow> ramfs_inv (ramfs_dec_open_count idx s)"
  by (simp_all add: ramfs_inv_def tree_ok_def ramfs_inc_open_count_def ramfs_dec_open_count_def)

lemma release_inv:
  assumes "ramfs_inv s" "i_type (inode_table s idx) = INODE_FILE" "i_nlink (inode_table s idx) = 0"
  shows "ramfs_inv (ramfs_free_inode idx s)"
proof -
  have t: "tree_ok s" using assms(1) by (simp add: ramfs_inv_def)
  have u: "unlisted s idx" unfolding unlisted_def using tree_okD(3)[OF t] assms(2,3) by fastforce
  have "i_children (inode_table s idx) = []"
    using tree_okD(3)[OF t, of _ idx] assms(2) by (cases "i_children (inode_table s idx)") auto
  moreover have "idx \<noteq> 1" using tree_okD(1)[OF t] assms(2) by auto
  ultimately show ?thesis using tree_ok_free[OF t u] free_data assms(1) by (simp add: ramfs_inv_def)
qed

lemma fill_stat_nlink:
  "ramfs_fill_stat s idx = Some st \<Longrightarrow>
     i_type (inode_table s idx) \<noteq> INODE_FREE \<and> st_nlink st = of_nat (i_nlink (inode_table s idx))"
  by (auto simp: ramfs_fill_stat_def Let_def split: if_splits)

lemma last_close_cases:
  obtains "ramfs_last_close idx s = ramfs_dec_open_count idx s"
  | "ramfs_last_close idx s = ramfs_free_inode idx (ramfs_dec_open_count idx s)"
    "i_type (inode_table s idx) \<noteq> INODE_FREE" "(of_nat (i_nlink (inode_table s idx)) :: u16) = 0"
proof (cases "ramfs_last_close idx s = ramfs_dec_open_count idx s")
  case False
  let ?s = "ramfs_dec_open_count idx s"
  obtain st where st: "ramfs_fill_stat ?s idx = Some st" "st_nlink st = 0" "ramfs_last_close idx s = ramfs_free_inode idx ?s"
    using False by (auto simp: ramfs_last_close_def Let_def split: option.splits if_splits)
  have "inode_table ?s = inode_table s" by (simp add: ramfs_dec_open_count_def)
  with st fill_stat_nlink[OF st(1)] that(2) show ?thesis by simp
qed (rule that(1))

lemma file_links_upd:
  "file_links s \<Longrightarrow> (i_type (f (inode_table s k)) = INODE_FILE \<Longrightarrow> i_nlink (f (inode_table s k)) \<le> 1) \<Longrightarrow>
     file_links (upd_inode k f s)"
  by (auto simp: file_links_def upd_inode_def)

lemma file_links_same:
  "file_links s \<Longrightarrow> i_type (f (inode_table s k)) = i_type (inode_table s k) \<Longrightarrow>
     i_nlink (f (inode_table s k)) \<le> i_nlink (inode_table s k) \<Longrightarrow> file_links (upd_inode k f s)"
  by (rule file_links_upd) (auto simp: file_links_def intro: le_trans)

lemma file_links_init: "file_links ramfs_init"
  by (simp add: file_links_def ramfs_init_def zero_inode_def kernel_const)

lemma file_links_count:
  "file_links (ramfs_inc_open_count idx s) = file_links s" "file_links (ramfs_dec_open_count idx s) = file_links s"
  by (simp_all add: file_links_def ramfs_inc_open_count_def ramfs_dec_open_count_def)

lemma file_links_free: "file_links s \<Longrightarrow> file_links (ramfs_free_inode idx s)"
  by (auto simp: file_links_def ramfs_free_inode_def upd_inode_def zero_inode_def)

lemma file_links_add: "file_links s \<Longrightarrow> file_links (fst (ramfs_add_child p c s))"
  by (auto simp: ramfs_add_child_def Let_def intro!: file_links_same)

lemma file_links_remove: "file_links s \<Longrightarrow> file_links (fst (ramfs_remove_child p c s))"
  by (auto simp: ramfs_remove_child_def Let_def intro!: file_links_same)

lemma file_links_name: "file_links s \<Longrightarrow> file_links (fst (ramfs_set_name idx nm s))"
  by (auto simp: ramfs_set_name_def intro!: file_links_same)

lemma file_links_alloc: "file_links s \<Longrightarrow> file_links (fst (ramfs_alloc_inode s))"
  by (auto simp: ramfs_alloc_inode_def zero_inode_def intro!: file_links_upd split: option.splits)

lemma file_links_write:
  "file_links s \<Longrightarrow> file_links (fst (ramfs_write_data mem idx buf off s))"
  "file_links s \<Longrightarrow> file_links (fst (ramfs_truncate_inode mem idx len s))"
  by (auto simp: ramfs_write_data_def ramfs_truncate_inode_def Let_def grow_def intro!: file_links_same)

lemma file_links_attr:
  "file_links s \<Longrightarrow> file_links (fst (ramfs_set_mode idx m s))"
  "file_links s \<Longrightarrow> file_links (fst (ramfs_set_owner idx u g s))"
  by (auto simp: ramfs_set_mode_def ramfs_set_owner_def Let_def intro!: file_links_same)

lemma file_links_create:
  assumes "file_links s"
  shows "file_links (fst (ramfs_create_file p nm m s))"
proof -
  obtain s1 idx where a: "ramfs_alloc_inode s = (s1, idx)" by fastforce
  let ?s = "upd_inode idx (\<lambda>n. n\<lparr>i_type := INODE_FILE, i_mode := m AND 0x1FF, i_nlink := 1,
    i_name := take (RAMFS_MAX_NAME - 1) nm\<rparr>) s1"
  have "file_links ?s" using file_links_alloc[OF assms] a by (auto intro: file_links_upd)
  from file_links_add[OF this, of p idx] show ?thesis
    using a file_links_alloc[OF assms] assms
    by (auto simp: ramfs_create_file_def Let_def intro: file_links_free split: prod.splits sum.splits)
qed

lemma add_child_dir: "ramfs_add_child p c s = (s', Inr u) \<Longrightarrow> i_type (inode_table s' p) = INODE_DIR"
  by (auto simp: ramfs_add_child_def Let_def upd_inode_def split: if_splits)

lemma file_links_mkdir:
  assumes "file_links s"
  shows "file_links (fst (ramfs_create_dir p nm m s))"
proof -
  obtain s1 idx where a: "ramfs_alloc_inode s = (s1, idx)" by fastforce
  let ?s = "upd_inode idx (\<lambda>n. n\<lparr>i_type := INODE_DIR, i_mode := m AND 0x1FF, i_nlink := 2,
    i_name := take (RAMFS_MAX_NAME - 1) nm\<rparr>) s1"
  have "file_links ?s" using file_links_alloc[OF assms] a by (auto intro: file_links_upd)
  from file_links_add[OF this, of p idx] add_child_dir[of p idx ?s] show ?thesis
    using a file_links_alloc[OF assms] assms
    by (auto simp: ramfs_create_dir_def Let_def intro: file_links_free intro!: file_links_upd split: prod.splits sum.splits)
qed

lemma file_links_unlink:
  assumes "file_links s"
  shows "file_links (fst (ramfs_op_unlink p nm s))"
  using file_links_remove[OF assms]
  by (auto simp: ramfs_op_unlink_def ramfs_get_inode_def Let_def assms intro!: file_links_free file_links_same)

lemma file_links_rmdir:
  assumes "file_links s"
  shows "file_links (fst (ramfs_op_rmdir p nm s))"
  using file_links_remove[OF assms]
  by (auto simp: ramfs_op_rmdir_def ramfs_get_inode_def Let_def assms intro!: file_links_free file_links_same)

lemma file_links_rename:
  assumes "file_links s"
  shows "file_links (fst (ramfs_op_rename p nm q nm' s))"
proof -
  let ?i = "ramfs_lookup_child s p nm"
  let ?s = "fst (ramfs_set_name ?i nm' (fst (ramfs_remove_child p ?i s)))"
  have r: "file_links (fst (ramfs_remove_child p ?i s))" by (rule file_links_remove[OF assms])
  have n: "file_links (fst (ramfs_add_child q ?i ?s))" by (rule file_links_add[OF file_links_name[OF r]])
  from r n file_links_add[OF n, of p ?i] show ?thesis
    using assms by (auto simp: ramfs_op_rename_def Let_def split: prod.splits sum.splits)
qed

lemma file_links_last_close: "file_links s \<Longrightarrow> file_links (ramfs_last_close idx s)"
  by (cases rule: last_close_cases[of idx s]) (simp_all add: file_links_count file_links_free)

lemmas file_links_op = file_links_write file_links_attr file_links_create file_links_mkdir file_links_unlink
  file_links_rmdir file_links_rename

lemma file_links_step: "ramfs_step s e s' \<Longrightarrow> file_links s \<Longrightarrow> file_links s'"
  by (induction rule: ramfs_step.induct)
    (metis file_links_op fst_conv | simp add: file_links_count file_links_last_close)+

lemma last_close_inv:
  assumes "ramfs_inv s" "file_links s" "\<not> closes_dead_dir s (Close idx)"
  shows "ramfs_inv (ramfs_last_close idx s)"
proof (cases rule: last_close_cases[of idx s])
  case 1
  then show ?thesis using open_count_inv(2)[OF assms(1)] by simp
next
  case 2
  let ?s = "ramfs_dec_open_count idx s"
  have t: "inode_table ?s = inode_table s" by (simp add: ramfs_dec_open_count_def)
  have f: "i_type (inode_table s idx) = INODE_FILE"
    using 2 assms(3) by (cases "i_type (inode_table s idx)") (auto simp: closes_dead_dir_def)
  then have "i_nlink (inode_table s idx) = 0"
    using 2(3) assms(2) le_Suc_eq[of "i_nlink (inode_table s idx)" 0] by (auto simp: file_links_def)
  then show ?thesis using release_inv[OF open_count_inv(2)[OF assms(1)], of idx idx] f 2(1) t by simp
qed

lemmas ramfs_op_inv = write_inv truncate_inv create_file_inv create_dir_inv unlink_inv rmdir_inv rename_inv
  chmod_inv chown_inv open_count_inv last_close_inv

lemma ramfs_step_inv:
  "ramfs_step s e s' \<Longrightarrow> ramfs_inv s \<Longrightarrow> file_links s \<Longrightarrow> \<not> closes_dead_dir s e \<Longrightarrow> ramfs_inv s'"
  by (induction rule: ramfs_step.induct) (blast intro: ramfs_op_inv)+

lemma reach_inv: "ramfs_reach s \<Longrightarrow> ramfs_inv s \<and> file_links s"
  by (induction rule: ramfs_reach.induct) (auto intro: ramfs_init_inv ramfs_step_inv file_links_step simp: file_links_init)

section \<open>Properties\<close>




definition ramfs_one :: ramfs where
  "ramfs_one = fst (ramfs_create_file 1 ''a'' 0x1A4 ramfs_init)"

lemma ramfs_one_inv: "ramfs_inv ramfs_one"
  unfolding ramfs_one_def using create_file_inv[OF ramfs_init_inv] by (metis prod.collapse)

lemma ramfs_one_inode:
  "inode_table ramfs_one 2 = zero_inode\<lparr>i_type := INODE_FILE, i_mode := 0x1A4, i_nlink := 1, i_name := ''a'', i_parent := 1\<rparr>"
  by (simp add: ramfs_one_def ramfs_create_file_def ramfs_init_def kernel_const zero_inode_def ramfs_alloc_inode_def
      ramfs_add_child_def Let_def)


text \<open>
  C31 (ramfs, functional).  A created file of at most 63 characters is found by its name if
  the directory did not list that name before; every other name of every directory is found
  as before.
\<close>
theorem ramfs_create_lookup:
  assumes "ramfs_inv s" "ramfs_create_file p nm m s = (s', Inr idx)" "length nm < 64" "ramfs_lookup_child s p nm = 0"
  shows "ramfs_lookup_child s' p nm = idx \<and> i_type (inode_table s' idx) = INODE_FILE \<and> file_bytes (inode_table s' idx) = [] \<and>
    (\<forall>q nm'. i_type (inode_table s q) = INODE_DIR \<and> (q, nm') \<noteq> (p, nm) \<longrightarrow> ramfs_lookup_child s' q nm' = ramfs_lookup_child s q nm')"
proof -
  have t: "tree_ok s" using assms(1) by (simp add: ramfs_inv_def)
  obtain s1 where al: "ramfs_alloc_inode s = (s1, idx)" and nz: "idx \<noteq> 0" and pd: "i_type (inode_table s p) = INODE_DIR"
    using assms(2) by (auto simp: ramfs_create_file_def Let_def split: if_splits prod.splits sum.splits)
  note A = alloc_SomeD[OF al nz]
  have np: "p \<noteq> idx" using A(3) pd by auto
  define n where "n = zero_inode\<lparr>i_type := INODE_FILE, i_mode := m AND 0x1FF, i_nlink := 1, i_name := nm, i_parent := p\<rparr>"
  have tb: "inode_table s' = (inode_table s)(p := (inode_table s p)\<lparr>i_children := i_children (inode_table s p) @ [idx]\<rparr>, idx := n)"
    using assms(2,3) al nz pd np A(4)
    by (auto simp: ramfs_create_file_def ramfs_add_child_def Let_def kernel_const n_def fun_eq_iff zero_inode_def
        split: if_splits)
  have ne: "x \<noteq> idx" if "x \<in> set (i_children (inode_table s q))" for x q
    using free_unlisted[OF t A(3)] that by (auto simp: unlisted_def)
  have nm: "i_name (inode_table s' x) = i_name (inode_table s x)" if "x \<in> set (i_children (inode_table s q))" for x q
    using ne[OF that] by (simp add: tb)
  have fc: "find (\<lambda>c. i_name (inode_table s' c) = k) (i_children (inode_table s q))
      = find (\<lambda>c. i_name (inode_table s c) = k) (i_children (inode_table s q))" for k q
    by (rule find_cong) (use nm in auto)
  have none: "find (\<lambda>c. i_name (inode_table s c) = nm) (i_children (inode_table s p)) = None"
  proof (rule ccontr)
    assume "find (\<lambda>c. i_name (inode_table s c) = nm) (i_children (inode_table s p)) \<noteq> None"
    then obtain c where c: "find (\<lambda>c. i_name (inode_table s c) = nm) (i_children (inode_table s p)) = Some c" by blast
    then have "c \<in> set (i_children (inode_table s p))" by (auto simp: find_Some_iff)
    then have "2 \<le> c" using tree_okD(3)[OF t] by blast
    then show False using c assms(4) pd by (simp add: ramfs_lookup_child_def)
  qed
  have fa: "find P (xs @ [x]) = (case find P xs of None \<Rightarrow> if P x then Some x else None | Some y \<Rightarrow> Some y)" for P :: "nat \<Rightarrow> bool" and xs x
    by (induction xs) simp_all
  have ch: "i_children (inode_table s' q) = (if q = p then i_children (inode_table s p) @ [idx] else i_children (inode_table s q))"
    if "q \<noteq> idx" for q using that by (simp add: tb)
  have ty: "i_type (inode_table s' q) = i_type (inode_table s q)" if "q \<noteq> idx" for q using that by (simp add: tb)
  have ni: "i_name (inode_table s' idx) = nm" by (simp add: tb n_def)
  have "ramfs_lookup_child s' p nm = idx"
    using pd np none fc[of nm p] by (simp add: ramfs_lookup_child_def Let_def ch ty fa ni)
  moreover have "ramfs_lookup_child s' q nm' = ramfs_lookup_child s q nm'"
    if "i_type (inode_table s q) = INODE_DIR" "(q, nm') \<noteq> (p, nm)" for q nm'
  proof -
    have "q \<noteq> idx" using that(1) A(3) by auto
    then show ?thesis using that fc[of nm' q] by (auto simp: ramfs_lookup_child_def Let_def ch ty fa ni split: option.splits)
  qed
  ultimately show ?thesis by (simp add: tb n_def file_bytes_def zero_inode_def)
qed

theorem ramfs_create_lookup_witness: "ramfs_lookup_child ramfs_one 1 ''a'' = 2"
proof -
  have "snd (ramfs_create_file 1 ''a'' 0x1A4 ramfs_init) = Inr 2"
    by (simp add: ramfs_create_file_def ramfs_init_def kernel_const zero_inode_def ramfs_alloc_inode_def ramfs_add_child_def Let_def)
  then have c: "ramfs_create_file 1 ''a'' 0x1A4 ramfs_init = (ramfs_one, Inr 2)" by (metis prod.collapse ramfs_one_def)
  have "ramfs_lookup_child ramfs_init 1 ''a'' = 0"
    by (simp add: ramfs_lookup_child_def ramfs_init_def RAMFS_ROOT_INO_def zero_inode_def)
  from ramfs_create_lookup[OF ramfs_init_inv c _ this] show ?thesis by simp
qed

text \<open>
  (ramfs, safety).  A rename that fails because the target directory is full or is no
  directory has nevertheless renamed the file: it is put back into its old directory under
  the new name.
\<close>
theorem failed_rename_renames:
  assumes "ramfs_inv s" "ramfs_lookup_child s p nm = idx" "idx \<noteq> 0" "length nm' < 64"
    and "ramfs_op_rename p nm q nm' s = (s', Inl e)"
  shows "idx \<in> set (i_children (inode_table s' p)) \<and> i_name (inode_table s' idx) = nm'"
proof -
  have t: "tree_ok s" using assms(1) by (simp add: ramfs_inv_def)
  have ch: "idx \<in> set (i_children (inode_table s p))" using lookup_child_SomeD(1)[OF t assms(2,3)] .
  note C = tree_okD(3)[OF t ch]
  obtain s1 r1 where rm: "ramfs_remove_child p idx s = (s1, r1)" by fastforce
  note R = tree_ok_remove[OF t rm]
  note r1 = R(6)[OF ch]
  have i128: "idx < 128" using tree_okD(2)[OF t] C by blast
  have s1: "s1 = upd_inode p (\<lambda>n. n\<lparr>i_children := remove1 idx (i_children n)\<rparr>) s"
    using rm r1 by (auto simp: ramfs_remove_child_def Let_def split: if_splits)
  define s2 where "s2 = upd_inode idx (\<lambda>n. n\<lparr>i_name := nm'\<rparr>) s1"
  have sn: "fst (ramfs_set_name idx nm' s1) = s2"
    using i128 assms(3,4) C R(2)[of idx] by (simp add: ramfs_set_name_def kernel_const s2_def)
  obtain s3 r3 where ad: "ramfs_add_child q idx s2 = (s3, r3)" by fastforce
  have r3: "\<exists>e'. r3 = Inl e'" and s': "s' = fst (ramfs_add_child p idx s3)"
    using assms(3,5) rm r1 sn ad unfolding ramfs_op_rename_def assms(2) Let_def by (auto split: sum.splits)
  then have s32: "s3 = s2" using ad by (auto simp: ramfs_add_child_def Let_def split: if_splits)
  have pd: "i_type (inode_table s2 p) = INODE_DIR" using C R(2)[of p] by (auto simp: s2_def)
  have "length (i_children (inode_table s2 p)) < 64"
    using tree_okD(5)[OF t, of p] ch by (auto simp: s2_def s1 length_remove1 dest: length_pos_if_in_set)
  then have "s' = upd_inode idx (\<lambda>n. n\<lparr>i_parent := p\<rparr>) (upd_inode p (\<lambda>n. n\<lparr>i_children := i_children n @ [idx]\<rparr>) s2)"
    using pd by (simp add: s' s32 ramfs_add_child_def kernel_const Let_def)
  then show ?thesis by (auto simp: s2_def)
qed

theorem failed_rename_renames_witness:
  "\<exists>s'. ramfs_op_rename 1 ''a'' 2 ''b'' ramfs_one = (s', Inl ENOTDIR) \<and> i_name (inode_table s' 2) = ''b''"
proof -
  have l: "ramfs_lookup_child ramfs_one 1 ''a'' = 2" "snd (ramfs_op_rename 1 ''a'' 2 ''b'' ramfs_one) = Inl ENOTDIR"
    by (simp_all add: ramfs_op_rename_def ramfs_one_def ramfs_create_file_def ramfs_init_def kernel_const zero_inode_def ramfs_alloc_inode_def
        ramfs_add_child_def ramfs_lookup_child_def ramfs_remove_child_def ramfs_set_name_def Let_def)
  then obtain s' where s': "ramfs_op_rename 1 ''a'' 2 ''b'' ramfs_one = (s', Inl ENOTDIR)" by (metis prod.collapse)
  from failed_rename_renames[OF ramfs_one_inv l(1) _ _ s'] s' show ?thesis by simp
qed

text \<open>
  C37 (ramfs, safety).  Truncating a file and extending it again within its buffer brings the
  old bytes back: after shrinking to \<open>n\<close> and growing to \<open>m\<close>, not above the old size, the
  contents are the first \<open>m\<close> old bytes, not \<open>n\<close> old bytes followed by zeros.
\<close>
theorem truncate_exposes_old_bytes:
  assumes "ramfs_inv s" "i_type (inode_table s idx) = INODE_FILE" "n \<le> m" "unat m \<le> i_size (inode_table s idx)"
  shows "\<exists>s1 s2. ramfs_truncate_inode mem idx n s = (s1, Inr ()) \<and> ramfs_truncate_inode mem idx m s1 = (s2, Inr ()) \<and>
    file_bytes (inode_table s2 idx) = take (unat m) (file_bytes (inode_table s idx))"
proof -
  let ?i = "inode_table s idx"
  have ok: "i_size ?i \<le> i_capacity ?i" "i_capacity ?i \<le> RAMFS_MAX_FILE_SIZE" using assms(1) by (auto simp: ramfs_inv_def data_ok_def)
  have nm: "unat n \<le> unat m" using assms(3) by (simp add: word_le_nat_alt)
  have "ramfs_truncate_inode mem idx n s = (upd_inode idx (\<lambda>_. ?i\<lparr>i_size := unat n\<rparr>) s, Inr ())"
    using assms(2,4) ok nm by (auto simp: ramfs_truncate_inode_def Let_def)
  moreover have "ramfs_truncate_inode mem idx m (upd_inode idx (\<lambda>_. ?i\<lparr>i_size := unat n\<rparr>) s) =
      (upd_inode idx (\<lambda>_. ?i\<lparr>i_size := unat m\<rparr>) s, Inr ())"
    using assms(2,4) ok by (auto simp: ramfs_truncate_inode_def Let_def upd_inode_def)
  moreover have "file_bytes (?i\<lparr>i_size := unat m\<rparr>) = take (unat m) (file_bytes ?i)"
    using assms(4) by (auto simp: file_bytes_def slice_of_def take_map split: option.splits)
  ultimately show ?thesis by auto
qed

theorem truncate_exposes_old_bytes_witness:
  "\<exists>s0 s1 s2. ramfs_write_data True 2 [7, 8, 9] 0 ramfs_one = (s0, Inr 3) \<and> ramfs_truncate_inode True 2 0 s0 = (s1, Inr ()) \<and>
     ramfs_truncate_inode True 2 3 s1 = (s2, Inr ()) \<and> file_bytes (inode_table s2 2) = [7, 8, 9]"
proof -
  obtain s0 where w: "ramfs_write_data True 2 [7, 8, 9] 0 ramfs_one = (s0, Inr 3)"
    by (simp add: ramfs_write_data_def ramfs_one_inode zero_inode_def Let_def RAMFS_MAX_FILE_SIZE_def)
  have i: "ramfs_inv s0" by (rule write_inv[OF ramfs_one_inv w])
  have ok: "data_ok (inode_table ramfs_one 2)" using ramfs_one_inv by (simp add: ramfs_inv_def)
  have b: "file_bytes (inode_table s0 2) = [7, 8, 9]" "i_type (inode_table s0 2) = INODE_FILE"
    using write_data_spec(3,5)[OF w ok] by (simp_all add: ramfs_one_inode zero_inode_def file_bytes_def splice_def)
  have "data_ok (inode_table s0 2)" using i by (simp add: ramfs_inv_def)
  then have sz: "i_size (inode_table s0 2) = 3" using length_file_bytes b(1) by fastforce
  from truncate_exposes_old_bytes[OF i b(2), of 0 3 True] sz b w show ?thesis by auto
qed

text \<open>
  The calls that move a new empty directory from \<open>/p\<close> to \<open>/q\<close> and remove it there: the
  link count of \<open>/q\<close> goes down although it never went up.
\<close>

definition move_and_remove :: "nat \<Rightarrow> nat \<Rightarrow> ramfs \<Rightarrow> ramfs" where
  "move_and_remove p q s =
     fst (ramfs_op_rmdir q ''d'' (fst (ramfs_op_rename p ''d'' q ''d'' (fst (ramfs_create_dir p ''d'' 0x1ED s)))))"

lemma no_children_upd: "i_children n = [] \<Longrightarrow> n\<lparr>i_children := []\<rparr> = n" for n :: ramfs_inode
  by (cases n) simp

lemma move_and_remove_table:
  assumes "i_type (inode_table s p) = INODE_DIR" "i_type (inode_table s q) = INODE_DIR" "p \<noteq> q"
    and "i_children (inode_table s p) = []" "i_children (inode_table s q) = []" "0 < i_nlink (inode_table s q)"
    and "find (\<lambda>i. i_type (inode_table s i) = INODE_FREE) [2..<128] = Some i"
  shows "inode_table (move_and_remove p q s) = (inode_table s)(
    p := (inode_table s p)\<lparr>i_nlink := i_nlink (inode_table s p) + 1\<rparr>,
    q := (inode_table s q)\<lparr>i_nlink := i_nlink (inode_table s q) - 1\<rparr>, i := zero_inode)"
proof -
  have i: "2 \<le> i" "i < 128" "i_type (inode_table s i) = INODE_FREE" using find_upt_SomeD[OF assms(7)] by auto
  have ne: "i \<noteq> p" "i \<noteq> q" "i \<noteq> 0" using i assms(1,2) by auto
  define s1 where "s1 = s\<lparr>inode_table := (inode_table s)(
    p := (inode_table s p)\<lparr>i_children := [i], i_nlink := i_nlink (inode_table s p) + 1\<rparr>,
    i := zero_inode\<lparr>i_type := INODE_DIR, i_mode := 0x1ED, i_nlink := 2, i_name := ''d'', i_parent := p\<rparr>)\<rparr>"
  have c: "fst (ramfs_create_dir p ''d'' 0x1ED s) = s1"
    using assms ne by (simp add: ramfs_create_dir_def ramfs_lookup_child_def ramfs_alloc_inode_def ramfs_add_child_def
        kernel_const Let_def upd_inode_def s1_def fun_upd_twist zero_inode_def del: upt_rec_numeral)
  define s2 where "s2 = s\<lparr>inode_table := (inode_table s)(
    p := (inode_table s p)\<lparr>i_nlink := i_nlink (inode_table s p) + 1\<rparr>, q := (inode_table s q)\<lparr>i_children := [i]\<rparr>,
    i := zero_inode\<lparr>i_type := INODE_DIR, i_mode := 0x1ED, i_nlink := 2, i_name := ''d'', i_parent := q\<rparr>)\<rparr>"
  have r: "fst (ramfs_op_rename p ''d'' q ''d'' s1) = s2"
    using assms ne i by (simp add: ramfs_op_rename_def ramfs_lookup_child_def ramfs_remove_child_def ramfs_set_name_def ramfs_add_child_def
        kernel_const Let_def upd_inode_def s1_def s2_def fun_upd_twist zero_inode_def no_children_upd)
  show ?thesis
    using assms ne i unfolding move_and_remove_def c r
    by (simp add: ramfs_op_rmdir_def ramfs_get_inode_def ramfs_lookup_child_def ramfs_remove_child_def ramfs_free_inode_def
        kernel_const Let_def upd_inode_def s2_def fun_upd_twist zero_inode_def no_children_upd)
qed

definition p_and_q :: ramfs where
  "p_and_q = fst (ramfs_create_dir 1 ''q'' 0x1ED (fst (ramfs_create_dir 1 ''p'' 0x1ED ramfs_init)))"

lemma p_and_q_table: "inode_table p_and_q = (\<lambda>_. zero_inode)(
      1 := zero_inode\<lparr>i_type := INODE_DIR, i_mode := 0x1ED, i_nlink := 4, i_name := ''/'', i_children := [2, 3]\<rparr>,
      2 := zero_inode\<lparr>i_type := INODE_DIR, i_mode := 0x1ED, i_nlink := 2, i_name := ''p'', i_parent := 1\<rparr>,
      3 := zero_inode\<lparr>i_type := INODE_DIR, i_mode := 0x1ED, i_nlink := 2, i_name := ''q'', i_parent := 1\<rparr>)"
  by (simp add: p_and_q_def ramfs_create_dir_def ramfs_init_def ramfs_lookup_child_def ramfs_alloc_inode_def ramfs_add_child_def
      kernel_const Let_def upd_inode_def fun_upd_twist zero_inode_def fun_eq_iff)

lemma drifted_table:
  "inode_table ((move_and_remove 2 3 ^^ 2) p_and_q) =
     (inode_table p_and_q)(2 := (inode_table p_and_q 2)\<lparr>i_nlink := 4\<rparr>, 3 := (inode_table p_and_q 3)\<lparr>i_nlink := 0\<rparr>)"
proof -
  have f: "find (\<lambda>i. i_type (t i) = INODE_FREE) [2..<128] = Some 4"
    if "i_type (t 2) = INODE_DIR" "i_type (t 3) = INODE_DIR" "i_type (t 4) = INODE_FREE" for t :: "nat \<Rightarrow> ramfs_inode"
    using that by simp
  define s1 where "s1 = move_and_remove 2 3 p_and_q"
  have t1: "inode_table s1 = (inode_table p_and_q)(2 := (inode_table p_and_q 2)\<lparr>i_nlink := 3\<rparr>, 3 := (inode_table p_and_q 3)\<lparr>i_nlink := 1\<rparr>)"
    unfolding s1_def by (subst move_and_remove_table[of _ _ _ 4])
      (simp_all add: p_and_q_table zero_inode_def f del: upt_rec_numeral, auto simp: fun_eq_iff)
  have "(move_and_remove 2 3 ^^ 2) p_and_q = move_and_remove 2 3 s1" by (simp add: s1_def numeral_2_eq_2)
  moreover have "inode_table (move_and_remove 2 3 s1) =
     (inode_table p_and_q)(2 := (inode_table p_and_q 2)\<lparr>i_nlink := 4\<rparr>, 3 := (inode_table p_and_q 3)\<lparr>i_nlink := 0\<rparr>)"
    by (subst move_and_remove_table[of _ _ _ 4])
      (simp_all add: t1 p_and_q_table zero_inode_def f del: upt_rec_numeral, auto simp: fun_eq_iff)
  ultimately show ?thesis by simp
qed

text \<open>
  C38 (ramfs, safety).  Link counts of directories drift: renaming a directory into another
  parent does not move its link, so after two rounds of creating a directory under \<open>/p\<close>,
  moving it to \<open>/q\<close> and removing it, \<open>/q\<close> is still listed in the root but has link count
  0, the count on which an open directory is released at its last close.
\<close>
theorem directory_link_count_drifts:
  "let s = (move_and_remove 2 3 ^^ 2) (fst (ramfs_create_dir 1 ''q'' 0x1ED (fst (ramfs_create_dir 1 ''p'' 0x1ED ramfs_init))))
   in ramfs_lookup_child s 1 ''q'' = 3 \<and> i_type (inode_table s 3) = INODE_DIR \<and> i_nlink (inode_table s 3) = 0"
  unfolding p_and_q_def[symmetric] by (simp add: drifted_table p_and_q_table ramfs_lookup_child_def zero_inode_def)

lemma reach_call: "ramfs_reach s \<Longrightarrow> ramfs_step s Call s' \<Longrightarrow> ramfs_reach s'"
  using reach_step[of s Call s'] by (simp add: closes_dead_dir_def)

lemma no_opens:
  assumes "\<forall>i. inode_open_count s i = 0"
  shows "\<forall>i. inode_open_count (fst (ramfs_create_dir p nm m s)) i = 0"
    and "\<forall>i. inode_open_count (fst (ramfs_op_rename p nm q nm' s)) i = 0"
    and "\<forall>i. inode_open_count (fst (ramfs_op_rmdir p nm s)) i = 0"
  using assms by (auto simp: ramfs_create_dir_def ramfs_op_rename_def ramfs_op_rmdir_def ramfs_alloc_inode_def ramfs_add_child_def
      ramfs_remove_child_def ramfs_set_name_def ramfs_free_inode_def upd_inode_def Let_def split: option.splits prod.splits sum.splits if_splits)

lemma reach_mkdir: "ramfs_reach s \<Longrightarrow> ramfs_reach (fst (ramfs_create_dir p nm m s))"
  by (metis prod.collapse reach_call step_mkdir)

lemma reach_move_and_remove: "ramfs_reach s \<Longrightarrow> ramfs_reach (move_and_remove p q s)"
  unfolding move_and_remove_def by (metis prod.collapse reach_call step_rename step_rmdir reach_mkdir)

text \<open>
  C0 (ramfs, safety).  Closing a directory frees it while it is listed.  After two rounds of
  creating a directory under \<open>/p\<close>, moving it to \<open>/q\<close> and removing it, opening \<open>/q\<close> and closing
  it again frees its inode although the root still lists it: the state before the close is
  reachable and well formed, the state after it is not.
\<close>
theorem close_frees_listed_directory:
  "let s = ramfs_inc_open_count 3 ((move_and_remove 2 3 ^^ 2) p_and_q); s' = ramfs_last_close 3 s
   in ramfs_reach s \<and> ramfs_inv s \<and> i_type (inode_table s 3) = INODE_DIR \<and>
      3 \<in> set (i_children (inode_table s' 1)) \<and> i_type (inode_table s' 3) = INODE_FREE \<and> \<not> ramfs_inv s'"
proof -
  define s where "s = ramfs_inc_open_count 3 ((move_and_remove 2 3 ^^ 2) p_and_q)"
  have "ramfs_reach ((move_and_remove 2 3 ^^ 2) p_and_q)"
    by (simp add: numeral_2_eq_2 p_and_q_def reach_move_and_remove reach_mkdir reach_init)
  then have r: "ramfs_reach s" unfolding s_def by (rule reach_call) (rule step_open)
  have t: "inode_table s = (inode_table p_and_q)(2 := (inode_table p_and_q 2)\<lparr>i_nlink := 4\<rparr>, 3 := (inode_table p_and_q 3)\<lparr>i_nlink := 0\<rparr>)"
    by (simp add: s_def ramfs_inc_open_count_def drifted_table)
  have i: "ramfs_inv s" using reach_inv[OF r] by simp
  have c: "inode_open_count s 3 = 1"
    by (simp add: s_def ramfs_inc_open_count_def numeral_2_eq_2 move_and_remove_def p_and_q_def no_opens ramfs_init_def)
  have s': "inode_table (ramfs_last_close 3 s) = (inode_table s)(3 := zero_inode)"
    by (simp add: ramfs_last_close_def ramfs_dec_open_count_def ramfs_get_open_count_def ramfs_fill_stat_def
        ramfs_free_inode_def upd_inode_def t c p_and_q_table kernel_const zero_inode_def)
  have l: "3 \<in> set (i_children (inode_table (ramfs_last_close 3 s) 1))" "i_type (inode_table (ramfs_last_close 3 s) 3) = INODE_FREE"
    by (simp_all add: s' t p_and_q_table zero_inode_def)
  then have "\<not> ramfs_inv (ramfs_last_close 3 s)" using tree_okD(3) by (fastforce simp: ramfs_inv_def)
  with r i l show ?thesis unfolding s_def[symmetric] by (simp add: t p_and_q_table zero_inode_def)
qed

end
