(* ===== verification/Vfs_Mount.thy ===== *)
theory Vfs_Mount
  imports Ramfs
begin

text \<open>
  The mount table and path resolution, \<^verbatim>\<open>src/kernel/fs/vfs_mount.c\<close>, with the path
  helpers of \<^verbatim>\<open>vfs_fd.c\<close> and \<^verbatim>\<open>vfs_path.c\<close> and the dentry slots of
  \<^verbatim>\<open>dcache.c\<close>.  A mount is an index of the table; the methods of the file system
  mounted there are named by \<open>fs_id\<close>, so that two pointers to the same table of methods are
  equal.  The table that gives each name its methods is a parameter of every function that
  calls one.
\<close>

section \<open>The mount table\<close>

datatype fs_id = FS_RAMFS | FS_EXT2

record mount =
  mnt_target :: string
  mnt_ops :: fs_id
  root_inode :: nat
  in_use :: bool

type_synonym mount_table = "nat \<Rightarrow> mount"

definition VFS_MAX_MOUNTS :: nat where [kernel_const]: "VFS_MAX_MOUNTS = 8"
definition VFS_MOUNT_TARGET_MAX :: nat where [kernel_const]: "VFS_MOUNT_TARGET_MAX = 64"

abbreviation slash :: char where "slash \<equiv> CHR ''/''"

definition mount_target_valid :: "string \<Rightarrow> bool" where
  "mount_target_valid target =
     (if target = [] \<or> hd target \<noteq> slash then False
      else if VFS_MOUNT_TARGET_MAX \<le> length target then False
      else if 1 < length target \<and> last target = slash then False
      else True)"

definition vfs_mount :: "string option \<Rightarrow> fs_id option \<Rightarrow> nat \<Rightarrow> mount_table \<Rightarrow> mount_table \<times> unit res" where
  "vfs_mount target ops root mounts =
     (case (target, ops) of
        (Some t, Some f) \<Rightarrow>
          if \<not> mount_target_valid t \<or> root = 0 then (mounts, Inl EINVAL)
          else if list_ex (\<lambda>i. in_use (mounts i) \<and> mnt_target (mounts i) = t) [0..<VFS_MAX_MOUNTS] then (mounts, Inl EBUSY)
          else (case find (\<lambda>i. \<not> in_use (mounts i)) [0..<VFS_MAX_MOUNTS] of
                  Some i \<Rightarrow> (mounts(i := \<lparr>mnt_target = take (VFS_MOUNT_TARGET_MAX - 1) t, mnt_ops = f,
                                         root_inode = root, in_use = True\<rparr>), Inr ())
                | None \<Rightarrow> (mounts, Inl ENOSPC))
      | _ \<Rightarrow> (mounts, Inl EINVAL))"

text \<open>The NUL after the last character is the missing element of the list.\<close>

definition mount_prefix_len :: "string \<Rightarrow> string \<Rightarrow> nat" where
  "mount_prefix_len target path =
     (let tlen = length target
      in if target = [slash] then 1
         else if take tlen path \<noteq> target then 0
         else (case drop tlen path of
                 [] \<Rightarrow> tlen
               | after # _ \<Rightarrow> if after \<noteq> slash then 0 else tlen))"

definition better_mount :: "string \<Rightarrow> mount_table \<Rightarrow> nat \<Rightarrow> nat option \<times> nat \<Rightarrow> nat option \<times> nat" where
  "better_mount path mounts i b =
     (if \<not> in_use (mounts i) then b
      else let mlen = mount_prefix_len (mnt_target (mounts i)) path
           in if snd b < mlen then (Some i, mlen) else b)"

definition vfs_resolve_mount :: "string \<Rightarrow> mount_table \<Rightarrow> (nat \<times> string) res" where
  "vfs_resolve_mount path mounts =
     (if path = [] \<or> hd path \<noteq> slash then Inl EINVAL
      else (case fold (better_mount path mounts) [0..<VFS_MAX_MOUNTS] (None, 0) of
              (None, _) \<Rightarrow> Inl ENOENT
            | (Some m, best_len) \<Rightarrow> Inr (m, if best_len = 1 then drop 1 path else drop best_len path)))"

section \<open>Walking a path\<close>

definition resolve_one :: "(nat \<Rightarrow> string \<Rightarrow> nat) \<Rightarrow> nat \<Rightarrow> string \<Rightarrow> nat" where
  "resolve_one res cur cmp = (if cmp = ''.'' then cur else res cur cmp)"

text \<open>The loop of \<open>walk_components\<close>; \<open>cmp\<close> is the component read so far.\<close>

fun walk_components :: "(nat \<Rightarrow> string \<Rightarrow> nat) \<Rightarrow> nat \<Rightarrow> string \<Rightarrow> string \<Rightarrow> nat" where
  "walk_components res cur cmp [] = (if cmp \<noteq> [] then resolve_one res cur cmp else cur)"
| "walk_components res cur cmp (c # p) =
     (if c = slash then
        if cmp \<noteq> [] then
          let cur' = resolve_one res cur cmp in if cur' = 0 then 0 else walk_components res cur' [] p
        else walk_components res cur [] p
      else walk_components res cur (if length cmp < 63 then cmp @ [c] else cmp) p)"

definition vfs_resolve_path ::
  "(fs_id \<Rightarrow> 'fs fs_ops) \<Rightarrow> 'fs \<Rightarrow> mount_table \<Rightarrow> string \<Rightarrow> (nat \<times> nat) res" where
  "vfs_resolve_path vt fs mounts apath =
     (if apath = [] \<or> hd apath \<noteq> slash then Inl EINVAL
      else (case vfs_resolve_mount apath mounts of
              Inl e \<Rightarrow> Inl e
            | Inr (m, rel) \<Rightarrow>
                (case op_resolve (vt (mnt_ops (mounts m))) of
                   None \<Rightarrow> Inl ENOSYS
                 | Some res \<Rightarrow>
                     let ino = walk_components (res fs) (root_inode (mounts m)) [] rel
                     in if ino = 0 then Inl ENOENT else Inr (m, ino))))"

definition last_slash :: "string \<Rightarrow> nat" where
  "last_slash path =
     (case find (\<lambda>i. path ! (i - 1) = slash) (rev [1..<Suc (length path)]) of None \<Rightarrow> 0 | Some i \<Rightarrow> i - 1)"

definition vfs_resolve_parent_and_leaf ::
  "(fs_id \<Rightarrow> 'fs fs_ops) \<Rightarrow> 'fs \<Rightarrow> mount_table \<Rightarrow> string \<Rightarrow> (nat \<times> nat \<times> string) res" where
  "vfs_resolve_parent_and_leaf vt fs mounts apath =
     (if apath = [] \<or> hd apath \<noteq> slash then Inl EINVAL
      else if length apath < 2 \<or> last apath = slash then Inl EINVAL
      else
        let ls = last_slash apath; leaf = drop (ls + 1) apath
        in if leaf = [] then Inl EINVAL
           else if ls \<noteq> 0 \<and> 512 \<le> ls then Inl ENAMETOOLONG
           else
             let parent = (if ls = 0 then [slash] else take ls apath)
             in case vfs_resolve_path vt fs mounts parent of
                  Inl e \<Rightarrow> Inl e
                | Inr (m, ino) \<Rightarrow> Inr (m, ino, leaf))"

section \<open>Absolute paths\<close>

definition vfs_make_abs_path :: "string option \<Rightarrow> string \<Rightarrow> nat \<Rightarrow> string res" where
  "vfs_make_abs_path pathname cwd bufsz =
     (case pathname of
        None \<Rightarrow> Inl EINVAL
      | Some p \<Rightarrow>
          if bufsz < 2 then Inl EINVAL
          else if p \<noteq> [] \<and> hd p = slash then
            if bufsz - 1 < length p then Inl ENAMETOOLONG else Inr p
          else if cwd = [] then
            if bufsz - 2 < length p then Inl ENAMETOOLONG else Inr (slash # p)
          else if bufsz - 2 < length cwd then Inl ENAMETOOLONG
          else if last cwd \<noteq> slash \<and> bufsz - 2 \<le> length cwd then Inl ENAMETOOLONG
          else
            let buf = (if last cwd \<noteq> slash then cwd @ [slash] else cwd)
            in if bufsz - 1 < length buf + length p then Inl ENAMETOOLONG else Inr (buf @ p))"

text \<open>\<open>vfs_path.c\<close> has a copy of its own.\<close>

definition make_abs_path :: "string option \<Rightarrow> string \<Rightarrow> nat \<Rightarrow> string res" where
  "make_abs_path path cwd bufsz =
     (case path of
        None \<Rightarrow> Inl EINVAL
      | Some p \<Rightarrow>
          if bufsz < 2 then Inl EINVAL
          else if p \<noteq> [] \<and> hd p = slash then
            if bufsz - 1 < length p then Inl ENAMETOOLONG else Inr p
          else if cwd = [] then
            if bufsz - 2 < length p then Inl ENAMETOOLONG else Inr (slash # p)
          else if bufsz - 2 < length cwd then Inl ENAMETOOLONG
          else if last cwd \<noteq> slash \<and> bufsz - 2 \<le> length cwd then Inl ENAMETOOLONG
          else
            let buf = (if last cwd \<noteq> slash then cwd @ [slash] else cwd)
            in if bufsz - 1 < length buf + length p then Inl ENAMETOOLONG else Inr (buf @ p))"

section \<open>Dentry slots\<close>

type_synonym dentry_slots = "nat \<Rightarrow> (string \<times> nat) option"

definition DCACHE_MAX_ENTRIES :: nat where [kernel_const]: "DCACHE_MAX_ENTRIES = 32"
definition DCACHE_MAX_PATH_LEN :: nat where [kernel_const]: "DCACHE_MAX_PATH_LEN = 63"

definition path_eq :: "string \<Rightarrow> string \<Rightarrow> bool" where
  "path_eq a b \<longleftrightarrow> a = b \<and> length a \<le> DCACHE_MAX_PATH_LEN"

definition dcache_init :: dentry_slots where
  "dcache_init = (\<lambda>_. None)"

text \<open>Waiting for a grace period and freeing the entry have no effect on the slots.\<close>

definition dcache_invalidate :: "string option \<Rightarrow> dentry_slots \<Rightarrow> dentry_slots" where
  "dcache_invalidate path slots =
     (case path of
        None \<Rightarrow> slots
      | Some p \<Rightarrow>
          (case find (\<lambda>i. case slots i of None \<Rightarrow> False | Some d \<Rightarrow> path_eq (fst d) p) [0..<DCACHE_MAX_ENTRIES] of
             None \<Rightarrow> slots
           | Some i \<Rightarrow> slots(i := None)))"

section \<open>The components of a path\<close>

text \<open>Reference: the non-empty pieces between slashes, cut to 63 characters.\<close>

fun pieces :: "string \<Rightarrow> string \<Rightarrow> string list" where
  "pieces acc [] = (if acc = [] then [] else [acc])"
| "pieces acc (c # p) = (if c = slash then (if acc = [] then pieces [] p else acc # pieces [] p) else pieces (acc @ [c]) p)"

definition components :: "string \<Rightarrow> string list" where
  "components p = map (take 63) (pieces [] p)"

fun walk_list :: "(nat \<Rightarrow> string \<Rightarrow> nat) \<Rightarrow> nat \<Rightarrow> string list \<Rightarrow> nat" where
  "walk_list res cur [] = cur"
| "walk_list res cur (c # cs) = (let cur' = resolve_one res cur c in if cur' = 0 then 0 else walk_list res cur' cs)"

lemma pieces_nonempty: "x \<in> set (pieces acc p) \<Longrightarrow> x \<noteq> []"
  by (induction acc p rule: pieces.induct) (auto split: if_splits)

lemma walk_pieces:
  "walk_components res cur (take 63 acc) p = walk_list res cur (map (take 63) (pieces acc p))"
proof (induction acc p arbitrary: cur rule: pieces.induct)
  case (1 acc)
  then show ?case by (simp add: Let_def)
next
  case (2 acc c p)
  have t: "(if length (take 63 acc) < 63 then take 63 acc @ [c] else take 63 acc) = take 63 (acc @ [c])" by auto
  show ?case
  proof (cases "c = slash")
    case True
    then show ?thesis using 2(1,2)[of "resolve_one res cur (take 63 acc)"] 2(1)[of cur]
      by (auto simp: Let_def)
  next
    case False
    then show ?thesis using 2(3)[OF False, of cur] False by (simp only: walk_components.simps pieces.simps t if_False)
  qed
qed

section \<open>The best mount\<close>

text \<open>A mount target covers the paths at and below it.\<close>

definition covers :: "string \<Rightarrow> string \<Rightarrow> bool" where
  "covers target path \<longleftrightarrow> target = [slash] \<or> path = target \<or> (\<exists>rest. path = target @ slash # rest)"

lemma mount_prefix_len_covers: "mount_prefix_len target path = (if covers target path then length target else 0)"
proof (cases "take (length target) path = target")
  case True
  then obtain rest where p: "path = target @ rest" by (metis append_take_drop_id)
  then show ?thesis by (cases rest) (auto simp: mount_prefix_len_def covers_def Let_def)
next
  case False
  then show ?thesis by (auto simp: mount_prefix_len_def covers_def Let_def)
qed

lemma better_mount_spec:
  assumes "fold (better_mount path mounts) xs (b0, l0) = (b, l)"
  shows "l0 \<le> l" "\<And>i. i \<in> set xs \<Longrightarrow> in_use (mounts i) \<Longrightarrow> mount_prefix_len (mnt_target (mounts i)) path \<le> l"
    "b = b0 \<and> l = l0 \<or> (\<exists>i \<in> set xs. b = Some i \<and> in_use (mounts i) \<and> l = mount_prefix_len (mnt_target (mounts i)) path \<and> l0 < l)"
proof -
  have "l0 \<le> l \<and> (\<forall>i \<in> set xs. in_use (mounts i) \<longrightarrow> mount_prefix_len (mnt_target (mounts i)) path \<le> l) \<and>
    (b = b0 \<and> l = l0 \<or> (\<exists>i \<in> set xs. b = Some i \<and> in_use (mounts i) \<and> l = mount_prefix_len (mnt_target (mounts i)) path \<and> l0 < l))"
    using assms
  proof (induction xs arbitrary: b0 l0)
    case (Cons x xs)
    obtain b1 l1 where bm: "better_mount path mounts x (b0, l0) = (b1, l1)" by fastforce
    with Cons.prems have "fold (better_mount path mounts) xs (b1, l1) = (b, l)" by simp
    note IH = Cons.IH[OF this]
    have x: "(b1, l1) = (b0, l0) \<and> (in_use (mounts x) \<longrightarrow> mount_prefix_len (mnt_target (mounts x)) path \<le> l0)
      \<or> b1 = Some x \<and> in_use (mounts x) \<and> l1 = mount_prefix_len (mnt_target (mounts x)) path \<and> l0 < l1"
      using bm by (auto simp: better_mount_def Let_def split: if_splits)
    show ?case using IH x by (elim disjE conjE) auto
  qed simp
  then show "l0 \<le> l" "\<And>i. i \<in> set xs \<Longrightarrow> in_use (mounts i) \<Longrightarrow> mount_prefix_len (mnt_target (mounts i)) path \<le> l"
    "b = b0 \<and> l = l0 \<or> (\<exists>i \<in> set xs. b = Some i \<and> in_use (mounts i) \<and> l = mount_prefix_len (mnt_target (mounts i)) path \<and> l0 < l)"
    by blast+
qed

lemma last_slash_spec:
  assumes "p \<noteq> []" "hd p = slash" "last p \<noteq> slash"
  shows "last_slash p < length p" "p ! last_slash p = slash" "slash \<notin> set (drop (last_slash p + 1) p)"
proof -
  have "find (\<lambda>i. p ! (i - 1) = slash) (rev [1..<Suc (length p)]) \<noteq> None"
  proof
    assume "find (\<lambda>i. p ! (i - 1) = slash) (rev [1..<Suc (length p)]) = None"
    then have "\<not> (\<exists>i \<in> {1..<Suc (length p)}. p ! (i - 1) = slash)" by (auto simp: find_None_iff simp del: upt_Suc)
    moreover have "1 \<in> {1..<Suc (length p)}" "p ! (1 - 1) = slash" using assms(1,2) by (simp_all add: hd_conv_nth)
    ultimately show False by blast
  qed
  then obtain i where f: "find (\<lambda>i. p ! (i - 1) = slash) (rev [1..<Suc (length p)]) = Some i" by blast
  then obtain k where k: "k < length p" "p ! (rev [1..<Suc (length p)] ! k - 1) = slash" "i = rev [1..<Suc (length p)] ! k"
    "\<forall>j<k. p ! (rev [1..<Suc (length p)] ! j - 1) \<noteq> slash"
    by (auto simp: find_Some_iff simp del: upt_Suc)
  have r: "rev [1..<Suc (length p)] ! j = length p - j" if "j < length p" for j
    using that by (simp add: rev_nth del: upt_Suc)
  have ls: "last_slash p = length p - k - 1" using f k(1,3) r[of k] by (simp add: last_slash_def del: upt_Suc)
  show "last_slash p < length p" using ls k(1) by simp
  show "p ! last_slash p = slash" using k(1,2) r[of k] ls by (simp del: upt_Suc)
  show "slash \<notin> set (drop (last_slash p + 1) p)"
  proof
    assume "slash \<in> set (drop (last_slash p + 1) p)"
    then obtain j where j0: "j < length (drop (last_slash p + 1) p)" "drop (last_slash p + 1) p ! j = slash"
      by (metis in_set_conv_nth)
    have e: "last_slash p + 1 = length p - k" using ls k(1) by simp
    have j: "j < k" "p ! (length p - k + j) = slash" using j0 k(1) unfolding e by simp_all
    have "p ! (rev [1..<Suc (length p)] ! (k - 1 - j) - 1) \<noteq> slash" using k(4) j(1) by auto
    moreover have "length p - (k - 1 - j) - 1 = length p - k + j" using j(1) k(1) by linarith
    ultimately show False using r[of "k - 1 - j"] k(1) j by (simp del: upt_Suc)
  qed
qed

section \<open>Properties\<close>

text \<open>
  C25 (paths, equivalence).  Resolving a path within its mount is walking, from the root of
  the mount, the list of its components: the pieces between slashes, empty ones dropped and
  each cut to 63 characters, stopping at the first one that is not found.
\<close>
theorem walk_components_reference: "walk_components res cur [] p = walk_list res cur (components p)"
  using walk_pieces[of res cur "[]" p] by (simp add: components_def)

text \<open>
  C24 (paths, functional).  An absolute path resolves to a mount in use whose target covers
  it, that is the root, the path itself or the path up to one of its slashes, and no other
  mount in use that covers the path has a longer target; the rest is what follows the target.
  It fails with \<open>ENOENT\<close> only if no mount covers it, and with \<open>EINVAL\<close> only if it is not absolute.
\<close>
theorem resolve_mount_longest:
  "case vfs_resolve_mount path mounts of
     Inr (m, rel) \<Rightarrow> m < 8 \<and> in_use (mounts m) \<and> covers (mnt_target (mounts m)) path \<and>
       rel = drop (length (mnt_target (mounts m))) path \<and>
       (\<forall>i < 8. in_use (mounts i) \<and> covers (mnt_target (mounts i)) path \<longrightarrow>
          length (mnt_target (mounts i)) \<le> length (mnt_target (mounts m)))
   | Inl e \<Rightarrow> e = EINVAL \<and> (path = [] \<or> hd path \<noteq> slash) \<or>
       e = ENOENT \<and> (\<forall>i < 8. in_use (mounts i) \<and> mnt_target (mounts i) \<noteq> [] \<longrightarrow> \<not> covers (mnt_target (mounts i)) path)"
proof -
  obtain b l where f: "fold (better_mount path mounts) [0..<8] (None, 0) = (b, l)" by fastforce
  note S = better_mount_spec[OF f, unfolded mount_prefix_len_covers]
  have le: "length (mnt_target (mounts i)) \<le> l" if "i < 8" "in_use (mounts i)" "covers (mnt_target (mounts i)) path" for i
    using S(2)[of i] that by (simp del: upt_rec_numeral)
  show ?thesis
  proof (cases b)
    case None
    then have "l = 0" using S(3) by auto
    then show ?thesis using le None f by (auto simp: vfs_resolve_mount_def kernel_const simp del: upt_rec_numeral)
  next
    case (Some m)
    then have m: "m < 8" "in_use (mounts m)" "covers (mnt_target (mounts m)) path" "l = length (mnt_target (mounts m))"
      using S(3) by (auto simp del: upt_rec_numeral split: if_splits)
    then show ?thesis using le Some f by (auto simp: vfs_resolve_mount_def kernel_const simp del: upt_rec_numeral)
  qed
qed

definition two_mounts :: mount_table where
  "two_mounts = (\<lambda>_. \<lparr>mnt_target = [], mnt_ops = FS_RAMFS, root_inode = 0, in_use = False\<rparr>)(
     0 := \<lparr>mnt_target = ''/'', mnt_ops = FS_RAMFS, root_inode = 1, in_use = True\<rparr>,
     1 := \<lparr>mnt_target = ''/mnt'', mnt_ops = FS_EXT2, root_inode = 2, in_use = True\<rparr>)"

lemma upt8: "[0..<8] = [0, 1, 2, 3, 4, 5, 6, 7]"
  by (simp add: upt_rec)

theorem resolve_mount_longest_witness:
  "vfs_resolve_mount ''/mnt/a'' two_mounts = Inr (1, ''/a'') \<and> vfs_resolve_mount ''/mntfoo'' two_mounts = Inr (0, ''mntfoo'') \<and>
   covers ''/mnt'' ''/mnt/a'' \<and> \<not> covers ''/mnt'' ''/mntfoo''"
proof -
  have r: "vfs_resolve_mount ''/mnt/a'' two_mounts = Inr (1, ''/a'')"
    and r': "vfs_resolve_mount ''/mntfoo'' two_mounts = Inr (0, ''mntfoo'')"
    by (simp_all add: vfs_resolve_mount_def two_mounts_def better_mount_def mount_prefix_len_def VFS_MAX_MOUNTS_def upt8 Let_def)
  have "covers ''/mnt'' ''/mnt/a''"
    using resolve_mount_longest[of "''/mnt/a''" two_mounts] r by (simp add: two_mounts_def)
  moreover have "\<forall>i < 8. in_use (two_mounts i) \<and> covers (mnt_target (two_mounts i)) ''/mntfoo'' \<longrightarrow>
      length (mnt_target (two_mounts i)) \<le> length (mnt_target (two_mounts 0))"
    using resolve_mount_longest[of "''/mntfoo''" two_mounts] r' by simp
  from this[rule_format, of 1] have "\<not> covers ''/mnt'' ''/mntfoo''" by (auto simp: two_mounts_def)
  ultimately show ?thesis using r r' by simp
qed

text \<open>
  C32 (paths, bounds and error).  Making a path absolute in a buffer of \<open>n \<ge> 2\<close> bytes
  returns the path itself if it starts with a slash, else the working directory (the root
  if there is none), a slash where one is missing, and the path; it fails exactly when the
  result with its NUL does not fit, and both copies of the routine agree.
\<close>
theorem make_abs_path_correct:
  assumes "2 \<le> n" "cwd = [] \<or> hd cwd = slash" "length cwd < n - 2"
  shows "vfs_make_abs_path (Some p) cwd n =
      (let a = (if p \<noteq> [] \<and> hd p = slash then p
                else if cwd = [] then slash # p
                else if last cwd = slash then cwd @ p else cwd @ slash # p)
       in if length a < n then Inr a else Inl ENAMETOOLONG) \<and>
    make_abs_path (Some p) cwd n = vfs_make_abs_path (Some p) cwd n"
  using assms by (auto simp: vfs_make_abs_path_def make_abs_path_def Let_def)

theorem make_abs_path_correct_witness: "vfs_make_abs_path (Some ''b'') ''/a'' 512 = Inr ''/a/b''"
  using make_abs_path_correct[of 512 "''/a''" "''b''"] by simp

text \<open>
  C33 (paths, functional).  When parent and leaf of a path resolve, the leaf is the part
  after the last slash and has no slash, and the parent inode is what the part before it
  resolves to.
\<close>
theorem resolve_parent_and_leaf_splits:
  assumes "vfs_resolve_parent_and_leaf vt fs mounts apath = Inr (m, ino, leaf)"
  shows "\<exists>dir. apath = dir @ slash # leaf \<and> slash \<notin> set leaf \<and> leaf \<noteq> [] \<and>
    vfs_resolve_path vt fs mounts (if dir = [] then [slash] else dir) = Inr (m, ino)"
proof -
  have a: "apath \<noteq> []" "hd apath = slash" "last apath \<noteq> slash" and l: "leaf = drop (last_slash apath + 1) apath" "leaf \<noteq> []"
    and v: "vfs_resolve_path vt fs mounts (if last_slash apath = 0 then [slash] else take (last_slash apath) apath) = Inr (m, ino)"
    using assms by (auto simp: vfs_resolve_parent_and_leaf_def Let_def split: if_splits sum.splits prod.splits)
  note S = last_slash_spec[OF a]
  have "apath = take (last_slash apath) apath @ slash # leaf" using id_take_nth_drop[OF S(1)] S(2) l(1) by simp
  moreover have "(take (last_slash apath) apath = []) = (last_slash apath = 0)" using a(1) by simp
  ultimately show ?thesis using S(3) l v by (intro exI[of _ "take (last_slash apath) apath"]) simp
qed

theorem resolve_parent_and_leaf_splits_witness:
  "vfs_resolve_parent_and_leaf (\<lambda>_. ramfs_ops True) ramfs_one two_mounts ''/a'' = Inr (0, 1, ''a'') \<and>
   vfs_resolve_path (\<lambda>_. ramfs_ops True) ramfs_one two_mounts ''/'' = Inr (0, 1)"
proof -
  have p: "vfs_resolve_path (\<lambda>_. ramfs_ops True) ramfs_one two_mounts ''/'' = Inr (0, 1)"
    by (simp add: vfs_resolve_path_def vfs_resolve_mount_def two_mounts_def better_mount_def mount_prefix_len_def
        VFS_MAX_MOUNTS_def upt8 ramfs_ops_def Let_def)
  then have r: "vfs_resolve_parent_and_leaf (\<lambda>_. ramfs_ops True) ramfs_one two_mounts ''/a'' = Inr (0, 1, ''a'')"
    by (simp add: vfs_resolve_parent_and_leaf_def last_slash_def Let_def)
  from resolve_parent_and_leaf_splits[OF r] r p show ?thesis by blast
qed

end
