(* ===== verification/Vfs.thy ===== *)
theory Vfs
  imports Pipe Vfs_Mount
begin

text \<open>
  Open files, descriptors and the path calls of the virtual file system,
  \<^verbatim>\<open>src/kernel/fs/vfs_core.c\<close>, \<^verbatim>\<open>vfs_fd.c\<close> and \<^verbatim>\<open>vfs_path.c\<close>.  The state
  extends that of the pipes by the mount table, the 64 open files, the dentry slots and the
  state \<open>'fs\<close> of the file systems; \<open>vt\<close> gives the methods behind each \<open>fs_id\<close>.  A null
  string or data buffer is \<open>None\<close>, a null result pointer a flag.  \<open>get_current_process\<close> never returns null, so the branches
  for a kernel without a process (and \<open>kernel_fd_table\<close>) are never taken and left out.
  Every function runs under \<open>vfs_lock\<close> and is one atomic step.
\<close>

section \<open>State\<close>

record open_file =
  f_inode :: nat
  f_pos :: u32
  f_flags :: u32
  f_refcount :: u32
  f_fs :: "fs_id option"

record 'fs vfs_state = pipe_state +
  mounts :: mount_table
  open_files :: "nat \<Rightarrow> open_file"
  dcache :: dentry_slots
  fs :: 'fs

definition VFS_MAX_OPEN_FILES :: nat where [kernel_const]: "VFS_MAX_OPEN_FILES = 64"
definition O_ACCMODE :: u32 where [kernel_const]: "O_ACCMODE = 3"
definition O_CREAT :: u32 where [kernel_const]: "O_CREAT = 0x40"
definition O_EXCL :: u32 where [kernel_const]: "O_EXCL = 0x80"
definition O_TRUNC :: u32 where [kernel_const]: "O_TRUNC = 0x200"
definition O_APPEND :: u32 where [kernel_const]: "O_APPEND = 0x400"

text \<open>\<open>O_RDONLY | O_WRONLY | O_RDWR | O_CREAT | O_EXCL | O_NOCTTY | O_TRUNC | O_APPEND | O_NONBLOCK |
  O_DSYNC | O_DIRECTORY | O_NOFOLLOW | O_CLOEXEC\<close>\<close>

definition VFS_OPEN_SUPPORTED_FLAGS :: u32 where
  [kernel_const]: "VFS_OPEN_SUPPORTED_FLAGS = 0 OR 1 OR 2 OR 0x40 OR 0x80 OR 0x100 OR 0x200 OR 0x400 OR 0x800 OR
     0x1000 OR 0x10000 OR 0x20000 OR 0x80000"

definition zero_open_file :: open_file where
  "zero_open_file = \<lparr>f_inode = 0, f_pos = 0, f_flags = 0, f_refcount = 0, f_fs = None\<rparr>"

definition upd_of :: "nat \<Rightarrow> (open_file \<Rightarrow> open_file) \<Rightarrow> ('fs, 'a) vfs_state_scheme \<Rightarrow> ('fs, 'a) vfs_state_scheme" where
  "upd_of i f s = s\<lparr>open_files := (open_files s)(i := f (open_files s i))\<rparr>"

section \<open>Open files\<close>

definition vfs_alloc_open_file :: "('fs, 'a) vfs_state_scheme \<Rightarrow> ('fs, 'a) vfs_state_scheme \<times> nat res" where
  "vfs_alloc_open_file s =
     (case find (\<lambda>i. f_refcount (open_files s i) = 0) [0..<VFS_MAX_OPEN_FILES] of
        None \<Rightarrow> (s, Inl EMFILE)
      | Some i \<Rightarrow> (upd_of i (\<lambda>_. zero_open_file\<lparr>f_refcount := 1\<rparr>) s, Inr i))"

definition vfs_free_open_file :: "nat \<Rightarrow> ('fs, 'a) vfs_state_scheme \<Rightarrow> ('fs, 'a) vfs_state_scheme" where
  "vfs_free_open_file idx = upd_of idx (\<lambda>f. f\<lparr>f_refcount := 0\<rparr>)"

text \<open>\<open>init_fs\<close> is the effect of \<open>ramfs_init\<close> on the state of the file systems.\<close>

definition vfs_init :: "('fs \<Rightarrow> 'fs) \<Rightarrow> ('fs, 'a) vfs_state_scheme \<Rightarrow> ('fs, 'a) vfs_state_scheme \<times> unit res" where
  "vfs_init init_fs s =
     (let s = s\<lparr>fs := init_fs (fs s), dcache := dcache_init\<rparr>
      in case vfs_mount (Some ''/'') (Some FS_RAMFS) ramfs_root_inode (mounts s) of (m, r) \<Rightarrow> (s\<lparr>mounts := m\<rparr>, r))"

definition vfs_open_file_incref :: "int \<Rightarrow> ('fs, 'a) vfs_state_scheme \<Rightarrow> ('fs, 'a) vfs_state_scheme" where
  "vfs_open_file_incref raw s =
     (if raw < 0 \<or> int VFS_MAX_OPEN_FILES \<le> raw then s
      else if 0 < f_refcount (open_files s (nat raw))
      then upd_of (nat raw) (\<lambda>f. f\<lparr>f_refcount := f_refcount f + 1\<rparr>) s else s)"

definition vfs_mount_ext2_at :: "string option \<Rightarrow> bool \<Rightarrow> ('fs, 'a) vfs_state_scheme \<Rightarrow> ('fs, 'a) vfs_state_scheme \<times> unit res" where
  "vfs_mount_ext2_at target ext2_is_mounted s =
     (if target = None then (s, Inl EINVAL)
      else if \<not> ext2_is_mounted then (s, Inl ENODEV)
      else (case vfs_mount target (Some FS_EXT2) 2 (mounts s) of (m, r) \<Rightarrow> (s\<lparr>mounts := m\<rparr>, r)))"

section \<open>Descriptors\<close>

definition cur :: "'a kstate_scheme \<Rightarrow> nat" where
  "cur s = get_current_process s"

definition fd_resolve_slot :: "int \<Rightarrow> nat option" where
  "fd_resolve_slot fd = (if fd < 0 \<or> int MAX_OPEN_FILES_CONST \<le> fd then None else Some (nat fd))"

definition fd_to_of_idx_locked :: "int \<Rightarrow> ('fs, 'a) vfs_state_scheme \<Rightarrow> nat option" where
  "fd_to_of_idx_locked fd s =
     (case fd_resolve_slot fd of
        None \<Rightarrow> None
      | Some i \<Rightarrow>
          let o_idx = of_idx (fdt s (cur s) i); raw = unat (o_idx - 1)
          in if o_idx = 0 then None
             else if VFS_MAX_OPEN_FILES \<le> raw \<or> f_refcount (open_files s raw) = 0 then None
             else Some raw)"

definition find_free_fd :: "'a kstate_scheme \<Rightarrow> nat option" where
  "find_free_fd s = find (\<lambda>i. of_idx (fdt s (cur s) i) = 0) [3..<MAX_OPEN_FILES_CONST]"

section \<open>Opening and closing\<close>

text \<open>The part of \<open>vfs_open\<close> that finds or creates the inode.\<close>

definition open_inode ::
  "(fs_id \<Rightarrow> 'fs fs_ops) \<Rightarrow> string \<Rightarrow> u32 \<Rightarrow> u32 \<Rightarrow> ('fs, 'a) vfs_state_scheme
    \<Rightarrow> ('fs, 'a) vfs_state_scheme \<times> (nat \<times> nat) res" where
  "open_inode vt apath flags mode s =
     (case vfs_resolve_path vt (fs s) (mounts s) apath of
        Inr (m, ino) \<Rightarrow> (s, Inr (m, ino))
      | Inl e \<Rightarrow>
          if e = ENOENT \<and> flags AND O_CREAT \<noteq> 0 then
            (case vfs_resolve_parent_and_leaf vt (fs s) (mounts s) apath of
               Inl e' \<Rightarrow> (s, Inl e')
             | Inr (m, parent, leaf) \<Rightarrow>
                 (case op_create (vt (mnt_ops (mounts s m))) of
                    None \<Rightarrow> (s, Inl ENOSYS)
                  | Some create \<Rightarrow>
                      (case create parent leaf mode (fs s) of
                         (f, Inl e') \<Rightarrow> (s\<lparr>fs := f\<rparr>, Inl e')
                       | (f, Inr ino) \<Rightarrow> (s\<lparr>fs := f\<rparr>, Inr (m, ino)))))
          else (s, Inl e))"

text \<open>The open file and the descriptor for the inode.\<close>

definition open_start_pos :: "'fs fs_ops \<Rightarrow> nat \<Rightarrow> u32 \<Rightarrow> 'fs \<Rightarrow> u32" where
  "open_start_pos ops ino flags x =
     (if flags AND O_APPEND \<noteq> 0
      then (case op_stat ops of
              None \<Rightarrow> 0
            | Some st \<Rightarrow> (case st x ino of Inl _ \<Rightarrow> 0 | Inr k \<Rightarrow> of_nat (st_size k)))
      else 0)"

definition open_install ::
  "(fs_id \<Rightarrow> 'fs fs_ops) \<Rightarrow> fs_id \<Rightarrow> nat \<Rightarrow> u32 \<Rightarrow> ('fs, 'a) vfs_state_scheme
    \<Rightarrow> ('fs, 'a) vfs_state_scheme \<times> nat res" where
  "open_install vt ops ino flags s =
     (case vfs_alloc_open_file s of
        (s, Inl e) \<Rightarrow> (s, Inl EMFILE)
      | (s, Inr i) \<Rightarrow>
          let s = upd_of i (\<lambda>f. f\<lparr>f_inode := ino, f_pos := open_start_pos (vt ops) ino flags (fs s),
                    f_flags := flags, f_fs := Some ops\<rparr>) s
          in case find_free_fd s of
               None \<Rightarrow> (vfs_free_open_file i s, Inl EMFILE)
             | Some fd \<Rightarrow>
                 let s = set_fd (cur s) fd
                           (\<lambda>_. \<lparr>of_idx = of_nat i + 1, fd_offset = 0, fd_flags = flags, fd_refcount = 1\<rparr>) s;
                     s = (case op_inc_open (vt ops) of None \<Rightarrow> s | Some inc \<Rightarrow> s\<lparr>fs := inc ino (fs s)\<rparr>)
                 in (s, Inr fd))"

definition vfs_open ::
  "(fs_id \<Rightarrow> 'fs fs_ops) \<Rightarrow> string option \<Rightarrow> u32 \<Rightarrow> u32 \<Rightarrow> ('fs, 'a) vfs_state_scheme
    \<Rightarrow> ('fs, 'a) vfs_state_scheme \<times> nat res" where
  "vfs_open vt pathname flags mode s =
     (if pathname = None then (s, Inl EINVAL)
      else if flags AND NOT VFS_OPEN_SUPPORTED_FLAGS \<noteq> 0 then (s, Inl EINVAL)
      else if flags AND O_ACCMODE = O_ACCMODE then (s, Inl EINVAL)
      else (case vfs_make_abs_path pathname (p_cwd (procs s (cur s))) 512 of
        Inl e \<Rightarrow> (s, Inl e)
      | Inr apath \<Rightarrow>
          (case open_inode vt apath flags mode s of
             (s, Inl e) \<Rightarrow> (s, Inl e)
           | (s, Inr (m, ino)) \<Rightarrow>
               let ops = mnt_ops (mounts s m);
                   s = (case op_truncate (vt ops) of
                          Some tr \<Rightarrow> if flags AND O_TRUNC \<noteq> 0 then s\<lparr>fs := fst (tr ino 0 (fs s))\<rparr> else s
                        | None \<Rightarrow> s)
               in open_install vt ops ino flags s)))"

text \<open>What the last close of an open file does to its file system.\<close>

definition last_close :: "(fs_id \<Rightarrow> 'fs fs_ops) \<Rightarrow> open_file \<Rightarrow> 'fs \<Rightarrow> 'fs" where
  "last_close vt f x =
     (case f_fs f of
        None \<Rightarrow> x
      | Some k \<Rightarrow>
          let ops = vt k; ino = f_inode f;
              x = (case op_dec_open ops of None \<Rightarrow> x | Some dec \<Rightarrow> dec ino x)
          in case (op_get_open ops, op_release ops, op_stat ops) of
               (Some get, Some rel, Some st) \<Rightarrow>
                 if get x ino = 0 then
                   (case st x ino of Inr k \<Rightarrow> if st_nlink k = 0 then rel ino x else x | Inl _ \<Rightarrow> x)
                 else x
             | _ \<Rightarrow> x)"

definition vfs_close_locked :: "(fs_id \<Rightarrow> 'fs fs_ops) \<Rightarrow> int \<Rightarrow> ('fs, 'a) vfs_state_scheme \<Rightarrow> ('fs, 'a) vfs_state_scheme" where
  "vfs_close_locked vt fd s =
     (if fd < 0 then s
      else (case fd_resolve_slot fd of
        None \<Rightarrow> s
      | Some i \<Rightarrow>
          let o_idx = of_idx (fdt s (cur s) i)
          in if o_idx = 0 then s
             else
               let k = unat (o_idx - 1);
                   s = (if k < VFS_MAX_OPEN_FILES \<and> 0 < f_refcount (open_files s k) then
                          let s = upd_of k (\<lambda>f. f\<lparr>f_refcount := f_refcount f - 1\<rparr>) s
                          in if f_refcount (open_files s k) = 0
                             then vfs_free_open_file k (s\<lparr>fs := last_close vt (open_files s k) (fs s)\<rparr>) else s
                        else s)
               in set_fd (cur s) i (\<lambda>_. no_fd) s))"

definition vfs_close :: "(fs_id \<Rightarrow> 'fs fs_ops) \<Rightarrow> int \<Rightarrow> ('fs, 'a) vfs_state_scheme \<Rightarrow> ('fs, 'a) vfs_state_scheme" where
  "vfs_close vt fd s = (if fd < 0 then s else vfs_close_locked vt fd s)"

section \<open>Reading, writing and seeking\<close>

definition vfs_read ::
  "(fs_id \<Rightarrow> 'fs fs_ops) \<Rightarrow> int \<Rightarrow> byte list option \<Rightarrow> u32 \<Rightarrow> ('fs, 'a) vfs_state_scheme
    \<Rightarrow> ('fs, 'a) vfs_state_scheme \<times> byte list res" where
  "vfs_read vt fd buf count s =
     (case buf of
        None \<Rightarrow> (s, Inl EINVAL)
      | Some b \<Rightarrow>
          (case fd_to_of_idx_locked fd s of
             None \<Rightarrow> (s, Inl EBADF)
           | Some i \<Rightarrow>
               let f = open_files s i
               in if f_flags f AND O_ACCMODE = O_WRONLY then (s, Inl EBADF)
                  else (case Option.bind (f_fs f) (\<lambda>k. op_read (vt k)) of
                          None \<Rightarrow> (s, Inl ENOSYS)
                        | Some rd \<Rightarrow>
                            (case rd (fs s) (f_inode f) b count (f_pos f) of
                               Inl e \<Rightarrow> (s, Inl e)
                             | Inr xs \<Rightarrow> (upd_of i (\<lambda>f. f\<lparr>f_pos := f_pos f + of_nat (length xs)\<rparr>) s, Inr xs)))))"

definition vfs_write ::
  "(fs_id \<Rightarrow> 'fs fs_ops) \<Rightarrow> int \<Rightarrow> byte list option \<Rightarrow> ('fs, 'a) vfs_state_scheme
    \<Rightarrow> ('fs, 'a) vfs_state_scheme \<times> nat res" where
  "vfs_write vt fd buf s =
     (case buf of
        None \<Rightarrow> (s, Inl EINVAL)
      | Some xs \<Rightarrow>
          if xs = [] then (s, Inr 0)
          else (case fd_to_of_idx_locked fd s of
             None \<Rightarrow> (s, Inl EBADF)
           | Some i \<Rightarrow>
               let f = open_files s i
               in if f_flags f AND O_ACCMODE = O_RDONLY then (s, Inl EBADF)
                  else (case f_fs f of
                          None \<Rightarrow> (s, Inl ENOSYS)
                        | Some k \<Rightarrow>
                            (case op_write (vt k) of
                               None \<Rightarrow> (s, Inl ENOSYS)
                             | Some wr \<Rightarrow>
                                 let s = (if f_flags f AND O_APPEND \<noteq> 0
                                          then (case op_stat (vt k) of
                                                  None \<Rightarrow> s
                                                | Some st \<Rightarrow>
                                                    (case st (fs s) (f_inode f) of
                                                       Inl _ \<Rightarrow> s
                                                     | Inr a \<Rightarrow> upd_of i (\<lambda>f. f\<lparr>f_pos := of_nat (st_size a)\<rparr>) s))
                                          else s)
                                 in case wr (f_inode f) xs (f_pos (open_files s i)) (fs s) of
                                      (x, Inl e) \<Rightarrow> (s\<lparr>fs := x\<rparr>, Inl e)
                                    | (x, Inr n) \<Rightarrow>
                                        (upd_of i (\<lambda>f. f\<lparr>f_pos := f_pos f + of_nat n\<rparr>) (s\<lparr>fs := x\<rparr>), Inr n)))))"

text \<open>
  Offsets are 32-bit two's complement words.  The C addition of a signed position and a signed offset
  is undefined where it overflows; the model takes the wrapped sum.
\<close>

definition vfs_lseek ::
  "(fs_id \<Rightarrow> 'fs fs_ops) \<Rightarrow> int \<Rightarrow> u32 \<Rightarrow> int \<Rightarrow> ('fs, 'a) vfs_state_scheme
    \<Rightarrow> ('fs, 'a) vfs_state_scheme \<times> u32 res" where
  "vfs_lseek vt fd offset whence s =
     (case fd_to_of_idx_locked fd s of
        None \<Rightarrow> (s, Inl EBADF)
      | Some i \<Rightarrow>
          let f = open_files s i;
              file_end = (case Option.bind (f_fs f) (\<lambda>k. op_stat (vt k)) of
                 None \<Rightarrow> 0
               | Some st \<Rightarrow> (case st (fs s) (f_inode f) of Inl _ \<Rightarrow> 0 | Inr a \<Rightarrow> of_nat (st_size a)))
          in if whence \<notin> {0, 1, 2} then (s, Inl EINVAL)
             else
               let new_pos = (if whence = 0 then offset else if whence = 1 then f_pos f + offset else file_end + offset)
               in if sint new_pos < 0 then (s, Inl EINVAL)
                  else (upd_of i (\<lambda>f. f\<lparr>f_pos := new_pos\<rparr>) s, Inr new_pos))"

definition vfs_stat :: "(fs_id \<Rightarrow> 'fs fs_ops) \<Rightarrow> string option \<Rightarrow> bool \<Rightarrow> ('fs, 'a) vfs_state_scheme \<Rightarrow> kstat res" where
  "vfs_stat vt path st_null s =
     (if path = None \<or> st_null then Inl EINVAL
      else (case vfs_make_abs_path path (p_cwd (procs s (cur s))) 512 of
        Inl e \<Rightarrow> Inl e
      | Inr apath \<Rightarrow>
          (case vfs_resolve_path vt (fs s) (mounts s) apath of
             Inl e \<Rightarrow> Inl e
           | Inr (m, ino) \<Rightarrow>
               (case op_stat (vt (mnt_ops (mounts s m))) of None \<Rightarrow> Inl ENOSYS | Some st \<Rightarrow> st (fs s) ino))))"

definition vfs_fstat :: "(fs_id \<Rightarrow> 'fs fs_ops) \<Rightarrow> int \<Rightarrow> bool \<Rightarrow> ('fs, 'a) vfs_state_scheme \<Rightarrow> kstat res" where
  "vfs_fstat vt fd st_null s =
     (if st_null then Inl EINVAL
      else (case fd_to_of_idx_locked fd s of
        None \<Rightarrow> Inl EBADF
      | Some i \<Rightarrow>
          (case Option.bind (f_fs (open_files s i)) (\<lambda>k. op_stat (vt k)) of
             None \<Rightarrow> Inl ENOSYS
           | Some st \<Rightarrow> (case st (fs s) (f_inode (open_files s i)) of Inl _ \<Rightarrow> Inl EBADF | Inr a \<Rightarrow> Inr a))))"

section \<open>Duplication\<close>

text \<open>
  The increment of \<open>open_files[of_idx - 1]\<close> has no range check; the model's array is a
  function, so that an index from 64 on is visible as a change outside the table.
\<close>

definition vfs_dup :: "int \<Rightarrow> ('fs, 'a) vfs_state_scheme \<Rightarrow> ('fs, 'a) vfs_state_scheme \<times> nat res" where
  "vfs_dup oldfd s =
     (if oldfd < 0 \<or> int MAX_OPEN_FILES_CONST \<le> oldfd then (s, Inl EBADF)
      else
        let slot = fdt s (cur s) (nat oldfd)
        in if of_idx slot = 0 then (s, Inl EBADF)
           else (case find_free_fd s of
                   None \<Rightarrow> (s, Inl EMFILE)
                 | Some newfd \<Rightarrow>
                     (upd_of (unat (of_idx slot - 1)) (\<lambda>f. f\<lparr>f_refcount := f_refcount f + 1\<rparr>)
                        (set_fd (cur s) newfd (\<lambda>_. slot) s), Inr newfd)))"

definition vfs_dup2 ::
  "(fs_id \<Rightarrow> 'fs fs_ops) \<Rightarrow> int \<Rightarrow> int \<Rightarrow> ('fs, 'a) vfs_state_scheme \<Rightarrow> ('fs, 'a) vfs_state_scheme \<times> nat res" where
  "vfs_dup2 vt oldfd newfd s =
     (if oldfd < 0 \<or> newfd < 0 then (s, Inl EBADF)
      else if int MAX_OPEN_FILES_CONST \<le> oldfd \<or> int MAX_OPEN_FILES_CONST \<le> newfd then (s, Inl EBADF)
      else if oldfd = newfd then (s, Inr (nat newfd))
      else
        let slot = fdt s (cur s) (nat oldfd)
        in if of_idx slot = 0 then (s, Inl EBADF)
           else
             let s = (if of_idx (fdt s (cur s) (nat newfd)) \<noteq> 0 then vfs_close_locked vt newfd s else s)
             in (upd_of (unat (of_idx slot - 1)) (\<lambda>f. f\<lparr>f_refcount := f_refcount f + 1\<rparr>)
                   (set_fd (cur s) (nat newfd) (\<lambda>_. fdt s (cur s) (nat oldfd)) s), Inr (nat newfd)))"

section \<open>Directories, truncation and positioned reads\<close>

definition vfs_readdir_fd ::
  "(fs_id \<Rightarrow> 'fs fs_ops) \<Rightarrow> int \<Rightarrow> bool \<Rightarrow> nat \<Rightarrow> ('fs, 'a) vfs_state_scheme
    \<Rightarrow> ('fs, 'a) vfs_state_scheme \<times> dirent list res" where
  "vfs_readdir_fd vt fd buf_null sz s =
     (if buf_null then (s, Inl EINVAL)
      else (case fd_to_of_idx_locked fd s of
        None \<Rightarrow> (s, Inl EBADF)
      | Some i \<Rightarrow>
          let f = open_files s i
          in case Option.bind (f_fs f) (\<lambda>k. op_readdir (vt k)) of
               None \<Rightarrow> (s, Inl ENOSYS)
             | Some rd \<Rightarrow>
                 (case rd (fs s) (f_inode f) sz (unat (f_pos f)) of
                    Inl e \<Rightarrow> (s, Inl e)
                  | Inr (ents, pos) \<Rightarrow> (upd_of i (\<lambda>f. f\<lparr>f_pos := of_nat pos\<rparr>) s, Inr ents))))"

definition vfs_ftruncate ::
  "(fs_id \<Rightarrow> 'fs fs_ops) \<Rightarrow> int \<Rightarrow> u32 \<Rightarrow> ('fs, 'a) vfs_state_scheme
    \<Rightarrow> ('fs, 'a) vfs_state_scheme \<times> unit res" where
  "vfs_ftruncate vt fd len s =
     (case fd_to_of_idx_locked fd s of
        None \<Rightarrow> (s, Inl EBADF)
      | Some i \<Rightarrow>
          (case Option.bind (f_fs (open_files s i)) (\<lambda>k. op_truncate (vt k)) of
             None \<Rightarrow> (s, Inl ENOSYS)
           | Some tr \<Rightarrow> (case tr (f_inode (open_files s i)) len (fs s) of (x, r) \<Rightarrow> (s\<lparr>fs := x\<rparr>, r))))"

definition vfs_pread ::
  "(fs_id \<Rightarrow> 'fs fs_ops) \<Rightarrow> int \<Rightarrow> byte list option \<Rightarrow> u32 \<Rightarrow> u32 \<Rightarrow> ('fs, 'a) vfs_state_scheme \<Rightarrow> byte list res" where
  "vfs_pread vt fd buf count offset s =
     (case buf of
        None \<Rightarrow> Inl EINVAL
      | Some b \<Rightarrow>
          (case fd_to_of_idx_locked fd s of
             None \<Rightarrow> Inl EBADF
           | Some i \<Rightarrow>
               (case Option.bind (f_fs (open_files s i)) (\<lambda>k. op_read (vt k)) of
                  None \<Rightarrow> Inl ENOSYS
                | Some rd \<Rightarrow> rd (fs s) (f_inode (open_files s i)) b count offset)))"

datatype fd_kind = FD_KIND_INVALID | FD_KIND_CONSOLE | FD_KIND_PIPE u32 | FD_KIND_VFS

definition vfs_fd_kind :: "int \<Rightarrow> 'a kstate_scheme \<Rightarrow> fd_kind" where
  "vfs_fd_kind fd s =
     (if fd < 0 \<or> int MAX_OPEN_FILES_CONST \<le> fd then FD_KIND_INVALID
      else
        let o_idx = of_idx (fdt s (cur s) (nat fd))
        in if o_idx = CONSOLE_INODE_MAGIC then FD_KIND_CONSOLE
           else if PIPE_FD_BASE \<le> o_idx then FD_KIND_PIPE (o_idx - PIPE_FD_BASE)
           else if o_idx = 0 then FD_KIND_INVALID
           else FD_KIND_VFS)"

text \<open>\<open>rf\<close> is the part of the state of the file systems that is the ramfs.\<close>

definition vfs_get_path_by_fd :: "('fs \<Rightarrow> ramfs) \<Rightarrow> int \<Rightarrow> ('fs, 'a) vfs_state_scheme \<Rightarrow> string option" where
  "vfs_get_path_by_fd rf fd s =
     (if fd < 0 \<or> int MAX_OPEN_FILES_CONST \<le> fd then None
      else
        let o_idx = of_idx (fdt s (cur s) (nat fd)); k = unat (o_idx - 1)
        in if o_idx = 0 then None
           else if VFS_MAX_OPEN_FILES \<le> k then None
           else if f_fs (open_files s k) \<noteq> Some FS_RAMFS then None
           else if RAMFS_MAX_INODES \<le> f_inode (open_files s k) then None
           else Some (i_name (ramfs_get_inode (rf (fs s)) (f_inode (open_files s k)))))"

section \<open>Path calls\<close>

definition vfs_mkdir ::
  "(fs_id \<Rightarrow> 'fs fs_ops) \<Rightarrow> string option \<Rightarrow> u32 \<Rightarrow> ('fs, 'a) vfs_state_scheme
    \<Rightarrow> ('fs, 'a) vfs_state_scheme \<times> unit res" where
  "vfs_mkdir vt pathname mode s =
     (case pathname of
        None \<Rightarrow> (s, Inl EINVAL)
      | Some p \<Rightarrow>
          if p = [] \<or> hd p \<noteq> slash then (s, Inl EINVAL)
          else (case vfs_resolve_parent_and_leaf vt (fs s) (mounts s) p of
                  Inl e \<Rightarrow> (s, Inl e)
                | Inr (m, parent, leaf) \<Rightarrow>
                    (case op_mkdir (vt (mnt_ops (mounts s m))) of
                       None \<Rightarrow> (s, Inl ENOSYS)
                     | Some mk \<Rightarrow>
                         (case mk parent leaf mode (fs s) of
                            (x, Inl e) \<Rightarrow> (s\<lparr>fs := x\<rparr>, Inl e)
                          | (x, Inr _) \<Rightarrow> (s\<lparr>fs := x\<rparr>, Inr ())))))"

definition vfs_unlink ::
  "(fs_id \<Rightarrow> 'fs fs_ops) \<Rightarrow> string option \<Rightarrow> ('fs, 'a) vfs_state_scheme
    \<Rightarrow> ('fs, 'a) vfs_state_scheme \<times> unit res" where
  "vfs_unlink vt path s =
     (case make_abs_path path (p_cwd (procs s (cur s))) 512 of
        Inl e \<Rightarrow> (s, Inl e)
      | Inr apath \<Rightarrow>
          (case vfs_resolve_parent_and_leaf vt (fs s) (mounts s) apath of
             Inl e \<Rightarrow> (s, Inl e)
           | Inr (m, parent, leaf) \<Rightarrow>
               (case op_unlink (vt (mnt_ops (mounts s m))) of
                  None \<Rightarrow> (s, Inl ENOSYS)
                | Some ul \<Rightarrow>
                    (case ul parent leaf (fs s) of
                       (x, Inl e) \<Rightarrow> (s\<lparr>fs := x\<rparr>, Inl e)
                     | (x, Inr _) \<Rightarrow> (s\<lparr>fs := x, dcache := dcache_invalidate path (dcache s)\<rparr>, Inr ())))))"

definition vfs_rename ::
  "(fs_id \<Rightarrow> 'fs fs_ops) \<Rightarrow> string option \<Rightarrow> string option \<Rightarrow> ('fs, 'a) vfs_state_scheme
    \<Rightarrow> ('fs, 'a) vfs_state_scheme \<times> unit res" where
  "vfs_rename vt oldpath newpath s =
     (if oldpath = None \<or> newpath = None then (s, Inl EINVAL)
      else (case make_abs_path oldpath (p_cwd (procs s (cur s))) 512 of
        Inl e \<Rightarrow> (s, Inl e)
      | Inr old_abs \<Rightarrow>
      (case make_abs_path newpath (p_cwd (procs s (cur s))) 512 of
        Inl e \<Rightarrow> (s, Inl e)
      | Inr new_abs \<Rightarrow>
      (case vfs_resolve_parent_and_leaf vt (fs s) (mounts s) old_abs of
        Inl e \<Rightarrow> (s, Inl e)
      | Inr (mnt_old, old_parent, old_leaf) \<Rightarrow>
      (case vfs_resolve_parent_and_leaf vt (fs s) (mounts s) new_abs of
        Inl e \<Rightarrow> (s, Inl e)
      | Inr (mnt_new, new_parent, new_leaf) \<Rightarrow>
          if mnt_old \<noteq> mnt_new then (s, Inl EXDEV)
          else (case op_rename (vt (mnt_ops (mounts s mnt_old))) of
                  None \<Rightarrow> (s, Inl ENOSYS)
                | Some rn \<Rightarrow>
                    (case rn old_parent old_leaf new_parent new_leaf (fs s) of
                       (x, Inl e) \<Rightarrow> (s\<lparr>fs := x\<rparr>, Inl e)
                     | (x, Inr _) \<Rightarrow>
                         (s\<lparr>fs := x, dcache := dcache_invalidate newpath (dcache_invalidate oldpath (dcache s))\<rparr>,
                          Inr ()))))))))"

definition vfs_rmdir ::
  "(fs_id \<Rightarrow> 'fs fs_ops) \<Rightarrow> string option \<Rightarrow> ('fs, 'a) vfs_state_scheme
    \<Rightarrow> ('fs, 'a) vfs_state_scheme \<times> unit res" where
  "vfs_rmdir vt path s =
     (case make_abs_path path (p_cwd (procs s (cur s))) 512 of
        Inl e \<Rightarrow> (s, Inl e)
      | Inr apath \<Rightarrow>
          (case vfs_resolve_parent_and_leaf vt (fs s) (mounts s) apath of
             Inl e \<Rightarrow> (s, Inl e)
           | Inr (m, parent, leaf) \<Rightarrow>
               let ops = vt (mnt_ops (mounts s m))
               in case op_rmdir ops of
                    None \<Rightarrow> (s, Inl ENOSYS)
                  | Some rm \<Rightarrow>
                      let child = (case op_resolve ops of None \<Rightarrow> 0 | Some res \<Rightarrow> res (fs s) parent leaf)
                      in if child = 0 then (s, Inl ENOENT)
                         else if (case op_readdir ops of
                                    None \<Rightarrow> False
                                  | Some rd \<Rightarrow>
                                      (case rd (fs s) child 64 0 of
                                         Inl _ \<Rightarrow> False
                                       | Inr (ents, _) \<Rightarrow> 0 < sum_list (map d_reclen ents)))
                         then (s, Inl ENOTEMPTY)
                         else (case rm parent leaf (fs s) of
                                 (x, Inl e) \<Rightarrow> (s\<lparr>fs := x\<rparr>, Inl e)
                               | (x, Inr _) \<Rightarrow>
                                   (s\<lparr>fs := x, dcache := dcache_invalidate path (dcache s)\<rparr>, Inr ()))))"

definition vfs_truncate ::
  "(fs_id \<Rightarrow> 'fs fs_ops) \<Rightarrow> string option \<Rightarrow> u32 \<Rightarrow> ('fs, 'a) vfs_state_scheme
    \<Rightarrow> ('fs, 'a) vfs_state_scheme \<times> unit res" where
  "vfs_truncate vt path len s =
     (case make_abs_path path (p_cwd (procs s (cur s))) 512 of
        Inl e \<Rightarrow> (s, Inl e)
      | Inr apath \<Rightarrow>
          (case vfs_resolve_path vt (fs s) (mounts s) apath of
             Inl e \<Rightarrow> (s, Inl e)
           | Inr (m, ino) \<Rightarrow>
               (case op_truncate (vt (mnt_ops (mounts s m))) of
                  None \<Rightarrow> (s, Inl ENOSYS)
                | Some tr \<Rightarrow> (case tr ino len (fs s) of (x, r) \<Rightarrow> (s\<lparr>fs := x\<rparr>, r)))))"

definition vfs_chmod ::
  "(fs_id \<Rightarrow> 'fs fs_ops) \<Rightarrow> string option \<Rightarrow> u32 \<Rightarrow> ('fs, 'a) vfs_state_scheme
    \<Rightarrow> ('fs, 'a) vfs_state_scheme \<times> unit res" where
  "vfs_chmod vt path mode s =
     (case make_abs_path path (p_cwd (procs s (cur s))) 512 of
        Inl e \<Rightarrow> (s, Inl e)
      | Inr apath \<Rightarrow>
          (case vfs_resolve_path vt (fs s) (mounts s) apath of
             Inl e \<Rightarrow> (s, Inl e)
           | Inr (m, ino) \<Rightarrow>
               let ops = vt (mnt_ops (mounts s m))
               in case (op_stat ops, op_chmod ops) of
                    (Some st, Some ch) \<Rightarrow>
                      (case st (fs s) ino of
                         Inl _ \<Rightarrow> (s, Inl ENOENT)
                       | Inr a \<Rightarrow>
                           if p_euid (procs s (cur s)) \<noteq> 0 \<and> p_euid (procs s (cur s)) \<noteq> ucast (st_uid a)
                           then (s, Inl EPERM)
                           else (case ch ino (mode AND 0xFFF) (fs s) of (x, r) \<Rightarrow> (s\<lparr>fs := x\<rparr>, r)))
                  | _ \<Rightarrow> (s, Inl ENOSYS)))"

definition vfs_chown ::
  "(fs_id \<Rightarrow> 'fs fs_ops) \<Rightarrow> string option \<Rightarrow> u32 \<Rightarrow> u32 \<Rightarrow> ('fs, 'a) vfs_state_scheme
    \<Rightarrow> ('fs, 'a) vfs_state_scheme \<times> unit res" where
  "vfs_chown vt path uid gid s =
     (case make_abs_path path (p_cwd (procs s (cur s))) 512 of
        Inl e \<Rightarrow> (s, Inl e)
      | Inr apath \<Rightarrow>
          (case vfs_resolve_path vt (fs s) (mounts s) apath of
             Inl e \<Rightarrow> (s, Inl e)
           | Inr (m, ino) \<Rightarrow>
               (case op_chown (vt (mnt_ops (mounts s m))) of
                  None \<Rightarrow> (s, Inl ENOSYS)
                | Some ch \<Rightarrow>
                    if p_euid (procs s (cur s)) \<noteq> 0 then (s, Inl EPERM)
                    else (case ch ino uid gid (fs s) of (x, r) \<Rightarrow> (s\<lparr>fs := x\<rparr>, r)))))"

text \<open>The working directory has 256 bytes; a longer path is cut without an error.\<close>

definition vfs_chdir ::
  "(fs_id \<Rightarrow> 'fs fs_ops) \<Rightarrow> string option \<Rightarrow> ('fs, 'a) vfs_state_scheme
    \<Rightarrow> ('fs, 'a) vfs_state_scheme \<times> unit res" where
  "vfs_chdir vt path s =
     (case make_abs_path path (p_cwd (procs s (cur s))) 512 of
        Inl e \<Rightarrow> (s, Inl e)
      | Inr apath \<Rightarrow>
          (case vfs_resolve_path vt (fs s) (mounts s) apath of
             Inl e \<Rightarrow> (s, Inl e)
           | Inr (m, ino) \<Rightarrow>
               (case op_stat (vt (mnt_ops (mounts s m))) of
                  None \<Rightarrow> (s, Inl ENOSYS)
                | Some st \<Rightarrow>
                    (case st (fs s) ino of
                       Inl _ \<Rightarrow> (s, Inl ENOENT)
                     | Inr a \<Rightarrow>
                         if st_mode a AND 0xF000 \<noteq> 0x4000 then (s, Inl ENOTDIR)
                         else (upd_proc (cur s) (\<lambda>p. p\<lparr>p_cwd := take 255 apath\<rparr>) s, Inr ())))))"

section \<open>Projections\<close>

lemma upd_of_simps [simp]:
  "procs (upd_of i f s) = procs s" "open_files (upd_of i f s) = (open_files s)(i := f (open_files s i))"
  "mounts (upd_of i f s) = mounts s" "fs (upd_of i f s) = fs s" "dcache (upd_of i f s) = dcache s"
  "get_current_process (upd_of i f s) = get_current_process s"
  by (simp_all add: upd_of_def get_current_process_def current_process_def)

lemma set_fd_vfs [simp]:
  "open_files (set_fd c i f s) = open_files s" "mounts (set_fd c i f s) = mounts s" "fs (set_fd c i f s) = fs s"
  "dcache (set_fd c i f s) = dcache s"
  by (simp_all add: set_fd_def upd_proc_def)

lemma cur_simps [simp]:
  "cur (set_fd c i f t) = cur t" "cur (upd_of i g s) = cur s" "cur (s\<lparr>fs := x\<rparr>) = cur s"
  by (simp_all add: cur_def) (simp add: get_current_process_def current_process_def)

lemma ramfs_ops_simps [simp]:
  "op_resolve (ramfs_ops mem) = Some ramfs_op_resolve" "op_read (ramfs_ops mem) = Some ramfs_read_data"
  "op_write (ramfs_ops mem) = Some (ramfs_write_data mem)" "op_stat (ramfs_ops mem) = Some ramfs_op_stat"
  "op_readdir (ramfs_ops mem) = Some ramfs_op_readdir" "op_mkdir (ramfs_ops mem) = Some ramfs_create_dir"
  "op_create (ramfs_ops mem) = Some ramfs_create_file" "op_unlink (ramfs_ops mem) = Some ramfs_op_unlink"
  "op_rmdir (ramfs_ops mem) = Some ramfs_op_rmdir" "op_truncate (ramfs_ops mem) = Some (ramfs_truncate_inode mem)"
  "op_chmod (ramfs_ops mem) = Some ramfs_set_mode" "op_chown (ramfs_ops mem) = Some ramfs_set_owner"
  "op_rename (ramfs_ops mem) = Some ramfs_op_rename" "op_inc_open (ramfs_ops mem) = Some ramfs_inc_open_count"
  "op_dec_open (ramfs_ops mem) = Some ramfs_dec_open_count" "op_get_open (ramfs_ops mem) = Some ramfs_get_open_count"
  "op_release (ramfs_ops mem) = Some ramfs_free_inode"
  by (simp_all add: ramfs_ops_def)

text \<open>The last close of a file of the ramfs is the close of the runs in \<open>Ramfs\<close>.\<close>

lemma last_close_ramfs:
  "f_fs f = Some k \<Longrightarrow> vt k = ramfs_ops mem \<Longrightarrow> last_close vt f x = ramfs_last_close (f_inode f) x"
  by (simp add: last_close_def ramfs_last_close_def Let_def ramfs_op_stat_def split: option.splits)

section \<open>A booted system\<close>

text \<open>The state after \<open>vfs_init\<close>, before the first process is created.\<close>

definition vfs_booted :: "ramfs vfs_state" where
  "vfs_booted = fst (vfs_init (\<lambda>_. ramfs_init) (kstate.extend kstate_boot
     \<lparr>pipe_heap = (\<lambda>_. \<lparr>pb_data = (\<lambda>_. 0), pb_size = 0, read_pos = 0, write_pos = 0, pb_count = 0, readers = 0,
        writers = 0, pb_flags = 0, rd_wq = [], wr_wq = []\<rparr>),
      pipe_live = (\<lambda>_. False), pipe_table = hash_table_init [], next_pipe_id = 0, active_pipes = 0,
      mounts = (\<lambda>_. \<lparr>mnt_target = [], mnt_ops = FS_RAMFS, root_inode = 0, in_use = False\<rparr>),
      open_files = (\<lambda>_. zero_open_file), dcache = (\<lambda>_. None), fs = \<lparr>inode_table = (\<lambda>_. zero_inode), inode_open_count = (\<lambda>_. 0)\<rparr>\<rparr>))"

lemma vfs_booted_facts:
  "mounts vfs_booted = (\<lambda>_. \<lparr>mnt_target = [], mnt_ops = FS_RAMFS, root_inode = 0, in_use = False\<rparr>)(
     0 := \<lparr>mnt_target = ''/'', mnt_ops = FS_RAMFS, root_inode = 1, in_use = True\<rparr>)"
  "open_files vfs_booted = (\<lambda>_. zero_open_file)" "fs vfs_booted = ramfs_init" "procs vfs_booted = (\<lambda>_. zero_process)"
  "cur vfs_booted = 0"
  by (simp_all add: vfs_booted_def vfs_init_def vfs_mount_def mount_target_valid_def kernel_const upt8 kstate.defs kstate_boot_def
      ramfs_root_inode_def cur_def get_current_process_def current_process_def boot_cpu_def kernel_proc_def)

lemma resolve_booted:
  "vfs_resolve_mount (slash # p) (mounts vfs_booted) = Inr (0, p)"
  by (simp add: vfs_resolve_mount_def vfs_booted_facts better_mount_def mount_prefix_len_def VFS_MAX_MOUNTS_def upt8 Let_def)

definition vfs_opened :: "ramfs vfs_state" where
  "vfs_opened = fst (vfs_open (\<lambda>_. ramfs_ops True) (Some ''/a'') 0x42 0x1A4 vfs_booted)"

lemma open_inode_booted:
  "open_inode (\<lambda>_. ramfs_ops True) ''/a'' 0x42 0x1A4 vfs_booted = (vfs_booted\<lparr>fs := ramfs_one\<rparr>, Inr (0, 2))"
proof -
  have r: "vfs_resolve_path (\<lambda>_. ramfs_ops True) ramfs_init (mounts vfs_booted) ''/a'' = Inl ENOENT"
    by (simp add: vfs_resolve_path_def resolve_booted) (simp add: vfs_booted_facts resolve_one_def ramfs_op_resolve_def
        ramfs_lookup_child_def ramfs_init_def kernel_const zero_inode_def)
  have "vfs_resolve_path (\<lambda>_. ramfs_ops True) ramfs_init (mounts vfs_booted) ''/'' = Inr (0, 1)"
    by (simp add: vfs_resolve_path_def resolve_booted) (simp add: vfs_booted_facts)
  then have p: "vfs_resolve_parent_and_leaf (\<lambda>_. ramfs_ops True) ramfs_init (mounts vfs_booted) ''/a'' = Inr (0, 1, ''a'')"
    by (simp add: vfs_resolve_parent_and_leaf_def last_slash_def)
  have "ramfs_create_file 1 ''a'' 0x1A4 ramfs_init = (ramfs_one, Inr 2)"
    by (simp add: ramfs_one_def ramfs_create_file_def ramfs_init_def kernel_const zero_inode_def ramfs_alloc_inode_def
        ramfs_add_child_def Let_def)
  then show ?thesis using r p by (simp add: open_inode_def vfs_booted_facts(3) O_CREAT_def)
qed

lemma find_free_booted: "find_free_fd s = Some 3" if "of_idx (fdt s (cur s) 3) = 0"
  using that by (simp add: find_free_fd_def MAX_OPEN_FILES_CONST_def upt_rec)

lemma alloc_booted: "vfs_alloc_open_file (vfs_booted\<lparr>fs := x\<rparr>) =
    (upd_of 0 (\<lambda>_. zero_open_file\<lparr>f_refcount := 1\<rparr>) (vfs_booted\<lparr>fs := x\<rparr>), Inr 0)"
  by (simp add: vfs_alloc_open_file_def vfs_booted_facts zero_open_file_def VFS_MAX_OPEN_FILES_def upt_rec)

lemma open_booted:
  "vfs_open (\<lambda>_. ramfs_ops True) (Some ''/a'') 0x42 0x1A4 vfs_booted = (vfs_opened, Inr 3)"
  "open_files vfs_opened = (\<lambda>_. zero_open_file)(0 := \<lparr>f_inode = 2, f_pos = 0, f_flags = 0x42, f_refcount = 1, f_fs = Some FS_RAMFS\<rparr>)"
  "cur vfs_opened = 0" "fs vfs_opened = ramfs_inc_open_count 2 ramfs_one"
  "procs vfs_opened = (\<lambda>_. zero_process)(0 := zero_process\<lparr>p_fd_table := (\<lambda>_. no_fd)(3 := \<lparr>of_idx = 1, fd_offset = 0, fd_flags = 0x42, fd_refcount = 1\<rparr>)\<rparr>)"
proof -
  have m: "vfs_make_abs_path (Some ''/a'') cwd 512 = Inr ''/a''" for cwd
    by (simp add: vfs_make_abs_path_def)
  have z: "fdt vfs_booted 0 = (\<lambda>_. no_fd)" by (simp add: vfs_booted_facts zero_process_def)
  define t where "t = upd_of 0 (\<lambda>_. \<lparr>f_inode = 2, f_pos = 0, f_flags = 0x42, f_refcount = 1, f_fs = Some FS_RAMFS\<rparr>) (vfs_booted\<lparr>fs := ramfs_one\<rparr>)"
  have o: "open_install (\<lambda>_. ramfs_ops True) FS_RAMFS 2 0x42 (vfs_booted\<lparr>fs := ramfs_one\<rparr>) =
      ((set_fd 0 3 (\<lambda>_. \<lparr>of_idx = 1, fd_offset = 0, fd_flags = 0x42, fd_refcount = 1\<rparr>) t)\<lparr>fs := ramfs_inc_open_count 2 ramfs_one\<rparr>, Inr 3)"
  proof -
    have u: "upd_of 0 (\<lambda>f. f\<lparr>f_inode := 2, f_pos := p, f_flags := 0x42, f_fs := Some FS_RAMFS\<rparr>)
        (upd_of 0 (\<lambda>_. zero_open_file\<lparr>f_refcount := 1\<rparr>) (vfs_booted\<lparr>fs := ramfs_one\<rparr>)) = t" if "p = 0" for p
      by (simp add: that t_def upd_of_def zero_open_file_def)
    have f: "find_free_fd t = Some 3" "cur t = 0" using z by (auto simp: t_def vfs_booted_facts(5) no_fd_def intro!: find_free_booted)
    show ?thesis
      by (simp add: open_install_def alloc_booted Let_def u open_start_pos_def O_APPEND_def f)
        (simp add: t_def)
  qed
  have e: "vfs_open (\<lambda>_. ramfs_ops True) (Some ''/a'') 0x42 0x1A4 vfs_booted =
      ((set_fd 0 3 (\<lambda>_. \<lparr>of_idx = 1, fd_offset = 0, fd_flags = 0x42, fd_refcount = 1\<rparr>) t)\<lparr>fs := ramfs_inc_open_count 2 ramfs_one\<rparr>, Inr 3)"
    by (simp add: vfs_open_def m open_inode_booted kernel_const Let_def o vfs_booted_facts(1))
  show "vfs_open (\<lambda>_. ramfs_ops True) (Some ''/a'') 0x42 0x1A4 vfs_booted = (vfs_opened, Inr 3)"
    by (simp add: vfs_opened_def e)
  show "open_files vfs_opened = (\<lambda>_. zero_open_file)(0 := \<lparr>f_inode = 2, f_pos = 0, f_flags = 0x42, f_refcount = 1, f_fs = Some FS_RAMFS\<rparr>)"
    "cur vfs_opened = 0" "fs vfs_opened = ramfs_inc_open_count 2 ramfs_one"
    "procs vfs_opened = (\<lambda>_. zero_process)(0 := zero_process\<lparr>p_fd_table := (\<lambda>_. no_fd)(3 := \<lparr>of_idx = 1, fd_offset = 0, fd_flags = 0x42, fd_refcount = 1\<rparr>)\<rparr>)"
    by (simp_all add: vfs_opened_def e t_def vfs_booted_facts zero_process_def)
qed

end
