(* ===== verification/Vfs_Refs.thy ===== *)
theory Vfs_Refs
  imports Vfs
begin

text \<open>
  Reference counts of open files: every open file counts the descriptors that refer to it,
  through opening, closing, duplication and input and output.
\<close>

section \<open>Counting descriptors\<close>

text \<open>The descriptors of the processes \<open>A\<close> whose slot holds \<open>v\<close>.\<close>

definition fd_slots :: "nat set \<Rightarrow> 'a kstate_scheme \<Rightarrow> u32 \<Rightarrow> (nat \<times> nat) set" where
  "fd_slots A s v = {(p, i). p \<in> A \<and> i < MAX_OPEN_FILES_CONST \<and> of_idx (fdt s p i) = v}"

text \<open>Every open file counts the descriptors that refer to it.\<close>

definition refs_ok :: "nat set \<Rightarrow> ('fs, 'a) vfs_state_scheme \<Rightarrow> bool" where
  "refs_ok A s \<longleftrightarrow> cur s \<in> A \<and>
     (\<forall>k < VFS_MAX_OPEN_FILES. unat (f_refcount (open_files s k)) = card (fd_slots A s (of_nat k + 1)))"

lemma fd_slots_bound:
  assumes "finite A" "card A \<le> 129"
  shows "finite (fd_slots A s v)" "card (fd_slots A s v) \<le> 129 * 64"
proof -
  have sub: "fd_slots A s v \<subseteq> A \<times> {..<64}" by (auto simp: fd_slots_def kernel_const)
  show "finite (fd_slots A s v)" using sub assms(1) by (meson finite_SigmaI finite_lessThan finite_subset)
  have "card (fd_slots A s v) \<le> card (A \<times> {..<64::nat})" using sub assms(1) by (intro card_mono) auto
  also have "\<dots> \<le> 129 * 64" using assms(2) by (simp add: card_cartesian_product)
  finally show "card (fd_slots A s v) \<le> 129 * 64" .
qed

lemma fd_slots_set_fd:
  assumes "c \<in> A" "i < MAX_OPEN_FILES_CONST"
  shows "fd_slots A (set_fd c i f s) v =
    (if of_idx (f (fdt s c i)) = v then insert (c, i) (fd_slots A s v) else fd_slots A s v - {(c, i)})"
  using assms by (auto simp: fd_slots_def split: if_splits)

lemma fd_slots_cong: "procs s = procs t \<Longrightarrow> fd_slots A s = fd_slots A t"
  by (simp add: fd_slots_def fun_eq_iff)

lemma card_set_fd:
  assumes "finite A" "card A \<le> 129" "c \<in> A" "i < MAX_OPEN_FILES_CONST"
  shows "card (fd_slots A (set_fd c i f s) v) + of_bool (of_idx (fdt s c i) = v) =
    card (fd_slots A s v) + of_bool (of_idx (f (fdt s c i)) = v)"
proof -
  note fin = fd_slots_bound(1)[OF assms(1,2), of s v]
  have mem: "(c, i) \<in> fd_slots A s v \<longleftrightarrow> of_idx (fdt s c i) = v" using assms(3,4) by (simp add: fd_slots_def)
  show ?thesis
  proof (cases "of_idx (f (fdt s c i)) = v")
    case True
    then show ?thesis using fin mem by (simp add: fd_slots_set_fd[OF assms(3,4)] card_insert_if)
  next
    case False
    then show ?thesis using fin mem card_Suc_Diff1[OF fin, of "(c, i)"] by (auto simp: fd_slots_set_fd[OF assms(3,4)])
  qed
qed

lemma of_nat_inj64: "k < 64 \<Longrightarrow> j < 64 \<Longrightarrow> (of_nat k + 1 :: u32) = of_nat j + 1 \<longleftrightarrow> k = j"
proof -
  assume "k < 64" "j < 64"
  then have "unat (of_nat k :: u32) = k" "unat (of_nat j :: u32) = j" by (simp_all add: unsigned_of_nat take_bit_nat_eq_self)
  then show ?thesis by (metis add_right_cancel)
qed

lemma of_idx_unat: "v \<noteq> 0 \<Longrightarrow> unat (v - 1 :: u32) < 64 \<Longrightarrow> v = of_nat (unat (v - 1)) + 1"
  by simp

text \<open>Installing a reference in a slot that is empty, and clearing one.\<close>

lemma refs_ok_install:
  assumes "finite A" "card A \<le> 129" "refs_ok A s" "i < MAX_OPEN_FILES_CONST" "of_idx (fdt s (cur s) i) = 0"
    and "of_idx (f (fdt s (cur s) i)) = v" "v \<noteq> 0"
  shows "refs_ok A (upd_of (unat (v - 1)) (\<lambda>g. g\<lparr>f_refcount := f_refcount g + 1\<rparr>) (set_fd (cur s) i f s))"
    (is "refs_ok A ?s")
proof -
  have c: "cur s \<in> A" using assms(3) by (simp add: refs_ok_def)
  have "unat (f_refcount (open_files ?s k)) = card (fd_slots A ?s (of_nat k + 1))" if k: "k < VFS_MAX_OPEN_FILES" for k
  proof -
    have old: "unat (f_refcount (open_files s k)) = card (fd_slots A s (of_nat k + 1))"
      using assms(3) k by (simp add: refs_ok_def)
    have nz: "(of_nat k + 1 :: u32) \<noteq> 0"
      using k of_nat_inj64[of k 0] by (auto simp: kernel_const word_unat_eq_iff unat_word_ariths unsigned_of_nat take_bit_nat_eq_self)
    have card: "card (fd_slots A ?s (of_nat k + 1)) = card (fd_slots A s (of_nat k + 1)) + of_bool (v = of_nat k + 1)"
      using card_set_fd[OF assms(1,2) c assms(4), of f s "of_nat k + 1"] assms(5,6) nz fd_slots_cong[of ?s "set_fd (cur s) i f s" A]
      by simp
    have b: "card (fd_slots A s (of_nat k + 1)) \<le> 129 * 64" by (rule fd_slots_bound(2)[OF assms(1,2)])
    show ?thesis
    proof (cases "v = of_nat k + 1")
      case True
      then have "unat (v - 1) = k" using k by (simp add: kernel_const unsigned_of_nat take_bit_nat_eq_self)
      then show ?thesis using True card old b by (simp add: unat_word_ariths)
    next
      case False
      then have "unat (v - 1) \<noteq> k" using k by auto
      then show ?thesis using False card old by simp
    qed
  qed
  then show ?thesis using c by (simp add: refs_ok_def)
qed

lemma refs_ok_clear:
  assumes "finite A" "card A \<le> 129" "refs_ok A s" "i < MAX_OPEN_FILES_CONST" "of_idx (fdt s (cur s) i) = v" "v \<noteq> 0"
    and "procs t = procs s" "cur t = cur s"
    and "\<And>k. k < VFS_MAX_OPEN_FILES \<Longrightarrow> f_refcount (open_files t k) =
       (if k = unat (v - 1) \<and> 0 < f_refcount (open_files s k) then f_refcount (open_files s k) - 1 else f_refcount (open_files s k))"
  shows "refs_ok A (set_fd (cur t) i (\<lambda>_. no_fd) t)" (is "refs_ok A ?s")
proof -
  have c: "cur s \<in> A" using assms(3) by (simp add: refs_ok_def)
  have "unat (f_refcount (open_files ?s k)) = card (fd_slots A ?s (of_nat k + 1))" if k: "k < VFS_MAX_OPEN_FILES" for k
  proof -
    have old: "unat (f_refcount (open_files s k)) = card (fd_slots A s (of_nat k + 1))"
      using assms(3) k by (simp add: refs_ok_def)
    have nz: "(of_nat k + 1 :: u32) \<noteq> 0"
      using k by (auto simp: kernel_const word_unat_eq_iff unat_word_ariths unsigned_of_nat take_bit_nat_eq_self)
    have card: "card (fd_slots A ?s (of_nat k + 1)) + of_bool (v = of_nat k + 1) = card (fd_slots A s (of_nat k + 1))"
      using card_set_fd[OF assms(1,2) c assms(4), of "\<lambda>_. no_fd" t "of_nat k + 1"] assms(5,7,8) nz fd_slots_cong[OF assms(7), of A]
      by (simp add: no_fd_def)
    show ?thesis
    proof (cases "v = of_nat k + 1")
      case True
      then have u: "unat (v - 1) = k" using k by (simp add: kernel_const unsigned_of_nat take_bit_nat_eq_self)
      have pos: "0 < f_refcount (open_files s k)" using card True old by (auto simp: word_neq_0_conv[symmetric])
      then show ?thesis using True card old assms(9)[OF k] u by (simp add: unat_minus_one word_neq_0_conv)
    next
      case False
      then have "unat (v - 1) \<noteq> k" using k by auto
      then show ?thesis using False card old assms(9)[OF k] by simp
    qed
  qed
  then show ?thesis using c assms(8) by (simp add: refs_ok_def)
qed

lemma refs_ok_cong:
  assumes "procs t = procs s" "cur t = cur s"
    and "\<And>k. k < VFS_MAX_OPEN_FILES \<Longrightarrow> f_refcount (open_files t k) = f_refcount (open_files s k)"
  shows "refs_ok A t = refs_ok A s"
  using assms fd_slots_cong[OF assms(1), of A] by (simp add: refs_ok_def)

lemma find_free_fd_SomeD:
  assumes "find_free_fd s = Some fd"
  shows "3 \<le> fd" "fd < MAX_OPEN_FILES_CONST" "of_idx (fdt s (cur s) fd) = 0"
    "\<And>j. 3 \<le> j \<Longrightarrow> j < fd \<Longrightarrow> of_idx (fdt s (cur s) j) \<noteq> 0"
  using assms find_upt_SomeD[of _ 3 MAX_OPEN_FILES_CONST fd] unfolding find_free_fd_def by blast+

lemma alloc_open_file_SomeD:
  assumes "vfs_alloc_open_file s = (s', Inr i)"
  shows "i < 64" "f_refcount (open_files s i) = 0" "s' = upd_of i (\<lambda>_. zero_open_file\<lparr>f_refcount := 1\<rparr>) s"
  using assms find_upt_SomeD(1-3)[of "\<lambda>i. f_refcount (open_files s i) = 0" 0 VFS_MAX_OPEN_FILES i]
  by (auto simp: vfs_alloc_open_file_def VFS_MAX_OPEN_FILES_def split: option.splits)

lemma alloc_open_file_NoneD: "vfs_alloc_open_file s = (s', Inl e) \<Longrightarrow> s' = s"
  by (auto simp: vfs_alloc_open_file_def split: option.splits)

lemma fs_upd_self: "\<exists>x. s = s\<lparr>fs := x\<rparr>"
  by (intro exI[of _ "fs s"]) simp

lemma open_inode_frame:
  assumes "open_inode vt apath flags mode s = (s', r)"
  shows "\<exists>x. s' = s\<lparr>fs := x\<rparr>"
  using assms fs_upd_self[of s]
  by (fastforce simp: open_inode_def split: sum.splits if_splits option.splits prod.splits)

lemma close_locked_props:
  assumes "0 \<le> fd" "fd < int MAX_OPEN_FILES_CONST"
  shows "cur (vfs_close_locked vt fd s) = cur s"
    "of_idx (fdt (vfs_close_locked vt fd s) (cur s) (nat fd)) = 0"
    "i \<noteq> nat fd \<Longrightarrow> fdt (vfs_close_locked vt fd s) (cur s) i = fdt s (cur s) i"
  using assms by (auto simp: vfs_close_locked_def fd_resolve_slot_def Let_def vfs_free_open_file_def no_fd_def)

lemma refs_ok_close:
  assumes "finite A" "card A \<le> 129" "refs_ok A s"
  shows "refs_ok A (vfs_close_locked vt fd s)"
proof (cases "fd < 0 \<or> int MAX_OPEN_FILES_CONST \<le> fd \<or> of_idx (fdt s (cur s) (nat fd)) = 0")
  case True
  then show ?thesis using assms(3) by (auto simp: vfs_close_locked_def fd_resolve_slot_def Let_def)
next
  case False
  define v where "v = of_idx (fdt s (cur s) (nat fd))"
  define k where "k = unat (v - 1)"
  define t where "t = (if k < VFS_MAX_OPEN_FILES \<and> 0 < f_refcount (open_files s k) then
                          let s = upd_of k (\<lambda>f. f\<lparr>f_refcount := f_refcount f - 1\<rparr>) s
                          in if f_refcount (open_files s k) = 0
                             then vfs_free_open_file k (s\<lparr>fs := last_close vt (open_files s k) (fs s)\<rparr>) else s
                        else s)"
  have "vfs_close_locked vt fd s = set_fd (cur t) (nat fd) (\<lambda>_. no_fd) t"
    using False unfolding vfs_close_locked_def fd_resolve_slot_def t_def k_def v_def
    by (simp add: Let_def vfs_free_open_file_def)
  moreover have "refs_ok A (set_fd (cur t) (nat fd) (\<lambda>_. no_fd) t)"
    using False
    by (intro refs_ok_clear[OF assms, where v = v])
      (auto simp: v_def t_def k_def Let_def vfs_free_open_file_def)
  ultimately show ?thesis by simp
qed

text \<open>
  What a call of \<open>vfs_open\<close> leaves behind, with the file systems forgotten: on success a
  fresh open file and the lowest free descriptor from 3 on that refers to it; on failure
  neither a descriptor nor a reference.
\<close>

definition opened :: "nat \<Rightarrow> nat \<Rightarrow> nat \<Rightarrow> u32 \<Rightarrow> u32 \<Rightarrow> fs_id \<Rightarrow> ('fs, 'a) vfs_state_scheme \<Rightarrow> ('fs, 'a) vfs_state_scheme \<Rightarrow> bool" where
  "opened fd i ino pos flags ops s s' \<longleftrightarrow> find_free_fd s = Some fd \<and> i < 64 \<and> f_refcount (open_files s i) = 0 \<and>
     cur s' = cur s \<and> mounts s' = mounts s \<and>
     open_files s' = (open_files s)(i := \<lparr>f_inode = ino, f_pos = pos, f_flags = flags, f_refcount = 1, f_fs = Some ops\<rparr>) \<and>
     procs s' = procs (set_fd (cur s) fd (\<lambda>_. \<lparr>of_idx = of_nat i + 1, fd_offset = 0, fd_flags = flags, fd_refcount = 1\<rparr>) s)"

definition not_opened :: "('fs, 'a) vfs_state_scheme \<Rightarrow> ('fs, 'a) vfs_state_scheme \<Rightarrow> bool" where
  "not_opened s s' \<longleftrightarrow> cur s' = cur s \<and> mounts s' = mounts s \<and> procs s' = procs s \<and>
     (\<forall>k. f_refcount (open_files s' k) = f_refcount (open_files s k))"

lemma opened_fs: "opened fd i ino pos flags ops (s\<lparr>fs := x\<rparr>) s' = opened fd i ino pos flags ops s s'"
  by (simp add: opened_def find_free_fd_def)

lemma not_opened_fs: "not_opened (s\<lparr>fs := x\<rparr>) s' = not_opened s s'" "not_opened s (s\<lparr>fs := x\<rparr>)" "not_opened s s"
  by (simp_all add: not_opened_def)

lemma open_install_cases:
  assumes "open_install vt ops ino flags s = (s', r)"
  shows "(\<exists>e. r = Inl e \<and> not_opened s s') \<or>
    (\<exists>fd i. r = Inr fd \<and> opened fd i ino (open_start_pos (vt ops) ino flags (fs s)) flags ops s s')"
proof (cases "vfs_alloc_open_file s")
  case (Pair t q)
  show ?thesis
  proof (cases q)
    case (Inl e)
    then show ?thesis using assms Pair alloc_open_file_NoneD[of s t e] by (auto simp: open_install_def not_opened_fs)
  next
    case (Inr i)
    note al = alloc_open_file_SomeD[OF Pair[unfolded Inr]]
    define u where "u = upd_of i (\<lambda>f. f\<lparr>f_inode := ino, f_pos := open_start_pos (vt ops) ino flags (fs t),
                    f_flags := flags, f_fs := Some ops\<rparr>) t"
    have ff: "find_free_fd u = find_free_fd s" by (simp add: find_free_fd_def u_def al(3))
    have fr: "procs u = procs s" "cur u = cur s" "mounts u = mounts s" "open_files u = (open_files s)(i :=
        \<lparr>f_inode = ino, f_pos = open_start_pos (vt ops) ino flags (fs s), f_flags = flags, f_refcount = 1, f_fs = Some ops\<rparr>)"
      by (simp_all add: u_def al(3) zero_open_file_def)
    have e: "(s', r) = (case find_free_fd u of None \<Rightarrow> (vfs_free_open_file i u, Inl EMFILE)
       | Some fd \<Rightarrow>
           let s = set_fd (cur u) fd (\<lambda>_. \<lparr>of_idx = of_nat i + 1, fd_offset = 0, fd_flags = flags, fd_refcount = 1\<rparr>) u;
               s = (case op_inc_open (vt ops) of None \<Rightarrow> s | Some inc \<Rightarrow> s\<lparr>fs := inc ino (fs s)\<rparr>)
           in (s, Inr fd))"
      using assms[symmetric] unfolding open_install_def Pair Inr u_def Let_def prod.case sum.case .
    show ?thesis
    proof (cases "find_free_fd s")
      case None
      then have "s' = vfs_free_open_file i u" "r = Inl EMFILE" using e ff by auto
      then show ?thesis using fr al(2) by (simp add: vfs_free_open_file_def not_opened_def)
    next
      case (Some fd)
      then show ?thesis using e ff fr al(1,2) by (auto simp: opened_def Let_def split: option.splits)
    qed
  qed
qed

lemma vfs_open_cases:
  assumes "vfs_open vt pathname flags mode s = (s', r)"
  obtains e where "r = Inl e" "not_opened s s'"
  | fd i ino pos ops where "r = Inr fd" "opened fd i ino pos flags ops s s'"
proof (cases "pathname = None \<or> flags AND NOT VFS_OPEN_SUPPORTED_FLAGS \<noteq> 0 \<or> flags AND O_ACCMODE = O_ACCMODE")
  case True
  then have "s' = s" "r = Inl EINVAL" using assms by (auto simp: vfs_open_def split: if_splits)
  then show thesis using that(1) by (simp add: not_opened_fs)
next
  case False
  show thesis
  proof (cases "vfs_make_abs_path pathname (p_cwd (procs s (cur s))) 512")
    case (Inl e)
    then have "s' = s" "r = Inl e" using False assms by (auto simp: vfs_open_def)
    then show thesis using that(1) by (simp add: not_opened_fs)
  next
    case (Inr apath)
    obtain t q where oi: "open_inode vt apath flags mode s = (t, q)" by fastforce
    obtain x where t: "t = s\<lparr>fs := x\<rparr>" using open_inode_frame[OF oi] by blast
    show thesis
    proof (cases q)
      case (Inl e)
      then have "s' = t" "r = Inl e" using False Inr oi assms by (auto simp: vfs_open_def)
      then show thesis using that(1) t by (simp add: not_opened_fs)
    next
      case q: (Inr mi)
      obtain m ino y where "open_install vt (mnt_ops (mounts s m)) ino flags (s\<lparr>fs := y\<rparr>) = (s', r)"
        using False Inr oi q assms t
        by (cases mi) (auto simp: vfs_open_def Let_def split: option.splits if_splits)
      then show thesis using open_install_cases that opened_fs not_opened_fs(1) by metis
    qed
  qed
qed

lemma refs_ok_open:
  assumes "finite A" "card A \<le> 129" "refs_ok A s" "vfs_open vt pathname flags mode s = (s', r)"
  shows "refs_ok A s'"
  using assms(4)
proof (cases rule: vfs_open_cases)
  case (1 e)
  then show ?thesis using assms(3) refs_ok_cong[of s' s A] unfolding not_opened_def by blast
next
  case (2 fd i ino pos ops)
  have free: "find_free_fd s = Some fd" and i64: "i < 64" and ref: "f_refcount (open_files s i) = 0"
    using 2(2) by (simp_all add: opened_def)
  note ff = find_free_fd_SomeD[OF free]
  let ?g = "\<lambda>_ :: proc_fd. \<lparr>of_idx = of_nat i + 1, fd_offset = 0, fd_flags = flags, fd_refcount = 1\<rparr>"
  let ?t = "upd_of (unat (of_nat i + 1 - 1 :: u32)) (\<lambda>g. g\<lparr>f_refcount := f_refcount g + 1\<rparr>) (set_fd (cur s) fd ?g s)"
  have i: "unat (of_nat i :: u32) = i" using i64 by (simp add: unsigned_of_nat take_bit_nat_eq_self)
  have nz: "(of_nat i + 1 :: u32) \<noteq> 0"
    using i64 by (auto simp: word_unat_eq_iff unat_word_ariths unsigned_of_nat take_bit_nat_eq_self)
  have "refs_ok A ?t" by (rule refs_ok_install[OF assms(1-3) ff(2,3) _ nz]) simp
  moreover have "refs_ok A s' = refs_ok A ?t"
    by (rule refs_ok_cong) (use 2 i ref in \<open>simp_all add: opened_def\<close>)
  ultimately show ?thesis by simp
qed

lemma refs_ok_dup:
  assumes "finite A" "card A \<le> 129" "refs_ok A s" "vfs_dup fd s = (s', r)"
  shows "refs_ok A s'"
proof (cases "find_free_fd s")
  case (Some new)
  then show ?thesis
    using assms refs_ok_install[OF assms(1-3) find_free_fd_SomeD(2,3)[OF Some], of "\<lambda>_. fdt s (cur s) (nat fd)"]
    by (auto simp: vfs_dup_def Let_def split: if_splits)
qed (use assms in \<open>auto simp: vfs_dup_def Let_def split: if_splits\<close>)

lemma refs_ok_dup2:
  assumes "finite A" "card A \<le> 129" "refs_ok A s" "vfs_dup2 vt old new s = (s', r)"
  shows "refs_ok A s'"
proof (cases "old < 0 \<or> new < 0 \<or> int MAX_OPEN_FILES_CONST \<le> old \<or> int MAX_OPEN_FILES_CONST \<le> new \<or> old = new \<or>
    of_idx (fdt s (cur s) (nat old)) = 0")
  case True
  then show ?thesis using assms(3,4) by (auto simp: vfs_dup2_def Let_def split: if_splits)
next
  case False
  define t where "t = (if of_idx (fdt s (cur s) (nat new)) \<noteq> 0 then vfs_close_locked vt new s else s)"
  have r: "0 \<le> new" "new < int MAX_OPEN_FILES_CONST" "nat old \<noteq> nat new" using False by auto
  have t: "refs_ok A t" "cur t = cur s" "of_idx (fdt t (cur s) (nat new)) = 0" "fdt t (cur s) (nat old) = fdt s (cur s) (nat old)"
    using refs_ok_close[OF assms(1-3)] assms(3) close_locked_props[OF r(1,2), where vt = vt and s = s] r(3) by (auto simp: t_def)
  have "s' = upd_of (unat (of_idx (fdt s (cur s) (nat old)) - 1)) (\<lambda>f. f\<lparr>f_refcount := f_refcount f + 1\<rparr>)
      (set_fd (cur t) (nat new) (\<lambda>_. fdt t (cur t) (nat old)) t)"
    using assms(4) False by (simp add: vfs_dup2_def Let_def t_def)
  then show ?thesis
    using refs_ok_install[OF assms(1,2) t(1), of "nat new" "\<lambda>_. fdt t (cur t) (nat old)"] r t False by simp
qed

text \<open>The calls on descriptors.\<close>

inductive fd_step :: "(fs_id \<Rightarrow> 'fs fs_ops) \<Rightarrow> ('fs, 'a) vfs_state_scheme \<Rightarrow> ('fs, 'a) vfs_state_scheme \<Rightarrow> bool"
  for vt where
  step_open: "vfs_open vt pathname flags mode s = (s', r) \<Longrightarrow> fd_step vt s s'"
| step_close: "fd_step vt s (vfs_close vt fd s)"
| step_dup: "vfs_dup fd s = (s', r) \<Longrightarrow> fd_step vt s s'"
| step_dup2: "vfs_dup2 vt old new s = (s', r) \<Longrightarrow> fd_step vt s s'"
| step_read: "vfs_read vt fd buf n s = (s', d) \<Longrightarrow> fd_step vt s s'"
| step_write: "vfs_write vt fd buf s = (s', r) \<Longrightarrow> fd_step vt s s'"
| step_lseek: "vfs_lseek vt fd off whence s = (s', p) \<Longrightarrow> fd_step vt s s'"

lemma io_frame:
  "vfs_read vt fd buf n s = (s', d) \<Longrightarrow> procs s' = procs s \<and> cur s' = cur s \<and> (\<forall>k. f_refcount (open_files s' k) = f_refcount (open_files s k))"
  "vfs_write vt fd buf s = (s', r) \<Longrightarrow> procs s' = procs s \<and> cur s' = cur s \<and> (\<forall>k. f_refcount (open_files s' k) = f_refcount (open_files s k))"
  "vfs_lseek vt fd off whence s = (s', p) \<Longrightarrow> procs s' = procs s \<and> cur s' = cur s \<and> (\<forall>k. f_refcount (open_files s' k) = f_refcount (open_files s k))"
  by (auto simp: vfs_read_def vfs_write_def vfs_lseek_def Let_def split: option.splits sum.splits if_splits prod.splits)

lemma fd_step_refs:
  assumes "fd_step vt s s'" "finite A" "card A \<le> 129" "refs_ok A s"
  shows "refs_ok A s'"
  using assms(1)
proof cases
  case step_open
  then show ?thesis by (rule refs_ok_open[OF assms(2-4)])
next
  case (step_close fd)
  then show ?thesis using refs_ok_close[OF assms(2-4)] assms(4) by (simp add: vfs_close_def)
next
  case step_dup
  then show ?thesis by (rule refs_ok_dup[OF assms(2-4)])
next
  case step_dup2
  then show ?thesis by (rule refs_ok_dup2[OF assms(2-4)])
next
  case step_read
  then show ?thesis using io_frame(1) refs_ok_cong[of s' s A] assms(4) by metis
next
  case step_write
  then show ?thesis using io_frame(2) refs_ok_cong[of s' s A] assms(4) by metis
next
  case step_lseek
  then show ?thesis using io_frame(3) refs_ok_cong[of s' s A] assms(4) by metis
qed

section \<open>Properties\<close>

text \<open>
  C17 (open files, invariant).  Through any sequence of open, close, dup, dup2, read, write and
  lseek calls, whatever the file systems below do, the reference count of every open file is
  the number of descriptors, over all processes, that refer to it.
\<close>
theorem open_file_refcounts:
  assumes "finite A" "card A \<le> 129" "refs_ok A s" "(fd_step vt)\<^sup>*\<^sup>* s s'"
  shows "refs_ok A s'"
  using assms(4,3) by (induction rule: rtranclp_induct) (use fd_step_refs[OF _ assms(1,2)] in blast)+

lemma vfs_booted_refs: "refs_ok {0} vfs_booted"
proof -
  have "fd_slots {0} vfs_booted (of_nat k + 1) = {}" if "k < 64" for k
    using that of_nat_inj64[of k 0]
    by (auto simp: fd_slots_def vfs_booted_facts zero_process_def no_fd_def word_unat_eq_iff unat_word_ariths
        unsigned_of_nat take_bit_nat_eq_self)
  then show ?thesis by (auto simp: refs_ok_def vfs_booted_facts zero_open_file_def kernel_const)
qed

theorem open_file_refcounts_witness:
  "unat (f_refcount (open_files vfs_opened 0)) = 1 \<and> card (fd_slots {0} vfs_opened 1) = 1"
proof -
  have "fd_step (\<lambda>_. ramfs_ops True) vfs_booted vfs_opened" by (rule step_open[OF open_booted(1)])
  from open_file_refcounts[OF _ _ vfs_booted_refs r_into_rtranclp[where r = "fd_step (\<lambda>_. ramfs_ops True)", OF this]]
  have "refs_ok {0} vfs_opened" by simp
  then have "unat (f_refcount (open_files vfs_opened 0)) = card (fd_slots {0} vfs_opened (of_nat 0 + 1))"
    unfolding refs_ok_def by (auto simp: VFS_MAX_OPEN_FILES_def)
  then show ?thesis by (simp add: open_booted(2))
qed

text \<open>
  C20 (open files, error).  An open call that succeeds returns the lowest free descriptor from
  3 on, which refers to an open file that was unused before and now has one reference; every
  other descriptor and open file is as before.  One that fails, at any point, leaves every
  descriptor and every reference count as it was.
\<close>
theorem vfs_open_exact:
  assumes "vfs_open vt pathname flags mode s = (s', r)"
  shows "case r of
      Inr fd \<Rightarrow> \<exists>i ino pos ops. opened fd i ino pos flags ops s s' \<and> 3 \<le> fd \<and> fd < 64 \<and>
        (\<forall>j. 3 \<le> j \<and> j < fd \<longrightarrow> of_idx (fdt s (cur s) j) \<noteq> 0)
    | Inl _ \<Rightarrow> not_opened s s'"
  using assms
proof (cases rule: vfs_open_cases)
  case (2 fd i ino pos ops)
  then have "find_free_fd s = Some fd" by (simp add: opened_def)
  from find_free_fd_SomeD[OF this] show ?thesis using 2 by (auto simp: MAX_OPEN_FILES_CONST_def)
qed simp

theorem vfs_open_exact_witness:
  "\<exists>i ino pos ops. opened 3 i ino pos 0x42 ops vfs_booted vfs_opened"
  using vfs_open_exact[OF open_booted(1)] unfolding sum.case by blast

text \<open>
  C37 (open files, safety).  Duplicating the descriptor of a pipe increments a word outside the
  table of open files: the slot of pipe \<open>id\<close> holds 1000 + id, and \<open>open_files[999 + id]\<close> is
  beyond the 64 entries.  The pipe's own reader and writer counts stay as they were.
\<close>
theorem dup_pipe_out_of_bounds:
  assumes "0 \<le> fd" "fd < 64" "of_idx (fdt s (cur s) (nat fd)) = PIPE_FD_BASE + pipe_id" "unat pipe_id < 2 ^ 31"
    and "find_free_fd s = Some new"
  shows "\<exists>s' k. vfs_dup fd s = (s', Inr new) \<and> 64 \<le> k \<and> k = 999 + unat pipe_id \<and>
    f_refcount (open_files s' k) = f_refcount (open_files s k) + 1 \<and> pipe_heap s' = pipe_heap s"
proof -
  let ?v = "PIPE_FD_BASE + pipe_id"
  have "?v - 1 = 999 + pipe_id" by (simp add: PIPE_FD_BASE_def)
  then have v: "unat (?v - 1) = 999 + unat pipe_id" using assms(4) by (simp only: unat_word_ariths) simp
  have "unat ?v = 1000 + unat pipe_id" using assms(4) unfolding PIPE_FD_BASE_def by (simp only: unat_word_ariths) simp
  then have "?v \<noteq> 0" by auto
  then have "vfs_dup fd s = (upd_of (unat (?v - 1)) (\<lambda>f. f\<lparr>f_refcount := f_refcount f + 1\<rparr>)
      (set_fd (cur s) new (\<lambda>_. fdt s (cur s) (nat fd)) s), Inr new)"
    using assms by (simp add: vfs_dup_def Let_def MAX_OPEN_FILES_CONST_def)
  then show ?thesis by (simp add: v upd_of_def)
qed

theorem dup_pipe_out_of_bounds_witness:
  "\<exists>s'. vfs_dup 5 (set_fd 0 5 (\<lambda>f. f\<lparr>of_idx := PIPE_FD_BASE + 1\<rparr>) vfs_booted) = (s', Inr 3) \<and>
     f_refcount (open_files s' 1000) = 1"
proof -
  let ?s = "set_fd 0 5 (\<lambda>f. f\<lparr>of_idx := PIPE_FD_BASE + 1\<rparr>) vfs_booted"
  have "find_free_fd ?s = Some 3"
    by (rule find_free_booted) (simp add: vfs_booted_facts zero_process_def no_fd_def)
  from dup_pipe_out_of_bounds[OF _ _ _ _ this, of 5 1] show ?thesis
    by (simp add: vfs_booted_facts zero_open_file_def) blast
qed

end
