(* ===== verification/Vfs_Store.thy ===== *)
theory Vfs_Store
  imports Vfs
begin

text \<open>
  File contents seen through descriptors: the contract \<open>file_store\<close> of a file system, what
  reading, writing and seeking do on top of it, and its instance for the ramfs.
\<close>

section \<open>File systems as stores of bytes\<close>

text \<open>
  What the VFS relies on in a file system: reading returns the requested part of the
  contents, a successful write splices its bytes in and leaves other files alone, and
  \<open>stat\<close> reports the length.
\<close>

lemma sint_nonneg:
  fixes w :: u32
  assumes "unat w < 2 ^ 31"
  shows "0 \<le> sint w"
proof -
  have "int (unat w) < int (2 ^ 31)" using assms by (simp only: of_nat_less_iff)
  then have "uint w < 2 ^ 31" by simp
  then have "\<not> bit (uint w) 31" by (simp add: bit_iff_odd)
  then show ?thesis by (simp add: sint_uint signed_take_bit_eq_if_positive)
qed

locale file_store =
  fixes ops :: "'fs fs_ops" and inv :: "'fs \<Rightarrow> bool" and contents :: "'fs \<Rightarrow> nat \<Rightarrow> byte list option"
    and rd wr st
  assumes methods: "op_read ops = Some rd" "op_write ops = Some wr" "op_stat ops = Some st"
    and read_law: "inv x \<Longrightarrow> contents x ino = Some d \<Longrightarrow> rd x ino b count off = Inr (take (unat count) (drop (unat off) d))"
    and write_law: "inv x \<Longrightarrow> contents x ino = Some d \<Longrightarrow> unat off \<le> length d \<Longrightarrow> wr ino xs off x = (x', Inr n) \<Longrightarrow>
      inv x' \<and> n = length xs \<and> contents x' ino = Some (splice d (unat off) xs) \<and> (\<forall>j. j \<noteq> ino \<longrightarrow> contents x' j = contents x j)"
    and stat_law: "inv x \<Longrightarrow> contents x ino = Some d \<Longrightarrow> \<exists>k. st x ino = Inr k \<and> st_size k = length d"
    and bound_law: "inv x \<Longrightarrow> contents x ino = Some d \<Longrightarrow> length d < 2 ^ 31"
begin

lemma read_at:
  assumes "fd_to_of_idx_locked fd s = Some i" "f_flags (open_files s i) AND O_ACCMODE \<noteq> O_WRONLY"
    and "f_fs (open_files s i) = Some k" "vt k = ops" "inv (fs s)" "contents (fs s) (f_inode (open_files s i)) = Some d"
  shows "vfs_read vt fd (Some b) count s =
    (let xs = take (unat count) (drop (unat (f_pos (open_files s i))) d)
     in (upd_of i (\<lambda>f. f\<lparr>f_pos := f_pos f + of_nat (length xs)\<rparr>) s, Inr xs))"
  using assms methods read_law by (simp add: vfs_read_def Let_def)

lemma write_at:
  assumes "fd_to_of_idx_locked fd s = Some i" "f_flags (open_files s i) AND O_ACCMODE \<noteq> O_RDONLY"
    and "f_fs (open_files s i) = Some k" "vt k = ops" "inv (fs s)" "contents (fs s) (f_inode (open_files s i)) = Some d"
    and "vfs_write vt fd (Some xs) s = (s', Inr n)" "xs \<noteq> []"
    and "pos = (if f_flags (open_files s i) AND O_APPEND \<noteq> 0 then of_nat (length d) else f_pos (open_files s i))"
    and "unat pos \<le> length d"
  shows "n = length xs" "inv (fs s')" "contents (fs s') (f_inode (open_files s i)) = Some (splice d (unat pos) xs)"
    "\<And>j. j \<noteq> f_inode (open_files s i) \<Longrightarrow> contents (fs s') j = contents (fs s) j"
    "open_files s' = (open_files s)(i := (open_files s i)\<lparr>f_pos := pos + of_nat (length xs)\<rparr>)"
    "procs s' = procs s" "cur s' = cur s"
proof -
  obtain a where a: "st (fs s) (f_inode (open_files s i)) = Inr a" "st_size a = length d"
    using stat_law[OF assms(5,6)] by blast
  define t where "t = upd_of i (\<lambda>f. f\<lparr>f_pos := pos\<rparr>) s"
  have e: "(case wr (f_inode (open_files s i)) xs pos (fs s) of
      (x, Inl e) \<Rightarrow> (t\<lparr>fs := x\<rparr>, Inl e)
    | (x, Inr n) \<Rightarrow> (upd_of i (\<lambda>f. f\<lparr>f_pos := f_pos f + of_nat n\<rparr>) (t\<lparr>fs := x\<rparr>), Inr n)) = (s', Inr n)"
    using assms(1-4,7-9) methods a by (auto simp: vfs_write_def Let_def t_def upd_of_def split: if_splits)
  then obtain x where x: "wr (f_inode (open_files s i)) xs pos (fs s) = (x, Inr n)"
    and s': "s' = upd_of i (\<lambda>f. f\<lparr>f_pos := f_pos f + of_nat n\<rparr>) (t\<lparr>fs := x\<rparr>)"
    by (auto split: prod.splits sum.splits)
  note w = write_law[OF assms(5,6,10) x]
  show "n = length xs" "inv (fs s')" "contents (fs s') (f_inode (open_files s i)) = Some (splice d (unat pos) xs)"
    "\<And>j. j \<noteq> f_inode (open_files s i) \<Longrightarrow> contents (fs s') j = contents (fs s) j"
    "open_files s' = (open_files s)(i := (open_files s i)\<lparr>f_pos := pos + of_nat (length xs)\<rparr>)"
    "procs s' = procs s" "cur s' = cur s"
    using w by (auto simp: s' t_def)
qed

lemma write_seek_read:
  assumes "fd_to_of_idx_locked fd s = Some i" "f_flags (open_files s i) AND O_ACCMODE = 2"
    and "f_flags (open_files s i) AND O_APPEND = 0"
    and "f_fs (open_files s i) = Some k" "vt k = ops" "inv (fs s)" "contents (fs s) (f_inode (open_files s i)) = Some d"
    and "unat (f_pos (open_files s i)) \<le> length d" "xs \<noteq> []" "length xs < 2 ^ 32"
    and "vfs_write vt fd (Some xs) s = (s1, Inr n)"
  shows "\<exists>s2 s3. n = length xs \<and> contents (fs s1) (f_inode (open_files s i)) = Some (splice d (unat (f_pos (open_files s i))) xs) \<and>
    vfs_lseek vt fd (f_pos (open_files s i)) 0 s1 = (s2, Inr (f_pos (open_files s i))) \<and>
    vfs_read vt fd (Some b) (of_nat (length xs)) s2 = (s3, Inr xs)"
proof -
  let ?f = "open_files s i" and ?p = "f_pos (open_files s i)"
  note w = write_at[OF assms(1) _ assms(4-7) assms(11,9), of ?p]
  have acc: "f_flags ?f AND O_ACCMODE \<noteq> O_RDONLY" "f_flags ?f AND O_ACCMODE \<noteq> O_WRONLY"
    using assms(2) by (simp_all add: kernel_const)
  note w = w[OF acc(1) _ assms(8), simplified assms(3), simplified]
  have p31: "unat ?p < 2 ^ 31" using bound_law[OF assms(6,7)] assms(8) by linarith
  have i1: "fd_to_of_idx_locked fd s1 = Some i"
    using assms(1) w(5-7) by (auto simp: fd_to_of_idx_locked_def Let_def split: option.splits if_splits)
  define s2 where "s2 = upd_of i (\<lambda>f. f\<lparr>f_pos := ?p\<rparr>) s1"
  have "\<not> sint ?p < 0" using sint_nonneg[of ?p] p31 by simp
  then have l: "vfs_lseek vt fd ?p 0 s1 = (s2, Inr ?p)"
    using i1 by (simp add: vfs_lseek_def Let_def s2_def)
  have i2: "fd_to_of_idx_locked fd s2 = Some i"
    using i1 by (auto simp: fd_to_of_idx_locked_def Let_def s2_def split: option.splits if_splits)
  have n: "unat (of_nat (length xs) :: u32) = length xs" using assms(10) by (simp add: unsigned_of_nat take_bit_nat_eq_self)
  have f2: "open_files s2 i = ?f" and fs2: "fs s2 = fs s1" by (simp_all add: s2_def w(5))
  have "snd (vfs_read vt fd (Some b) (of_nat (length xs)) s2) = Inr (take (length xs) (drop (unat ?p) (splice d (unat ?p) xs)))"
    using read_at[OF i2, of k vt "splice d (unat ?p) xs" b "of_nat (length xs)", unfolded f2 fs2, OF acc(2) assms(4,5) w(2,3)] n
    by (simp add: Let_def)
  also have "take (length xs) (drop (unat ?p) (splice d (unat ?p) xs)) = xs" using assms(8) by (simp add: splice_def)
  finally obtain s3 where "vfs_read vt fd (Some b) (of_nat (length xs)) s2 = (s3, Inr xs)"
    by (cases "vfs_read vt fd (Some b) (of_nat (length xs)) s2") simp
  then show ?thesis using l w(1,3) by blast
qed

lemma append_at_end:
  assumes "fd_to_of_idx_locked fd s = Some i" "f_flags (open_files s i) AND O_ACCMODE \<noteq> O_RDONLY"
    and "f_flags (open_files s i) AND O_APPEND \<noteq> 0"
    and "f_fs (open_files s i) = Some k" "vt k = ops" "inv (fs s)" "contents (fs s) (f_inode (open_files s i)) = Some d"
    and "xs \<noteq> []" "vfs_write vt fd (Some xs) s = (s', Inr n)"
  shows "n = length xs \<and> contents (fs s') (f_inode (open_files s i)) = Some (d @ xs) \<and>
    f_pos (open_files s' i) = of_nat (length (d @ xs))"
proof -
  have l: "unat (of_nat (length d) :: u32) = length d"
    using bound_law[OF assms(6,7)] by (simp add: unsigned_of_nat take_bit_nat_eq_self)
  show ?thesis
    using write_at[OF assms(1,2,4-7,9,8), of "of_nat (length d)"] assms(3) l by (simp add: splice_def)
qed

end

definition ramfs_contents :: "ramfs \<Rightarrow> nat \<Rightarrow> byte list option" where
  "ramfs_contents x ino =
     (if i_type (inode_table x ino) = INODE_FILE then Some (file_bytes (inode_table x ino)) else None)"

lemma ramfs_size_bound: "ramfs_inv x \<Longrightarrow> i_size (inode_table x ino) \<le> 16777216"
  using order_trans by (fastforce simp: ramfs_inv_def data_ok_def RAMFS_MAX_FILE_SIZE_def)

interpretation ramfs_store: file_store "ramfs_ops mem" ramfs_inv ramfs_contents ramfs_read_data "ramfs_write_data mem" ramfs_op_stat
proof unfold_locales
  fix x x' ino d off xs n
  assume a: "ramfs_inv x" "ramfs_contents x ino = Some d" "unat off \<le> length d" "ramfs_write_data mem ino xs off x = (x', Inr n)"
  have ok: "data_ok (inode_table x ino)" using a(1) by (simp add: ramfs_inv_def)
  have d: "d = file_bytes (inode_table x ino)" "i_type (inode_table x ino) = INODE_FILE"
    using a(2) by (auto simp: ramfs_contents_def split: if_splits)
  have off: "unat off \<le> i_size (inode_table x ino)" using a(3) d(1) length_file_bytes[OF ok] by simp
  show "ramfs_inv x' \<and> n = length xs \<and> ramfs_contents x' ino = Some (splice d (unat off) xs) \<and>
      (\<forall>j. j \<noteq> ino \<longrightarrow> ramfs_contents x' j = ramfs_contents x j)"
    using write_data_spec[OF a(4) ok off] write_inv[OF a(1,4)] d by (auto simp: ramfs_contents_def)
next
  fix x ino d
  assume "ramfs_inv x" "ramfs_contents x ino = Some d"
  then show "length d < 2 ^ 31"
    using ramfs_size_bound[of x ino] length_file_bytes[of "inode_table x ino"]
    by (auto simp: ramfs_contents_def ramfs_inv_def split: if_splits)
qed (auto simp: ramfs_contents_def read_data_spec ramfs_inv_def ramfs_op_stat_def ramfs_fill_stat_def Let_def
    length_file_bytes split: if_splits option.splits)

section \<open>Properties\<close>


lemma opened_descriptor:
  "fd_to_of_idx_locked 3 vfs_opened = Some 0" "open_files vfs_opened 0 =
     \<lparr>f_inode = 2, f_pos = 0, f_flags = 0x42, f_refcount = 1, f_fs = Some FS_RAMFS\<rparr>"
  "ramfs_inv (fs vfs_opened)" "ramfs_contents (fs vfs_opened) 2 = Some []"
proof -
  show "ramfs_inv (fs vfs_opened)" using open_count_inv(1)[OF ramfs_one_inv] by (simp add: open_booted(4))
  show "ramfs_contents (fs vfs_opened) 2 = Some []"
    by (simp add: open_booted(4) ramfs_contents_def ramfs_inc_open_count_def ramfs_one_inode zero_inode_def file_bytes_def)
qed (simp_all add: fd_to_of_idx_locked_def fd_resolve_slot_def open_booted kernel_const)




end
