(* ===== verification/Vfs_Open.thy ===== *)
theory Vfs_Open
  imports Vfs_Refs
begin

text \<open>
  Open inodes of the ramfs: while the count of open files on an inode is positive, no call that
  creates, removes or renames entries frees or changes its data, with the exception of
  \<open>rmdir\<close>, which frees an open directory.
\<close>

section \<open>Calls that respect open inodes\<close>

definition open_typed :: "ramfs \<Rightarrow> bool" where
  "open_typed x \<longleftrightarrow> (\<forall>ino. inode_open_count x ino \<noteq> 0 \<longrightarrow> i_type (inode_table x ino) \<noteq> INODE_FREE)"

text \<open>The fields of an inode that reading depends on.\<close>

definition same_data :: "ramfs_inode \<Rightarrow> ramfs_inode \<Rightarrow> bool" where
  "same_data n n' \<longleftrightarrow> i_type n' = i_type n \<and> i_size n' = i_size n \<and> i_data n' = i_data n"

definition keeps_open :: "ramfs \<Rightarrow> ramfs \<Rightarrow> bool" where
  "keeps_open x x' \<longleftrightarrow> (open_typed x \<longrightarrow> inode_open_count x' = inode_open_count x \<and>
     (\<forall>ino. inode_open_count x ino \<noteq> 0 \<longrightarrow> same_data (inode_table x ino) (inode_table x' ino)))"

lemma keeps_open_refl [simp]: "keeps_open x x"
  by (simp add: keeps_open_def same_data_def)

lemma keeps_open_typed: "keeps_open x y \<Longrightarrow> open_typed x \<Longrightarrow> open_typed y"
  unfolding keeps_open_def open_typed_def same_data_def by auto

lemma keeps_open_trans: "keeps_open x y \<Longrightarrow> keeps_open y z \<Longrightarrow> keeps_open x z"
  using keeps_open_typed[of x y] by (auto simp: keeps_open_def same_data_def)

text \<open>An update that keeps the counts and the data of every inode that is not free.\<close>

lemma keeps_openI:
  assumes "inode_open_count x' = inode_open_count x"
    and "\<And>ino. i_type (inode_table x ino) \<noteq> INODE_FREE \<Longrightarrow> same_data (inode_table x ino) (inode_table x' ino)"
  shows "keeps_open x x'"
  using assms by (simp add: keeps_open_def open_typed_def)

lemma keeps_open_free:
  assumes "inode_open_count x idx = 0"
  shows "keeps_open x (ramfs_free_inode idx x)"
proof -
  have "(inode_open_count x)(idx := 0) = inode_open_count x" using assms by auto
  then show ?thesis using assms by (auto simp: keeps_open_def same_data_def ramfs_free_inode_def)
qed

lemma add_child_keeps: "keeps_open x (fst (ramfs_add_child p c x))"
  by (rule keeps_openI) (auto simp: same_data_def ramfs_add_child_def Let_def)

lemma remove_child_keeps: "keeps_open x (fst (ramfs_remove_child p c x))"
  by (rule keeps_openI) (auto simp: same_data_def ramfs_remove_child_def Let_def)

lemma alloc_count:
  assumes "ramfs_alloc_inode x = (y, idx)" "idx \<noteq> 0" "open_typed x"
  shows "inode_open_count x idx = 0"
  using assms alloc_SomeD[of x y idx] by (auto simp: open_typed_def)

lemma create_keeps:
  assumes "ramfs_alloc_inode x = (y, idx)" "idx \<noteq> 0" "ramfs_add_child p idx (upd_inode idx f y) = (z, r)"
  shows "keeps_open x z" "keeps_open x (ramfs_free_inode idx z)"
proof -
  have y: "y = upd_inode idx (\<lambda>_. zero_inode\<lparr>i_nlink := 1\<rparr>) x" using alloc_SomeD[OF assms(1,2)] by simp
  have "keeps_open x (upd_inode idx f y)"
    by (rule keeps_openI) (use alloc_SomeD(3)[OF assms(1,2)] in \<open>auto simp: same_data_def y\<close>)
  moreover have "keeps_open (upd_inode idx f y) z" using add_child_keeps[of "upd_inode idx f y" p idx] assms(3) by simp
  ultimately show z: "keeps_open x z" by (rule keeps_open_trans)
  show "keeps_open x (ramfs_free_inode idx z)"
  proof (cases "open_typed x")
    case True
    then have "inode_open_count z idx = 0" using z alloc_count[OF assms(1,2)] by (simp add: keeps_open_def)
    then show ?thesis using z keeps_open_free keeps_open_trans by blast
  qed (simp add: keeps_open_def)
qed

lemma alloc_keeps_none: "ramfs_alloc_inode x = (y, 0) \<Longrightarrow> y = x"
  by (rule alloc_none)

lemma create_file_keeps: "keeps_open x (fst (ramfs_create_file p nm m x))"
proof (cases "ramfs_alloc_inode x")
  case (Pair y idx)
  obtain z r where z: "ramfs_add_child p idx (upd_inode idx (\<lambda>n. n\<lparr>i_type := INODE_FILE, i_mode := m AND 0x1FF, i_nlink := 1,
      i_name := take (RAMFS_MAX_NAME - 1) nm\<rparr>) y) = (z, r)" by fastforce
  show ?thesis
    using Pair z create_keeps[OF Pair _ z] alloc_keeps_none[of x y]
    by (cases r) (auto simp: ramfs_create_file_def Let_def)
qed

lemma create_dir_keeps: "keeps_open x (fst (ramfs_create_dir p nm m x))"
proof (cases "ramfs_alloc_inode x")
  case (Pair y idx)
  obtain z r where z: "ramfs_add_child p idx (upd_inode idx (\<lambda>n. n\<lparr>i_type := INODE_DIR, i_mode := m AND 0x1FF, i_nlink := 2,
      i_name := take (RAMFS_MAX_NAME - 1) nm\<rparr>) y) = (z, r)" by fastforce
  have "keeps_open z (upd_inode p (\<lambda>n. n\<lparr>i_nlink := i_nlink n + 1\<rparr>) z)" by (rule keeps_openI) (auto simp: same_data_def)
  then show ?thesis
    using Pair z create_keeps[OF Pair _ z] alloc_keeps_none[of x y] keeps_open_trans[of x z]
    by (cases r) (auto simp: ramfs_create_dir_def Let_def)
qed

lemma chmod_keeps: "keeps_open x (fst (ramfs_set_mode idx m x))"
  by (rule keeps_openI) (auto simp: same_data_def ramfs_set_mode_def Let_def)

lemma chown_keeps: "keeps_open x (fst (ramfs_set_owner idx u g x))"
  by (rule keeps_openI) (auto simp: same_data_def ramfs_set_owner_def Let_def)

lemma set_name_keeps: "keeps_open x (fst (ramfs_set_name idx nm x))"
  by (rule keeps_openI) (auto simp: same_data_def ramfs_set_name_def Let_def)

lemma rename_keeps: "keeps_open x (fst (ramfs_op_rename p nm q nm' x))"
proof (cases "ramfs_lookup_child x p nm = 0")
  case False
  let ?idx = "ramfs_lookup_child x p nm"
  obtain y r where y: "ramfs_remove_child p ?idx x = (y, r)" by fastforce
  define y' where "y' = fst (ramfs_set_name ?idx nm' y)"
  obtain z r' where z: "ramfs_add_child q ?idx y' = (z, r')" by fastforce
  have k: "keeps_open x y" "keeps_open y y'" "keeps_open y' z" "keeps_open z (fst (ramfs_add_child p ?idx z))"
    using remove_child_keeps[of x p ?idx] y set_name_keeps[of y] add_child_keeps[of y' q ?idx] z add_child_keeps[of z]
    by (simp_all add: y'_def)
  then have "keeps_open x z" "keeps_open x (fst (ramfs_add_child p ?idx z))" using keeps_open_trans by blast+
  then show ?thesis using False y z k(1)
    by (cases r; cases r') (simp_all add: ramfs_op_rename_def Let_def flip: y'_def)
qed (simp add: ramfs_op_rename_def)

lemma unlink_keeps: "keeps_open x (fst (ramfs_op_unlink p nm x))"
proof -
  define idx y where "idx = ramfs_lookup_child x p nm" and "y = fst (ramfs_remove_child p idx x)"
  define z where "z = (if 0 < i_nlink (ramfs_get_inode y idx) then upd_inode idx (\<lambda>n. n\<lparr>i_nlink := i_nlink n - 1\<rparr>) y else y)"
  have "keeps_open x y" by (simp add: y_def remove_child_keeps)
  moreover have "keeps_open y z" by (rule keeps_openI) (auto simp: same_data_def z_def)
  ultimately have xz: "keeps_open x z" by (rule keeps_open_trans)
  have "fst (ramfs_op_unlink p nm x) = (if idx = 0 \<or> i_type (ramfs_get_inode x idx) = INODE_DIR then x
     else if i_nlink (ramfs_get_inode z idx) = 0 \<and> ramfs_get_open_count z idx = 0 then ramfs_free_inode idx z else z)"
    unfolding ramfs_op_unlink_def Let_def idx_def[symmetric] y_def[symmetric] z_def[symmetric] by simp
  then show ?thesis using xz keeps_open_free keeps_open_trans by (auto simp: ramfs_get_open_count_def)
qed

lemmas ramfs_keeps = create_file_keeps create_dir_keeps chmod_keeps chown_keeps rename_keeps unlink_keeps

section \<open>The path calls\<close>

text \<open>
  The calls on paths other than \<open>rmdir\<close> and \<open>truncate\<close>, when every mount is a ramfs, as
  after \<open>vfs_init\<close>.
\<close>

inductive path_step :: "bool \<Rightarrow> (ramfs, 'a) vfs_state_scheme \<Rightarrow> (ramfs, 'a) vfs_state_scheme \<Rightarrow> bool" for mem where
  "vfs_mkdir (\<lambda>_. ramfs_ops mem) path mode s = (s', r) \<Longrightarrow> path_step mem s s'"
| "vfs_unlink (\<lambda>_. ramfs_ops mem) path s = (s', r) \<Longrightarrow> path_step mem s s'"
| "vfs_rename (\<lambda>_. ramfs_ops mem) path path' s = (s', r) \<Longrightarrow> path_step mem s s'"
| "vfs_chmod (\<lambda>_. ramfs_ops mem) path mode s = (s', r) \<Longrightarrow> path_step mem s s'"
| "vfs_chown (\<lambda>_. ramfs_ops mem) path uid gid s = (s', r) \<Longrightarrow> path_step mem s s'"
| "open_inode (\<lambda>_. ramfs_ops mem) apath flags mode s = (s', ino) \<Longrightarrow> path_step mem s s'"

definition path_frame :: "(ramfs, 'a) vfs_state_scheme \<Rightarrow> (ramfs, 'a) vfs_state_scheme \<Rightarrow> bool" where
  "path_frame s s' \<longleftrightarrow> keeps_open (fs s) (fs s') \<and> procs s' = procs s \<and> cur s' = cur s \<and> open_files s' = open_files s"

lemma path_frame_refl [simp]: "path_frame s s"
  by (simp add: path_frame_def)

lemma path_frame_upd:
  assumes "keeps_open (fs s) x"
  shows "path_frame s (s\<lparr>fs := x\<rparr>)" "path_frame s (s\<lparr>fs := x, dcache := d\<rparr>)"
  using assms by (simp_all add: path_frame_def cur_def get_current_process_def current_process_def)

lemma path_step_frame: "path_step mem s s' \<Longrightarrow> path_frame s s'"
proof (induction rule: path_step.induct)
  case (1 path mode s s' r)
  then show ?case using create_dir_keeps[of "fs s"]
    by (auto simp: vfs_mkdir_def split: option.splits if_splits sum.splits prod.splits
        intro!: path_frame_upd) (metis fst_conv)+
next
  case (2 path s s' r)
  then show ?case using unlink_keeps[of "fs s"]
    by (auto simp: vfs_unlink_def split: option.splits if_splits sum.splits prod.splits
        intro!: path_frame_upd) (metis fst_conv)+
next
  case (3 path path' s s' r)
  then show ?case using rename_keeps[of "fs s"]
    by (auto simp: vfs_rename_def split: option.splits if_splits sum.splits prod.splits
        intro!: path_frame_upd) (metis fst_conv)+
next
  case (4 path mode s s' r)
  then show ?case using chmod_keeps[of "fs s"]
    by (auto simp: vfs_chmod_def Let_def split: option.splits if_splits sum.splits prod.splits
        intro!: path_frame_upd) (metis fst_conv)+
next
  case (5 path uid gid s s' r)
  then show ?case using chown_keeps[of "fs s"]
    by (auto simp: vfs_chown_def split: option.splits if_splits sum.splits prod.splits
        intro!: path_frame_upd) (metis fst_conv)+
next
  case (6 apath flags mode s s' ino)
  then show ?case using create_file_keeps[of "fs s"]
    by (auto simp: open_inode_def split: option.splits if_splits sum.splits prod.splits
        intro!: path_frame_upd) (metis fst_conv)+
qed

section \<open>Properties\<close>

text \<open>
  C18 (open files, safety).  An open file outlives its name: through any sequence of mkdir,
  unlink, rename, chmod, chown and creating opens, with every mount a ramfs, a descriptor
  whose inode has a positive open count reads the same bytes at every offset as before,
  even when its last link was removed and new files were created.
\<close>
theorem open_file_survives:
  assumes "open_typed (fs s)" "(path_step mem)\<^sup>*\<^sup>* s s'" "fd_to_of_idx_locked fd s = Some i"
    and "inode_open_count (fs s) (f_inode (open_files s i)) \<noteq> 0"
  shows "vfs_pread (\<lambda>_. ramfs_ops mem) fd b count off s' = vfs_pread (\<lambda>_. ramfs_ops mem) fd b count off s"
proof -
  have "path_frame s s'"
    using assms(2)
  proof (induction rule: rtranclp_induct)
    case (step y z)
    then show ?case using path_step_frame[OF step(2)] keeps_open_trans unfolding path_frame_def by metis
  qed simp
  then have k: "keeps_open (fs s) (fs s')" "procs s' = procs s" "cur s' = cur s" "open_files s' = open_files s"
    by (simp_all add: path_frame_def)
  have "fd_to_of_idx_locked fd s' = Some i" using assms(3) unfolding fd_to_of_idx_locked_def k(2-4) .
  moreover have "same_data (inode_table (fs s) (f_inode (open_files s i))) (inode_table (fs s') (f_inode (open_files s i)))"
    using k(1) assms(1,4) by (simp add: keeps_open_def)
  ultimately show ?thesis using assms(3) k(4)
    by (cases "f_fs (open_files s i)")
      (simp_all add: vfs_pread_def ramfs_read_data_def same_data_def Let_def split: option.splits)
qed

lemma opened_survives_facts:
  "open_typed (fs vfs_opened)" "inode_open_count (fs vfs_opened) 2 = 1" "fd_to_of_idx_locked 3 vfs_opened = Some 0"
proof -
  have c: "inode_open_count ramfs_one = (\<lambda>_. 0)"
    by (simp add: ramfs_one_def ramfs_create_file_def ramfs_init_def kernel_const zero_inode_def ramfs_alloc_inode_def
        ramfs_add_child_def Let_def)
  show "open_typed (fs vfs_opened)" "inode_open_count (fs vfs_opened) 2 = 1" "fd_to_of_idx_locked 3 vfs_opened = Some 0"
    by (simp_all add: open_typed_def open_booted ramfs_inc_open_count_def c ramfs_one_inode zero_inode_def
        fd_to_of_idx_locked_def fd_resolve_slot_def kernel_const)
qed

theorem open_file_survives_witness:
  "\<exists>s' r. vfs_unlink (\<lambda>_. ramfs_ops True) (Some ''/a'') vfs_opened = (s', r) \<and>
     vfs_pread (\<lambda>_. ramfs_ops True) 3 (Some []) 1 0 s' = vfs_pread (\<lambda>_. ramfs_ops True) 3 (Some []) 1 0 vfs_opened"
proof -
  obtain s' r where u: "vfs_unlink (\<lambda>_. ramfs_ops True) (Some ''/a'') vfs_opened = (s', r)" by fastforce
  then have "(path_step True)\<^sup>*\<^sup>* vfs_opened s'" by (intro r_into_rtranclp path_step.intros(2))
  from open_file_survives[OF opened_survives_facts(1) this opened_survives_facts(3)] u show ?thesis
    by (simp add: open_booted(2) opened_survives_facts(2))
qed

text \<open>
  C38 (open files, safety).  \<open>rmdir\<close> does not look at the open count: removing an empty
  directory frees its inode and clears the count even while a descriptor is open on it, and
  when it is the lowest free inode the next file created gets it, which the old descriptor
  then reads.
\<close>
theorem rmdir_frees_open_directory:
  assumes "ramfs_inv x" "ramfs_op_rmdir p nm x = (x', Inr ())" "idx = ramfs_lookup_child x p nm"
  shows "i_type (inode_table x' idx) = INODE_FREE \<and> inode_open_count x' idx = 0 \<and>
    ((\<forall>i. 2 \<le> i \<and> i < idx \<longrightarrow> i_type (inode_table x' i) \<noteq> INODE_FREE) \<longrightarrow> snd (ramfs_alloc_inode x') = idx)"
proof -
  have t: "tree_ok x" using assms(1) by (simp add: ramfs_inv_def)
  have i: "idx \<noteq> 0" using assms(2,3) by (auto simp: ramfs_op_rmdir_def Let_def split: if_splits)
  then have "idx \<in> set (i_children (inode_table x p))" using lookup_child_SomeD(1)[OF t] assms(3) by simp
  then have r: "2 \<le> idx" "idx < 128" using tree_okD(2,3)[OF t] by fastforce+
  then have f: "i_type (inode_table x' idx) = INODE_FREE" "inode_open_count x' idx = 0"
    using assms(2,3) i by (auto simp: ramfs_op_rmdir_def ramfs_free_inode_def RAMFS_MAX_INODES_def zero_inode_def Let_def split: if_splits)
  have "snd (ramfs_alloc_inode x') = idx" if l: "\<forall>i. 2 \<le> i \<and> i < idx \<longrightarrow> i_type (inode_table x' i) \<noteq> INODE_FREE"
  proof -
    have "find (\<lambda>i. i_type (inode_table x' i) = INODE_FREE) [2..<128] = Some idx"
      using r f(1) l by (intro find_upt_SomeI) auto
    then show ?thesis by (simp add: ramfs_alloc_inode_def RAMFS_MAX_INODES_def del: upt_rec_numeral)
  qed
  then show ?thesis using f by blast
qed

theorem rmdir_frees_open_directory_witness:
  "let x = ramfs_inc_open_count 2 (fst (ramfs_create_dir 1 ''d'' 0x1ED ramfs_init)); x' = fst (ramfs_op_rmdir 1 ''d'' x)
   in inode_open_count x 2 = 1 \<and> snd (ramfs_alloc_inode x') = 2"
proof -
  define y where "y = fst (ramfs_create_dir 1 ''d'' 0x1ED ramfs_init)"
  define x where "x = ramfs_inc_open_count 2 y"
  have y: "inode_table y = (\<lambda>_. zero_inode)(
      1 := zero_inode\<lparr>i_type := INODE_DIR, i_mode := 0x1ED, i_nlink := 3, i_name := ''/'', i_children := [2]\<rparr>,
      2 := zero_inode\<lparr>i_type := INODE_DIR, i_mode := 0x1ED, i_nlink := 2, i_name := ''d'', i_parent := 1\<rparr>)"
    "inode_open_count y = (\<lambda>_. 0)"
    by (auto simp: y_def ramfs_create_dir_def ramfs_init_def kernel_const zero_inode_def ramfs_alloc_inode_def
        ramfs_add_child_def ramfs_lookup_child_def Let_def)
  have "ramfs_inv y" unfolding y_def using create_dir_inv[OF ramfs_init_inv] by (metis prod.collapse)
  then have inv: "ramfs_inv x" unfolding x_def by (rule open_count_inv)
  have l: "ramfs_lookup_child x 1 ''d'' = 2"
    by (simp add: x_def ramfs_inc_open_count_def ramfs_lookup_child_def y)
  have n: "i_type (inode_table x 2) = INODE_DIR" "i_children (inode_table x 2) = []"
    by (simp_all add: x_def ramfs_inc_open_count_def y zero_inode_def)
  obtain x' where r: "ramfs_op_rmdir 1 ''d'' x = (x', Inr ())"
    using n unfolding ramfs_op_rmdir_def l Let_def ramfs_get_inode_def by simp
  have "snd (ramfs_alloc_inode x') = 2" using rmdir_frees_open_directory[OF inv r l[symmetric]] by (metis not_less)
  moreover have "inode_open_count x 2 = 1" by (simp add: x_def ramfs_inc_open_count_def y)
  ultimately show ?thesis unfolding Let_def y_def[symmetric] x_def[symmetric] r by simp
qed

text \<open>
  C39 (open files, error).  An open with \<open>O_TRUNC\<close> that fails because no descriptor is free has
  emptied the file all the same.
\<close>
theorem failed_open_truncates:
  assumes "vfs_make_abs_path (Some path) (p_cwd (procs s (cur s))) 512 = Inr apath"
    and "vfs_resolve_path (\<lambda>_. ramfs_ops mem) (fs s) (mounts s) apath = Inr (m, ino)"
    and "flags AND NOT VFS_OPEN_SUPPORTED_FLAGS = 0" "flags AND O_ACCMODE \<noteq> O_ACCMODE" "flags AND O_TRUNC \<noteq> 0"
    and "i_type (inode_table (fs s) ino) = INODE_FILE" "find_free_fd s = None"
  shows "\<exists>s'. vfs_open (\<lambda>_. ramfs_ops mem) (Some path) flags mode s = (s', Inl EMFILE) \<and>
    file_bytes (inode_table (fs s') ino) = []"
proof -
  define t where "t = s\<lparr>fs := fst (ramfs_truncate_inode mem ino 0 (fs s))\<rparr>"
  have o: "vfs_open (\<lambda>_. ramfs_ops mem) (Some path) flags mode s = open_install (\<lambda>_. ramfs_ops mem) (mnt_ops (mounts s m)) ino flags t"
    using assms(1-5) by (simp add: vfs_open_def open_inode_def t_def)
  obtain s' r where i: "open_install (\<lambda>_. ramfs_ops mem) (mnt_ops (mounts s m)) ino flags t = (s', r)" by fastforce
  have f: "find_free_fd t = None" using assms(7) by (simp add: t_def find_free_fd_def)
  have "r = Inl EMFILE \<and> fs s' = fs t"
  proof (cases "vfs_alloc_open_file t")
    case (Pair u q)
    then show ?thesis using i f alloc_open_file_SomeD(3)[of t u] alloc_open_file_NoneD[of t u]
      by (cases q) (auto simp: open_install_def Let_def find_free_fd_def vfs_free_open_file_def)
  qed
  moreover have "file_bytes (inode_table (fs t) ino) = []"
    using assms(6) by (auto simp: t_def ramfs_truncate_inode_def file_bytes_def slice_of_def Let_def split: option.splits)
  ultimately show ?thesis using o i by auto
qed

theorem failed_open_truncates_witness:
  "let s = vfs_opened\<lparr>procs := (\<lambda>_. zero_process\<lparr>p_fd_table := (\<lambda>_. no_fd\<lparr>of_idx := 1\<rparr>)\<rparr>)\<rparr>
   in find_free_fd s = None \<and>
      (\<exists>s'. vfs_open (\<lambda>_. ramfs_ops True) (Some ''/a'') 0x201 0 s = (s', Inl EMFILE) \<and> file_bytes (inode_table (fs s') 2) = [])"
proof -
  let ?s = "vfs_opened\<lparr>procs := (\<lambda>_. zero_process\<lparr>p_fd_table := (\<lambda>_. no_fd\<lparr>of_idx := 1\<rparr>)\<rparr>)\<rparr>"
  have f: "find_free_fd ?s = None" by (simp add: find_free_fd_def find_None_iff del: upt_rec_numeral)
  have m: "mounts vfs_opened = mounts vfs_booted" using vfs_open_exact[OF open_booted(1)] by (auto simp: opened_def)
  have l: "ramfs_lookup_child (fs vfs_opened) 1 ''a'' = 2"
    by (simp add: open_booted(4) ramfs_inc_open_count_def ramfs_one_def ramfs_create_file_def ramfs_init_def kernel_const zero_inode_def
        ramfs_alloc_inode_def ramfs_add_child_def ramfs_lookup_child_def Let_def)
  have p: "vfs_resolve_path (\<lambda>_. ramfs_ops True) (fs ?s) (mounts ?s) ''/a'' = Inr (0, 2)"
    using l by (simp add: m vfs_resolve_path_def resolve_booted) (simp add: vfs_booted_facts resolve_one_def ramfs_op_resolve_def)
  have t: "i_type (inode_table (fs ?s) 2) = INODE_FILE"
    by (simp add: open_booted(4) ramfs_inc_open_count_def ramfs_one_inode)
  have a: "vfs_make_abs_path (Some ''/a'') (p_cwd (procs ?s (cur ?s))) 512 = Inr ''/a''" by (simp add: vfs_make_abs_path_def)
  from failed_open_truncates[OF a p _ _ _ t f, where flags = "0x201" and mode = 0] f show ?thesis by (simp add: Let_def kernel_const)
qed

end
