(* ===== verification/Block.thy ===== *)
theory Block
  imports KString "HOL-Library.Sublist"
begin

text \<open>
  Block devices: the registry of \<^verbatim>\<open>src/kernel/drivers/block/block.c\<close>, the transfers of
  \<^verbatim>\<open>virtio_blk.c\<close> in sectors of 512 bytes, and what a crash leaves on the disk.

  The device below the driver is hardware.  It is modelled as the contents of the disk at the
  start and the log of sector writes and flushes since: a flush makes all earlier writes
  durable, and a crash keeps any part of the writes after the last flush, each sector whole
  and the writes to one sector in order.  \<open>dev_fail\<close> says which requests the device answers
  with an error; a failing request transfers nothing.
\<close>

section \<open>The device\<close>

type_synonym sector = "byte list"
type_synonym disk = "nat \<Rightarrow> sector"

datatype dev_op = DWrite nat sector | DFlush

record blkdev =
  dev_base :: disk
  dev_log :: "dev_op list"
  dev_fail :: "nat \<Rightarrow> bool"
  dev_reqs :: nat

definition apply_writes :: "(nat \<times> sector) list \<Rightarrow> disk \<Rightarrow> disk" where
  "apply_writes ws d = fold (\<lambda>(l, b) d. d(l := b)) ws d"

text \<open>The durable contents and the writes that are still in the cache.\<close>

fun dev_run :: "dev_op list \<Rightarrow> disk \<times> (nat \<times> sector) list \<Rightarrow> disk \<times> (nat \<times> sector) list" where
  "dev_run [] s = s"
| "dev_run (DWrite l b # ops) (d, pend) = dev_run ops (d, pend @ [(l, b)])"
| "dev_run (DFlush # ops) (d, pend) = dev_run ops (apply_writes pend d, [])"

definition dev_view :: "blkdev \<Rightarrow> disk" where
  "dev_view bd = (case dev_run (dev_log bd) (dev_base bd, []) of (d, pend) \<Rightarrow> apply_writes pend d)"

definition dev_request :: "blkdev \<Rightarrow> blkdev \<times> bool" where
  "dev_request bd = (bd\<lparr>dev_reqs := dev_reqs bd + 1\<rparr>, \<not> dev_fail bd (dev_reqs bd))"

definition dev_append :: "dev_op list \<Rightarrow> blkdev \<Rightarrow> blkdev" where
  "dev_append ops bd = bd\<lparr>dev_log := dev_log bd @ ops\<rparr>"

definition sector_of :: "byte list \<Rightarrow> nat \<Rightarrow> sector" where
  "sector_of data i = take 512 (drop (512 * i) data)"

section \<open>Transfers\<close>

text \<open>
  \<open>vio_read\<close> and \<open>vio_write\<close> split a transfer into chunks of at most 256 sectors, each of
  them one request.  The result \<open>-1\<close> of a failing request is the number of \<open>EPERM\<close>.
\<close>

function vio_read :: "nat \<Rightarrow> nat \<Rightarrow> blkdev \<Rightarrow> blkdev \<times> byte list res" where
  "vio_read lba count bd =
     (if count = 0 then (bd, Inr [])
      else
        let chunk = (if 256 < count then 256 else count)
        in case dev_request bd of
             (bd, False) \<Rightarrow> (bd, Inl EPERM)
           | (bd, True) \<Rightarrow>
               (case vio_read (lba + chunk) (count - chunk) bd of
                  (bd', Inl e) \<Rightarrow> (bd', Inl e)
                | (bd', Inr rest) \<Rightarrow> (bd', Inr (concat (map (dev_view bd) [lba..<lba + chunk]) @ rest))))"
  by pat_completeness auto
termination by (relation "measure (\<lambda>(lba, count, bd). count)") auto

function vio_write :: "nat \<Rightarrow> nat \<Rightarrow> byte list \<Rightarrow> blkdev \<Rightarrow> blkdev \<times> unit res" where
  "vio_write lba count p bd =
     (if count = 0 then (bd, Inr ())
      else
        let chunk = (if 256 < count then 256 else count)
        in case dev_request bd of
             (bd, False) \<Rightarrow> (bd, Inl EPERM)
           | (bd, True) \<Rightarrow>
               vio_write (lba + chunk) (count - chunk) (drop (chunk * 512) p)
                 (dev_append (map (\<lambda>i. DWrite (lba + i) (sector_of p i)) [0..<chunk]) bd))"
  by pat_completeness auto
termination by (relation "measure (\<lambda>(lba, count, p, bd). count)") auto

definition vio_flush :: "blkdev \<Rightarrow> blkdev \<times> unit res" where
  "vio_flush bd =
     (case dev_request bd of
        (bd, False) \<Rightarrow> (bd, Inl EPERM)
      | (bd, True) \<Rightarrow> (dev_append [DFlush] bd, Inr ()))"

definition blk_read :: "nat \<Rightarrow> nat \<Rightarrow> blkdev \<Rightarrow> blkdev \<times> byte list res" where
  "blk_read lba count bd = vio_read lba count bd"

definition blk_write :: "nat \<Rightarrow> nat \<Rightarrow> byte list \<Rightarrow> blkdev \<Rightarrow> blkdev \<times> unit res" where
  "blk_write lba count data bd = vio_write lba count data bd"

definition blk_flush :: "blkdev \<Rightarrow> blkdev \<times> unit res" where
  "blk_flush bd = vio_flush bd"

section \<open>The registry\<close>

text \<open>A registered device is its name and whether its methods for reading and writing are set.\<close>

record block_device =
  bd_name :: string
  has_read :: bool
  has_write :: bool

definition MAX_BLOCK_DEVICES :: nat where [kernel_const]: "MAX_BLOCK_DEVICES = 8"

definition block_device_register :: "block_device option \<Rightarrow> block_device list \<Rightarrow> block_device list \<times> unit res" where
  "block_device_register bd devs =
     (case bd of
        None \<Rightarrow> (devs, Inl EINVAL)
      | Some b \<Rightarrow>
          if \<not> has_read b \<or> \<not> has_write b then (devs, Inl EINVAL)
          else if MAX_BLOCK_DEVICES \<le> length devs then (devs, Inl ENOSPC)
          else if list_ex (\<lambda>d. bd_name d = bd_name b) devs then (devs, Inl EEXIST)
          else (devs @ [b], Inr ()))"

definition block_device_find :: "string \<Rightarrow> block_device list \<Rightarrow> block_device option" where
  "block_device_find nm devs = find (\<lambda>d. bd_name d = nm) devs"

section \<open>Crashes\<close>

text \<open>A disk a crash may leave: the durable contents and some of the cached writes.\<close>

definition crash_disk :: "disk \<Rightarrow> dev_op list \<Rightarrow> disk \<Rightarrow> bool" where
  "crash_disk base ops c \<longleftrightarrow>
     (case dev_run ops (base, []) of (d, pend) \<Rightarrow> \<exists>ws. subseq ws pend \<and> c = apply_writes ws d)"

definition power_on :: "disk \<Rightarrow> blkdev" where
  "power_on c = \<lparr>dev_base = c, dev_log = [], dev_fail = (\<lambda>_. False), dev_reqs = 0\<rparr>"

lemma apply_writes_simps [simp]:
  "apply_writes [] d = d" "apply_writes (w # ws) d = apply_writes ws (d(fst w := snd w))"
  "apply_writes (ws @ vs) d = apply_writes vs (apply_writes ws d)"
  by (simp_all add: apply_writes_def split: prod.splits)

lemma dev_run_append: "dev_run (xs @ ys) s = dev_run ys (dev_run xs s)"
  by (induction xs s rule: dev_run.induct) simp_all

lemma dev_run_writes: "dev_run (map (\<lambda>i. DWrite (f i) (g i)) is) (d, pend) = (d, pend @ map (\<lambda>i. (f i, g i)) is)"
  by (induction "is" arbitrary: pend) simp_all

fun view_op :: "dev_op \<Rightarrow> disk \<Rightarrow> disk" where
  "view_op (DWrite l b) d = d(l := b)"
| "view_op DFlush d = d"

lemma dev_run_view: "(case dev_run ops (d, pend) of (d', p') \<Rightarrow> apply_writes p' d') = fold view_op ops (apply_writes pend d)"
proof (induction ops arbitrary: d pend)
  case (Cons op ops)
  then show ?case by (cases op) (simp_all add: fun_upd_def)
qed simp

text \<open>What is read is the effect of all writes, flushed or not.\<close>

lemma dev_view_fold: "dev_view bd = fold view_op (dev_log bd) (dev_base bd)"
  using dev_run_view[of "dev_log bd" "dev_base bd" "[]"] by (simp add: dev_view_def)

lemma dev_view_append: "dev_view (dev_append ops bd) = fold view_op ops (dev_view bd)"
  by (simp add: dev_view_fold dev_append_def)

text \<open>Storing consecutive sectors.\<close>

definition put_sectors :: "nat \<Rightarrow> nat \<Rightarrow> byte list \<Rightarrow> disk \<Rightarrow> disk" where
  "put_sectors lba n data d = (\<lambda>l. if lba \<le> l \<and> l < lba + n then sector_of data (l - lba) else d l)"

lemma apply_put: "apply_writes (map (\<lambda>i. (lba + i, sector_of data i)) [0..<n]) d = put_sectors lba n data d"
proof (induction n)
  case (Suc n)
  then show ?case by (auto simp: put_sectors_def fun_eq_iff)
qed (auto simp: put_sectors_def fun_eq_iff)

definition get_sectors :: "nat \<Rightarrow> nat \<Rightarrow> disk \<Rightarrow> byte list" where
  "get_sectors lba n d = concat (map d [lba..<lba + n])"

text \<open>A working device transfers everything.\<close>

definition dev_ok :: "blkdev \<Rightarrow> bool" where
  "dev_ok bd \<longleftrightarrow> (\<forall>n. \<not> dev_fail bd n)"

lemma dev_request_ok: "dev_ok bd \<Longrightarrow> dev_request bd = (bd\<lparr>dev_reqs := dev_reqs bd + 1\<rparr>, True)"
  by (simp add: dev_request_def dev_ok_def)

definition write_ops :: "nat \<Rightarrow> nat \<Rightarrow> byte list \<Rightarrow> dev_op list" where
  "write_ops lba n data = map (\<lambda>i. DWrite (lba + i) (sector_of data i)) [0..<n]"

lemma dev_run_write_ops: "dev_run (write_ops lba n data) (d, pend) = (d, pend @ map (\<lambda>i. (lba + i, sector_of data i)) [0..<n])"
  by (simp add: write_ops_def dev_run_writes)

lemma blk_read_ok:
  assumes "dev_ok bd" "n \<le> 256" "0 < n"
  shows "blk_read lba n bd = (bd\<lparr>dev_reqs := dev_reqs bd + 1\<rparr>, Inr (get_sectors lba n (dev_view bd)))"
  using assms by (simp add: blk_read_def vio_read.simps[of lba] vio_read.simps[of _ 0] dev_request_ok get_sectors_def dev_view_def)

lemma blk_write_ok:
  assumes "dev_ok bd" "n \<le> 256" "0 < n"
  shows "blk_write lba n data bd = (dev_append (write_ops lba n data) (bd\<lparr>dev_reqs := dev_reqs bd + 1\<rparr>), Inr ())"
  using assms by (simp add: blk_write_def vio_write.simps[of lba] vio_write.simps[of _ 0] dev_request_ok write_ops_def)

lemma blk_flush_ok: "dev_ok bd \<Longrightarrow> blk_flush bd = (dev_append [DFlush] (bd\<lparr>dev_reqs := dev_reqs bd + 1\<rparr>), Inr ())"
  by (simp add: blk_flush_def vio_flush_def dev_request_ok)

lemma dev_ok_simps [simp]:
  "dev_ok (dev_append ops bd) = dev_ok bd" "dev_ok (bd\<lparr>dev_reqs := n\<rparr>) = dev_ok bd"
  "dev_view (bd\<lparr>dev_reqs := n\<rparr>) = dev_view bd" "dev_log (dev_append ops bd) = dev_log bd @ ops"
  "dev_base (dev_append ops bd) = dev_base bd"
  by (simp_all add: dev_ok_def dev_append_def dev_view_def)

lemma power_on_simps [simp]: "dev_ok (power_on c)" "dev_view (power_on c) = c"
  by (simp_all add: power_on_def dev_ok_def dev_view_def)

lemma view_write_ops: "dev_view (dev_append (write_ops lba n data) bd) = put_sectors lba n data (dev_view bd)"
proof -
  have "fold view_op (write_ops lba n data) d =
      apply_writes (map (\<lambda>i. (lba + i, sector_of data i)) [0..<n]) d" for d
    using dev_run_view[of "write_ops lba n data" d "[]"] by (simp add: dev_run_write_ops)
  then show ?thesis by (simp add: dev_view_append apply_put)
qed

lemma view_flush [simp]: "dev_view (dev_append [DFlush] bd) = dev_view bd"
  by (simp add: dev_view_append)

text \<open>Disks whose sectors have 512 bytes.\<close>

definition disk_ok :: "disk \<Rightarrow> bool" where
  "disk_ok d \<longleftrightarrow> (\<forall>l. length (d l) = 512)"

lemma sector_get:
  assumes "disk_ok d" "i < n"
  shows "sector_of (get_sectors lba n d) i = d (lba + i)"
  using assms(2)
proof (induction n arbitrary: lba i)
  case (Suc n)
  have g: "get_sectors lba (Suc n) d = d lba @ get_sectors (Suc lba) n d"
    unfolding get_sectors_def by (subst upt_conv_Cons) auto
  have l: "length (d lba) = 512" using assms(1) by (simp add: disk_ok_def)
  show ?case
  proof (cases i)
    case 0
    then show ?thesis by (simp add: g sector_of_def l)
  next
    case (Suc j)
    then have "sector_of (get_sectors lba (n + 1) d) i = sector_of (get_sectors (Suc lba) n d) j"
      using g l by (simp add: sector_of_def)
    then show ?thesis using Suc Suc.prems Suc.IH[of j "Suc lba"] by simp
  qed
qed simp

lemma put_get:
  assumes "disk_ok d"
  shows "put_sectors lba' n (get_sectors lba n d) e = (\<lambda>l. if lba' \<le> l \<and> l < lba' + n then d (lba + (l - lba')) else e l)"
  using sector_get[OF assms] by (auto simp: put_sectors_def fun_eq_iff)

lemma get_put:
  assumes "length data = 512 * n"
  shows "get_sectors lba n (put_sectors lba n data d) = data"
  using assms
proof (induction n arbitrary: data lba d)
  case (Suc n)
  have m: "put_sectors lba (Suc n) data d l = put_sectors (Suc lba) n (drop 512 data) d l" if "l \<in> set [Suc lba..<lba + Suc n]" for l
  proof -
    have "Suc lba \<le> l" using that by auto
    then obtain k where "l = Suc lba + k" using le_Suc_ex by blast
    then show ?thesis using that by (simp add: put_sectors_def sector_of_def add.commute)
  qed
  have "get_sectors lba (Suc n) (put_sectors lba (Suc n) data d) =
      take 512 data @ concat (map (put_sectors lba (Suc n) data d) [Suc lba..<lba + Suc n])"
    unfolding get_sectors_def by (subst upt_conv_Cons) (auto simp: put_sectors_def sector_of_def)
  also have "map (put_sectors lba (Suc n) data d) [Suc lba..<lba + Suc n] =
      map (put_sectors (Suc lba) n (drop 512 data) d) [Suc lba..<lba + Suc n]" by (rule map_cong) (use m in auto)
  also have "take 512 data @ concat \<dots> = take 512 data @ get_sectors (Suc lba) n (put_sectors (Suc lba) n (drop 512 data) d)"
    by (simp add: get_sectors_def)
  also have "\<dots> = data" using Suc.IH[of "drop 512 data" "Suc lba" d] Suc.prems by simp
  finally show ?case .
qed (simp add: get_sectors_def)

lemma disk_ok_put: "disk_ok d \<Longrightarrow> 512 * n \<le> length data \<Longrightarrow> disk_ok (put_sectors lba n data d)"
proof -
  assume d: "disk_ok d" "512 * n \<le> length data"
  have "512 \<le> length data - 512 * (l - lba)" if "lba \<le> l" "l < lba + n" for l
  proof -
    have "512 * (l - lba) + 512 \<le> 512 * n" using that by linarith
    then show ?thesis using d(2) by linarith
  qed
  then show ?thesis using d(1) by (simp add: disk_ok_def put_sectors_def sector_of_def min_absorb2)
qed

end
