(* ===== verification/Journal.thy ===== *)
theory Journal
  imports Block
begin

text \<open>
  The write-ahead journal of \<^verbatim>\<open>src/kernel/fs/journal.c\<close>: one transaction slot of a header block
  and up to eight data blocks behind the journal's superblock, in blocks of 4096 bytes.  The
  single static transaction \<open>g_txn\<close> is part of the state; a null transaction or data pointer is
  \<open>None\<close>, an outcome of \<open>kmalloc\<close> an argument.
\<close>

section \<open>Data on the disk\<close>

definition JOURNAL_MAGIC :: u32 where [kernel_const]: "JOURNAL_MAGIC = 0x4A4F5552"
definition JOURNAL_VERSION :: u32 where [kernel_const]: "JOURNAL_VERSION = 1"
definition JOURNAL_BLOCK_SIZE :: nat where [kernel_const]: "JOURNAL_BLOCK_SIZE = 4096"
definition JOURNAL_DEFAULT_BLOCKS :: nat where [kernel_const]: "JOURNAL_DEFAULT_BLOCKS = 32"
definition JOURNAL_MAX_PER_TXN :: nat where [kernel_const]: "JOURNAL_MAX_PER_TXN = 8"
definition JOURNAL_SLOT_HDR :: nat where [kernel_const]: "JOURNAL_SLOT_HDR = 1"
definition JOURNAL_SLOT_DATA0 :: nat where [kernel_const]: "JOURNAL_SLOT_DATA0 = JOURNAL_SLOT_HDR + 1"

record journal_superblock =
  sb_magic :: u32
  sb_version :: u32
  sb_num_blocks :: u32
  sb_txn_id_next :: u32
  sb_pad :: "byte list"

record journal_txn_header =
  h_magic :: u32
  h_txn_id :: u32
  h_num_blocks :: u32
  h_committed :: u32
  h_target_blocks :: "u32 list"
  h_crc :: u32
  h_pad :: "byte list"

text \<open>The structs in memory order; the words are little-endian.\<close>

definition sb_bytes :: "journal_superblock \<Rightarrow> byte list" where
  "sb_bytes sb = concat (map word_bytes [sb_magic sb, sb_version sb, sb_num_blocks sb, sb_txn_id_next sb]) @ sb_pad sb"

definition header_words :: "journal_txn_header \<Rightarrow> u32 list" where
  "header_words h = [h_magic h, h_txn_id h, h_num_blocks h, h_committed h] @ h_target_blocks h"

definition header_bytes :: "journal_txn_header \<Rightarrow> byte list" where
  "header_bytes h = concat (map word_bytes (header_words h)) @ word_bytes (h_crc h) @ h_pad h"

definition word_at :: "byte list \<Rightarrow> nat \<Rightarrow> u32" where
  "word_at bs k = bytes_word (take 4 (drop (4 * k) bs))"

definition sb_of_bytes :: "byte list \<Rightarrow> journal_superblock" where
  "sb_of_bytes bs = \<lparr>sb_magic = word_at bs 0, sb_version = word_at bs 1, sb_num_blocks = word_at bs 2,
     sb_txn_id_next = word_at bs 3, sb_pad = drop 16 bs\<rparr>"

definition header_of_bytes :: "byte list \<Rightarrow> journal_txn_header" where
  "header_of_bytes bs = \<lparr>h_magic = word_at bs 0, h_txn_id = word_at bs 1, h_num_blocks = word_at bs 2,
     h_committed = word_at bs 3, h_target_blocks = map (\<lambda>k. word_at bs (4 + k)) [0..<JOURNAL_MAX_PER_TXN],
     h_crc = word_at bs 12, h_pad = drop 52 bs\<rparr>"

definition zero_block :: "byte list" where
  "zero_block = replicate JOURNAL_BLOCK_SIZE 0"

section \<open>The state\<close>

text \<open>The arrays \<open>target_blocks\<close> and \<open>data_buffers\<close> up to \<open>num_blocks\<close> are one list of pairs.\<close>

record journal_txn =
  tx_in_use :: bool
  txn_id :: u32
  tx_blocks :: "(u32 \<times> byte list) list"

definition zero_txn :: journal_txn where
  "zero_txn = \<lparr>tx_in_use = False, txn_id = 0, tx_blocks = []\<rparr>"

record journal =
  j_bd :: blkdev
  g_journal_start :: u32
  g_sectors_per_block :: nat
  g_target_sectors :: nat
  j_sb :: journal_superblock
  g_initialized :: bool
  j_txn :: journal_txn

section \<open>Checksum and block writes\<close>

definition crc_bit :: "u32 \<Rightarrow> u32" where
  "crc_bit crc = drop_bit 1 crc XOR (0xEDB88320 AND - (crc AND 1))"

definition crc_byte :: "byte \<Rightarrow> u32 \<Rightarrow> u32" where
  "crc_byte b crc = (crc_bit ^^ 8) (crc XOR ucast b)"

definition journal_crc :: "journal_txn_header \<Rightarrow> u32" where
  "journal_crc h = NOT (fold crc_byte (concat (map word_bytes (header_words h))) 0xFFFFFFFF)"

definition block_lba :: "nat \<Rightarrow> journal \<Rightarrow> nat" where
  "block_lba idx j = unat (g_journal_start j + of_nat idx) * g_sectors_per_block j"

definition journal_write_block :: "nat \<Rightarrow> byte list \<Rightarrow> journal \<Rightarrow> journal \<times> unit res" where
  "journal_write_block idx data j =
     (case blk_write (block_lba idx j) (g_sectors_per_block j) data (j_bd j) of (bd, r) \<Rightarrow> (j\<lparr>j_bd := bd\<rparr>, r))"

fun format_loop :: "nat list \<Rightarrow> journal \<Rightarrow> journal \<times> unit res" where
  "format_loop [] j = (j, Inr ())"
| "format_loop (i # is) j =
     (case journal_write_block i zero_block j of
        (j, Inl e) \<Rightarrow> (j, Inl e)
      | (j, Inr _) \<Rightarrow> format_loop is j)"

definition journal_format_fresh :: "nat \<Rightarrow> journal \<Rightarrow> journal \<times> unit res" where
  "journal_format_fresh num_blocks j =
     (case format_loop [1..<num_blocks] j of
        (j, Inl e) \<Rightarrow> (j, Inl e)
      | (j, Inr _) \<Rightarrow>
          let sb = \<lparr>sb_magic = JOURNAL_MAGIC, sb_version = JOURNAL_VERSION, sb_num_blocks = of_nat num_blocks,
                    sb_txn_id_next = 1, sb_pad = replicate 4080 0\<rparr>
          in journal_write_block 0 (sb_bytes sb) (j\<lparr>j_sb := sb\<rparr>))"

section \<open>Starting and recovery\<close>

definition journal_init :: "blkdev option \<Rightarrow> u32 \<Rightarrow> journal \<Rightarrow> journal \<times> unit res" where
  "journal_init bd journal_start_block j =
     (case bd of
        None \<Rightarrow> (j, Inl EINVAL)
      | Some bd \<Rightarrow>
          let spb = JOURNAL_BLOCK_SIZE div 512;
              j = j\<lparr>j_bd := bd, g_journal_start := journal_start_block, g_sectors_per_block := spb,
                    g_target_sectors := (if g_target_sectors j = 0 then spb else g_target_sectors j)\<rparr>
          in case blk_read (unat journal_start_block * spb) spb (j_bd j) of
               (bd, Inl e) \<Rightarrow> (j\<lparr>j_bd := bd\<rparr>, Inl e)
             | (bd, Inr bs) \<Rightarrow>
                 let j = j\<lparr>j_bd := bd, j_sb := sb_of_bytes bs\<rparr>
                 in case (if sb_magic (j_sb j) = JOURNAL_MAGIC \<and> sb_version (j_sb j) = JOURNAL_VERSION then (j, Inr ())
                          else journal_format_fresh JOURNAL_DEFAULT_BLOCKS j) of
                      (j, Inl e) \<Rightarrow> (j, Inl e)
                    | (j, Inr _) \<Rightarrow> (j\<lparr>j_txn := zero_txn, g_initialized := True\<rparr>, Inr ()))"

definition discard_slot :: "nat \<Rightarrow> journal \<Rightarrow> journal \<times> unit res" where
  "discard_slot hdr_blk = journal_write_block hdr_blk zero_block"

fun replay_loop :: "u32 list \<Rightarrow> nat \<Rightarrow> journal \<Rightarrow> journal \<times> unit res" where
  "replay_loop [] i j = (j, Inr ())"
| "replay_loop (target # ts) i j =
     (case blk_read (block_lba (JOURNAL_SLOT_DATA0 + i) j) (g_sectors_per_block j) (j_bd j) of
        (bd, Inl e) \<Rightarrow> (j\<lparr>j_bd := bd\<rparr>, Inl e)
      | (bd, Inr data_buf) \<Rightarrow>
          (case blk_write (unat target * g_target_sectors j) (g_target_sectors j) data_buf bd of
             (bd, Inl e) \<Rightarrow> (j\<lparr>j_bd := bd\<rparr>, Inl e)
           | (bd, Inr _) \<Rightarrow> replay_loop ts (i + 1) (j\<lparr>j_bd := bd\<rparr>)))"

definition journal_replay :: "journal \<Rightarrow> journal \<times> unit res" where
  "journal_replay j =
     (if \<not> g_initialized j then (j, Inl EINVAL)
      else (case blk_read (block_lba JOURNAL_SLOT_HDR j) (g_sectors_per_block j) (j_bd j) of
        (bd, Inl e) \<Rightarrow> (j\<lparr>j_bd := bd\<rparr>, Inl e)
      | (bd, Inr bs) \<Rightarrow>
          let j = j\<lparr>j_bd := bd\<rparr>; hdr = header_of_bytes bs
          in if h_magic hdr \<noteq> JOURNAL_MAGIC \<or> h_committed hdr \<noteq> 1 then (j, Inr ())
             else if journal_crc hdr \<noteq> h_crc hdr then discard_slot JOURNAL_SLOT_HDR j
             else if h_num_blocks hdr = 0 \<or> JOURNAL_MAX_PER_TXN < unat (h_num_blocks hdr) then discard_slot JOURNAL_SLOT_HDR j
             else (case replay_loop (take (unat (h_num_blocks hdr)) (h_target_blocks hdr)) 0 j of
                     (j, Inl e) \<Rightarrow> (j, Inl e)
                   | (j, Inr _) \<Rightarrow> (fst (journal_write_block JOURNAL_SLOT_HDR zero_block j), Inr ()))))"

section \<open>Transactions\<close>

text \<open>\<open>None\<close> is the caller that spins while another transaction is in flight.\<close>

definition journal_begin :: "journal \<Rightarrow> (journal \<times> bool) option" where
  "journal_begin j =
     (if \<not> g_initialized j then Some (j, False)
      else if tx_in_use (j_txn j) then None
      else Some (j\<lparr>j_txn := \<lparr>tx_in_use = True, txn_id = sb_txn_id_next (j_sb j), tx_blocks = []\<rparr>,
                   j_sb := (j_sb j)\<lparr>sb_txn_id_next := sb_txn_id_next (j_sb j) + 1\<rparr>\<rparr>, True))"

definition journal_log_block :: "bool \<Rightarrow> u32 \<Rightarrow> byte list option \<Rightarrow> bool \<Rightarrow> journal \<Rightarrow> journal \<times> unit res" where
  "journal_log_block txn target_block data mem j =
     (case data of
        None \<Rightarrow> (j, Inl EINVAL)
      | Some d \<Rightarrow>
          if \<not> txn then (j, Inl EINVAL)
          else if JOURNAL_MAX_PER_TXN \<le> length (tx_blocks (j_txn j)) then (j, Inl ENOMEM)
          else if \<not> mem then (j, Inl ENOMEM)
          else (j\<lparr>j_txn := (j_txn j)\<lparr>tx_blocks := tx_blocks (j_txn j) @ [(target_block, take JOURNAL_BLOCK_SIZE d)]\<rparr>\<rparr>, Inr ()))"

definition journal_abort :: "bool \<Rightarrow> journal \<Rightarrow> journal" where
  "journal_abort txn j =
     (if \<not> txn then j else j\<lparr>j_txn := (j_txn j)\<lparr>tx_blocks := [], tx_in_use := False\<rparr>\<rparr>)"

fun write_data_blocks :: "byte list list \<Rightarrow> nat \<Rightarrow> journal \<Rightarrow> journal \<times> unit res" where
  "write_data_blocks [] i j = (j, Inr ())"
| "write_data_blocks (d # ds) i j =
     (case journal_write_block (JOURNAL_SLOT_DATA0 + i) d j of
        (j, Inl e) \<Rightarrow> (j, Inl e)
      | (j, Inr _) \<Rightarrow> write_data_blocks ds (i + 1) j)"

text \<open>Writing the blocks to their places; a failure here is a kernel panic, \<open>None\<close>.\<close>

fun apply_targets :: "(u32 \<times> byte list) list \<Rightarrow> journal \<Rightarrow> journal option" where
  "apply_targets [] j = Some j"
| "apply_targets ((t, d) # bs) j =
     (case blk_write (unat t * g_target_sectors j) (g_target_sectors j) d (j_bd j) of
        (bd, Inl e) \<Rightarrow> None
      | (bd, Inr _) \<Rightarrow> apply_targets bs (j\<lparr>j_bd := bd\<rparr>))"

definition commit_header :: "u32 \<Rightarrow> journal_txn \<Rightarrow> journal_txn_header" where
  "commit_header committed txn =
     (let h = \<lparr>h_magic = JOURNAL_MAGIC, h_txn_id = txn_id txn, h_num_blocks = of_nat (length (tx_blocks txn)),
               h_committed = committed,
               h_target_blocks = map fst (tx_blocks txn) @ replicate (JOURNAL_MAX_PER_TXN - length (tx_blocks txn)) 0,
               h_crc = 0, h_pad = replicate (JOURNAL_BLOCK_SIZE - 52) 0\<rparr>
      in h\<lparr>h_crc := journal_crc h\<rparr>)"

definition flush_device :: "journal \<Rightarrow> journal" where
  "flush_device j = j\<lparr>j_bd := fst (blk_flush (j_bd j))\<rparr>"

definition finish_commit :: "journal \<Rightarrow> journal" where
  "finish_commit j =
     (let j = fst (journal_write_block JOURNAL_SLOT_HDR zero_block j);
          nxt = txn_id (j_txn j) + 1;
          j = (if sb_txn_id_next (j_sb j) < nxt then j\<lparr>j_sb := (j_sb j)\<lparr>sb_txn_id_next := nxt\<rparr>\<rparr> else j);
          j = fst (journal_write_block 0 (sb_bytes (j_sb j)) j)
      in journal_abort True j)"

definition journal_commit :: "bool \<Rightarrow> journal \<Rightarrow> (journal \<times> unit res) option" where
  "journal_commit txn j =
     (if \<not> txn \<or> \<not> tx_in_use (j_txn j) then Some (j, Inl EINVAL)
      else if JOURNAL_MAX_PER_TXN < length (tx_blocks (j_txn j)) then Some (j, Inl EINVAL)
      else
        let blocks = tx_blocks (j_txn j);
            hdr0 = commit_header 0 (j_txn j); hdr1 = commit_header 1 (j_txn j)
        in case write_data_blocks (map snd blocks) 0 j of
             (j, Inl e) \<Rightarrow> Some (journal_abort txn j, Inl e)
           | (j, Inr _) \<Rightarrow>
               (case journal_write_block JOURNAL_SLOT_HDR (header_bytes hdr0) j of
                  (j, Inl e) \<Rightarrow> Some (journal_abort txn j, Inl e)
                | (j, Inr _) \<Rightarrow>
                    (case journal_write_block JOURNAL_SLOT_HDR (header_bytes hdr1) (flush_device j) of
                       (j, Inl e) \<Rightarrow> Some (journal_abort txn j, Inl e)
                     | (j, Inr _) \<Rightarrow>
                         (case apply_targets blocks (flush_device j) of
                            None \<Rightarrow> None
                          | Some j \<Rightarrow> Some (finish_commit (flush_device j), Inr ())))))"

definition journal_set_target_sectors :: "nat \<Rightarrow> journal \<Rightarrow> journal" where
  "journal_set_target_sectors n j = (if n = 0 then j else j\<lparr>g_target_sectors := n\<rparr>)"

section \<open>Bytes of a header\<close>

lemma concat_words_nth:
  assumes "k < length ws"
  shows "word_at (concat (map word_bytes ws) @ rest) k = ws ! k"
  using assms
proof (induction ws arbitrary: k)
  case (Cons w ws)
  then show ?case by (cases k) (simp_all add: word_at_def)
qed simp

lemma length_concat_words [simp]: "length (concat (map word_bytes ws)) = 4 * length ws"
  by (induction ws) simp_all

lemma word_at_take: "4 * k + 4 \<le> n \<Longrightarrow> word_at (take n bs) k = word_at bs k"
  by (simp add: word_at_def drop_take min_absorb1)

lemma header_bytes_words:
  assumes "length (h_target_blocks h) = 8" "k < 13"
  shows "word_at (header_bytes h) k = (header_words h @ [h_crc h]) ! k"
proof -
  have "header_bytes h = concat (map word_bytes (header_words h @ [h_crc h])) @ h_pad h" by (simp add: header_bytes_def)
  then show ?thesis using concat_words_nth[of k "header_words h @ [h_crc h]" "h_pad h"] assms by (simp add: header_words_def)
qed

text \<open>
  A header is read back as it was written; its words are in the first sector of the block, so
  any block with that first sector gives the same words.
\<close>

definition same_header :: "journal_txn_header \<Rightarrow> journal_txn_header \<Rightarrow> bool" where
  "same_header h h' \<longleftrightarrow> h' = h\<lparr>h_pad := h_pad h'\<rparr>"

lemma header_of_header_bytes:
  assumes "length (h_target_blocks h) = 8" "take 512 bs = take 512 (header_bytes h)"
  shows "same_header h (header_of_bytes bs)"
proof -
  have w: "word_at bs k = (header_words h @ [h_crc h]) ! k" if "k < 13" for k
  proof -
    have "word_at bs k = word_at (take 512 bs) k" using that by (simp add: word_at_take)
    also have "\<dots> = word_at (header_bytes h) k" using that by (simp add: assms(2) word_at_take)
    finally show ?thesis using header_bytes_words[OF assms(1) that] by simp
  qed
  have t: "map (\<lambda>k. word_at bs (4 + k)) [0..<8] = h_target_blocks h"
    using assms(1) by (intro nth_equalityI) (simp_all add: w header_words_def nth_append)
  have c: "word_at bs 12 = h_crc h" using assms(1) by (simp add: w header_words_def nth_append)
  have "h_magic (header_of_bytes bs) = h_magic h" "h_txn_id (header_of_bytes bs) = h_txn_id h"
    "h_num_blocks (header_of_bytes bs) = h_num_blocks h" "h_committed (header_of_bytes bs) = h_committed h"
    by (simp_all add: header_of_bytes_def w header_words_def)
  then show ?thesis using t c
    by (simp add: same_header_def header_of_bytes_def JOURNAL_MAX_PER_TXN_def del: upt_rec_numeral)
qed

lemma journal_crc_pad [simp]: "journal_crc (h\<lparr>h_pad := p\<rparr>) = journal_crc h" "journal_crc (h\<lparr>h_crc := c\<rparr>) = journal_crc h"
  by (simp_all add: journal_crc_def header_words_def)

lemma commit_header_crc: "h_crc (commit_header c t) = journal_crc (commit_header c t)"
  by (simp add: commit_header_def Let_def journal_crc_def header_words_def)

lemma commit_header_facts:
  assumes "length (tx_blocks t) \<le> 8"
  shows "length (h_target_blocks (commit_header c t)) = 8" "h_magic (commit_header c t) = JOURNAL_MAGIC"
    "h_committed (commit_header c t) = c"
    "unat (h_num_blocks (commit_header c t)) = length (tx_blocks t)"
    "take (length (tx_blocks t)) (h_target_blocks (commit_header c t)) = map fst (tx_blocks t)"
  using assms
  by (simp_all add: commit_header_def Let_def JOURNAL_MAX_PER_TXN_def unsigned_of_nat take_bit_nat_eq_self)

lemma length_header_bytes:
  assumes "length (tx_blocks t) \<le> 8"
  shows "length (header_bytes (commit_header c t)) = 4096"
  using commit_header_facts(1)[OF assms, of c]
  by (simp add: header_bytes_def header_words_def) (simp add: commit_header_def Let_def JOURNAL_BLOCK_SIZE_def)

section \<open>What a commit writes\<close>

text \<open>The geometry of a started journal; \<open>n\<close> blocks of the transaction slot fit a 32-bit block number.\<close>

definition started :: "journal \<Rightarrow> bool" where
  "started j \<longleftrightarrow> g_initialized j \<and> g_sectors_per_block j = 8 \<and> 0 < g_target_sectors j \<and> g_target_sectors j \<le> 8 \<and>
     unat (g_journal_start j) + 32 < 2 ^ 32"

definition slot_lba :: "u32 \<Rightarrow> nat \<Rightarrow> nat" where
  "slot_lba start idx = (unat start + idx) * 8"

lemma block_lba_slot: "started j \<Longrightarrow> idx < 32 \<Longrightarrow> block_lba idx j = slot_lba (g_journal_start j) idx"
  by (simp add: block_lba_def slot_lba_def started_def unat_word_ariths unsigned_of_nat take_bit_nat_eq_self)

definition data_ops :: "u32 \<Rightarrow> nat \<Rightarrow> byte list list \<Rightarrow> dev_op list" where
  "data_ops start i ds = concat (map (\<lambda>(k, d). write_ops (slot_lba start (2 + k)) 8 d) (enumerate i ds))"

definition target_ops :: "nat \<Rightarrow> (u32 \<times> byte list) list \<Rightarrow> dev_op list" where
  "target_ops ts bs = concat (map (\<lambda>(t, d). write_ops (unat t * ts) ts d) bs)"

definition same_setup :: "journal \<Rightarrow> journal \<Rightarrow> bool" where
  "same_setup j j' \<longleftrightarrow> (\<exists>bd. j' = j\<lparr>j_bd := bd\<rparr> \<and> dev_base bd = dev_base (j_bd j) \<and> dev_ok bd = dev_ok (j_bd j))"

text \<open>A step that does nothing but append to the log of a working device.\<close>

definition logs :: "journal \<Rightarrow> dev_op list \<Rightarrow> journal \<Rightarrow> bool" where
  "logs j ops j' \<longleftrightarrow> same_setup j j' \<and> dev_log (j_bd j') = dev_log (j_bd j) @ ops"

lemma logs_trans: "logs j a k \<Longrightarrow> logs k b l \<Longrightarrow> logs j (a @ b) l"
  by (auto simp: logs_def same_setup_def)

lemma logs_same: "logs j ops j' \<Longrightarrow> dev_ok (j_bd j') = dev_ok (j_bd j) \<and> started j' = started j \<and>
    g_journal_start j' = g_journal_start j \<and> g_target_sectors j' = g_target_sectors j \<and> j_sb j' = j_sb j \<and> j_txn j' = j_txn j"
  by (auto simp: logs_def same_setup_def started_def)

lemma journal_write_logs:
  assumes "started j" "dev_ok (j_bd j)" "idx < 32" "journal_write_block idx d j = (j', r)"
  shows "r = Inr ()" "logs j (write_ops (slot_lba (g_journal_start j) idx) 8 d) j'"
  using assms blk_write_ok[OF assms(2), of 8] block_lba_slot[OF assms(1,3)]
  by (auto simp: journal_write_block_def started_def logs_def same_setup_def)

lemma flush_logs: "dev_ok (j_bd j) \<Longrightarrow> logs j [DFlush] (flush_device j)"
  by (auto simp: flush_device_def blk_flush_ok logs_def same_setup_def)

lemma write_data_logs:
  assumes "started j" "dev_ok (j_bd j)" "i + length ds \<le> 8" "write_data_blocks ds i j = (j', r)"
  shows "r = Inr () \<and> logs j (data_ops (g_journal_start j) i ds) j'"
  using assms
proof (induction ds arbitrary: i j)
  case Nil
  then show ?case by (auto simp: data_ops_def logs_def same_setup_def intro: exI[of _ "j_bd j"])
next
  case (Cons d ds)
  obtain k q where w: "journal_write_block (2 + i) d j = (k, q)" by fastforce
  note l = journal_write_logs[OF Cons.prems(1,2) _ w]
  have lk: "q = Inr ()" "logs j (write_ops (slot_lba (g_journal_start j) (2 + i)) 8 d) k" using l Cons.prems(3) by auto
  have "write_data_blocks ds (i + 1) k = (j', r)"
    using Cons.prems(4) w lk(1) by (simp add: JOURNAL_SLOT_DATA0_def JOURNAL_SLOT_HDR_def)
  then have "r = Inr () \<and> logs k (data_ops (g_journal_start j) (i + 1) ds) j'"
    using Cons.IH[of k "i + 1"] Cons.prems(1-3) logs_same[OF lk(2)] by simp
  then show ?case using logs_trans[OF lk(2)] by (simp add: data_ops_def)
qed

lemma apply_targets_logs:
  assumes "started j" "dev_ok (j_bd j)"
  shows "\<exists>j'. apply_targets bs j = Some j' \<and> logs j (target_ops (g_target_sectors j) bs) j'"
  using assms
proof (induction bs arbitrary: j)
  case Nil
  then show ?case by (auto simp: target_ops_def logs_def same_setup_def intro: exI[of _ "j_bd j"])
next
  case (Cons b bs)
  obtain t d where b: "b = (t, d)" by fastforce
  let ?ts = "g_target_sectors j"
  have w: "blk_write (unat t * ?ts) ?ts d (j_bd j) =
      (dev_append (write_ops (unat t * ?ts) ?ts d) ((j_bd j)\<lparr>dev_reqs := dev_reqs (j_bd j) + 1\<rparr>), Inr ())"
    using Cons.prems by (intro blk_write_ok) (auto simp: started_def)
  define k where "k = j\<lparr>j_bd := dev_append (write_ops (unat t * ?ts) ?ts d) ((j_bd j)\<lparr>dev_reqs := dev_reqs (j_bd j) + 1\<rparr>)\<rparr>"
  have lk: "logs j (write_ops (unat t * ?ts) ?ts d) k" by (auto simp: k_def logs_def same_setup_def)
  obtain j' where "apply_targets bs k = Some j'" "logs k (target_ops ?ts bs) j'"
    using Cons.IH[of k] Cons.prems logs_same[OF lk] by auto
  then show ?case using logs_trans[OF lk] w by (auto simp: b k_def target_ops_def)
qed

text \<open>The requests of a commit, in the order in which they are issued.\<close>

definition next_sb :: "journal \<Rightarrow> journal_superblock" where
  "next_sb j = (if sb_txn_id_next (j_sb j) < txn_id (j_txn j) + 1
                then (j_sb j)\<lparr>sb_txn_id_next := txn_id (j_txn j) + 1\<rparr> else j_sb j)"

definition log_writes :: "journal \<Rightarrow> dev_op list" where
  "log_writes j = data_ops (g_journal_start j) 0 (map snd (tx_blocks (j_txn j))) @
     write_ops (slot_lba (g_journal_start j) 1) 8 (header_bytes (commit_header 0 (j_txn j)))"

definition mark_writes :: "journal \<Rightarrow> dev_op list" where
  "mark_writes j = write_ops (slot_lba (g_journal_start j) 1) 8 (header_bytes (commit_header 1 (j_txn j)))"

definition place_writes :: "journal \<Rightarrow> dev_op list" where
  "place_writes j = target_ops (g_target_sectors j) (tx_blocks (j_txn j))"

definition clear_writes :: "journal \<Rightarrow> dev_op list" where
  "clear_writes j = write_ops (slot_lba (g_journal_start j) 1) 8 zero_block @
     write_ops (slot_lba (g_journal_start j) 0) 8 (sb_bytes (next_sb j))"

definition commit_ops :: "journal \<Rightarrow> dev_op list" where
  "commit_ops j = log_writes j @ DFlush # mark_writes j @ DFlush # place_writes j @ DFlush # clear_writes j"

lemma finish_commit_logs:
  assumes "started j" "dev_ok (j_bd j)"
  shows "\<exists>j1 j2. logs j (write_ops (slot_lba (g_journal_start j) 1) 8 zero_block) j1 \<and>
    logs (j1\<lparr>j_sb := next_sb j\<rparr>) (write_ops (slot_lba (g_journal_start j) 0) 8 (sb_bytes (next_sb j))) j2 \<and>
    finish_commit j = journal_abort True j2"
proof -
  obtain j1 q where w: "journal_write_block 1 zero_block j = (j1, q)" by fastforce
  note l1 = journal_write_logs[OF assms _ w]
  have l1: "logs j (write_ops (slot_lba (g_journal_start j) 1) 8 zero_block) j1" using l1 by simp
  note e1 = logs_same[OF l1]
  define k where "k = j1\<lparr>j_sb := next_sb j\<rparr>"
  have sk: "started k" "dev_ok (j_bd k)" "g_journal_start k = g_journal_start j"
    using assms e1 by (auto simp: k_def started_def)
  obtain j2 q' where w2: "journal_write_block 0 (sb_bytes (next_sb j)) k = (j2, q')" by fastforce
  have l2: "logs k (write_ops (slot_lba (g_journal_start j) 0) 8 (sb_bytes (next_sb j))) j2"
    using journal_write_logs(2)[OF sk(1,2) _ w2] sk(3) by simp
  have "(if sb_txn_id_next (j_sb j1) < txn_id (j_txn j1) + 1 then j1\<lparr>j_sb := (j_sb j1)\<lparr>sb_txn_id_next := txn_id (j_txn j1) + 1\<rparr>\<rparr>
      else j1) = k" using e1 by (simp add: k_def next_sb_def)
  moreover have "j_sb k = next_sb j" by (simp add: k_def)
  ultimately have "finish_commit j = journal_abort True j2"
    unfolding finish_commit_def Let_def JOURNAL_SLOT_HDR_def w fst_conv using w2 by simp
  then show ?thesis using l1 l2 by (auto simp: k_def)
qed

text \<open>On a working device a commit succeeds, and its requests are \<open>commit_ops\<close>.\<close>

lemma commit_trace:
  assumes "started j" "dev_ok (j_bd j)" "tx_in_use (j_txn j)" "length (tx_blocks (j_txn j)) \<le> 8"
  shows "\<exists>j'. journal_commit True j = Some (j', Inr ()) \<and> dev_log (j_bd j') = dev_log (j_bd j) @ commit_ops j \<and>
    dev_base (j_bd j') = dev_base (j_bd j) \<and> dev_ok (j_bd j') \<and> started j' \<and> j_sb j' = next_sb j \<and>
    tx_in_use (j_txn j') = False \<and> tx_blocks (j_txn j') = [] \<and> g_journal_start j' = g_journal_start j \<and>
    g_target_sectors j' = g_target_sectors j"
proof -
  let ?s = "g_journal_start j" and ?bs = "tx_blocks (j_txn j)"
  obtain a q where a: "write_data_blocks (map snd ?bs) 0 j = (a, q)" by fastforce
  have la: "q = Inr ()" "logs j (data_ops ?s 0 (map snd ?bs)) a" using write_data_logs[OF assms(1,2) _ a] assms(4) by auto
  note ea = logs_same[OF la(2)]
  obtain b q1 where b: "journal_write_block 1 (header_bytes (commit_header 0 (j_txn j))) a = (b, q1)" by fastforce
  have sa: "started a" "dev_ok (j_bd a)" using ea assms by auto
  note lb = journal_write_logs[OF sa _ b, simplified] note eb = logs_same[OF lb(2)]
  have lc: "logs b [DFlush] (flush_device b)" using eb ea assms(2) by (intro flush_logs) simp
  note ec = logs_same[OF lc]
  have sc: "started (flush_device b)" "dev_ok (j_bd (flush_device b))" using ec eb ea assms by auto
  obtain d q2 where d: "journal_write_block 1 (header_bytes (commit_header 1 (j_txn j))) (flush_device b) = (d, q2)" by fastforce
  note ld = journal_write_logs[OF sc _ d, simplified] note ed = logs_same[OF ld(2)]
  have le: "logs d [DFlush] (flush_device d)" using ed ec eb ea assms(2) by (intro flush_logs) simp
  note ee = logs_same[OF le]
  have se: "started (flush_device d)" "dev_ok (j_bd (flush_device d))" using ee ed ec eb ea assms by auto
  obtain f where f: "apply_targets ?bs (flush_device d) = Some f" "logs (flush_device d) (place_writes j) f"
    using apply_targets_logs[OF se, of ?bs] ee ed ec eb ea by (auto simp: place_writes_def)
  note ef = logs_same[OF f(2)]
  have lg: "logs f [DFlush] (flush_device f)" using ef se by (intro flush_logs) simp
  note eg = logs_same[OF lg]
  have sg: "started (flush_device f)" "dev_ok (j_bd (flush_device f))" using eg ef se by auto
  have n: "next_sb (flush_device f) = next_sb j" "g_journal_start (flush_device f) = ?s"
    using eg ef ee ed ec eb ea by (simp_all add: next_sb_def)
  obtain h k where h: "logs (flush_device f) (write_ops (slot_lba ?s 1) 8 zero_block) h"
    "logs (h\<lparr>j_sb := next_sb j\<rparr>) (write_ops (slot_lba ?s 0) 8 (sb_bytes (next_sb j))) k"
    "finish_commit (flush_device f) = journal_abort True k"
    using finish_commit_logs[OF sg, unfolded n] by blast
  have "journal_commit True j = Some (journal_abort True k, Inr ())"
    using assms(3,4) a la(1) b lb(1) d ld(1) f(1) h(3)
    by (simp add: journal_commit_def Let_def JOURNAL_MAX_PER_TXN_def JOURNAL_SLOT_HDR_def)
  moreover have L: "logs j (log_writes j @ DFlush # mark_writes j @ DFlush # place_writes j @ DFlush # write_ops (slot_lba ?s 1) 8 zero_block) h"
    using logs_trans[OF la(2) logs_trans[OF lb(2) logs_trans[OF lc logs_trans[OF ld(2) logs_trans[OF le logs_trans[OF f(2) logs_trans[OF lg h(1)]]]]]]]
      ec eb ea by (simp add: log_writes_def mark_writes_def)
  ultimately show ?thesis
    using h(2) logs_same[OF L] logs_same[OF h(2)] assms(1,2)
    by (auto simp: journal_abort_def logs_def same_setup_def commit_ops_def clear_writes_def started_def)
qed

end
