(* ===== verification/Journal_Crash.thy ===== *)
theory Journal_Crash
  imports Journal
begin

text \<open>
  Crash consistency of the journal: what recovery makes of every disk that a crash during a
  commit may leave.
\<close>

section \<open>Writes that reach the disk\<close>

lemma apply_writes_cases: "apply_writes ws d l = d l \<or> (l, apply_writes ws d l) \<in> set ws"
proof (induction ws arbitrary: d)
  case (Cons w ws)
  show ?case using Cons[of "d(fst w := snd w)"] by (cases w) (auto simp: fun_upd_def split: if_splits)
qed simp

lemma apply_writes_outside: "l \<notin> fst ` set ws \<Longrightarrow> apply_writes ws d l = d l"
  using apply_writes_cases[of ws d l] by (auto simp: image_iff)

lemma subseq_subset: "subseq vs ws \<Longrightarrow> set vs \<subseteq> set ws"
  using list_emb_set[of "(=)" vs ws] by auto

text \<open>
  A log of groups of writes with a flush between them: a crash at any moment leaves the earlier
  groups whole and any part of the current one.
\<close>

definition dw :: "(nat \<times> sector) list \<Rightarrow> dev_op list" where
  "dw ws = map (\<lambda>(l, b). DWrite l b) ws"

lemma dev_run_dw: "dev_run (dw ws) (d, pend) = (d, pend @ ws)"
  by (induction ws arbitrary: pend) (auto simp: dw_def)

lemma take_dw: "take n (dw ws) = dw (take n ws)"
  by (simp add: dw_def take_map)

fun grouped :: "(nat \<times> sector) list list \<Rightarrow> dev_op list" where
  "grouped [] = []"
| "grouped [ws] = dw ws"
| "grouped (ws # rest) = dw ws @ DFlush # grouped rest"

lemma crash_disk_dw: "crash_disk d (dw ws) c \<Longrightarrow> \<exists>vs. subseq vs ws \<and> c = apply_writes vs d"
  by (auto simp: crash_disk_def dev_run_dw)

lemma crash_grouped:
  assumes "crash_disk d (take n (grouped gs)) c" "gs \<noteq> []"
  shows "\<exists>k < length gs. \<exists>vs. set vs \<subseteq> set (gs ! k) \<and> c = apply_writes vs (fold apply_writes (take k gs) d)"
  using assms
proof (induction gs arbitrary: d n rule: grouped.induct)
  case (2 ws)
  then have "crash_disk d (dw (take n ws)) c" by (simp add: take_dw)
  from crash_disk_dw[OF this] obtain vs where "subseq vs (take n ws)" "c = apply_writes vs d" by blast
  moreover then have "set vs \<subseteq> set ws" by (meson set_take_subset subset_trans subseq_subset)
  ultimately show ?case by auto
next
  case (3 ws w2 rest)
  let ?r = "w2 # rest"
  show ?case
  proof (cases "n \<le> length ws")
    case True
    then have "crash_disk d (dw (take n ws)) c" using "3.prems"(1) by (simp add: take_dw) (simp add: dw_def)
    from crash_disk_dw[OF this] obtain vs where "subseq vs (take n ws)" "c = apply_writes vs d" by blast
    moreover then have "set vs \<subseteq> set ws" by (meson set_take_subset subset_trans subseq_subset)
    ultimately show ?thesis by (intro exI[of _ 0]) auto
  next
    case False
    then obtain m where m: "n = length ws + Suc m" by (metis add_Suc_right less_imp_Suc_add not_le)
    have "crash_disk (apply_writes ws d) (take m (grouped ?r)) c"
      using "3.prems"(1) by (simp add: m dw_def crash_disk_def dev_run_append dev_run_dw[unfolded dw_def])
    from "3.IH"[OF this] obtain k vs where k: "k < length ?r" "set vs \<subseteq> set (?r ! k)"
      "c = apply_writes vs (fold apply_writes (take k ?r) (apply_writes ws d))" by auto
    then show ?thesis by (intro exI[of _ "Suc k"]) auto
  qed
qed simp

section \<open>Recovery\<close>

text \<open>Booting on a disk: \<open>ext2_mount\<close> has set the target sectors, then the journal is started and replayed.\<close>

definition blank_journal :: "nat \<Rightarrow> journal" where
  "blank_journal ts = \<lparr>j_bd = power_on (\<lambda>_. []), g_journal_start = 0, g_sectors_per_block = 0, g_target_sectors = ts,
     j_sb = sb_of_bytes [], g_initialized = False, j_txn = zero_txn\<rparr>"

definition recover :: "u32 \<Rightarrow> nat \<Rightarrow> disk \<Rightarrow> disk" where
  "recover start ts c =
     dev_view (j_bd (fst (journal_replay (fst (journal_init (Some (power_on c)) start (blank_journal ts))))))"

definition sb_valid :: "sector \<Rightarrow> bool" where
  "sb_valid b \<longleftrightarrow> word_at b 0 = JOURNAL_MAGIC \<and> word_at b 1 = JOURNAL_VERSION"

definition uncommitted :: "sector \<Rightarrow> bool" where
  "uncommitted b \<longleftrightarrow> word_at b 0 \<noteq> JOURNAL_MAGIC \<or> word_at b 3 \<noteq> 1"

definition place :: "nat \<Rightarrow> (u32 \<times> byte list) list \<Rightarrow> disk \<Rightarrow> disk" where
  "place ts bs d = fold (\<lambda>(t, b). put_sectors (unat t * ts) ts b) bs d"

definition target_sectors :: "nat \<Rightarrow> u32 list \<Rightarrow> nat set" where
  "target_sectors ts ts_l = (\<Union>t \<in> set ts_l. {unat t * ts..<unat t * ts + ts})"

definition journal_area :: "u32 \<Rightarrow> nat set" where
  "journal_area start = {unat start * 8..<(unat start + 32) * 8}"

lemma place_cong:
  assumes "\<And>l. l \<notin> target_sectors ts (map fst bs) \<Longrightarrow> d l = e l"
  shows "place ts bs d = place ts bs e"
  using assms
proof (induction bs arbitrary: d e)
  case Nil
  then show ?case by (auto simp: place_def target_sectors_def)
next
  case (Cons b bs)
  obtain t x where b: "b = (t, x)" by fastforce
  have "put_sectors (unat t * ts) ts x d l = put_sectors (unat t * ts) ts x e l" if "l \<notin> target_sectors ts (map fst bs)" for l
    using Cons.prems[of l] that by (auto simp: put_sectors_def target_sectors_def b)
  from Cons.IH[OF this] show ?case by (simp add: place_def b)
qed

lemma place_outside: "l \<notin> target_sectors ts (map fst bs) \<Longrightarrow> place ts bs d l = d l"
proof (induction bs arbitrary: d)
  case (Cons b bs)
  obtain t x where b: "b = (t, x)" by fastforce
  show ?case using Cons.IH[of "put_sectors (unat t * ts) ts x d"] Cons.prems
    by (auto simp: place_def target_sectors_def b put_sectors_def)
qed (simp add: place_def)

lemma place_inside: "l \<in> target_sectors ts (map fst bs) \<Longrightarrow> place ts bs d l = place ts bs e l"
proof (induction bs arbitrary: d e)
  case (Cons b bs)
  show ?case
  proof (cases "l \<in> target_sectors ts (map fst bs)")
    case True
    then show ?thesis using Cons.IH by (cases b) (simp add: place_def)
  next
    case False
    then have "l \<in> {unat (fst b) * ts..<unat (fst b) * ts + ts}" using Cons.prems by (auto simp: target_sectors_def)
    then show ?thesis using place_outside[OF False] by (cases b) (auto simp: place_def put_sectors_def)
  qed
qed (simp add: target_sectors_def)

lemma word_at_sector:
  assumes "disk_ok d" "0 < n" "k < 128"
  shows "word_at (get_sectors lba n d) k = word_at (d lba) k"
proof -
  have "take 512 (get_sectors lba n d) = d lba" using sector_get[OF assms(1,2), of lba] by (simp add: sector_of_def)
  then show ?thesis using word_at_take[of k 512 "get_sectors lba n d"] assms(3) by simp
qed

lemma journal_init_valid:
  assumes "disk_ok c" "sb_valid (c (unat start * 8))" "0 < ts" "ts \<le> 8" "unat start + 32 < 2 ^ 32"
  shows "\<exists>j. journal_init (Some (power_on c)) start (blank_journal ts) = (j, Inr ()) \<and> started j \<and> dev_ok (j_bd j) \<and>
    dev_view (j_bd j) = c \<and> g_journal_start j = start \<and> g_target_sectors j = ts"
proof -
  have r: "blk_read (unat start * 8) 8 (power_on c) =
      ((power_on c)\<lparr>dev_reqs := dev_reqs (power_on c) + 1\<rparr>, Inr (get_sectors (unat start * 8) 8 c))"
    using blk_read_ok[of "power_on c" 8] by simp
  have v: "word_at (get_sectors (unat start * 8) 8 c) 0 = JOURNAL_MAGIC" "word_at (get_sectors (unat start * 8) 8 c) (Suc 0) = JOURNAL_VERSION"
    using assms(2) word_at_sector[OF assms(1), of 8 0] word_at_sector[OF assms(1), of 8 1] by (simp_all add: sb_valid_def)
  show ?thesis using assms(3-5)
    by (simp add: journal_init_def JOURNAL_BLOCK_SIZE_def r blank_journal_def sb_of_bytes_def v started_def)
qed

lemma replay_uncommitted:
  assumes "started j" "dev_ok (j_bd j)" "dev_view (j_bd j) = c" "disk_ok c"
    and "uncommitted (c (slot_lba (g_journal_start j) 1))"
  shows "dev_view (j_bd (fst (journal_replay j))) = c"
proof -
  have r: "blk_read (block_lba 1 j) (g_sectors_per_block j) (j_bd j) =
      ((j_bd j)\<lparr>dev_reqs := dev_reqs (j_bd j) + 1\<rparr>, Inr (get_sectors (slot_lba (g_journal_start j) 1) 8 c))"
    using assms(1-3) blk_read_ok[OF assms(2), of 8] block_lba_slot[OF assms(1), of 1] by (simp add: started_def)
  have "h_magic (header_of_bytes (get_sectors (slot_lba (g_journal_start j) 1) 8 c)) \<noteq> JOURNAL_MAGIC \<or>
      h_committed (header_of_bytes (get_sectors (slot_lba (g_journal_start j) 1) 8 c)) \<noteq> 1"
    using assms(5) word_at_sector[OF assms(4), of 8] by (simp add: header_of_bytes_def uncommitted_def)
  then show ?thesis using r assms(1,3) by (simp add: journal_replay_def JOURNAL_SLOT_HDR_def started_def Let_def)
qed

text \<open>Redoing the transaction in the slot, as long as no target lies in the journal.\<close>

definition slot_data :: "u32 \<Rightarrow> nat \<Rightarrow> disk \<Rightarrow> byte list" where
  "slot_data start i d = get_sectors (slot_lba start (2 + i)) 8 d"

lemma slot_data_cong:
  assumes "i < 8" "\<And>l. l \<in> journal_area start \<Longrightarrow> d l = e l"
  shows "slot_data start i d = slot_data start i e"
proof -
  have "d l = e l" if "l \<in> set [slot_lba start (2 + i)..<slot_lba start (2 + i) + 8]" for l
    using that assms(1) by (intro assms(2)) (auto simp: slot_lba_def journal_area_def)
  then show ?thesis unfolding slot_data_def get_sectors_def by (metis map_cong)
qed

lemma replay_loop_view:
  assumes "started j" "dev_ok (j_bd j)" "i + length ts_l \<le> 8" "dev_view (j_bd j) = d"
    and "target_sectors (g_target_sectors j) ts_l \<inter> journal_area (g_journal_start j) = {}"
    and "\<And>l. l \<in> journal_area (g_journal_start j) \<Longrightarrow> d l = c l"
  shows "\<exists>j'. replay_loop ts_l i j = (j', Inr ()) \<and> started j' \<and> dev_ok (j_bd j') \<and> g_journal_start j' = g_journal_start j \<and>
    dev_view (j_bd j') = place (g_target_sectors j) (zip ts_l (map (\<lambda>k. slot_data (g_journal_start j) k c) [i..<i + length ts_l])) d"
  using assms
proof (induction ts_l arbitrary: i j d)
  case (Cons t ts_l)
  let ?s = "g_journal_start j" and ?ts = "g_target_sectors j"
  let ?bd = "(j_bd j)\<lparr>dev_reqs := dev_reqs (j_bd j) + 1\<rparr>"
  have i: "i < 8" using Cons.prems(3) by simp
  have r: "blk_read (block_lba (JOURNAL_SLOT_DATA0 + i) j) (g_sectors_per_block j) (j_bd j) = (?bd, Inr (slot_data ?s i c))"
  proof -
    have "block_lba (2 + i) j = slot_lba ?s (2 + i)" using block_lba_slot[OF Cons.prems(1), of "2 + i"] i by simp
    moreover have "slot_data ?s i d = slot_data ?s i c" by (rule slot_data_cong[OF i Cons.prems(6)])
    ultimately show ?thesis using blk_read_ok[OF Cons.prems(2), of 8 "slot_lba ?s (2 + i)"] Cons.prems(1,4)
      by (simp add: JOURNAL_SLOT_DATA0_def JOURNAL_SLOT_HDR_def started_def slot_data_def)
  qed
  define k where "k = j\<lparr>j_bd := dev_append (write_ops (unat t * ?ts) ?ts (slot_data ?s i c)) (?bd\<lparr>dev_reqs := dev_reqs ?bd + 1\<rparr>)\<rparr>"
  have w: "blk_write (unat t * ?ts) ?ts (slot_data ?s i c) ?bd = (j_bd k, Inr ())"
    using blk_write_ok[of ?bd ?ts "unat t * ?ts"] Cons.prems(1,2) by (simp add: k_def started_def)
  have kv: "dev_view (j_bd k) = put_sectors (unat t * ?ts) ?ts (slot_data ?s i c) d"
    using Cons.prems(4) by (simp add: k_def view_write_ops)
  have "dev_view (j_bd k) l = c l" if "l \<in> journal_area ?s" for l
    using that Cons.prems(5,6) by (auto simp: kv put_sectors_def target_sectors_def)
  moreover have "target_sectors ?ts ts_l \<inter> journal_area ?s = {}" using Cons.prems(5) by (auto simp: target_sectors_def)
  moreover have "started k" "dev_ok (j_bd k)" using Cons.prems(1,2) by (auto simp: k_def started_def)
  ultimately obtain j' where "replay_loop ts_l (i + 1) k = (j', Inr ())" "started j'" "dev_ok (j_bd j')" "g_journal_start j' = ?s"
    "dev_view (j_bd j') = place ?ts (zip ts_l (map (\<lambda>k. slot_data ?s k c) [i + 1..<i + 1 + length ts_l])) (dev_view (j_bd k))"
    using Cons.IH[of k "i + 1" "dev_view (j_bd k)"] Cons.prems(3) by (auto simp: k_def)
  moreover have "k = j\<lparr>j_bd := j_bd k\<rparr>" by (simp add: k_def)
  moreover have "[i..<i + length (t # ts_l)] = i # [i + 1..<i + 1 + length ts_l]" using upt_conv_Cons[of i "i + Suc (length ts_l)"] by (simp del: upt_Suc)
  ultimately show ?case using r w kv by (simp add: place_def del: upt_Suc)
qed (simp add: place_def)

lemma replay_committed:
  assumes "started j" "dev_ok (j_bd j)" "dev_view (j_bd j) = c" "disk_ok c"
    and "bs = tx_blocks t" "bs \<noteq> []" "length bs \<le> 8"
    and "c (slot_lba (g_journal_start j) 1) = sector_of (header_bytes (commit_header 1 t)) 0"
    and "target_sectors (g_target_sectors j) (map fst bs) \<inter> journal_area (g_journal_start j) = {}"
    and "\<And>k. k < length bs \<Longrightarrow> slot_data (g_journal_start j) k c = snd (bs ! k)" "l \<notin> journal_area (g_journal_start j)"
  shows "dev_view (j_bd (fst (journal_replay j))) l = place (g_target_sectors j) bs c l"
proof -
  let ?s = "g_journal_start j" and ?bd = "(j_bd j)\<lparr>dev_reqs := dev_reqs (j_bd j) + 1\<rparr>"
  let ?bytes = "get_sectors (slot_lba ?s 1) 8 c"
  define h where "h = header_of_bytes ?bytes"
  note ch = commit_header_facts[of t 1, folded assms(5), OF assms(7)]
  have r: "blk_read (block_lba 1 j) (g_sectors_per_block j) (j_bd j) = (?bd, Inr ?bytes)"
    using assms(1-3) blk_read_ok[OF assms(2), of 8] block_lba_slot[OF assms(1), of 1] by (simp add: started_def)
  have "take 512 ?bytes = take 512 (header_bytes (commit_header 1 t))"
    using sector_get[OF assms(4), of 0 8 "slot_lba ?s 1"] assms(8) by (simp add: sector_of_def)
  then have sh: "same_header (commit_header 1 t) h" unfolding h_def by (rule header_of_header_bytes[OF ch(1)])
  then have h: "h_magic h = JOURNAL_MAGIC" "h_committed h = 1" "journal_crc h = h_crc h" "unat (h_num_blocks h) = length bs"
    "take (length bs) (h_target_blocks h) = map fst bs"
    unfolding same_header_def using ch(2-5) commit_header_crc[of 1 t]
    by (metis journal_txn_header.select_convs(1-6) journal_txn_header.surjective journal_txn_header.update_convs(7) journal_crc_pad(1))+
  have nz: "h_num_blocks h \<noteq> 0" "\<not> 8 < unat (h_num_blocks h)" using h(4) assms(6,7) by (auto simp: word_unat_eq_iff)
  define k where "k = j\<lparr>j_bd := ?bd\<rparr>"
  have sk: "started k" "dev_ok (j_bd k)" "dev_view (j_bd k) = c" "g_journal_start k = ?s" "g_target_sectors k = g_target_sectors j"
    using assms(1-3) by (auto simp: k_def started_def)
  obtain j' where j': "replay_loop (map fst bs) 0 k = (j', Inr ())" "started j'" "dev_ok (j_bd j')" "g_journal_start j' = ?s"
    "dev_view (j_bd j') = place (g_target_sectors j) (zip (map fst bs) (map (\<lambda>k. slot_data ?s k c) [0..<0 + length (map fst bs)])) c"
    using replay_loop_view[OF sk(1,2), of 0 "map fst bs" c c] sk(3-5) assms(7,9) by auto
  have z: "zip (map fst bs) (map (\<lambda>k. slot_data ?s k c) [0..<0 + length (map fst bs)]) = bs"
    using assms(10) by (intro nth_equalityI) auto
  obtain j2 q where w: "journal_write_block 1 zero_block j' = (j2, q)" by fastforce
  have "dev_view (j_bd j2) l = dev_view (j_bd j') l"
  proof -
    have "l < slot_lba ?s 1 \<or> slot_lba ?s 1 + 8 \<le> l" using assms(11) by (auto simp: slot_lba_def journal_area_def)
    moreover have "dev_view (j_bd j2) = put_sectors (slot_lba ?s 1) 8 zero_block (dev_view (j_bd j'))"
      using w blk_write_ok[OF j'(3), of 8] block_lba_slot[OF j'(2), of 1] j'(2,4)
      by (auto simp: journal_write_block_def started_def view_write_ops)
    ultimately show ?thesis by (auto simp: put_sectors_def)
  qed
  moreover have "journal_replay j = (j2, Inr ())"
    using assms(1) h nz j'(1) w
    unfolding journal_replay_def JOURNAL_SLOT_HDR_def JOURNAL_MAX_PER_TXN_def Let_def r prod.case sum.case
      h_def[symmetric] k_def[symmetric] by (simp add: started_def)
  ultimately show ?thesis using j'(5) z by simp
qed

lemma recover_old:
  assumes "disk_ok c" "sb_valid (c (slot_lba start 0))" "uncommitted (c (slot_lba start 1))"
    and "0 < ts" "ts \<le> 8" "unat start + 32 < 2 ^ 32"
  shows "recover start ts c = c"
proof -
  obtain j where "journal_init (Some (power_on c)) start (blank_journal ts) = (j, Inr ())" "started j" "dev_ok (j_bd j)"
    "dev_view (j_bd j) = c" "g_journal_start j = start"
    using journal_init_valid[of c start ts] assms by (auto simp: slot_lba_def)
  then show ?thesis using replay_uncommitted[of j c] assms(1,3) by (simp add: recover_def)
qed

lemma recover_new:
  assumes "disk_ok c" "sb_valid (c (slot_lba start 0))" "0 < ts" "ts \<le> 8" "unat start + 32 < 2 ^ 32"
    and "bs = tx_blocks t" "bs \<noteq> []" "length bs \<le> 8"
    and "c (slot_lba start 1) = sector_of (header_bytes (commit_header 1 t)) 0"
    and "target_sectors ts (map fst bs) \<inter> journal_area start = {}"
    and "\<And>k. k < length bs \<Longrightarrow> slot_data start k c = snd (bs ! k)" "l \<notin> journal_area start"
  shows "recover start ts c l = place ts bs c l"
proof -
  obtain j where j: "journal_init (Some (power_on c)) start (blank_journal ts) = (j, Inr ())" "started j" "dev_ok (j_bd j)"
    "dev_view (j_bd j) = c" "g_journal_start j = start" "g_target_sectors j = ts"
    using journal_init_valid[of c start ts] assms(1-5) by (auto simp: slot_lba_def)
  show ?thesis using replay_committed[OF j(2-4) assms(1) assms(6-8)] assms(9-12) j by (simp add: recover_def)
qed

section \<open>The phases of a commit\<close>

definition wpairs :: "nat \<Rightarrow> nat \<Rightarrow> byte list \<Rightarrow> (nat \<times> sector) list" where
  "wpairs lba n data = map (\<lambda>i. (lba + i, sector_of data i)) [0..<n]"

lemma dw_wpairs: "dw (wpairs lba n data) = write_ops lba n data"
  by (simp add: dw_def wpairs_def write_ops_def)

lemma dw_append: "dw (xs @ ys) = dw xs @ dw ys"
  by (simp add: dw_def)

lemma dw_concat: "dw (concat xss) = concat (map dw xss)"
  by (induction xss) (simp_all add: dw_append dw_def)

lemma wpairs_mem: "(l, b) \<in> set (wpairs lba n data) \<Longrightarrow> lba \<le> l \<and> l < lba + n \<and> b = sector_of data (l - lba)"
  by (auto simp: wpairs_def)

lemma apply_wpairs: "apply_writes (wpairs lba n data) d = put_sectors lba n data d"
  by (simp add: wpairs_def apply_put)

definition log_pairs :: "journal \<Rightarrow> (nat \<times> sector) list" where
  "log_pairs j = concat (map (\<lambda>(k, d). wpairs (slot_lba (g_journal_start j) (2 + k)) 8 d) (enumerate 0 (map snd (tx_blocks (j_txn j))))) @
     wpairs (slot_lba (g_journal_start j) 1) 8 (header_bytes (commit_header 0 (j_txn j)))"

definition mark_pairs :: "journal \<Rightarrow> (nat \<times> sector) list" where
  "mark_pairs j = wpairs (slot_lba (g_journal_start j) 1) 8 (header_bytes (commit_header 1 (j_txn j)))"

definition place_pairs :: "journal \<Rightarrow> (nat \<times> sector) list" where
  "place_pairs j = concat (map (\<lambda>(t, d). wpairs (unat t * g_target_sectors j) (g_target_sectors j) d) (tx_blocks (j_txn j)))"

definition clear_pairs :: "journal \<Rightarrow> (nat \<times> sector) list" where
  "clear_pairs j = wpairs (slot_lba (g_journal_start j) 1) 8 zero_block @
     wpairs (slot_lba (g_journal_start j) 0) 8 (sb_bytes (next_sb j))"

lemma commit_ops_grouped: "commit_ops j = grouped [log_pairs j, mark_pairs j, place_pairs j, clear_pairs j]"
  by (simp add: commit_ops_def log_writes_def mark_writes_def place_writes_def clear_writes_def data_ops_def target_ops_def
      log_pairs_def mark_pairs_def place_pairs_def clear_pairs_def dw_append dw_concat dw_wpairs comp_def case_prod_unfold)

text \<open>A transaction ready to be committed to a disk \<open>D\<close> on which everything is durable.\<close>

definition ready :: "journal \<Rightarrow> disk \<Rightarrow> bool" where
  "ready j D \<longleftrightarrow> started j \<and> dev_ok (j_bd j) \<and> tx_in_use (j_txn j) \<and> tx_blocks (j_txn j) \<noteq> [] \<and> length (tx_blocks (j_txn j)) \<le> 8 \<and>
     (\<forall>b \<in> set (tx_blocks (j_txn j)). length (snd b) = 4096) \<and>
     target_sectors (g_target_sectors j) (map fst (tx_blocks (j_txn j))) \<inter> journal_area (g_journal_start j) = {} \<and>
     dev_run (dev_log (j_bd j)) (dev_base (j_bd j), []) = (D, []) \<and> disk_ok D \<and>
     sb_valid (D (slot_lba (g_journal_start j) 0)) \<and> uncommitted (D (slot_lba (g_journal_start j) 1)) \<and>
     sb_magic (j_sb j) = JOURNAL_MAGIC \<and> sb_version (j_sb j) = JOURNAL_VERSION \<and> length (sb_pad (j_sb j)) = 4080"

lemma length_sector:
  assumes "length data = 4096" "i < 8"
  shows "length (sector_of data i) = 512"
proof -
  have "512 \<le> 4096 - 512 * i" using assms(2) by linarith
  then show ?thesis using assms(1) by (simp add: sector_of_def)
qed

lemma next_sb_facts:
  assumes "ready j D"
  shows "length (sb_bytes (next_sb j)) = 4096" "sb_valid (sector_of (sb_bytes (next_sb j)) 0)"
proof -
  have n: "sb_magic (next_sb j) = JOURNAL_MAGIC" "sb_version (next_sb j) = JOURNAL_VERSION" "length (sb_pad (next_sb j)) = 4080"
    using assms by (auto simp: ready_def next_sb_def)
  show "length (sb_bytes (next_sb j)) = 4096" using n by (simp add: sb_bytes_def)
  have "word_at (sb_bytes (next_sb j)) k = [sb_magic (next_sb j), sb_version (next_sb j), sb_num_blocks (next_sb j), sb_txn_id_next (next_sb j)] ! k"
    if "k < 4" for k
    unfolding sb_bytes_def using that by (intro concat_words_nth) simp
  from this[of 0] this[of 1] show "sb_valid (sector_of (sb_bytes (next_sb j)) 0)"
    using n by (simp add: sb_valid_def sector_of_def word_at_take)
qed

text \<open>The sectors each group writes, and that they are whole sectors.\<close>

lemma log_pairs_mem:
  assumes "ready j D" "(l, b) \<in> set (log_pairs j)"
  shows "l \<in> journal_area (g_journal_start j)" "length b = 512" "slot_lba (g_journal_start j) 1 \<le> l"
    "l = slot_lba (g_journal_start j) 1 \<Longrightarrow> b = sector_of (header_bytes (commit_header 0 (j_txn j))) 0"
proof -
  let ?s = "g_journal_start j" and ?bs = "tx_blocks (j_txn j)"
  have n: "length ?bs \<le> 8" "\<forall>x \<in> set ?bs. length (snd x) = 4096" using assms(1) by (auto simp: ready_def)
  from assms(2) consider k d where "k < length ?bs" "d = snd (?bs ! k)" "(l, b) \<in> set (wpairs (slot_lba ?s (2 + k)) 8 d)"
    | "(l, b) \<in> set (wpairs (slot_lba ?s 1) 8 (header_bytes (commit_header 0 (j_txn j))))"
    by (auto simp: log_pairs_def in_set_enumerate_eq)
  then have "l \<in> journal_area ?s \<and> length b = 512 \<and> slot_lba ?s 1 \<le> l \<and>
      (l = slot_lba ?s 1 \<longrightarrow> b = sector_of (header_bytes (commit_header 0 (j_txn j))) 0)"
  proof cases
    case (1 k d)
    have "length d = 4096" using 1(1,2) n(2) by simp
    then show ?thesis using wpairs_mem[OF 1(3)] length_sector[of d "l - slot_lba ?s (2 + k)"] 1(1) n(1)
      by (auto simp: slot_lba_def journal_area_def)
  next
    case 2
    show ?thesis using wpairs_mem[OF 2] length_sector[OF length_header_bytes[OF n(1)], of "l - slot_lba ?s 1" 0]
      by (auto simp: slot_lba_def journal_area_def)
  qed
  then show "l \<in> journal_area ?s" "length b = 512" "slot_lba ?s 1 \<le> l"
    "l = slot_lba ?s 1 \<Longrightarrow> b = sector_of (header_bytes (commit_header 0 (j_txn j))) 0" by auto
qed

lemma mark_pairs_mem:
  assumes "ready j D" "(l, b) \<in> set (mark_pairs j)"
  shows "slot_lba (g_journal_start j) 1 \<le> l" "l < slot_lba (g_journal_start j) 2" "length b = 512"
    "l = slot_lba (g_journal_start j) 1 \<Longrightarrow> b = sector_of (header_bytes (commit_header 1 (j_txn j))) 0"
proof -
  have n: "length (tx_blocks (j_txn j)) \<le> 8" using assms(1) by (auto simp: ready_def)
  note m = wpairs_mem[OF assms(2)[unfolded mark_pairs_def]]
  show "slot_lba (g_journal_start j) 1 \<le> l" "l < slot_lba (g_journal_start j) 2" "length b = 512"
    "l = slot_lba (g_journal_start j) 1 \<Longrightarrow> b = sector_of (header_bytes (commit_header 1 (j_txn j))) 0"
    using m length_sector[OF length_header_bytes[OF n], of "l - slot_lba (g_journal_start j) 1" 1] by (auto simp: slot_lba_def)
qed

lemma place_pairs_mem:
  assumes "ready j D" "(l, b) \<in> set (place_pairs j)"
  shows "l \<in> target_sectors (g_target_sectors j) (map fst (tx_blocks (j_txn j)))" "length b = 512"
proof -
  obtain t d where td: "(t, d) \<in> set (tx_blocks (j_txn j))" "(l, b) \<in> set (wpairs (unat t * g_target_sectors j) (g_target_sectors j) d)"
    using assms(2) by (auto simp: place_pairs_def)
  note m = wpairs_mem[OF td(2)]
  have "length d = 4096" "g_target_sectors j \<le> 8" using assms(1) td(1) by (auto simp: ready_def started_def)
  then show "length b = 512" using m length_sector[of d "l - unat t * g_target_sectors j"] by auto
  show "l \<in> target_sectors (g_target_sectors j) (map fst (tx_blocks (j_txn j)))"
    using m td(1) by (force simp: target_sectors_def)
qed

lemma clear_pairs_mem:
  assumes "ready j D" "(l, b) \<in> set (clear_pairs j)"
  shows "slot_lba (g_journal_start j) 0 \<le> l" "l < slot_lba (g_journal_start j) 2" "length b = 512"
    "l = slot_lba (g_journal_start j) 0 \<Longrightarrow> sb_valid b" "l = slot_lba (g_journal_start j) 1 \<Longrightarrow> uncommitted b"
proof -
  let ?s = "g_journal_start j"
  have z: "length zero_block = 4096" by (simp add: zero_block_def JOURNAL_BLOCK_SIZE_def)
  have u: "uncommitted (sector_of zero_block 0)"
    by (simp add: uncommitted_def word_at_def sector_of_def zero_block_def JOURNAL_BLOCK_SIZE_def bytes_word_def JOURNAL_MAGIC_def min_def
        eval_nat_numeral)
  from assms(2) consider "(l, b) \<in> set (wpairs (slot_lba ?s 1) 8 zero_block)" | "(l, b) \<in> set (wpairs (slot_lba ?s 0) 8 (sb_bytes (next_sb j)))"
    by (auto simp: clear_pairs_def)
  then have "slot_lba ?s 0 \<le> l \<and> l < slot_lba ?s 2 \<and> length b = 512 \<and> (l = slot_lba ?s 0 \<longrightarrow> sb_valid b) \<and>
      (l = slot_lba ?s 1 \<longrightarrow> uncommitted b)"
  proof cases
    case 1
    show ?thesis using wpairs_mem[OF 1] length_sector[OF z, of "l - slot_lba ?s 1"] u by (auto simp: slot_lba_def)
  next
    case 2
    show ?thesis using wpairs_mem[OF 2] length_sector[OF next_sb_facts(1)[OF assms(1)], of "l - slot_lba ?s 0"] next_sb_facts(2)[OF assms(1)]
      by (auto simp: slot_lba_def)
  qed
  then show "slot_lba ?s 0 \<le> l" "l < slot_lba ?s 2" "length b = 512" "l = slot_lba ?s 0 \<Longrightarrow> sb_valid b" "l = slot_lba ?s 1 \<Longrightarrow> uncommitted b"
    by auto
qed

lemma disk_ok_apply: "disk_ok d \<Longrightarrow> \<forall>(l, b) \<in> set ws. length b = 512 \<Longrightarrow> disk_ok (apply_writes ws d)"
  unfolding disk_ok_def by (metis (mono_tags, lifting) apply_writes_cases case_prodD)

lemma disk_ok_sub:
  assumes "disk_ok d" "\<And>l b. (l, b) \<in> set ws \<Longrightarrow> length b = 512" "set vs \<subseteq> set ws"
  shows "disk_ok (apply_writes vs d)"
  by (rule disk_ok_apply) (use assms in auto)

text \<open>The disk with the log, and with the log and the mark.\<close>

lemma log_data_slots:
  assumes "\<forall>d \<in> set ds. length d = 4096" "i \<le> k" "k < i + length ds"
  shows "slot_data start k (apply_writes (concat (map (\<lambda>(k, d). wpairs (slot_lba start (2 + k)) 8 d) (enumerate i ds))) D) = ds ! (k - i)"
  using assms
proof (induction ds arbitrary: i D)
  case (Cons d ds)
  define E where "E = put_sectors (slot_lba start (2 + i)) 8 d D"
  define F where "F = apply_writes (concat (map (\<lambda>(k, d). wpairs (slot_lba start (2 + k)) 8 d) (enumerate (Suc i) ds))) E"
  have F: "apply_writes (concat (map (\<lambda>(k, d). wpairs (slot_lba start (2 + k)) 8 d) (enumerate i (d # ds)))) D = F"
    by (simp add: F_def E_def apply_wpairs)
  show ?case
  proof (cases "k = i")
    case True
    have "F l = E l" if "l < slot_lba start (3 + i)" for l
      unfolding F_def using that
      by (intro apply_writes_outside) (auto simp: in_set_enumerate_eq slot_lba_def dest!: wpairs_mem)
    then have "slot_data start i F = slot_data start i E"
      unfolding slot_data_def get_sectors_def by (intro arg_cong[where f = concat] map_cong) (auto simp: slot_lba_def)
    also have "\<dots> = d" unfolding slot_data_def E_def using Cons.prems(1) by (intro get_put) simp
    finally show ?thesis using True F by simp
  next
    case False
    then have "slot_data start k F = ds ! (k - Suc i)" unfolding F_def using Cons.prems by (intro Cons.IH) auto
    then show ?thesis using False Cons.prems(2) F by (simp add: nth_Cons')
  qed
qed simp

lemma logged_disk:
  assumes "ready j D"
  defines "s \<equiv> g_journal_start j" and "L \<equiv> apply_writes (log_pairs j) D"
  shows "disk_ok L" "sb_valid (L (slot_lba s 0))" "L (slot_lba s 1) = sector_of (header_bytes (commit_header 0 (j_txn j))) 0"
    "\<And>l. l \<notin> journal_area s \<Longrightarrow> L l = D l"
    "\<And>k. k < length (tx_blocks (j_txn j)) \<Longrightarrow> slot_data s k L = snd (tx_blocks (j_txn j) ! k)"
proof -
  let ?bs = "tx_blocks (j_txn j)"
  have m: "disk_ok D" "sb_valid (D (slot_lba s 0))" "\<forall>x \<in> set ?bs. length (snd x) = 4096" using assms(1) by (auto simp: ready_def s_def)
  show "disk_ok L" unfolding L_def using m(1) log_pairs_mem(2)[OF assms(1)] subset_refl by (rule disk_ok_sub)
  have "slot_lba s 0 \<notin> fst ` set (log_pairs j)" using log_pairs_mem(3)[OF assms(1)] by (force simp: s_def slot_lba_def)
  then show "sb_valid (L (slot_lba s 0))" using m(2) by (simp add: L_def apply_writes_outside)
  show "L l = D l" if "l \<notin> journal_area s" for l
    using that log_pairs_mem(1)[OF assms(1)] unfolding L_def s_def by (intro apply_writes_outside) auto
  define M where "M = apply_writes (concat (map (\<lambda>(k, d). wpairs (slot_lba s (2 + k)) 8 d) (enumerate 0 (map snd ?bs)))) D"
  have L: "L = put_sectors (slot_lba s 1) 8 (header_bytes (commit_header 0 (j_txn j))) M"
    by (simp add: L_def log_pairs_def M_def apply_wpairs s_def)
  show "L (slot_lba s 1) = sector_of (header_bytes (commit_header 0 (j_txn j))) 0" by (simp add: L put_sectors_def)
  fix k assume k: "k < length ?bs"
  have "slot_data s k L = slot_data s k M"
    unfolding slot_data_def get_sectors_def by (intro arg_cong[where f = concat] map_cong) (auto simp: L put_sectors_def slot_lba_def)
  also have "\<dots> = snd (?bs ! k)" using log_data_slots[of "map snd ?bs" 0 k s D] m(3) k by (simp add: M_def)
  finally show "slot_data s k L = snd (?bs ! k)" .
qed

lemma hdr0_uncommitted:
  assumes "ready j D"
  shows "uncommitted (sector_of (header_bytes (commit_header 0 (j_txn j))) 0)"
proof -
  have n: "length (tx_blocks (j_txn j)) \<le> 8" using assms by (auto simp: ready_def)
  have "word_at (header_bytes (commit_header 0 (j_txn j))) 3 = 0"
    using header_bytes_words[OF commit_header_facts(1)[OF n], of 3 0] commit_header_facts(3)[OF n, of 0]
    by (simp add: header_words_def)
  then show ?thesis by (simp add: uncommitted_def sector_of_def word_at_take)
qed

text \<open>Whatever part of a group that touches only the header block and the superblock is written, the log stays.\<close>

lemma slot_data_kept:
  assumes "k < 8" "\<And>l b. (l, b) \<in> set vs \<Longrightarrow> l < slot_lba s 2 \<or> l \<notin> journal_area s"
  shows "slot_data s k (apply_writes vs d) = slot_data s k d"
proof -
  have "apply_writes vs d l = d l" if "l \<in> set [slot_lba s (2 + k)..<slot_lba s (2 + k) + 8]" for l
  proof (rule apply_writes_outside)
    have "slot_lba s 2 \<le> l" "l \<in> journal_area s" using that assms(1) by (auto simp: slot_lba_def journal_area_def)
    then show "l \<notin> fst ` set vs" using assms(2) by force
  qed
  then show ?thesis unfolding slot_data_def get_sectors_def by (metis map_cong)
qed

lemma commit_crash_old:
  assumes "ready j D" "set vs \<subseteq> set (log_pairs j)" "c = apply_writes vs D" "l \<notin> journal_area (g_journal_start j)"
  shows "recover (g_journal_start j) (g_target_sectors j) c l = D l"
proof -
  let ?s = "g_journal_start j"
  have r: "disk_ok D" "sb_valid (D (slot_lba ?s 0))" "uncommitted (D (slot_lba ?s 1))" "started j" using assms(1) by (auto simp: ready_def)
  have "disk_ok c" unfolding assms(3) using r(1) log_pairs_mem(2)[OF assms(1)] assms(2) by (rule disk_ok_sub)
  moreover have "c (slot_lba ?s 0) = D (slot_lba ?s 0)"
    unfolding assms(3) using log_pairs_mem(3)[OF assms(1)] assms(2) by (intro apply_writes_outside) (force simp: slot_lba_def)
  moreover have "uncommitted (c (slot_lba ?s 1))"
    using apply_writes_cases[of vs D "slot_lba ?s 1"] log_pairs_mem(4)[OF assms(1)] assms(2,3) r(3) hdr0_uncommitted[OF assms(1)]
    by (metis subset_iff)
  moreover have "c l = D l" unfolding assms(3)
    using log_pairs_mem(1)[OF assms(1)] assms(2,4) by (intro apply_writes_outside) force
  ultimately show ?thesis using recover_old[of c ?s "g_target_sectors j"] r by (simp add: started_def)
qed

text \<open>From a disk with the whole log and the mark, recovery completes the transaction.\<close>

lemma marked_recovers:
  assumes "ready j D" "disk_ok c" "sb_valid (c (slot_lba (g_journal_start j) 0))"
    and "c (slot_lba (g_journal_start j) 1) = sector_of (header_bytes (commit_header 1 (j_txn j))) 0"
    and "\<And>k. k < length (tx_blocks (j_txn j)) \<Longrightarrow> slot_data (g_journal_start j) k c = snd (tx_blocks (j_txn j) ! k)"
    and "\<And>l. l \<notin> journal_area (g_journal_start j) \<Longrightarrow> l \<notin> target_sectors (g_target_sectors j) (map fst (tx_blocks (j_txn j))) \<Longrightarrow> c l = D l"
    and "l \<notin> journal_area (g_journal_start j)"
  shows "recover (g_journal_start j) (g_target_sectors j) c l = place (g_target_sectors j) (tx_blocks (j_txn j)) D l"
proof -
  let ?s = "g_journal_start j" and ?ts = "g_target_sectors j" and ?bs = "tx_blocks (j_txn j)"
  have r: "started j" "?bs \<noteq> []" "length ?bs \<le> 8" "target_sectors ?ts (map fst ?bs) \<inter> journal_area ?s = {}"
    using assms(1) by (auto simp: ready_def)
  have "recover ?s ?ts c l = place ?ts ?bs c l"
    using recover_new[OF assms(2,3) _ _ _ refl r(2,3) assms(4) r(4) assms(5) assms(7)] r(1) by (simp add: started_def)
  also have "place ?ts ?bs c l = place ?ts ?bs (\<lambda>l. if l \<in> journal_area ?s then c l else D l) l"
    by (intro fun_cong[OF place_cong]) (use assms(6) in auto)
  also have "\<dots> = place ?ts ?bs D l"
  proof (cases "l \<in> target_sectors ?ts (map fst ?bs)")
    case True
    then show ?thesis by (rule place_inside)
  qed (use assms(7) in \<open>simp add: place_outside\<close>)
  finally show ?thesis .
qed

lemma apply_place: "apply_writes (place_pairs j) d = place (g_target_sectors j) (tx_blocks (j_txn j)) d"
proof -
  have "apply_writes (concat (map (\<lambda>(t, b). wpairs (unat t * ts) ts b) bs)) d = place ts bs d" for ts bs
    by (induction bs arbitrary: d) (auto simp: place_def apply_wpairs)
  then show ?thesis by (simp add: place_pairs_def)
qed

lemma marked_disk:
  assumes "ready j D"
  defines "s \<equiv> g_journal_start j" and "M \<equiv> apply_writes (mark_pairs j) (apply_writes (log_pairs j) D)"
  shows "disk_ok M" "sb_valid (M (slot_lba s 0))" "M (slot_lba s 1) = sector_of (header_bytes (commit_header 1 (j_txn j))) 0"
    "\<And>l. l \<notin> journal_area s \<Longrightarrow> M l = D l"
    "\<And>k. k < length (tx_blocks (j_txn j)) \<Longrightarrow> slot_data s k M = snd (tx_blocks (j_txn j) ! k)"
proof -
  note L = logged_disk[OF assms(1), folded s_def] and m = mark_pairs_mem[OF assms(1), folded s_def]
  show "disk_ok M" unfolding M_def using L(1) m(3) subset_refl by (rule disk_ok_sub)
  have "slot_lba s 0 \<notin> fst ` set (mark_pairs j)" using m(1) by (force simp: slot_lba_def)
  then show "sb_valid (M (slot_lba s 0))" using L(2) by (simp add: M_def apply_writes_outside)
  show "M (slot_lba s 1) = sector_of (header_bytes (commit_header 1 (j_txn j))) 0"
    by (simp add: M_def mark_pairs_def apply_wpairs put_sectors_def s_def)
  show "M l = D l" if "l \<notin> journal_area s" for l
  proof -
    have "l \<notin> fst ` set (mark_pairs j)" using that m(1,2) by (force simp: slot_lba_def journal_area_def)
    then show ?thesis using L(4)[OF that] by (simp add: M_def apply_writes_outside)
  qed
  show "slot_data s k M = snd (tx_blocks (j_txn j) ! k)" if "k < length (tx_blocks (j_txn j))" for k
    using L(5)[OF that] slot_data_kept[of k "mark_pairs j" s] m(2) that assms(1) by (auto simp: M_def ready_def)
qed

lemma commit_crash_marking:
  assumes "ready j D" "set vs \<subseteq> set (mark_pairs j)" "c = apply_writes vs (apply_writes (log_pairs j) D)"
  shows "(\<forall>l. l \<notin> journal_area (g_journal_start j) \<longrightarrow> recover (g_journal_start j) (g_target_sectors j) c l = D l) \<or>
    (\<forall>l. l \<notin> journal_area (g_journal_start j) \<longrightarrow>
      recover (g_journal_start j) (g_target_sectors j) c l = place (g_target_sectors j) (tx_blocks (j_txn j)) D l)"
proof -
  let ?s = "g_journal_start j" and ?ts = "g_target_sectors j" and ?L = "apply_writes (log_pairs j) D"
  note L = logged_disk[OF assms(1)] and m = mark_pairs_mem[OF assms(1)]
  have r: "started j" "length (tx_blocks (j_txn j)) \<le> 8" using assms(1) by (auto simp: ready_def)
  have ok: "disk_ok c" unfolding assms(3) using L(1) m(3) assms(2) by (rule disk_ok_sub)
  have "slot_lba ?s 0 \<notin> fst ` set vs" using m(1) assms(2) by (force simp: slot_lba_def)
  then have sb: "sb_valid (c (slot_lba ?s 0))" using L(2) by (simp add: assms(3) apply_writes_outside)
  have out: "c l = D l" if "l \<notin> journal_area ?s" for l
  proof -
    have "l \<notin> fst ` set vs" using that m(1,2) assms(2) by (force simp: slot_lba_def journal_area_def)
    then show ?thesis using L(4)[OF that] by (simp add: assms(3) apply_writes_outside)
  qed
  have sl: "slot_data ?s k c = snd (tx_blocks (j_txn j) ! k)" if "k < length (tx_blocks (j_txn j))" for k
    using L(5)[OF that] slot_data_kept[of k vs ?s ?L] m(2) assms(2) that r(2) by (auto simp: assms(3))
  have "c (slot_lba ?s 1) = sector_of (header_bytes (commit_header 0 (j_txn j))) 0 \<or>
      c (slot_lba ?s 1) = sector_of (header_bytes (commit_header 1 (j_txn j))) 0"
    using apply_writes_cases[of vs ?L "slot_lba ?s 1"] L(3) m(4) assms(2,3) by auto
  then show ?thesis
  proof
    assume "c (slot_lba ?s 1) = sector_of (header_bytes (commit_header 0 (j_txn j))) 0"
    then have "recover ?s ?ts c = c"
      using recover_old[OF ok sb] hdr0_uncommitted[OF assms(1)] r(1) by (simp add: started_def)
    then show ?thesis using out by simp
  next
    assume "c (slot_lba ?s 1) = sector_of (header_bytes (commit_header 1 (j_txn j))) 0"
    then show ?thesis using marked_recovers[OF assms(1) ok sb _ sl out] by blast
  qed
qed

lemma commit_crash_placing:
  assumes "ready j D" "set vs \<subseteq> set (place_pairs j)" "c = apply_writes vs (apply_writes (mark_pairs j) (apply_writes (log_pairs j) D))"
    and "l \<notin> journal_area (g_journal_start j)"
  shows "recover (g_journal_start j) (g_target_sectors j) c l = place (g_target_sectors j) (tx_blocks (j_txn j)) D l"
proof -
  let ?s = "g_journal_start j" and ?T = "target_sectors (g_target_sectors j) (map fst (tx_blocks (j_txn j)))"
  note M = marked_disk[OF assms(1)] and m = place_pairs_mem[OF assms(1)]
  have r: "?T \<inter> journal_area ?s = {}" "length (tx_blocks (j_txn j)) \<le> 8" using assms(1) by (auto simp: ready_def)
  have ok: "disk_ok c" unfolding assms(3) using M(1) m(2) assms(2) by (rule disk_ok_sub)
  have out: "c l = apply_writes (mark_pairs j) (apply_writes (log_pairs j) D) l" if "l \<notin> ?T" for l
    unfolding assms(3) using m(1) assms(2) that by (intro apply_writes_outside) force
  have hd: "slot_lba ?s i \<notin> ?T" if "i < 2" for i
    using r(1) that by (force simp: slot_lba_def journal_area_def)
  have "slot_data ?s k c = snd (tx_blocks (j_txn j) ! k)" if "k < length (tx_blocks (j_txn j))" for k
  proof -
    have "lb \<notin> journal_area ?s" if "(lb, b) \<in> set vs" for lb b using m(1)[of lb b] assms(2) that r(1) by auto
    then show ?thesis using M(5)[OF that] slot_data_kept[of k vs ?s] that r(2) by (auto simp: assms(3))
  qed
  moreover have "c l' = D l'" if "l' \<notin> journal_area ?s" "l' \<notin> ?T" for l' using out[OF that(2)] M(4)[OF that(1)] by simp
  ultimately show ?thesis
    using marked_recovers[OF assms(1) ok, of l] out[OF hd] M(2,3) assms(4) by auto
qed

lemma commit_crash_clearing:
  assumes "ready j D" "set vs \<subseteq> set (clear_pairs j)"
    and "c = apply_writes vs (apply_writes (place_pairs j) (apply_writes (mark_pairs j) (apply_writes (log_pairs j) D)))"
    and "l \<notin> journal_area (g_journal_start j)"
  shows "recover (g_journal_start j) (g_target_sectors j) c l = place (g_target_sectors j) (tx_blocks (j_txn j)) D l"
proof -
  let ?s = "g_journal_start j" and ?ts = "g_target_sectors j" and ?bs = "tx_blocks (j_txn j)"
  let ?T = "target_sectors ?ts (map fst ?bs)" and ?M = "apply_writes (mark_pairs j) (apply_writes (log_pairs j) D)"
  note M = marked_disk[OF assms(1)] and m = clear_pairs_mem[OF assms(1)]
  have r: "?T \<inter> journal_area ?s = {}" "length ?bs \<le> 8" "started j" using assms(1) by (auto simp: ready_def)
  define P where "P = apply_writes (place_pairs j) ?M"
  have P: "P = place ?ts ?bs ?M" by (simp add: P_def apply_place)
  have Pin: "P l = ?M l" if "l \<in> journal_area ?s" for l using that r(1) by (auto simp: P intro!: place_outside)
  have hd: "slot_lba ?s i \<in> journal_area ?s" if "i < 32" for i using that by (simp add: slot_lba_def journal_area_def)
  have Pok: "disk_ok P" unfolding P_def using M(1) place_pairs_mem(2)[OF assms(1)] subset_refl by (rule disk_ok_sub)
  have ok: "disk_ok c" unfolding assms(3) P_def[symmetric] using Pok m(3) assms(2) by (rule disk_ok_sub)
  have sb: "sb_valid (c (slot_lba ?s 0))"
    using apply_writes_cases[of vs P "slot_lba ?s 0"] m(4) assms(2) M(2) Pin[OF hd[of 0]] unfolding assms(3) P_def[symmetric] by force
  have out: "c l = P l" if "l \<notin> journal_area ?s" for l
    unfolding assms(3) P_def[symmetric] using m(1,2) assms(2) that
    by (intro apply_writes_outside) (force simp: slot_lba_def journal_area_def)
  have Pl: "P l = place ?ts ?bs D l" if "l \<notin> journal_area ?s" for l
    using place_inside[of l ?ts ?bs ?M D] place_outside[of l ?ts ?bs] M(4)[OF that] by (cases "l \<in> ?T") (simp_all add: P)
  have "uncommitted (c (slot_lba ?s 1)) \<or> c (slot_lba ?s 1) = sector_of (header_bytes (commit_header 1 (j_txn j))) 0"
    using apply_writes_cases[of vs P "slot_lba ?s 1"] m(5) assms(2) M(3) Pin[OF hd[of 1]] unfolding assms(3) P_def[symmetric] by force
  then show ?thesis
  proof
    assume "uncommitted (c (slot_lba ?s 1))"
    then have "recover ?s ?ts c = c" using recover_old[OF ok sb] r(3) by (simp add: started_def)
    then show ?thesis using out[OF assms(4)] Pl[OF assms(4)] by simp
  next
    assume h: "c (slot_lba ?s 1) = sector_of (header_bytes (commit_header 1 (j_txn j))) 0"
    have "slot_data ?s k c = snd (?bs ! k)" if "k < length ?bs" for k
    proof -
      have "slot_data ?s k P = slot_data ?s k ?M" using slot_data_cong[of k ?s P ?M] Pin that r(2) by simp
      moreover have "slot_data ?s k c = slot_data ?s k P"
        unfolding assms(3) P_def[symmetric] using m(2) assms(2) that r(2) by (intro slot_data_kept) auto
      ultimately show ?thesis using M(5)[OF that] by simp
    qed
    moreover have "c l' = D l'" if "l' \<notin> journal_area ?s" "l' \<notin> ?T" for l'
      using out[OF that(1)] Pl[OF that(1)] place_outside[OF that(2)] by simp
    ultimately show ?thesis using marked_recovers[OF assms(1) ok sb h, of l] assms(4) by auto
  qed
qed

section \<open>Atomicity and durability\<close>

lemma crash_after:
  assumes "dev_run log (base, []) = (D, [])"
  shows "crash_disk base (log @ ops) c = crash_disk D ops c"
  by (simp add: crash_disk_def dev_run_append assms)

lemma crash_exists: "\<exists>c. crash_disk d ops c"
proof -
  obtain e pend where "dev_run ops (d, []) = (e, pend)" by fastforce
  then have "crash_disk d ops (apply_writes pend e)" by (auto simp: crash_disk_def)
  then show ?thesis by blast
qed

lemma crash_grouped_full:
  assumes "crash_disk d (grouped gs) c" "gs \<noteq> []"
  shows "\<exists>vs. set vs \<subseteq> set (last gs) \<and> c = apply_writes vs (fold apply_writes (butlast gs) d)"
  using assms
proof (induction gs arbitrary: d rule: grouped.induct)
  case (2 ws)
  then show ?case using crash_disk_dw[of d ws c] subseq_subset by auto
next
  case (3 ws w2 rest)
  then have "crash_disk (apply_writes ws d) (grouped (w2 # rest)) c" by (simp add: crash_disk_def dev_run_append dev_run_dw)
  from "3.IH"[OF this] show ?case by auto
qed simp

lemma ready_commit:
  assumes "ready j D" "journal_commit True j = Some (j', r)"
  shows "r = Inr ()" "dev_log (j_bd j') = dev_log (j_bd j) @ commit_ops j" "dev_base (j_bd j') = dev_base (j_bd j)"
    "dev_run (dev_log (j_bd j)) (dev_base (j_bd j), []) = (D, [])" "started j'" "dev_ok (j_bd j')" "tx_in_use (j_txn j') = False"
    "tx_blocks (j_txn j') = []" "g_journal_start j' = g_journal_start j" "g_target_sectors j' = g_target_sectors j" "j_sb j' = next_sb j"
  using commit_trace[of j] assms by (auto simp: ready_def)

text \<open>A small disk with a fresh journal, and a transaction of one block.\<close>

definition demo_sb :: journal_superblock where
  "demo_sb = \<lparr>sb_magic = JOURNAL_MAGIC, sb_version = JOURNAL_VERSION, sb_num_blocks = 32, sb_txn_id_next = 2, sb_pad = replicate 4080 0\<rparr>"

definition demo_disk :: disk where
  "demo_disk = (\<lambda>l. if l = slot_lba 2048 0 then sector_of (sb_bytes demo_sb) 0 else replicate 512 0)"

definition demo_journal :: journal where
  "demo_journal = \<lparr>j_bd = power_on demo_disk, g_journal_start = 2048, g_sectors_per_block = 8, g_target_sectors = 2,
     j_sb = demo_sb, g_initialized = True, j_txn = \<lparr>tx_in_use = True, txn_id = 1, tx_blocks = [(7, replicate 4096 65)]\<rparr>\<rparr>"

lemma demo_sb_sector: "length (sector_of (sb_bytes demo_sb) 0) = 512" "sb_valid (sector_of (sb_bytes demo_sb) 0)"
proof -
  have l: "length (sb_bytes demo_sb) = 4096" by (simp add: sb_bytes_def demo_sb_def)
  then show "length (sector_of (sb_bytes demo_sb) 0) = 512" by (rule length_sector) simp
  have "word_at (sb_bytes demo_sb) 0 = JOURNAL_MAGIC" "word_at (sb_bytes demo_sb) 1 = JOURNAL_VERSION"
    by (simp_all add: sb_bytes_def demo_sb_def word_at_def)
  then show "sb_valid (sector_of (sb_bytes demo_sb) 0)" using word_at_take[of 0 512 "sb_bytes demo_sb"] word_at_take[of 1 512 "sb_bytes demo_sb"]
    by (simp add: sb_valid_def sector_of_def)
qed

lemma demo_ready: "ready demo_journal demo_disk"
proof -
  have "disk_ok demo_disk" using demo_sb_sector(1) by (simp add: disk_ok_def demo_disk_def)
  moreover have "uncommitted (demo_disk (slot_lba 2048 1))"
    by (simp add: demo_disk_def slot_lba_def uncommitted_def word_at_def bytes_word_def JOURNAL_MAGIC_def)
  ultimately show ?thesis using demo_sb_sector(2)
    by (simp add: ready_def demo_journal_def started_def power_on_def dev_ok_def target_sectors_def journal_area_def demo_sb_def demo_disk_def)
qed

lemma demo_commit: "\<exists>j'. journal_commit True demo_journal = Some (j', Inr ())"
  using commit_trace[of demo_journal] demo_ready by (auto simp: ready_def)





section \<open>The header that is not flushed\<close>

lemma commit_header_blocks: "map fst bs = map fst (tx_blocks t) \<Longrightarrow> commit_header c (t\<lparr>tx_blocks := bs\<rparr>) = commit_header c t"
  using map_eq_imp_length_eq[of fst bs fst "tx_blocks t"] by (simp add: commit_header_def Let_def)

lemma commit_run:
  "dev_run (commit_ops j) (D, []) =
     (apply_writes (place_pairs j) (apply_writes (mark_pairs j) (apply_writes (log_pairs j) D)), clear_pairs j)"
  by (simp add: commit_ops_grouped dev_run_append dev_run_dw)

lemma stale_header_crash:
  assumes "ready j D" "tx_blocks (j_txn j) = [(t, b)]" "length d = 4096"
    and "c = put_sectors (slot_lba (g_journal_start j) 2) 8 d
           (apply_writes (place_pairs j) (apply_writes (mark_pairs j) (apply_writes (log_pairs j) D)))"
    and "i < g_target_sectors j"
  shows "recover (g_journal_start j) (g_target_sectors j) c (unat t * g_target_sectors j + i) = sector_of d i"
proof -
  let ?s = "g_journal_start j" and ?ts = "g_target_sectors j"
  let ?M = "apply_writes (mark_pairs j) (apply_writes (log_pairs j) D)" and ?x = "(j_txn j)\<lparr>tx_blocks := [(t, d)]\<rparr>"
  note M = marked_disk[OF assms(1)]
  have r: "started j" "target_sectors ?ts [t] \<inter> journal_area ?s = {}" using assms(1,2) by (auto simp: ready_def)
  have c: "c l = ?M l" if "l \<in> journal_area ?s" "l < slot_lba ?s 2" for l
    using that r(2) place_outside[of l ?ts "tx_blocks (j_txn j)"] assms(2) by (auto simp: assms(4) apply_place put_sectors_def)
  have "disk_ok (place ?ts (tx_blocks (j_txn j)) ?M)"
    unfolding apply_place[symmetric] using M(1) place_pairs_mem(2)[OF assms(1)] subset_refl by (rule disk_ok_sub)
  then have ok: "disk_ok c" using assms(3) by (auto simp: assms(4) apply_place disk_ok_def put_sectors_def length_sector)
  have h: "slot_lba ?s 0 \<in> journal_area ?s" "slot_lba ?s 1 \<in> journal_area ?s" by (simp_all add: slot_lba_def journal_area_def)
  have sl: "slot_data ?s 0 c = d" using assms(3) get_put[of d 8] by (simp add: slot_data_def assms(4))
  have l: "unat t * ?ts + i \<in> target_sectors ?ts [t]" using assms(5) by (simp add: target_sectors_def)
  have "recover ?s ?ts c (unat t * ?ts + i) = place ?ts [(t, d)] c (unat t * ?ts + i)"
  proof (rule recover_new[where t = ?x])
    show "sb_valid (c (slot_lba ?s 0))" using M(2) c[OF h(1)] by (simp add: slot_lba_def)
    show "c (slot_lba ?s 1) = sector_of (header_bytes (commit_header 1 ?x)) 0"
      using M(3) c[OF h(2)] assms(2) by (subst commit_header_blocks) (simp_all add: slot_lba_def)
  qed (use ok r l sl in \<open>auto simp: started_def\<close>)
  then show ?thesis using assms(5) by (simp add: place_def put_sectors_def)
qed

text \<open>
  C36 (journal, safety).  The clearing of the header is not flushed before the slot is used again. After the commit
  of a one-block transaction for the block \<open>t\<close>, a second transaction for any block \<open>u\<close> writes its data
  over the slot while the old header may still be the durable one: a crash there makes recovery
  write the data of the second transaction to the block \<open>t\<close> of the first.
\<close>

theorem stale_header_replayed:
  assumes "ready j D" "tx_blocks (j_txn j) = [(t, b)]" "journal_commit True j = Some (j1, r1)"
    and "journal_begin j1 = Some (j2, h)" "journal_log_block h u (Some d) True j2 = (j3, r2)"
    and "journal_commit h j3 = Some (j4, r3)" "length d = 4096"
  shows "\<exists>n c. length (dev_log (j_bd j1)) \<le> n \<and> crash_disk (dev_base (j_bd j)) (take n (dev_log (j_bd j4))) c \<and>
    (\<forall>i < g_target_sectors j. recover (g_journal_start j) (g_target_sectors j) c (unat t * g_target_sectors j + i) = sector_of d i)"
proof -
  let ?s = "g_journal_start j"
  let ?P = "apply_writes (place_pairs j) (apply_writes (mark_pairs j) (apply_writes (log_pairs j) D))"
  note p = ready_commit[OF assms(1,3)]
  have g: "g_initialized j1" using p(5) by (simp add: started_def)
  have h: "h" "j_bd j2 = j_bd j1" "tx_in_use (j_txn j2)" "tx_blocks (j_txn j2) = []" "started j2" "g_journal_start j2 = ?s"
    using assms(4) p by (auto simp: journal_begin_def g started_def)
  have j3: "j_bd j3 = j_bd j1" "tx_in_use (j_txn j3)" "tx_blocks (j_txn j3) = [(u, d)]" "started j3" "g_journal_start j3 = ?s"
    using assms(5,7) h by (auto simp: journal_log_block_def started_def JOURNAL_BLOCK_SIZE_def JOURNAL_MAX_PER_TXN_def)
  have "dev_log (j_bd j4) = dev_log (j_bd j) @ commit_ops j @ commit_ops j3"
    using commit_trace[of j3] j3 p h(1) assms(6) by auto
  moreover obtain rest where "commit_ops j3 = write_ops (slot_lba ?s 2) 8 d @ rest"
    by (simp add: commit_ops_def log_writes_def data_ops_def j3 numeral_2_eq_2)
  moreover have "length (write_ops (slot_lba ?s 2) 8 d) = 8" by (simp add: write_ops_def)
  ultimately have k: "take (length (dev_log (j_bd j1)) + 8) (dev_log (j_bd j4)) =
      dev_log (j_bd j) @ commit_ops j @ write_ops (slot_lba ?s 2) 8 d" by (simp add: p(2))
  have "crash_disk D (commit_ops j @ write_ops (slot_lba ?s 2) 8 d) (put_sectors (slot_lba ?s 2) 8 d ?P)"
    unfolding crash_disk_def dev_run_append commit_run dw_wpairs[symmetric] dev_run_dw apply_wpairs[symmetric] by auto
  then have "crash_disk (dev_base (j_bd j)) (take (length (dev_log (j_bd j1)) + 8) (dev_log (j_bd j4))) (put_sectors (slot_lba ?s 2) 8 d ?P)"
    by (simp add: k crash_after[OF p(4)])
  then show ?thesis using stale_header_crash[OF assms(1,2,7) refl] by (intro exI conjI) auto
qed

theorem stale_header_replayed_witness:
  "\<exists>j1 j2 j3 j4 n c. journal_commit True demo_journal = Some (j1, Inr ()) \<and> journal_begin j1 = Some (j2, True) \<and>
     journal_log_block True 99 (Some (replicate 4096 66)) True j2 = (j3, Inr ()) \<and> journal_commit True j3 = Some (j4, Inr ()) \<and>
     length (dev_log (j_bd j1)) \<le> n \<and> crash_disk demo_disk (take n (dev_log (j_bd j4))) c \<and> recover 2048 2 c 14 = replicate 512 66"
proof -
  obtain j1 where j1: "journal_commit True demo_journal = Some (j1, Inr ())" using demo_commit by blast
  note p = ready_commit[OF demo_ready j1]
  obtain j2 where j2: "journal_begin j1 = Some (j2, True)" "started j2" "dev_ok (j_bd j2)" "tx_in_use (j_txn j2)" "tx_blocks (j_txn j2) = []"
    using p by (auto simp: journal_begin_def started_def)
  obtain j3 where j3: "journal_log_block True 99 (Some (replicate 4096 66)) True j2 = (j3, Inr ())" "started j3" "dev_ok (j_bd j3)"
    "tx_in_use (j_txn j3)" "length (tx_blocks (j_txn j3)) \<le> 8"
    using j2 by (auto simp: journal_log_block_def started_def JOURNAL_MAX_PER_TXN_def)
  obtain j4 where j4: "journal_commit True j3 = Some (j4, Inr ())" using commit_trace[OF j3(2-5)] by blast
  have d: "dev_base (j_bd demo_journal) = demo_disk" "g_journal_start demo_journal = 2048"
    "g_target_sectors demo_journal = 2" "tx_blocks (j_txn demo_journal) = [(7, replicate 4096 65)]"
    by (simp_all add: demo_journal_def power_on_def)
  have "length (replicate 4096 66 :: byte list) = 4096" by simp
  from stale_header_replayed[OF demo_ready d(4) j1 j2(1) j3(1) j4 this, unfolded d] obtain n c where
    "length (dev_log (j_bd j1)) \<le> n" "crash_disk demo_disk (take n (dev_log (j_bd j4))) c"
    "\<forall>i < 2. recover 2048 2 c (unat (7 :: u32) * 2 + i) = sector_of (replicate 4096 66) i" by blast
  moreover from this(3) have "recover 2048 2 c (unat (7 :: u32) * 2 + 0) = sector_of (replicate 4096 66) 0" by (metis zero_less_numeral)
  then have "recover 2048 2 c 14 = replicate 512 66" by (simp add: sector_of_def)
  ultimately show ?thesis using j1 j2(1) j3(1) j4 by blast
qed

end
