(* ===== verification/Ext2_Layout.thy ===== *)
theory Ext2_Layout
  imports Prelude
begin

text \<open>
  The structures of an ext2 disk, \<^verbatim>\<open>src/kernel/fs/ext2_ondisk.h\<close>: super block, group
  descriptor, inode and the header of a directory record, as records and as the packed
  little-endian bytes the driver copies to and from its block buffer.
\<close>

section \<open>Packed integers\<close>

definition half_bytes :: "u16 \<Rightarrow> byte list" where
  "half_bytes w = [ucast w, ucast (drop_bit 8 w)]"

definition u16_at :: "byte list \<Rightarrow> nat \<Rightarrow> u16" where
  "u16_at bs off = ucast (bs ! off) OR push_bit 8 (ucast (bs ! (off + 1)))"

definition u32_at :: "byte list \<Rightarrow> nat \<Rightarrow> u32" where
  "u32_at bs off = bytes_word (take 4 (drop off bs))"

definition bytes_at :: "byte list \<Rightarrow> nat \<Rightarrow> nat \<Rightarrow> byte list" where
  "bytes_at bs off n = take n (drop off bs)"

lemma length_half_bytes [simp]: "length (half_bytes w) = 2"
  by (simp add: half_bytes_def)

lemma half_round: "ucast (ucast w :: byte) OR push_bit 8 (ucast (ucast (drop_bit 8 w) :: byte)) = w" for w :: u16
  by (rule bit_word_eqI) (auto simp: bit_simps)

text \<open>Reading a field behind a prefix of known length.\<close>

lemma u16_at_append:
  "length xs = off \<Longrightarrow> u16_at (xs @ half_bytes w @ ys) off = w"
  by (simp add: u16_at_def half_bytes_def nth_append half_round)

lemma u32_at_append:
  "length xs = off \<Longrightarrow> u32_at (xs @ word_bytes w @ ys) off = w"
  by (simp add: u32_at_def)

section \<open>Constants\<close>

definition EXT2_MAGIC :: u16 where [kernel_const]: "EXT2_MAGIC = 0xEF53"
definition EXT2_ROOT_INO :: u32 where [kernel_const]: "EXT2_ROOT_INO = 2"
definition EXT2_NDIR_BLOCKS :: nat where [kernel_const]: "EXT2_NDIR_BLOCKS = 12"
definition EXT2_IND_BLOCK :: nat where [kernel_const]: "EXT2_IND_BLOCK = 12"
definition EXT2_DIND_BLOCK :: nat where [kernel_const]: "EXT2_DIND_BLOCK = 13"
definition EXT2_N_BLOCKS :: nat where [kernel_const]: "EXT2_N_BLOCKS = 15"
definition EXT2_S_IFMT :: u16 where [kernel_const]: "EXT2_S_IFMT = 0xF000"
definition EXT2_S_IFREG :: u16 where [kernel_const]: "EXT2_S_IFREG = 0x8000"
definition EXT2_S_IFDIR :: u16 where [kernel_const]: "EXT2_S_IFDIR = 0x4000"

section \<open>The super block\<close>

record ext2_superblock =
  s_inodes_count :: u32
  s_blocks_count :: u32
  s_r_blocks_count :: u32
  s_free_blocks_count :: u32
  s_free_inodes_count :: u32
  s_first_data_block :: u32
  s_log_block_size :: u32
  s_log_frag_size :: u32
  s_blocks_per_group :: u32
  s_frags_per_group :: u32
  s_inodes_per_group :: u32
  s_mtime :: u32
  s_wtime :: u32
  s_mnt_count :: u16
  s_max_mnt_count :: u16
  s_magic :: u16
  s_state :: u16
  s_errors :: u16
  s_minor_rev_level :: u16
  s_lastcheck :: u32
  s_checkinterval :: u32
  s_creator_os :: u32
  s_rev_level :: u32
  s_def_resuid :: u16
  s_def_resgid :: u16
  s_first_ino :: u32
  s_inode_size :: u16
  s_block_group_nr :: u16
  s_feature_compat :: u32
  s_feature_incompat :: u32
  s_feature_ro_compat :: u32
  s_uuid :: "byte list"
  s_volume_name :: "byte list"
  s_pad :: "byte list"

definition superblock_of_bytes :: "byte list \<Rightarrow> ext2_superblock" where
  "superblock_of_bytes b =
     \<lparr>s_inodes_count = u32_at b 0, s_blocks_count = u32_at b 4, s_r_blocks_count = u32_at b 8,
      s_free_blocks_count = u32_at b 12, s_free_inodes_count = u32_at b 16, s_first_data_block = u32_at b 20,
      s_log_block_size = u32_at b 24, s_log_frag_size = u32_at b 28, s_blocks_per_group = u32_at b 32,
      s_frags_per_group = u32_at b 36, s_inodes_per_group = u32_at b 40, s_mtime = u32_at b 44,
      s_wtime = u32_at b 48, s_mnt_count = u16_at b 52, s_max_mnt_count = u16_at b 54, s_magic = u16_at b 56,
      s_state = u16_at b 58, s_errors = u16_at b 60, s_minor_rev_level = u16_at b 62, s_lastcheck = u32_at b 64,
      s_checkinterval = u32_at b 68, s_creator_os = u32_at b 72, s_rev_level = u32_at b 76,
      s_def_resuid = u16_at b 80, s_def_resgid = u16_at b 82, s_first_ino = u32_at b 84, s_inode_size = u16_at b 88,
      s_block_group_nr = u16_at b 90, s_feature_compat = u32_at b 92, s_feature_incompat = u32_at b 96,
      s_feature_ro_compat = u32_at b 100, s_uuid = bytes_at b 104 16, s_volume_name = bytes_at b 120 16,
      s_pad = bytes_at b 136 840\<rparr>"

definition superblock_bytes :: "ext2_superblock \<Rightarrow> byte list" where
  "superblock_bytes sb =
     word_bytes (s_inodes_count sb) @ word_bytes (s_blocks_count sb) @ word_bytes (s_r_blocks_count sb) @
     word_bytes (s_free_blocks_count sb) @ word_bytes (s_free_inodes_count sb) @ word_bytes (s_first_data_block sb) @
     word_bytes (s_log_block_size sb) @ word_bytes (s_log_frag_size sb) @ word_bytes (s_blocks_per_group sb) @
     word_bytes (s_frags_per_group sb) @ word_bytes (s_inodes_per_group sb) @ word_bytes (s_mtime sb) @
     word_bytes (s_wtime sb) @ half_bytes (s_mnt_count sb) @ half_bytes (s_max_mnt_count sb) @ half_bytes (s_magic sb) @
     half_bytes (s_state sb) @ half_bytes (s_errors sb) @ half_bytes (s_minor_rev_level sb) @ word_bytes (s_lastcheck sb) @
     word_bytes (s_checkinterval sb) @ word_bytes (s_creator_os sb) @ word_bytes (s_rev_level sb) @
     half_bytes (s_def_resuid sb) @ half_bytes (s_def_resgid sb) @ word_bytes (s_first_ino sb) @ half_bytes (s_inode_size sb) @
     half_bytes (s_block_group_nr sb) @ word_bytes (s_feature_compat sb) @ word_bytes (s_feature_incompat sb) @
     word_bytes (s_feature_ro_compat sb) @ s_uuid sb @ s_volume_name sb @ s_pad sb"

section \<open>Group descriptors\<close>

record ext2_group_desc =
  bg_block_bitmap :: u32
  bg_inode_bitmap :: u32
  bg_inode_table :: u32
  bg_free_blocks_count :: u16
  bg_free_inodes_count :: u16
  bg_used_dirs_count :: u16
  bg_pad :: u16
  bg_reserved :: "byte list"

definition group_desc_of_bytes :: "byte list \<Rightarrow> ext2_group_desc" where
  "group_desc_of_bytes b =
     \<lparr>bg_block_bitmap = u32_at b 0, bg_inode_bitmap = u32_at b 4, bg_inode_table = u32_at b 8,
      bg_free_blocks_count = u16_at b 12, bg_free_inodes_count = u16_at b 14, bg_used_dirs_count = u16_at b 16,
      bg_pad = u16_at b 18, bg_reserved = bytes_at b 20 12\<rparr>"

definition group_desc_bytes :: "ext2_group_desc \<Rightarrow> byte list" where
  "group_desc_bytes g =
     word_bytes (bg_block_bitmap g) @ word_bytes (bg_inode_bitmap g) @ word_bytes (bg_inode_table g) @
     half_bytes (bg_free_blocks_count g) @ half_bytes (bg_free_inodes_count g) @ half_bytes (bg_used_dirs_count g) @
     half_bytes (bg_pad g) @ bg_reserved g"

section \<open>Inodes\<close>

record ext2_inode =
  ei_mode :: u16
  ei_uid :: u16
  ei_size :: u32
  ei_atime :: u32
  ei_ctime :: u32
  ei_mtime :: u32
  ei_dtime :: u32
  ei_gid :: u16
  ei_links_count :: u16
  ei_blocks :: u32
  ei_flags :: u32
  ei_osd1 :: u32
  ei_block :: "u32 list"
  ei_generation :: u32
  ei_file_acl :: u32
  ei_dir_acl :: u32
  ei_faddr :: u32
  ei_osd2 :: "byte list"

definition inode_of_bytes :: "byte list \<Rightarrow> ext2_inode" where
  "inode_of_bytes b =
     \<lparr>ei_mode = u16_at b 0, ei_uid = u16_at b 2, ei_size = u32_at b 4, ei_atime = u32_at b 8, ei_ctime = u32_at b 12,
      ei_mtime = u32_at b 16, ei_dtime = u32_at b 20, ei_gid = u16_at b 24, ei_links_count = u16_at b 26,
      ei_blocks = u32_at b 28, ei_flags = u32_at b 32, ei_osd1 = u32_at b 36,
      ei_block = map (\<lambda>k. u32_at b (40 + 4 * k)) [0..<EXT2_N_BLOCKS], ei_generation = u32_at b 100,
      ei_file_acl = u32_at b 104, ei_dir_acl = u32_at b 108, ei_faddr = u32_at b 112, ei_osd2 = bytes_at b 116 12\<rparr>"

definition inode_bytes :: "ext2_inode \<Rightarrow> byte list" where
  "inode_bytes n =
     half_bytes (ei_mode n) @ half_bytes (ei_uid n) @ word_bytes (ei_size n) @ word_bytes (ei_atime n) @
     word_bytes (ei_ctime n) @ word_bytes (ei_mtime n) @ word_bytes (ei_dtime n) @ half_bytes (ei_gid n) @
     half_bytes (ei_links_count n) @ word_bytes (ei_blocks n) @ word_bytes (ei_flags n) @ word_bytes (ei_osd1 n) @
     concat (map word_bytes (ei_block n)) @ word_bytes (ei_generation n) @ word_bytes (ei_file_acl n) @
     word_bytes (ei_dir_acl n) @ word_bytes (ei_faddr n) @ ei_osd2 n"

definition inode_wf :: "ext2_inode \<Rightarrow> bool" where
  "inode_wf n \<longleftrightarrow> length (ei_block n) = EXT2_N_BLOCKS \<and> length (ei_osd2 n) = 12"

lemma length_words: "length (concat (map word_bytes ws)) = 4 * length ws"
  by (induction ws) simp_all

lemma word_in_words:
  "k < length ws \<Longrightarrow> take 4 (drop (4 * k) (concat (map word_bytes ws) @ ys)) = word_bytes (ws ! k)"
proof (induction ws arbitrary: k)
  case (Cons w ws)
  then show ?case by (cases k) simp_all
qed simp

lemma length_inode_bytes [simp]: "inode_wf n \<Longrightarrow> length (inode_bytes n) = 128"
  by (simp add: inode_bytes_def inode_wf_def length_words EXT2_N_BLOCKS_def)

lemma inode_of_bytes_wf [simp]: "length b = 128 \<Longrightarrow> inode_wf (inode_of_bytes b)"
  by (simp add: inode_wf_def inode_of_bytes_def bytes_at_def)

lemma inode_round_trip:
  assumes "inode_wf n"
  shows "inode_of_bytes (inode_bytes n @ ys) = n"
proof -
  have l: "length (ei_block n) = 15" "length (ei_osd2 n) = 12" using assms by (simp_all add: inode_wf_def EXT2_N_BLOCKS_def)
  obtain zs where "drop 40 (inode_bytes n @ ys) = concat (map word_bytes (ei_block n)) @ zs"
    by (simp add: inode_bytes_def)
  then have "u32_at (inode_bytes n @ ys) (40 + 4 * k) = ei_block n ! k" if "k < 15" for k
    using that l(1) word_in_words[of k "ei_block n" zs] drop_drop[of "4 * k" 40 "inode_bytes n @ ys"]
    by (simp only: u32_at_def add.commute[of 40] bytes_word_bytes)
  then have "map (\<lambda>k. u32_at (inode_bytes n @ ys) (40 + 4 * k)) [0..<15] = ei_block n"
    using l(1) by (intro nth_equalityI) simp_all
  then show ?thesis using l
    by (simp add: inode_of_bytes_def EXT2_N_BLOCKS_def)
       (simp add: inode_bytes_def u32_at_def u16_at_def bytes_at_def length_words half_bytes_def nth_append half_round)
qed

end
