(* ===== verification/Ext2.thy ===== *)
theory Ext2
  imports Ext2_Layout Journal Ramfs "HOL-Library.Monad_Syntax"
begin

text \<open>
  The ext2 driver, \<^verbatim>\<open>src/kernel/fs/ext2.c\<close> and its method adapter \<^verbatim>\<open>ext2_ops.c\<close>, on the
  bytes of the disk.  The device is the one the journal works on; every change of the
  disk but the super block goes through a transaction of one block.

  An operation maps the state of the driver to the new state and its result.  It is \<open>None\<close>
  where the C code does not return or has no meaning: a kernel panic in the journal, a
  division by zero, an access outside the block buffer or a loop that runs forever.  The
  outcomes of \<open>kmalloc\<close> are the field \<open>e_mem\<close>, in the order of the calls, and the clock is an
  argument.  The scratch block of the CPU is \<open>e_buf\<close>; the lock makes an operation atomic.
\<close>

section \<open>State\<close>

definition EXT2_MAX_GROUPS :: nat where [kernel_const]: "EXT2_MAX_GROUPS = 64"
definition BLOCK_BUF_SIZE :: nat where [kernel_const]: "BLOCK_BUF_SIZE = 4096"

record ext2 =
  e_jnl :: journal
  e_mounted :: bool
  e_sb :: ext2_superblock
  e_gdt :: "nat \<Rightarrow> ext2_group_desc"
  g_block_size :: u32
  g_inode_size :: u32
  g_blocks_per_group :: u32
  g_inodes_per_group :: u32
  g_groups :: u32
  g_sectors_per_blk :: u32
  g_dirty_sb :: bool
  g_dirty_gdt :: bool
  g_write_window_open :: bool
  e_buf :: "byte list"
  e_mem :: "nat \<Rightarrow> bool"
  e_allocs :: nat

type_synonym 'a ext2_res = "(ext2 \<times> 'a res) option"

definition bsize :: "ext2 \<Rightarrow> nat" where
  "bsize s = unat (g_block_size s)"

definition set_bd :: "blkdev \<Rightarrow> ext2 \<Rightarrow> ext2" where
  "set_bd bd s = s\<lparr>e_jnl := (e_jnl s)\<lparr>j_bd := bd\<rparr>\<rparr>"

definition set_buf :: "byte list \<Rightarrow> ext2 \<Rightarrow> ext2" where
  "set_buf b s = s\<lparr>e_buf := b\<rparr>"

definition upd_gdt :: "nat \<Rightarrow> (ext2_group_desc \<Rightarrow> ext2_group_desc) \<Rightarrow> ext2 \<Rightarrow> ext2" where
  "upd_gdt g f s = s\<lparr>e_gdt := (e_gdt s)(g := f (e_gdt s g)), g_dirty_gdt := True\<rparr>"

definition upd_sb :: "(ext2_superblock \<Rightarrow> ext2_superblock) \<Rightarrow> ext2 \<Rightarrow> ext2" where
  "upd_sb f s = s\<lparr>e_sb := f (e_sb s), g_dirty_sb := True\<rparr>"

section \<open>The block buffer\<close>

definition buf8 :: "byte list \<Rightarrow> nat \<Rightarrow> byte option" where
  "buf8 b i = (if i < length b then Some (b ! i) else None)"

definition buf16 :: "byte list \<Rightarrow> nat \<Rightarrow> u16 option" where
  "buf16 b i = (if i + 2 \<le> length b then Some (u16_at b i) else None)"

definition buf32 :: "byte list \<Rightarrow> nat \<Rightarrow> u32 option" where
  "buf32 b i = (if i + 4 \<le> length b then Some (u32_at b i) else None)"

definition splice :: "byte list \<Rightarrow> nat \<Rightarrow> byte list \<Rightarrow> byte list" where
  "splice b i xs = take i b @ xs @ drop (i + length xs) b"

definition put_bytes :: "byte list \<Rightarrow> nat \<Rightarrow> byte list \<Rightarrow> byte list option" where
  "put_bytes b i xs = (if i + length xs \<le> length b then Some (splice b i xs) else None)"

section \<open>Blocks\<close>

definition ext2_is_mounted :: "ext2 \<Rightarrow> bool" where
  "ext2_is_mounted s = e_mounted s"

definition read_block :: "u32 \<Rightarrow> ext2 \<Rightarrow> ext2 \<times> bool" where
  "read_block blk s =
     (case blk_read (unat blk * unat (g_sectors_per_blk s)) (unat (g_sectors_per_blk s)) (j_bd (e_jnl s)) of
        (bd, Inl _) \<Rightarrow> (set_bd bd s, False)
      | (bd, Inr d) \<Rightarrow> (set_buf (d @ drop (length d) (e_buf s)) (set_bd bd s), True))"

definition journaled_write :: "u32 \<Rightarrow> ext2 \<Rightarrow> unit ext2_res" where
  "journaled_write blk s =
     (if \<not> e_mounted s \<or> \<not> g_write_window_open s then Some (s, Inl EIO)
      else case journal_begin (e_jnl s) of
             None \<Rightarrow> None
           | Some (j, False) \<Rightarrow> Some (s\<lparr>e_jnl := j\<rparr>, Inl EIO)
           | Some (j, True) \<Rightarrow>
               (case journal_log_block True blk (Some (e_buf s)) (e_mem s (e_allocs s)) j of
                  (j, Inl e) \<Rightarrow> Some (s\<lparr>e_jnl := journal_abort True j, e_allocs := e_allocs s + 1\<rparr>, Inl e)
                | (j, Inr _) \<Rightarrow>
                    (case journal_commit True j of
                       None \<Rightarrow> None
                     | Some (j, r) \<Rightarrow> Some (s\<lparr>e_jnl := j, e_allocs := e_allocs s + 1\<rparr>, r))))"

section \<open>Mounting\<close>

definition recompute_geometry :: "ext2 \<Rightarrow> ext2 option" where
  "recompute_geometry s =
     (let sb = e_sb s; bs = push_bit (unat (s_log_block_size sb)) (1024 :: u32)
      in if 32 \<le> unat (s_log_block_size sb) \<or> s_blocks_per_group sb = 0 then None
         else Some (s\<lparr>g_block_size := bs,
                      g_inode_size := (if 1 \<le> s_rev_level sb then ucast (s_inode_size sb) else 128),
                      g_blocks_per_group := s_blocks_per_group sb, g_inodes_per_group := s_inodes_per_group sb,
                      g_sectors_per_blk := bs div 512,
                      g_groups := (s_blocks_count sb + s_blocks_per_group sb - 1) div s_blocks_per_group sb\<rparr>))"

definition gdt_block :: "ext2 \<Rightarrow> u32" where
  "gdt_block s = (if g_block_size s = 1024 then 2 else 1)"

definition gdt_bytes :: "ext2 \<Rightarrow> nat" where
  "gdt_bytes s = unat (g_groups s * 32)"

text \<open>Copying \<open>n\<close> bytes of descriptors into the table behind the first \<open>dst\<close> bytes.\<close>

definition load_gdt :: "nat \<Rightarrow> nat \<Rightarrow> ext2 \<Rightarrow> ext2" where
  "load_gdt dst n s =
     s\<lparr>e_gdt := (\<lambda>g. if dst div 32 \<le> g \<and> g < (dst + n) div 32
                     then group_desc_of_bytes (bytes_at (e_buf s) (32 * (g - dst div 32)) 32) else e_gdt s g)\<rparr>"

fun load_gdt_rest :: "u32 list \<Rightarrow> nat \<Rightarrow> nat \<Rightarrow> ext2 \<Rightarrow> ext2 \<times> bool" where
  "load_gdt_rest [] dst remaining s = (s, True)"
| "load_gdt_rest (blk # blks) dst remaining s =
     (case read_block blk s of
        (s, False) \<Rightarrow> (s, False)
      | (s, True) \<Rightarrow>
          let copy = (if bsize s < remaining then bsize s else remaining)
          in load_gdt_rest blks (dst + copy) (remaining - copy) (load_gdt dst copy s))"

definition read_gdt :: "ext2 \<Rightarrow> (ext2 \<times> bool) option" where
  "read_gdt s =
     (case read_block (gdt_block s) s of
        (s, False) \<Rightarrow> Some (s, False)
      | (s, True) \<Rightarrow>
          if bsize s < gdt_bytes s then
            if bsize s = 0 then None
            else
              let remaining = gdt_bytes s - bsize s;
                  nblocks = (remaining + bsize s - 1) div bsize s
              in Some (load_gdt_rest (map (\<lambda>i. gdt_block s + 1 + of_nat i) [0..<nblocks]) (bsize s) remaining
                         (load_gdt 0 (bsize s) s))
          else Some (load_gdt 0 (gdt_bytes s) s, True))"

definition ext2_mount :: "bool \<Rightarrow> ext2 \<Rightarrow> unit ext2_res" where
  "ext2_mount bd s =
     (if \<not> bd then Some (s, Inl EINVAL)
      else case blk_read 2 2 (j_bd (e_jnl s)) of
             (d, Inl _) \<Rightarrow> Some ((set_bd d s)\<lparr>e_mounted := False\<rparr>, Inl EIO)
           | (d, Inr sb_buf) \<Rightarrow>
               (let s = (set_bd d s)\<lparr>e_mounted := True, e_sb := superblock_of_bytes sb_buf\<rparr>
                in if s_magic (e_sb s) \<noteq> EXT2_MAGIC then Some (s\<lparr>e_mounted := False\<rparr>, Inl EINVAL)
                   else case recompute_geometry s of
                          None \<Rightarrow> None
                        | Some s \<Rightarrow>
                            if BLOCK_BUF_SIZE < bsize s then Some (s\<lparr>e_mounted := False\<rparr>, Inl EINVAL)
                            else if EXT2_MAX_GROUPS < unat (g_groups s) then Some (s\<lparr>e_mounted := False\<rparr>, Inl EINVAL)
                            else case read_gdt s of
                                   None \<Rightarrow> None
                                 | Some (s, False) \<Rightarrow> Some (s\<lparr>e_mounted := False\<rparr>, Inl EIO)
                                 | Some (s, True) \<Rightarrow>
                                     Some (s\<lparr>e_jnl := journal_set_target_sectors (unat (g_sectors_per_blk s)) (e_jnl s),
                                              g_write_window_open := True\<rparr>, Inr ())))"

section \<open>Inodes\<close>

text \<open>The place of an inode: its block and the offset in it.\<close>

definition inode_place :: "u32 \<Rightarrow> ext2 \<Rightarrow> (nat \<times> u32 \<times> nat) option" where
  "inode_place ino s =
     (if g_inodes_per_group s = 0 \<or> g_block_size s = 0 then None
      else
        let grp = (ino - 1) div g_inodes_per_group s; index = (ino - 1) mod g_inodes_per_group s;
            off = index * g_inode_size s
        in Some (unat grp, bg_inode_table (e_gdt s (unat grp)) + off div g_block_size s, unat (off mod g_block_size s)))"

definition read_inode :: "u32 \<Rightarrow> ext2 \<Rightarrow> ext2_inode ext2_res" where
  "read_inode ino s =
     (if ino = 0 \<or> s_inodes_count (e_sb s) < ino then Some (s, Inl ENOENT)
      else do {
        (grp, blk, inoff) \<leftarrow> inode_place ino s;
        if unat (g_groups s) \<le> grp then Some (s, Inl EIO)
        else case read_block blk s of
               (s, False) \<Rightarrow> Some (s, Inl EIO)
             | (s, True) \<Rightarrow>
                 if unat (g_inode_size s) < 128 \<or> length (e_buf s) < inoff + 128 then None
                 else Some (s, Inr (inode_of_bytes (bytes_at (e_buf s) inoff 128)))
      })"

definition write_inode_locked :: "u32 \<Rightarrow> ext2_inode \<Rightarrow> ext2 \<Rightarrow> unit ext2_res" where
  "write_inode_locked ino n s =
     (if ino = 0 \<or> s_inodes_count (e_sb s) < ino then Some (s, Inl EINVAL)
      else do {
        (grp, blk, inoff) \<leftarrow> inode_place ino s;
        if unat (g_groups s) \<le> grp then Some (s, Inl EIO)
        else case read_block blk s of
               (s, False) \<Rightarrow> Some (s, Inl EIO)
             | (s, True) \<Rightarrow> do {
                 b \<leftarrow> put_bytes (e_buf s) inoff (take (unat (g_inode_size s)) (inode_bytes n));
                 journaled_write blk (set_buf b s)
               }
      })"

definition inode_block_phys :: "ext2_inode \<Rightarrow> u32 \<Rightarrow> ext2 \<Rightarrow> (ext2 \<times> u32) option" where
  "inode_block_phys n logical s =
     (let ptrs = g_block_size s div 4
      in if unat logical < EXT2_NDIR_BLOCKS then Some (s, ei_block n ! unat logical)
         else
           let logical = logical - of_nat EXT2_NDIR_BLOCKS
           in if logical < ptrs then
                let indir = ei_block n ! EXT2_IND_BLOCK
                in if indir = 0 then Some (s, 0)
                   else case read_block indir s of
                          (s, False) \<Rightarrow> Some (s, 0)
                        | (s, True) \<Rightarrow> do { v \<leftarrow> buf32 (e_buf s) (unat logical * 4); Some (s, v) }
              else
                let logical = logical - ptrs
                in if logical < ptrs * ptrs then
                     let l1 = logical div ptrs; l2 = logical mod ptrs; dind = ei_block n ! EXT2_DIND_BLOCK
                     in if dind = 0 then Some (s, 0)
                        else case read_block dind s of
                               (s, False) \<Rightarrow> Some (s, 0)
                             | (s, True) \<Rightarrow> do {
                                 mid \<leftarrow> buf32 (e_buf s) (unat l1 * 4);
                                 if mid = 0 then Some (s, 0)
                                 else case read_block mid s of
                                        (s, False) \<Rightarrow> Some (s, 0)
                                      | (s, True) \<Rightarrow> do { v \<leftarrow> buf32 (e_buf s) (unat l2 * 4); Some (s, v) }
                               }
                   else Some (s, 0))"

section \<open>File data\<close>

text \<open>The part of a transfer that lies in the block of its current position.\<close>

lemma chunk_step: "\<not> n \<le> w \<Longrightarrow> x < bs \<Longrightarrow> n - (w + min (bs - x) (n - w)) < n - w" for n w x bs :: nat
  by linarith

function read_data_loop :: "ext2_inode \<Rightarrow> u32 \<Rightarrow> nat \<Rightarrow> nat \<Rightarrow> byte list \<Rightarrow> ext2 \<Rightarrow> byte list ext2_res" where
  "read_data_loop n offset to_read got out s =
     (if to_read \<le> got then Some (s, Inr out)
      else if bsize s = 0 then None
      else
        let pos = offset + of_nat got; logical = pos div g_block_size s; inoff = unat (pos mod g_block_size s);
            tk = min (bsize s - inoff) (to_read - got)
        in case inode_block_phys n logical s of
             None \<Rightarrow> None
           | Some (s, phys) \<Rightarrow>
               if phys = 0 then read_data_loop n offset to_read (got + tk) (out @ replicate tk 0) s
               else case read_block phys s of
                      (s, False) \<Rightarrow> Some (s, Inl EIO)
                    | (s, True) \<Rightarrow> read_data_loop n offset to_read (got + tk) (out @ bytes_at (e_buf s) inoff tk) s)"
  by pat_completeness auto
termination by (relation "measure (\<lambda>(n, offset, to_read, got, out, s). to_read - got)")
  (auto simp: bsize_def unat_mod_distrib intro!: chunk_step)

definition read_inode_data :: "ext2_inode \<Rightarrow> u32 \<Rightarrow> u32 \<Rightarrow> ext2 \<Rightarrow> byte list ext2_res" where
  "read_inode_data n len offset s =
     (if ei_size n \<le> offset then Some (s, Inr [])
      else
        let to_read = (if ei_size n < offset + len then ei_size n - offset else len)
        in read_data_loop n offset (unat to_read) 0 [] s)"

definition ext2_read_inode :: "u32 \<Rightarrow> u32 \<Rightarrow> u32 \<Rightarrow> ext2 \<Rightarrow> byte list ext2_res" where
  "ext2_read_inode ino len offset s =
     (if \<not> e_mounted s then Some (s, Inl EINVAL)
      else do {
        (s, r) \<leftarrow> read_inode ino s;
        case r of
          Inl _ \<Rightarrow> Some (s, Inl EIO)
        | Inr n \<Rightarrow>
            if ei_mode n AND EXT2_S_IFMT \<noteq> EXT2_S_IFREG then Some (s, Inl EISDIR)
            else read_inode_data n len offset s
      })"

section \<open>Writing back the super block and the descriptors\<close>

fun sync_gdt :: "nat list \<Rightarrow> ext2 \<Rightarrow> ext2 option" where
  "sync_gdt [] s = Some s"
| "sync_gdt (i # is) s =
     (let b = concat (map (\<lambda>g. group_desc_bytes (e_gdt s g)) [0..<unat (g_groups s)]);
          src = bytes_at b (i * bsize s) (bsize s);
          s = set_buf (src @ replicate (bsize s - length src) 0 @ drop (bsize s) (e_buf s)) s
      in case journaled_write (gdt_block s + of_nat i) s of
           None \<Rightarrow> None
         | Some (s, _) \<Rightarrow> sync_gdt is s)"

definition ext2_sync_locked :: "ext2 \<Rightarrow> ext2 option" where
  "ext2_sync_locked s =
     (if \<not> e_mounted s then Some s
      else
        let s = (if g_dirty_sb s
                 then (set_bd (fst (blk_write 2 2 (superblock_bytes (e_sb s) @ replicate 48 0) (j_bd (e_jnl s)))) s)\<lparr>g_dirty_sb := False\<rparr>
                 else s)
        in if \<not> g_dirty_gdt s then Some s
           else if bsize s = 0 then None
           else do {
             s \<leftarrow> sync_gdt [0..<(gdt_bytes s + bsize s - 1) div bsize s] s;
             Some (s\<lparr>g_dirty_gdt := False\<rparr>)
           })"

section \<open>Allocation\<close>

definition bit_mask :: "nat \<Rightarrow> byte" where
  "bit_mask k = push_bit (k mod 8) 1"

definition bit_used :: "byte list \<Rightarrow> nat \<Rightarrow> bool" where
  "bit_used b k \<longleftrightarrow> b ! (k div 8) AND bit_mask k \<noteq> 0"

definition bit_on :: "byte list \<Rightarrow> nat \<Rightarrow> byte list" where
  "bit_on b k = b[k div 8 := b ! (k div 8) OR bit_mask k]"

definition bit_off :: "byte list \<Rightarrow> nat \<Rightarrow> byte list" where
  "bit_off b k = b[k div 8 := b ! (k div 8) AND NOT (bit_mask k)]"

text \<open>
  The first free bit that is not to be skipped; \<open>Some (Inl ())\<close> when there is none, \<open>None\<close> when the
  search leaves the buffer.
\<close>

definition free_bit :: "byte list \<Rightarrow> (nat \<Rightarrow> bool) \<Rightarrow> nat \<Rightarrow> (unit + nat) option" where
  "free_bit b skip n =
     (case find (\<lambda>k. length b \<le> k div 8 \<or> \<not> bit_used b k \<and> \<not> skip k) [0..<n] of
        None \<Rightarrow> Some (Inl ())
      | Some k \<Rightarrow> if length b \<le> k div 8 then None else Some (Inr k))"

definition alloc_block_in_group_locked :: "nat \<Rightarrow> ext2 \<Rightarrow> u32 ext2_res" where
  "alloc_block_in_group_locked grp s =
     (if bg_free_blocks_count (e_gdt s grp) = 0 then Some (s, Inl ENOSPC)
      else case read_block (bg_block_bitmap (e_gdt s grp)) s of
             (s, False) \<Rightarrow> Some (s, Inl EIO)
           | (s, True) \<Rightarrow> do {
               r \<leftarrow> free_bit (e_buf s) (\<lambda>_. False) (unat (g_blocks_per_group s));
               case r of
                 Inl _ \<Rightarrow> Some (s, Inl ENOSPC)
               | Inr k \<Rightarrow> do {
                   (s, r) \<leftarrow> journaled_write (bg_block_bitmap (e_gdt s grp)) (set_buf (bit_on (e_buf s) k) s);
                   case r of
                     Inl _ \<Rightarrow> Some (s, Inl EIO)
                   | Inr _ \<Rightarrow>
                       let s = upd_gdt grp (\<lambda>g. g\<lparr>bg_free_blocks_count := bg_free_blocks_count g - 1\<rparr>) s;
                           s = upd_sb (\<lambda>b. b\<lparr>s_free_blocks_count := s_free_blocks_count b - 1\<rparr>) s
                       in Some (s, Inr (s_first_data_block (e_sb s) + of_nat grp * g_blocks_per_group s + of_nat k))
                 }
             })"

definition alloc_inode_in_group_locked :: "nat \<Rightarrow> ext2 \<Rightarrow> u32 ext2_res" where
  "alloc_inode_in_group_locked grp s =
     (if bg_free_inodes_count (e_gdt s grp) = 0 then Some (s, Inl ENOSPC)
      else case read_block (bg_inode_bitmap (e_gdt s grp)) s of
             (s, False) \<Rightarrow> Some (s, Inl EIO)
           | (s, True) \<Rightarrow>
               let ino = (\<lambda>k. of_nat grp * g_inodes_per_group s + of_nat k + 1)
               in do {
                 r \<leftarrow> free_bit (e_buf s) (\<lambda>k. 1 \<le> s_rev_level (e_sb s) \<and> ino k < s_first_ino (e_sb s))
                        (unat (g_inodes_per_group s));
                 case r of
                   Inl _ \<Rightarrow> Some (s, Inl ENOSPC)
                 | Inr k \<Rightarrow> do {
                     (s, r) \<leftarrow> journaled_write (bg_inode_bitmap (e_gdt s grp)) (set_buf (bit_on (e_buf s) k) s);
                     case r of
                       Inl _ \<Rightarrow> Some (s, Inl EIO)
                     | Inr _ \<Rightarrow>
                         let s = upd_gdt grp (\<lambda>g. g\<lparr>bg_free_inodes_count := bg_free_inodes_count g - 1\<rparr>) s;
                             s = upd_sb (\<lambda>b. b\<lparr>s_free_inodes_count := s_free_inodes_count b - 1\<rparr>) s
                         in Some (s, Inr (ino k))
                   }
               })"

text \<open>The loops over the groups stop at the first success or, but for data blocks, at an I/O error.\<close>

fun over_groups :: "bool \<Rightarrow> (nat \<Rightarrow> ext2 \<Rightarrow> u32 ext2_res) \<Rightarrow> nat list \<Rightarrow> errno \<Rightarrow> ext2 \<Rightarrow> u32 ext2_res" where
  "over_groups stop f [] e s = Some (s, Inl e)"
| "over_groups stop f (g # gs) e s = do {
     (s, r) \<leftarrow> f g s;
     case r of
       Inr v \<Rightarrow> Some (s, Inr v)
     | Inl e \<Rightarrow> if stop \<and> e = EIO then Some (s, Inl e) else over_groups stop f gs e s
   }"

definition fresh_inode :: "u16 \<Rightarrow> u32 \<Rightarrow> ext2_inode" where
  "fresh_inode mode now =
     (inode_of_bytes (replicate 128 0))\<lparr>ei_mode := mode, ei_links_count := 1, ei_size := 0, ei_blocks := 0,
        ei_ctime := now, ei_mtime := now, ei_atime := now\<rparr>"

definition ext2_alloc_inode :: "u16 \<Rightarrow> u32 \<Rightarrow> ext2 \<Rightarrow> u32 ext2_res" where
  "ext2_alloc_inode mode now s =
     (if \<not> e_mounted s then Some (s, Inl EINVAL)
      else do {
        (s, r) \<leftarrow> over_groups True alloc_inode_in_group_locked [0..<unat (g_groups s)] ENOSPC s;
        case r of
          Inl e \<Rightarrow> Some (s, Inl e)
        | Inr ino \<Rightarrow> do {
            (s, r) \<leftarrow> write_inode_locked ino (fresh_inode mode now) s;
            case r of
              Inl e \<Rightarrow> Some (s, Inl e)
            | Inr _ \<Rightarrow> do {
                let s = (if mode AND EXT2_S_IFMT = EXT2_S_IFDIR
                         then upd_gdt (unat ((ino - 1) div g_inodes_per_group s))
                                (\<lambda>g. g\<lparr>bg_used_dirs_count := bg_used_dirs_count g + 1\<rparr>) s
                         else s);
                s \<leftarrow> ext2_sync_locked s;
                Some (s, Inr ino)
              }
          }
      })"

fun reserve_loop :: "u32 list \<Rightarrow> ext2 \<Rightarrow> nat \<Rightarrow> (ext2 \<times> nat) option" where
  "reserve_loop [] s n = Some (s, n)"
| "reserve_loop (blk # blks) s n =
     (if blk < s_first_data_block (e_sb s) then reserve_loop blks s n
      else if g_blocks_per_group s = 0 then None
      else
        let rel = blk - s_first_data_block (e_sb s); grp = unat (rel div g_blocks_per_group s);
            k = unat (rel mod g_blocks_per_group s)
        in if unat (g_groups s) \<le> grp then reserve_loop blks s n
           else case read_block (bg_block_bitmap (e_gdt s grp)) s of
                  (s, False) \<Rightarrow> reserve_loop blks s n
                | (s, True) \<Rightarrow>
                    if length (e_buf s) \<le> k div 8 then None
                    else if bit_used (e_buf s) k then reserve_loop blks s n
                    else do {
                      (s, r) \<leftarrow> journaled_write (bg_block_bitmap (e_gdt s grp)) (set_buf (bit_on (e_buf s) k) s);
                      case r of
                        Inl _ \<Rightarrow> reserve_loop blks s n
                      | Inr _ \<Rightarrow>
                          let s = upd_gdt grp (\<lambda>g. g\<lparr>bg_free_blocks_count := bg_free_blocks_count g - 1\<rparr>) s;
                              s = upd_sb (\<lambda>b. b\<lparr>s_free_blocks_count := s_free_blocks_count b - 1\<rparr>) s
                          in reserve_loop blks s (n + 1)
                    })"

definition ext2_reserve_blocks :: "u32 \<Rightarrow> u32 \<Rightarrow> ext2 \<Rightarrow> (ext2 \<times> nat) option" where
  "ext2_reserve_blocks start count s =
     (if \<not> e_mounted s then Some (s, 0)
      else do {
        (s, reserved) \<leftarrow> reserve_loop (map (\<lambda>i. start + of_nat i) [0..<unat count]) s 0;
        if 0 < reserved then do { s \<leftarrow> ext2_sync_locked s; Some (s, reserved) } else Some (s, reserved)
      })"

section \<open>Writing file data\<close>

definition splice_and_journal_locked :: "u32 \<Rightarrow> nat \<Rightarrow> byte list \<Rightarrow> bool \<Rightarrow> ext2 \<Rightarrow> unit ext2_res" where
  "splice_and_journal_locked phys inoff src zero_first s =
     (if zero_first then do {
        b \<leftarrow> put_bytes (replicate (bsize s) 0 @ drop (bsize s) (e_buf s)) inoff src;
        journaled_write phys (set_buf b s)
      }
      else case read_block phys s of
             (s, False) \<Rightarrow> Some (s, Inl EIO)
           | (s, True) \<Rightarrow> do { b \<leftarrow> put_bytes (e_buf s) inoff src; journaled_write phys (set_buf b s) })"

definition alloc_data_block :: "ext2 \<Rightarrow> u32 ext2_res" where
  "alloc_data_block s =
     over_groups False alloc_block_in_group_locked (0 # [1..<unat (g_groups s)]) ENOSPC s"

function write_data_loop :: "u32 \<Rightarrow> byte list \<Rightarrow> nat \<Rightarrow> ext2_inode \<Rightarrow> ext2 \<Rightarrow> ext2_inode ext2_res" where
  "write_data_loop offset src written n s =
     (if length src \<le> written then Some (s, Inr n)
      else if bsize s = 0 then None
      else
        let pos = unat offset + written; logical = pos div bsize s; inoff = pos mod bsize s;
            tk = min (bsize s - inoff) (length src - written); phys = ei_block n ! logical
        in if phys = 0 then do {
             (s, r) \<leftarrow> alloc_data_block s;
             case r of
               Inl e \<Rightarrow> Some (s, Inl e)
             | Inr new_blk \<Rightarrow>
                 let n = n\<lparr>ei_block := (ei_block n)[logical := new_blk], ei_blocks := ei_blocks n + g_block_size s div 512\<rparr>
                 in do {
                   (s, r) \<leftarrow> splice_and_journal_locked new_blk inoff (bytes_at src written tk) True s;
                   case r of Inl e \<Rightarrow> Some (s, Inl e) | Inr _ \<Rightarrow> write_data_loop offset src (written + tk) n s
                 }
           }
           else do {
             (s, r) \<leftarrow> splice_and_journal_locked phys inoff (bytes_at src written tk) False s;
             case r of Inl e \<Rightarrow> Some (s, Inl e) | Inr _ \<Rightarrow> write_data_loop offset src (written + tk) n s
           })"
  by pat_completeness auto
termination by (relation "measure (\<lambda>(offset, src, written, n, s). length src - written)")
  (auto intro!: chunk_step)

declare read_data_loop.simps [simp del] write_data_loop.simps [simp del]

definition ext2_inode_write_data :: "u32 \<Rightarrow> byte list option \<Rightarrow> u32 \<Rightarrow> u32 \<Rightarrow> ext2 \<Rightarrow> nat ext2_res" where
  "ext2_inode_write_data ino buf offset now s =
     (case buf of
        None \<Rightarrow> Some (s, Inl EINVAL)
      | Some src \<Rightarrow>
          if \<not> e_mounted s then Some (s, Inl EINVAL)
          else if src = [] then Some (s, Inr 0)
          else if EXT2_NDIR_BLOCKS * bsize s < unat offset + length src then Some (s, Inl EFBIG)
          else do {
            (s, r) \<leftarrow> read_inode ino s;
            case r of
              Inl _ \<Rightarrow> Some (s, Inl EIO)
            | Inr n \<Rightarrow>
                if ei_mode n AND EXT2_S_IFMT \<noteq> EXT2_S_IFREG then Some (s, Inl EISDIR)
                else do {
                  (s, r) \<leftarrow> write_data_loop offset src 0 n s;
                  case r of
                    Inl e \<Rightarrow> Some (s, Inl e)
                  | Inr n \<Rightarrow>
                      let n = (if ei_size n < offset + of_nat (length src) then n\<lparr>ei_size := offset + of_nat (length src)\<rparr> else n);
                          n = n\<lparr>ei_mtime := now, ei_ctime := now\<rparr>
                      in do {
                        (s, r) \<leftarrow> write_inode_locked ino n s;
                        case r of
                          Inl e \<Rightarrow> Some (s, Inl e)
                        | Inr _ \<Rightarrow> do { s \<leftarrow> ext2_sync_locked s; Some (s, Inr (length src)) }
                      }
                }
          })"

text \<open>Truncation frees the direct blocks behind the new end; what fails is skipped.\<close>

definition free_block_bit :: "u32 \<Rightarrow> ext2_inode \<Rightarrow> ext2 \<Rightarrow> (ext2 \<times> ext2_inode) option" where
  "free_block_bit phys n s =
     (if phys < s_first_data_block (e_sb s) then Some (s, n)
      else if g_blocks_per_group s = 0 then None
      else
        let rel = phys - s_first_data_block (e_sb s); grp = unat (rel div g_blocks_per_group s);
            k = unat (rel mod g_blocks_per_group s)
        in if unat (g_groups s) \<le> grp then Some (s, n)
           else case read_block (bg_block_bitmap (e_gdt s grp)) s of
                  (s, False) \<Rightarrow> Some (s, n)
                | (s, True) \<Rightarrow>
                    if length (e_buf s) \<le> k div 8 then None
                    else if \<not> bit_used (e_buf s) k then Some (s, n)
                    else do {
                      (s, r) \<leftarrow> journaled_write (bg_block_bitmap (e_gdt s grp)) (set_buf (bit_off (e_buf s) k) s);
                      case r of
                        Inl _ \<Rightarrow> Some (s, n)
                      | Inr _ \<Rightarrow>
                          let s = upd_gdt grp (\<lambda>g. g\<lparr>bg_free_blocks_count := bg_free_blocks_count g + 1\<rparr>) s;
                              s = upd_sb (\<lambda>b. b\<lparr>s_free_blocks_count := s_free_blocks_count b + 1\<rparr>) s
                          in Some (s, if g_block_size s div 512 \<le> ei_blocks n
                                      then n\<lparr>ei_blocks := ei_blocks n - g_block_size s div 512\<rparr> else n)
                    })"

fun truncate_loop :: "nat list \<Rightarrow> ext2_inode \<Rightarrow> ext2 \<Rightarrow> (ext2 \<times> ext2_inode) option" where
  "truncate_loop [] n s = Some (s, n)"
| "truncate_loop (i # is) n s =
     (if ei_block n ! i = 0 then truncate_loop is n s
      else do {
        (s, n) \<leftarrow> free_block_bit (ei_block n ! i) n s;
        truncate_loop is (n\<lparr>ei_block := (ei_block n)[i := 0]\<rparr>) s
      })"

definition ext2_inode_truncate :: "u32 \<Rightarrow> u32 \<Rightarrow> u32 \<Rightarrow> ext2 \<Rightarrow> unit ext2_res" where
  "ext2_inode_truncate ino new_size now s =
     (if \<not> e_mounted s then Some (s, Inl EINVAL)
      else if of_nat EXT2_NDIR_BLOCKS * g_block_size s < new_size then Some (s, Inl EFBIG)
      else do {
        (s, r) \<leftarrow> read_inode ino s;
        case r of
          Inl _ \<Rightarrow> Some (s, Inl EIO)
        | Inr n \<Rightarrow>
            let keep = min (unat ((new_size + g_block_size s - 1) div g_block_size s)) EXT2_NDIR_BLOCKS
            in do {
              (s, n) \<leftarrow> truncate_loop [keep..<EXT2_NDIR_BLOCKS] n s;
              (s, r) \<leftarrow> write_inode_locked ino (n\<lparr>ei_size := new_size, ei_mtime := now, ei_ctime := now\<rparr>) s;
              case r of
                Inl e \<Rightarrow> Some (s, Inl e)
              | Inr _ \<Rightarrow> do { s \<leftarrow> ext2_sync_locked s; Some (s, Inr ()) }
            }
      })"

section \<open>Directories\<close>

definition dir_entry_size :: "nat \<Rightarrow> nat" where
  "dir_entry_size name_len = (8 + name_len + 3) div 4 * 4"

fun name_match :: "byte list \<Rightarrow> nat \<Rightarrow> string \<Rightarrow> bool option" where
  "name_match b p [] = Some True"
| "name_match b p (c # cs) = do {
     x \<leftarrow> buf8 b p;
     if x = of_char c then name_match b (p + 1) cs else Some False
   }"

lemma record_step: "(a :: u16) \<noteq> 0 \<Longrightarrow> \<not> bs \<le> off \<Longrightarrow> bs - (off + unat a) < bs - off"
  using unat_gt_0[of a] by linarith

text \<open>The loop over the records of a block: the offset of the record with a name and of the one before it.\<close>

function find_entry :: "byte list \<Rightarrow> nat \<Rightarrow> string \<Rightarrow> nat option \<Rightarrow> nat \<Rightarrow> (nat option \<times> nat) option option" where
  "find_entry b bs nm prev off =
     (if bs \<le> off then Some None
      else do {
        rec_len \<leftarrow> buf16 b (off + 4);
        if rec_len = 0 then Some None
        else do {
          inode \<leftarrow> buf32 b off;
          name_len \<leftarrow> (if inode = 0 then Some 0 else buf8 b (off + 6));
          match \<leftarrow> (if inode \<noteq> 0 \<and> unat name_len = length nm then name_match b (off + 8) nm else Some False);
          if match then Some (Some (prev, off))
          else find_entry b bs nm (Some off) (off + unat rec_len)
        }
      })"
  by pat_completeness auto
termination
  by (relation "measure (\<lambda>(b, bs, nm, prev, off). bs - off)") (auto simp: record_step)

partial_function (option) lookup_loop :: "ext2_inode \<Rightarrow> string \<Rightarrow> u32 \<Rightarrow> ext2 \<Rightarrow> (ext2 \<times> u32) option" where
  "lookup_loop n nm logical s =
     (if ei_size n \<le> logical * g_block_size s then Some (s, 0)
      else case inode_block_phys n logical s of
             None \<Rightarrow> None
           | Some (s, phys) \<Rightarrow>
               if phys = 0 then Some (s, 0)
               else case read_block phys s of
                      (s, ok) \<Rightarrow>
                        if \<not> ok then Some (s, 0)
                        else (case find_entry (e_buf s) (bsize s) nm None 0 of
                           None \<Rightarrow> None
                         | Some (Some (_, off)) \<Rightarrow> Some (s, u32_at (e_buf s) off)
                         | Some None \<Rightarrow> lookup_loop n nm (logical + 1) s))"

definition dir_lookup_in_inode :: "ext2_inode \<Rightarrow> string \<Rightarrow> ext2 \<Rightarrow> (ext2 \<times> u32) option" where
  "dir_lookup_in_inode n nm s = lookup_loop n nm 0 s"

definition ext2_dir_lookup :: "u32 \<Rightarrow> string option \<Rightarrow> ext2 \<Rightarrow> (ext2 \<times> u32) option" where
  "ext2_dir_lookup parent_ino name s =
     (case name of
        None \<Rightarrow> Some (s, 0)
      | Some nm \<Rightarrow>
          if \<not> e_mounted s \<or> nm = [] then Some (s, 0)
          else do {
            (s, r) \<leftarrow> read_inode parent_ino s;
            case r of
              Inl _ \<Rightarrow> Some (s, 0)
            | Inr dir \<Rightarrow>
                if ei_mode dir AND EXT2_S_IFMT \<noteq> EXT2_S_IFDIR then Some (s, 0)
                else dir_lookup_in_inode dir nm s
          })"

text \<open>A record as it is stored: the fields of its header and its name.\<close>

definition entry_bytes :: "u32 \<Rightarrow> u16 \<Rightarrow> string \<Rightarrow> byte \<Rightarrow> byte list" where
  "entry_bytes child rec_len nm file_type =
     word_bytes child @ half_bytes rec_len @ [of_nat (length nm), file_type] @ map of_char nm"

text \<open>
  The second loop of \<open>ext2_dir_add_entry\<close> over a block: the buffer with the new record in an
  unused record or in the slack behind a used one.
\<close>

function place_entry :: "byte list \<Rightarrow> nat \<Rightarrow> string \<Rightarrow> u32 \<Rightarrow> byte \<Rightarrow> nat \<Rightarrow> byte list option option" where
  "place_entry b bs nm child file_type off =
     (if bs \<le> off then Some None
      else do {
        rec_len \<leftarrow> buf16 b (off + 4);
        if rec_len = 0 then Some None
        else do {
          inode \<leftarrow> buf32 b off;
          name_len \<leftarrow> (if inode = 0 then Some 0 else buf8 b (off + 6));
          let need = dir_entry_size (length nm);
          let actual = (if inode = 0 then 0 else dir_entry_size (unat name_len));
          let slack = (of_nat (unat rec_len) - of_nat actual :: u32);
          if inode = 0 \<and> need \<le> unat rec_len then do {
            b \<leftarrow> put_bytes b off (entry_bytes child rec_len nm file_type);
            Some (Some b)
          }
          else if inode \<noteq> 0 \<and> of_nat need \<le> slack then do {
            b \<leftarrow> put_bytes b (off + 4) (half_bytes (of_nat actual));
            b \<leftarrow> put_bytes b (off + actual) (entry_bytes child (of_nat (unat rec_len) - of_nat actual) nm file_type);
            Some (Some b)
          }
          else place_entry b bs nm child file_type (off + unat rec_len)
        }
      })"
  by pat_completeness auto
termination
  by (relation "measure (\<lambda>(b, bs, nm, child, file_type, off). bs - off)") (auto simp: record_step)

datatype add_outcome = Added "unit res" | No_Room

fun add_loop :: "u32 list \<Rightarrow> string \<Rightarrow> u32 \<Rightarrow> byte \<Rightarrow> ext2 \<Rightarrow> (ext2 \<times> add_outcome) option" where
  "add_loop [] nm child file_type s = Some (s, No_Room)"
| "add_loop (phys # blks) nm child file_type s =
     (if phys = 0 then Some (s, No_Room)
      else case read_block phys s of
             (s, False) \<Rightarrow> Some (s, Added (Inl EIO))
           | (s, True) \<Rightarrow> do {
               found \<leftarrow> find_entry (e_buf s) (bsize s) nm None 0;
               if found \<noteq> None then Some (s, Added (Inl EEXIST))
               else do {
                 place \<leftarrow> place_entry (e_buf s) (bsize s) nm child file_type 0;
                 case place of
                   None \<Rightarrow> add_loop blks nm child file_type s
                 | Some b \<Rightarrow> do {
                     (s, r) \<leftarrow> journaled_write phys (set_buf b s);
                     case r of
                       Inl _ \<Rightarrow> Some (s, Added (Inl EIO))
                     | Inr _ \<Rightarrow> do { s \<leftarrow> ext2_sync_locked s; Some (s, Added (Inr ())) }
                   }
               }
             })"

definition add_dir_block :: "u32 \<Rightarrow> ext2_inode \<Rightarrow> string \<Rightarrow> u32 \<Rightarrow> byte \<Rightarrow> u32 \<Rightarrow> ext2 \<Rightarrow> unit ext2_res" where
  "add_dir_block parent_ino dir nm child file_type now s =
     (case find (\<lambda>i. ei_block dir ! i = 0) [0..<EXT2_NDIR_BLOCKS] of
        None \<Rightarrow> Some (s, Inl EFBIG)
      | Some new_slot \<Rightarrow> do {
          (s, r) \<leftarrow> over_groups True alloc_block_in_group_locked [0..<unat (g_groups s)] ENOSPC s;
          case r of
            Inl e \<Rightarrow> Some (s, Inl e)
          | Inr new_blk \<Rightarrow> do {
              b \<leftarrow> put_bytes (replicate (bsize s) 0 @ drop (bsize s) (e_buf s)) 0 (entry_bytes child (ucast (g_block_size s)) nm file_type);
              (s, r) \<leftarrow> journaled_write new_blk (set_buf b s);
              case r of
                Inl _ \<Rightarrow> Some (s, Inl EIO)
              | Inr _ \<Rightarrow> do {
                  let dir = dir\<lparr>ei_block := (ei_block dir)[new_slot := new_blk], ei_blocks := ei_blocks dir + g_block_size s div 512,
                                ei_size := ei_size dir + g_block_size s, ei_mtime := now, ei_ctime := now\<rparr>;
                  (s, r) \<leftarrow> write_inode_locked parent_ino dir s;
                  case r of
                    Inl e \<Rightarrow> Some (s, Inl e)
                  | Inr _ \<Rightarrow> do { s \<leftarrow> ext2_sync_locked s; Some (s, Inr ()) }
                }
            }
        })"

definition ext2_dir_add_entry :: "u32 \<Rightarrow> string option \<Rightarrow> u32 \<Rightarrow> byte \<Rightarrow> u32 \<Rightarrow> ext2 \<Rightarrow> unit ext2_res" where
  "ext2_dir_add_entry parent_ino name child file_type now s =
     (case name of
        None \<Rightarrow> Some (s, Inl EINVAL)
      | Some nm \<Rightarrow>
          if \<not> e_mounted s \<or> nm = [] \<or> child = 0 then Some (s, Inl EINVAL)
          else if 255 < length nm then Some (s, Inl ENAMETOOLONG)
          else do {
            (s, r) \<leftarrow> read_inode parent_ino s;
            case r of
              Inl _ \<Rightarrow> Some (s, Inl EIO)
            | Inr dir \<Rightarrow>
                if ei_mode dir AND EXT2_S_IFMT \<noteq> EXT2_S_IFDIR then Some (s, Inl ENOTDIR)
                else do {
                  (s, r) \<leftarrow> add_loop (take EXT2_NDIR_BLOCKS (ei_block dir)) nm child file_type s;
                  case r of
                    Added r \<Rightarrow> Some (s, r)
                  | No_Room \<Rightarrow> add_dir_block parent_ino dir nm child file_type now s
                }
          })"

text \<open>Removing merges a record with the one before it in the block, or marks it unused.\<close>

fun remove_loop :: "u32 list \<Rightarrow> u32 \<Rightarrow> ext2_inode \<Rightarrow> string \<Rightarrow> u32 \<Rightarrow> ext2 \<Rightarrow> unit ext2_res" where
  "remove_loop [] parent_ino dir nm now s = Some (s, Inl ENOENT)"
| "remove_loop (phys # blks) parent_ino dir nm now s =
     (if phys = 0 then Some (s, Inl ENOENT)
      else case read_block phys s of
             (s, False) \<Rightarrow> Some (s, Inl EIO)
           | (s, True) \<Rightarrow> do {
               found \<leftarrow> find_entry (e_buf s) (bsize s) nm None 0;
               case found of
                 None \<Rightarrow> remove_loop blks parent_ino dir nm now s
               | Some (prev, off) \<Rightarrow> do {
                   b \<leftarrow> (case prev of
                          None \<Rightarrow> put_bytes (e_buf s) off (word_bytes 0)
                        | Some p \<Rightarrow> put_bytes (e_buf s) (p + 4) (half_bytes (u16_at (e_buf s) (p + 4) + u16_at (e_buf s) (off + 4))));
                   (s, r) \<leftarrow> journaled_write phys (set_buf b s);
                   case r of
                     Inl _ \<Rightarrow> Some (s, Inl EIO)
                   | Inr _ \<Rightarrow> do {
                       (s, r) \<leftarrow> write_inode_locked parent_ino (dir\<lparr>ei_mtime := now, ei_ctime := now\<rparr>) s;
                       case r of
                         Inl e \<Rightarrow> Some (s, Inl e)
                       | Inr _ \<Rightarrow> do { s \<leftarrow> ext2_sync_locked s; Some (s, Inr ()) }
                     }
                 }
             })"

definition ext2_dir_remove_entry :: "u32 \<Rightarrow> string option \<Rightarrow> u32 \<Rightarrow> ext2 \<Rightarrow> unit ext2_res" where
  "ext2_dir_remove_entry parent_ino name now s =
     (case name of
        None \<Rightarrow> Some (s, Inl EINVAL)
      | Some nm \<Rightarrow>
          if \<not> e_mounted s \<or> nm = [] then Some (s, Inl EINVAL)
          else do {
            (s, r) \<leftarrow> read_inode parent_ino s;
            case r of
              Inl _ \<Rightarrow> Some (s, Inl EIO)
            | Inr dir \<Rightarrow>
                if ei_mode dir AND EXT2_S_IFMT \<noteq> EXT2_S_IFDIR then Some (s, Inl ENOTDIR)
                else remove_loop (take EXT2_NDIR_BLOCKS (ei_block dir)) parent_ino dir nm now s
          })"

definition ext2_inode_adjust_links :: "u32 \<Rightarrow> int \<Rightarrow> u32 \<Rightarrow> ext2 \<Rightarrow> unit ext2_res" where
  "ext2_inode_adjust_links ino delta now s =
     (if \<not> e_mounted s then Some (s, Inl EINVAL)
      else do {
        (s, r) \<leftarrow> read_inode ino s;
        case r of
          Inl _ \<Rightarrow> Some (s, Inl EIO)
        | Inr n \<Rightarrow>
            let v = uint (ei_links_count n) + delta; v = (if v < 0 then 0 else v); v = (if 0xFFFF < v then 0xFFFF else v)
            in do {
              (s, r) \<leftarrow> write_inode_locked ino (n\<lparr>ei_links_count := of_int v, ei_ctime := now\<rparr>) s;
              case r of
                Inl e \<Rightarrow> Some (s, Inl e)
              | Inr _ \<Rightarrow> do { s \<leftarrow> ext2_sync_locked s; Some (s, Inr ()) }
            }
      })"

section \<open>Status and listing\<close>

record kstat_times = kstat +
  st_atime :: u32
  st_mtime :: u32
  st_ctime :: u32

definition ext2_stat :: "u32 \<Rightarrow> ext2 \<Rightarrow> kstat_times ext2_res" where
  "ext2_stat ino s =
     (if \<not> e_mounted s then Some (s, Inl EINVAL)
      else do {
        (s, r) \<leftarrow> read_inode ino s;
        case r of
          Inl _ \<Rightarrow> Some (s, Inl ENOENT)
        | Inr n \<Rightarrow>
            Some (s, Inr \<lparr>st_ino = unat ino, st_mode = ei_mode n, st_nlink = ei_links_count n, st_uid = ei_uid n,
                          st_gid = ei_gid n, st_size = unat (ei_size n), st_blksize = bsize s, st_blocks = unat (ei_blocks n),
                          st_atime = ei_atime n, st_mtime = ei_mtime n, st_ctime = ei_ctime n\<rparr>)
      })"

definition ext2_inode_dtype :: "u32 \<Rightarrow> ext2 \<Rightarrow> (ext2 \<times> nat) option" where
  "ext2_inode_dtype ino s =
     (if \<not> e_mounted s then Some (s, 0)
      else do {
        (s, r) \<leftarrow> read_inode ino s;
        case r of
          Inl _ \<Rightarrow> Some (s, 0)
        | Inr n \<Rightarrow>
            Some (s, if ei_mode n AND EXT2_S_IFMT = EXT2_S_IFDIR then 4
                     else if ei_mode n AND EXT2_S_IFMT = EXT2_S_IFREG then 8 else 0)
      })"

text \<open>
  The loop over the records of one block of \<open>ext2_readdir_chunk\<close>, on the copy of the block.  It
  gives the emitted entries, the cursor, and whether the caller's buffer is full.
\<close>

definition dots :: "byte list \<Rightarrow> bool" where
  "dots nm \<longleftrightarrow> nm = [0x2E] \<or> nm = [0x2E, 0x2E]"

function emit_loop :: "byte list \<Rightarrow> nat \<Rightarrow> nat \<Rightarrow> u32 \<Rightarrow> nat \<Rightarrow> dirent list \<Rightarrow> (dirent list \<times> nat \<times> u32 \<times> bool) option" where
  "emit_loop b cap inblk cursor written out =
     (if length b \<le> inblk then Some (out, written, cursor, False)
      else do {
        rec_len \<leftarrow> buf16 b (inblk + 4);
        if rec_len = 0 then Some (out, written, cursor, False)
        else do {
          inode \<leftarrow> buf32 b inblk;
          name_len \<leftarrow> (if inode = 0 then Some 0 else buf8 b (inblk + 6));
          if inode = 0 \<or> name_len = 0 then emit_loop b cap (inblk + unat rec_len) (cursor + of_nat (unat rec_len)) written out
          else
            let nm = bytes_at b (inblk + 8) (unat name_len); reclen = (10 + unat name_len + 1 + 3) div 4 * 4;
                inside = (inblk + 8 + unat name_len \<le> length b)
            in if unat name_len \<le> 2 \<and> \<not> inside then None
               else if dots nm then emit_loop b cap (inblk + unat rec_len) (cursor + of_nat (unat rec_len)) written out
               else if cap < written + reclen then Some (out, written, cursor, True)
               else if \<not> inside then None
               else emit_loop b cap (inblk + unat rec_len) (cursor + of_nat (unat rec_len)) (written + reclen)
                      (out @ [\<lparr>d_ino = unat inode, d_off = unat (cursor + of_nat (unat rec_len)), d_reclen = reclen,
                               d_name = map (\<lambda>x. char_of (unat x)) nm\<rparr>])
        }
      })"
  by pat_completeness auto
termination
  by (relation "measure (\<lambda>(b, cap, inblk, cursor, written, out). length b - inblk)") (auto simp: record_step)

partial_function (option) readdir_blocks ::
  "ext2_inode \<Rightarrow> nat \<Rightarrow> u32 \<Rightarrow> nat \<Rightarrow> dirent list \<Rightarrow> ext2 \<Rightarrow> (ext2 \<times> (dirent list \<times> u32) res) option" where
  "readdir_blocks dir cap cursor written out s =
     (if ei_size dir \<le> cursor then Some (s, Inr (out, cursor))
      else if bsize s = 0 then None
      else case inode_block_phys dir (cursor div g_block_size s) s of
             None \<Rightarrow> None
           | Some (s, phys) \<Rightarrow>
               if phys = 0 then Some (s, Inr (out, cursor))
               else case read_block phys s of
                      (s, ok) \<Rightarrow>
                        if \<not> ok then Some (s, Inl EIO)
                        else (case emit_loop (take (bsize s) (e_buf s)) cap (unat (cursor mod g_block_size s)) cursor written out of
                           None \<Rightarrow> None
                         | Some (out, written, cursor, full) \<Rightarrow>
                             if full then Some (s, Inr (out, cursor))
                             else readdir_blocks dir cap cursor written out s))"

definition ext2_readdir_chunk :: "u32 \<Rightarrow> nat \<Rightarrow> u32 \<Rightarrow> ext2 \<Rightarrow> (dirent list \<times> u32) ext2_res" where
  "ext2_readdir_chunk parent_ino cap pos s =
     (if \<not> e_mounted s then Some (s, Inl EINVAL)
      else do {
        (s, r) \<leftarrow> read_inode parent_ino s;
        case r of
          Inl _ \<Rightarrow> Some (s, Inl EIO)
        | Inr dir \<Rightarrow>
            if ei_mode dir AND EXT2_S_IFMT \<noteq> EXT2_S_IFDIR then Some (s, Inl ENOTDIR)
            else readdir_blocks dir cap pos 0 [] s
      })"

section \<open>The methods\<close>

definition EXT2_FT_REG_FILE :: byte where [kernel_const]: "EXT2_FT_REG_FILE = 1"
definition EXT2_FT_DIR :: byte where [kernel_const]: "EXT2_FT_DIR = 2"
definition EXT2_OPS_S_IFREG :: u32 where [kernel_const]: "EXT2_OPS_S_IFREG = 0x8000"
definition EXT2_OPS_S_IFDIR :: u32 where [kernel_const]: "EXT2_OPS_S_IFDIR = 0x4000"

definition ext2_op_resolve :: "u32 \<Rightarrow> string \<Rightarrow> ext2 \<Rightarrow> (ext2 \<times> u32) option" where
  "ext2_op_resolve parent nm s = ext2_dir_lookup parent (Some nm) s"

definition ext2_op_read :: "u32 \<Rightarrow> u32 \<Rightarrow> u32 \<Rightarrow> ext2 \<Rightarrow> byte list ext2_res" where
  "ext2_op_read inode count offset s = ext2_read_inode inode count offset s"

definition ext2_op_write :: "u32 \<Rightarrow> byte list option \<Rightarrow> u32 \<Rightarrow> u32 \<Rightarrow> ext2 \<Rightarrow> nat ext2_res" where
  "ext2_op_write inode buf offset now s = ext2_inode_write_data inode buf offset now s"

definition ext2_op_stat :: "u32 \<Rightarrow> ext2 \<Rightarrow> kstat_times ext2_res" where
  "ext2_op_stat inode s = ext2_stat inode s"

definition ext2_op_readdir :: "u32 \<Rightarrow> nat \<Rightarrow> u32 \<Rightarrow> ext2 \<Rightarrow> (dirent list \<times> u32) ext2_res" where
  "ext2_op_readdir inode cap pos s = ext2_readdir_chunk inode cap pos s"

definition ext2_op_mkdir :: "u32 \<Rightarrow> string \<Rightarrow> u32 \<Rightarrow> u32 \<Rightarrow> ext2 \<Rightarrow> u32 ext2_res" where
  "ext2_op_mkdir parent nm mode now s = do {
     (s, r) \<leftarrow> ext2_alloc_inode (ucast (mode AND 0xFFF OR EXT2_OPS_S_IFDIR)) now s;
     case r of
       Inl e \<Rightarrow> Some (s, Inl e)
     | Inr ino \<Rightarrow> do {
         (s, r) \<leftarrow> ext2_dir_add_entry ino (Some ''.'') ino EXT2_FT_DIR now s;
         case r of
           Inl e \<Rightarrow> Some (s, Inl e)
         | Inr _ \<Rightarrow> do {
             (s, r) \<leftarrow> ext2_dir_add_entry ino (Some ''..'') parent EXT2_FT_DIR now s;
             case r of
               Inl e \<Rightarrow> Some (s, Inl e)
             | Inr _ \<Rightarrow> do {
                 (s, r) \<leftarrow> ext2_dir_add_entry parent (Some nm) ino EXT2_FT_DIR now s;
                 case r of
                   Inl e \<Rightarrow> Some (s, Inl e)
                 | Inr _ \<Rightarrow> do {
                     (s, _) \<leftarrow> ext2_inode_adjust_links ino 1 now s;
                     (s, _) \<leftarrow> ext2_inode_adjust_links parent 1 now s;
                     Some (s, Inr ino)
                   }
               }
           }
       }
   }"

definition ext2_op_create :: "u32 \<Rightarrow> string \<Rightarrow> u32 \<Rightarrow> u32 \<Rightarrow> ext2 \<Rightarrow> u32 ext2_res" where
  "ext2_op_create parent nm mode now s = do {
     (s, r) \<leftarrow> ext2_alloc_inode (ucast (mode AND 0xFFF OR EXT2_OPS_S_IFREG)) now s;
     case r of
       Inl e \<Rightarrow> Some (s, Inl e)
     | Inr ino \<Rightarrow> do {
         (s, r) \<leftarrow> ext2_dir_add_entry parent (Some nm) ino EXT2_FT_REG_FILE now s;
         case r of Inl e \<Rightarrow> Some (s, Inl e) | Inr _ \<Rightarrow> Some (s, Inr ino)
       }
   }"

definition ext2_op_unlink :: "u32 \<Rightarrow> string \<Rightarrow> u32 \<Rightarrow> ext2 \<Rightarrow> unit ext2_res" where
  "ext2_op_unlink parent nm now s = ext2_dir_remove_entry parent (Some nm) now s"

definition ext2_op_rmdir :: "u32 \<Rightarrow> string \<Rightarrow> ext2 \<Rightarrow> unit ext2_res" where
  "ext2_op_rmdir parent nm s = Some (s, Inl EROFS)"

definition ext2_op_truncate :: "u32 \<Rightarrow> u32 \<Rightarrow> u32 \<Rightarrow> ext2 \<Rightarrow> unit ext2_res" where
  "ext2_op_truncate inode len now s = ext2_inode_truncate inode len now s"

definition ext2_op_chmod :: "u32 \<Rightarrow> u32 \<Rightarrow> ext2 \<Rightarrow> unit ext2_res" where
  "ext2_op_chmod inode mode s = Some (s, Inl EROFS)"

definition ext2_op_chown :: "u32 \<Rightarrow> u32 \<Rightarrow> u32 \<Rightarrow> ext2 \<Rightarrow> unit ext2_res" where
  "ext2_op_chown inode uid gid s = Some (s, Inl EROFS)"

definition ext2_op_rename :: "u32 \<Rightarrow> string \<Rightarrow> u32 \<Rightarrow> string \<Rightarrow> ext2 \<Rightarrow> unit ext2_res" where
  "ext2_op_rename old_parent old_name new_parent new_name s = Some (s, Inl EROFS)"

definition ext2_op_dtype :: "u32 \<Rightarrow> ext2 \<Rightarrow> (ext2 \<times> nat) option" where
  "ext2_op_dtype inode s = ext2_inode_dtype inode s"

section \<open>Start\<close>

text \<open>
  \<open>init_block_and_journal\<close> of \<^verbatim>\<open>src/kernel/init/main.c\<close>, with the disk there or not and its capacity in
  sectors.  The journal takes the last 32 blocks of 4096 bytes of the disk.
\<close>

definition init_block_and_journal :: "bool \<Rightarrow> nat \<Rightarrow> ext2 \<Rightarrow> ext2 option" where
  "init_block_and_journal bd cap_sectors s =
     (if \<not> bd then Some s
      else do {
        (s, _) \<leftarrow> ext2_mount True s;
        if cap_sectors \<le> (JOURNAL_DEFAULT_BLOCKS + 1) * 8 then Some s
        else
          let start = of_nat (cap_sectors div 8) - of_nat JOURNAL_DEFAULT_BLOCKS
          in case journal_init (Some (j_bd (e_jnl s))) start (e_jnl s) of
               (j, Inl _) \<Rightarrow> Some (s\<lparr>e_jnl := j\<rparr>)
             | (j, Inr _) \<Rightarrow>
                 let s = s\<lparr>e_jnl := fst (journal_replay j)\<rparr>
                 in if \<not> ext2_is_mounted s then Some s
                    else do { (s, _) \<leftarrow> ext2_reserve_blocks start (of_nat JOURNAL_DEFAULT_BLOCKS) s; Some s }
      })"

end
