(* ===== verification/Ext2_Blocks.thy ===== *)
theory Ext2_Blocks
  imports Ext2
begin

text \<open>
  The block layer of the ext2 driver: blocks written through the journal are read back, other
  blocks are kept.  The contract is the locale \<open>block_store\<close>, its instance the driver's
  \<open>read_block\<close> and \<open>journaled_write\<close> over a working device.
\<close>

section \<open>The contract\<close>

text \<open>
  A store of blocks with a scratch buffer.  \<open>at s b\<close> is the contents of the block \<open>b\<close>, \<open>bs s\<close> the
  block size, \<open>rest s\<close> everything the transfers keep, and \<open>safe s b\<close> says that the block may be written.
\<close>

locale block_store =
  fixes ok :: "'s \<Rightarrow> bool" and at :: "'s \<Rightarrow> u32 \<Rightarrow> byte list" and bs :: "'s \<Rightarrow> nat"
    and rest :: "'s \<Rightarrow> 'r" and safe :: "'s \<Rightarrow> u32 \<Rightarrow> bool"
    and buf :: "'s \<Rightarrow> byte list" and put_buf :: "byte list \<Rightarrow> 's \<Rightarrow> 's"
    and rd :: "u32 \<Rightarrow> 's \<Rightarrow> 's \<times> bool" and wr :: "u32 \<Rightarrow> 's \<Rightarrow> ('s \<times> unit res) option"
  assumes rd_ok: "ok s \<Longrightarrow> \<exists>s'. rd b s = (s', True) \<and> ok s' \<and> at s' = at s \<and> rest s' = rest s \<and>
      (safe s b \<longrightarrow> take (bs s) (buf s') = at s b)"
    and put_ok: "ok s \<Longrightarrow> length xs = length (buf s) \<Longrightarrow> ok (put_buf xs s) \<and> at (put_buf xs s) = at s \<and>
      rest (put_buf xs s) = rest s \<and> buf (put_buf xs s) = xs"
    and wr_ok: "ok s \<Longrightarrow> safe s b \<Longrightarrow> \<exists>s'. wr b s = Some (s', Inr ()) \<and> ok s' \<and> rest s' = rest s \<and>
      at s' = (at s)(b := take (bs s) (buf s))"
    and buf_len: "ok s \<Longrightarrow> bs s \<le> length (buf s)" "ok s \<Longrightarrow> length (at s b) = bs s"
    and rest_bs: "rest s = rest t \<Longrightarrow> bs s = bs t" and rest_safe: "rest s = rest t \<Longrightarrow> safe s b = safe t b"
begin

text \<open>Storing a new buffer in a block.\<close>

lemma put_wr:
  assumes "ok s" "safe s b" "length xs = length (buf s)"
  shows "\<exists>s'. wr b (put_buf xs s) = Some (s', Inr ()) \<and> ok s' \<and> rest s' = rest s \<and> at s' = (at s)(b := take (bs s) xs)"
proof -
  have p: "ok (put_buf xs s)" "at (put_buf xs s) = at s" "rest (put_buf xs s) = rest s" "buf (put_buf xs s) = xs"
    using put_ok[OF assms(1,3)] by auto
  show ?thesis using wr_ok[OF p(1), of b] rest_safe[OF p(3), of b] assms(2) rest_bs[OF p(3)] p by simp
qed

text \<open>Reading a block, changing the buffer inside the block and writing it back.\<close>

lemma read_modify_write:
  assumes "ok s" "safe s b" "rd b s = (s1, True)" "i + length xs \<le> bs s"
  shows "put_bytes (buf s1) i xs = Some (splice (buf s1) i xs)"
    and "\<exists>s'. wr b (put_buf (splice (buf s1) i xs) s1) = Some (s', Inr ()) \<and> ok s' \<and> rest s' = rest s \<and>
      at s' = (at s)(b := splice (at s b) i xs)"
proof -
  have s1: "ok s1" "at s1 = at s" "rest s1 = rest s" "take (bs s) (buf s1) = at s b" using rd_ok[OF assms(1), of b] assms(2,3) by auto
  have l: "bs s \<le> length (buf s1)" using buf_len(1)[OF s1(1)] rest_bs[OF s1(3)] by simp
  then show "put_bytes (buf s1) i xs = Some (splice (buf s1) i xs)" using assms(4) by (simp add: put_bytes_def)
  have "take (bs s) (splice (buf s1) i xs) = splice (take (bs s) (buf s1)) i xs"
    using assms(4) l by (simp add: splice_def take_Cons' drop_take min_absorb1 min_absorb2)
  moreover have "length (splice (buf s1) i xs) = length (buf s1)" using assms(4) l by (simp add: splice_def)
  ultimately show "\<exists>s'. wr b (put_buf (splice (buf s1) i xs) s1) = Some (s', Inr ()) \<and> ok s' \<and> rest s' = rest s \<and>
      at s' = (at s)(b := splice (at s b) i xs)"
    using put_wr[OF s1(1), of b "splice (buf s1) i xs"] assms(2) rest_safe[OF s1(3), of b] rest_bs[OF s1(3)] s1 by simp
qed

end

section \<open>A commit on the disk as it is read\<close>

definition in_journal :: "u32 \<Rightarrow> nat \<Rightarrow> bool" where
  "in_journal start l \<longleftrightarrow> unat start * 8 \<le> l \<and> l < (unat start + 32) * 8"

lemma fold_write_ops: "fold view_op (write_ops lba n data) d = put_sectors lba n data d"
  using dev_run_view[of "write_ops lba n data" d "[]"] by (simp add: dev_run_write_ops apply_put)

lemma put_slot: "idx < 32 \<Longrightarrow> \<not> in_journal start l \<Longrightarrow> put_sectors (slot_lba start idx) 8 data d l = d l"
  by (auto simp: put_sectors_def slot_lba_def in_journal_def)

lemma fold_data_ops:
  "i + length ds \<le> 8 \<Longrightarrow> \<not> in_journal start l \<Longrightarrow> fold view_op (data_ops start i ds) d l = d l"
proof (induction ds arbitrary: i d)
  case (Cons x ds)
  have "data_ops start i (x # ds) = write_ops (slot_lba start (2 + i)) 8 x @ data_ops start (Suc i) ds" by (simp add: data_ops_def)
  then show ?case using Cons by (simp add: fold_write_ops put_slot)
qed (simp add: data_ops_def)

lemma put_sectors_cong: "d l = e l \<Longrightarrow> put_sectors lba n x d l = put_sectors lba n x e l"
  by (simp add: put_sectors_def)

lemma one_block_commit_view:
  assumes "tx_blocks (j_txn j) = [(blk, data)]" "\<not> in_journal (g_journal_start j) l"
  shows "fold view_op (commit_ops j) d l = put_sectors (unat blk * g_target_sectors j) (g_target_sectors j) data d l"
proof -
  have "fold view_op (log_writes j) d l = d l" for d
    using fold_data_ops[of 0 "[data]" _ l] assms by (simp add: log_writes_def fold_write_ops put_slot)
  then have "put_sectors (slot_lba (g_journal_start j) 1) 8 x (fold view_op (log_writes j) d) l = d l" for x
    using assms(2) by (simp add: put_slot)
  then have "put_sectors lba n y (put_sectors (slot_lba (g_journal_start j) 1) 8 x (fold view_op (log_writes j) d)) l = put_sectors lba n y d l" for lba n x y
    by (rule put_sectors_cong)
  then show ?thesis using assms
    by (simp add: commit_ops_def mark_writes_def place_writes_def clear_writes_def target_ops_def fold_write_ops put_slot)
qed

section \<open>A working driver\<close>

text \<open>The driver after a successful mount on a working device with an idle journal.\<close>

definition geo :: "ext2 \<Rightarrow> bool" where
  "geo s \<longleftrightarrow> e_mounted s \<and> g_write_window_open s \<and> started (e_jnl s) \<and> dev_ok (j_bd (e_jnl s)) \<and>
     \<not> tx_in_use (j_txn (e_jnl s)) \<and> (\<forall>n. e_mem s n) \<and> length (e_buf s) = 4096 \<and> disk_ok (dev_view (j_bd (e_jnl s))) \<and>
     length (sb_pad (j_sb (e_jnl s))) = 4080 \<and>
     bsize s = 512 * unat (g_sectors_per_blk s) \<and> g_target_sectors (e_jnl s) = unat (g_sectors_per_blk s)"

definition off_journal :: "ext2 \<Rightarrow> u32 \<Rightarrow> bool" where
  "off_journal s b \<longleftrightarrow> (\<forall>l. unat b * unat (g_sectors_per_blk s) \<le> l \<and> l < (unat b + 1) * unat (g_sectors_per_blk s) \<longrightarrow>
     \<not> in_journal (g_journal_start (e_jnl s)) l)"

text \<open>The contents of a block outside the journal.\<close>

definition blk_at :: "ext2 \<Rightarrow> u32 \<Rightarrow> byte list" where
  "blk_at s b =
     (if off_journal s b
      then get_sectors (unat b * unat (g_sectors_per_blk s)) (unat (g_sectors_per_blk s)) (dev_view (j_bd (e_jnl s)))
      else replicate (bsize s) 0)"

text \<open>Everything but the disk, the buffer and the bookkeeping of device and memory.\<close>

definition rest_of :: "ext2 \<Rightarrow> ext2_superblock \<times> (nat \<Rightarrow> ext2_group_desc) \<times> u32 list \<times> bool list \<times> u32" where
  "rest_of s = (e_sb s, e_gdt s,
     [g_block_size s, g_inode_size s, g_blocks_per_group s, g_inodes_per_group s, g_groups s, g_sectors_per_blk s],
     [g_dirty_sb s, g_dirty_gdt s], g_journal_start (e_jnl s))"

lemma geo_sectors: "geo s \<Longrightarrow> 0 < unat (g_sectors_per_blk s) \<and> unat (g_sectors_per_blk s) \<le> 8"
  by (auto simp: geo_def started_def)

lemma length_get_sectors: "disk_ok d \<Longrightarrow> length (get_sectors lba n d) = 512 * n"
  by (induction n) (simp_all add: get_sectors_def disk_ok_def)

lemma read_block_ok:
  assumes "geo s"
  shows "\<exists>s'. read_block b s = (s', True) \<and> geo s' \<and> blk_at s' = blk_at s \<and> rest_of s' = rest_of s \<and>
    (off_journal s b \<longrightarrow> take (bsize s) (e_buf s') = blk_at s b)"
proof -
  let ?n = "unat (g_sectors_per_blk s)"
  let ?d = "get_sectors (unat b * ?n) ?n (dev_view (j_bd (e_jnl s)))"
  have n: "0 < ?n" "?n \<le> 8" using geo_sectors[OF assms] by auto
  have l: "length ?d = 512 * ?n" using assms by (simp add: geo_def length_get_sectors)
  have "blk_read (unat b * ?n) ?n (j_bd (e_jnl s)) = ((j_bd (e_jnl s))\<lparr>dev_reqs := dev_reqs (j_bd (e_jnl s)) + 1\<rparr>, Inr ?d)"
    using assms n by (intro blk_read_ok) (auto simp: geo_def)
  then have r: "read_block b s = (set_buf (?d @ drop (length ?d) (e_buf s))
      (set_bd ((j_bd (e_jnl s))\<lparr>dev_reqs := dev_reqs (j_bd (e_jnl s)) + 1\<rparr>) s), True)" by (simp add: read_block_def)
  show ?thesis unfolding r using assms l n(2)
    by (auto simp: geo_def set_buf_def set_bd_def bsize_def blk_at_def rest_of_def started_def off_journal_def fun_eq_iff)
qed

text \<open>Sectors of different blocks are different.\<close>

lemma blocks_disjoint: "a \<noteq> b \<Longrightarrow> i < n \<Longrightarrow> \<not> (b * n \<le> a * n + i \<and> a * n + i < b * n + n)" for a b n i :: nat
proof
  assume h: "a \<noteq> b" "i < n" "b * n \<le> a * n + i \<and> a * n + i < b * n + n"
  have "(a * n + i) div n = a" "(a * n + i) div n = b"
    using h(2,3) by (simp, intro div_nat_eqI, simp_all add: mult.commute)
  then show False using h(1) by simp
qed

lemma get_sectors_cong: "(\<And>i. i < n \<Longrightarrow> d (lba + i) = e (lba + i)) \<Longrightarrow> get_sectors lba n d = get_sectors lba n e"
  unfolding get_sectors_def by (rule arg_cong[where f = concat], rule map_cong) (auto dest: le_Suc_ex)

lemma get_put_take:
  assumes "512 * n \<le> length x" "disk_ok d"
  shows "get_sectors lba n (put_sectors lba n x d) = take (512 * n) x"
proof -
  have "put_sectors lba n x d (lba + i) = put_sectors lba n (take (512 * n) x) d (lba + i)" if "i < n" for i
  proof -
    have "512 * i + 512 \<le> 512 * n" using that by linarith
    then show ?thesis using that by (simp add: put_sectors_def sector_of_def drop_take min_absorb1)
  qed
  then show ?thesis using get_sectors_cong[of n "put_sectors lba n x d"] get_put[of "take (512 * n) x" n] assms(1) by (simp add: min_absorb2)
qed

lemma one_block_commit_ok:
  assumes "tx_blocks (j_txn j) = [(blk, data)]" "length data = 4096" "disk_ok d" "length (sb_pad (j_sb j)) = 4080" "g_target_sectors j \<le> 8"
  shows "disk_ok (fold view_op (commit_ops j) d)"
proof -
  have h: "length (header_bytes (commit_header c (j_txn j))) = 4096" for c using assms(1) by (intro length_header_bytes) simp
  have z: "length zero_block = 4096" by (simp add: zero_block_def JOURNAL_BLOCK_SIZE_def)
  have n: "length (sb_bytes (next_sb j)) = 4096" using assms(4) by (simp add: sb_bytes_def next_sb_def)
  have p: "disk_ok (put_sectors lba k x e)" if "length x = 4096" "k \<le> 8" "disk_ok e" for lba k x e
    using that by (intro disk_ok_put) auto
  show ?thesis using assms h z n
    by (simp add: commit_ops_def log_writes_def data_ops_def mark_writes_def place_writes_def clear_writes_def target_ops_def fold_write_ops p)
qed

lemma journaled_write_ok:
  assumes "geo s" "off_journal s b"
  shows "\<exists>s'. journaled_write b s = Some (s', Inr ()) \<and> geo s' \<and> rest_of s' = rest_of s \<and>
    blk_at s' = (blk_at s)(b := take (bsize s) (e_buf s))"
proof -
  define n where "n = unat (g_sectors_per_blk s)"
  note g = assms(1)[unfolded geo_def]
  define j1 where "j1 = (e_jnl s)\<lparr>j_txn := \<lparr>tx_in_use = True, txn_id = sb_txn_id_next (j_sb (e_jnl s)), tx_blocks = [(b, e_buf s)]\<rparr>,
     j_sb := (j_sb (e_jnl s))\<lparr>sb_txn_id_next := sb_txn_id_next (j_sb (e_jnl s)) + 1\<rparr>\<rparr>"
  have b: "journal_begin (e_jnl s) = Some (j1\<lparr>j_txn := (j_txn j1)\<lparr>tx_blocks := []\<rparr>\<rparr>, True)"
    using g by (auto simp: journal_begin_def j1_def started_def)
  have l: "journal_log_block True b (Some (e_buf s)) (e_mem s (e_allocs s)) (j1\<lparr>j_txn := (j_txn j1)\<lparr>tx_blocks := []\<rparr>\<rparr>) = (j1, Inr ())"
    using g by (simp add: journal_log_block_def j1_def JOURNAL_MAX_PER_TXN_def JOURNAL_BLOCK_SIZE_def)
  obtain j2 where c: "journal_commit True j1 = Some (j2, Inr ())" "dev_log (j_bd j2) = dev_log (j_bd j1) @ commit_ops j1"
    "dev_base (j_bd j2) = dev_base (j_bd j1)" "dev_ok (j_bd j2)" "started j2" "j_sb j2 = next_sb j1" "tx_in_use (j_txn j2) = False"
    "g_journal_start j2 = g_journal_start j1" "g_target_sectors j2 = g_target_sectors j1"
    using commit_trace[of j1] g by (auto simp: j1_def started_def)
  have v: "dev_view (j_bd j2) = fold view_op (commit_ops j1) (dev_view (j_bd (e_jnl s)))"
    by (simp add: dev_view_fold c(2,3)) (simp add: j1_def)
  define s' where "s' = s\<lparr>e_jnl := j2, e_allocs := e_allocs s + 1\<rparr>"
  have w: "journaled_write b s = Some (s', Inr ())"
    unfolding journaled_write_def b option.case prod.case bool.case l sum.case c(1) using g by (simp add: s'_def)
  have t: "tx_blocks (j_txn j1) = [(b, e_buf s)]" "g_journal_start j1 = g_journal_start (e_jnl s)" "g_target_sectors j1 = n"
    "length (sb_pad (j_sb j1)) = 4080" using g by (simp_all add: j1_def n_def)
  have n8: "n \<le> 8" using geo_sectors[OF assms(1)] by (simp add: n_def)
  have ok: "disk_ok (dev_view (j_bd j2))" unfolding v using one_block_commit_ok[OF t(1) _ _ t(4)] t(3) n8 g by simp
  have g': "geo s'" using g c ok t by (auto simp: geo_def s'_def bsize_def next_sb_def n_def)
  have r': "rest_of s' = rest_of s" using c(8) t(2) by (simp add: rest_of_def s'_def)
  have vl: "dev_view (j_bd j2) l = put_sectors (unat b * n) n (e_buf s) (dev_view (j_bd (e_jnl s))) l"
    if "\<not> in_journal (g_journal_start (e_jnl s)) l" for l
    unfolding v using one_block_commit_view[OF t(1), of l] that t(2,3) by simp
  have o: "off_journal s' x = off_journal s x" for x using c(8) t(2) by (simp add: off_journal_def s'_def)
  have "blk_at s' x = ((blk_at s)(b := take (bsize s) (e_buf s))) x" for x
  proof (cases "off_journal s x")
    case True
    have j: "\<not> in_journal (g_journal_start (e_jnl s)) (unat x * n + i)" if "i < n" for i
      using True that by (simp add: off_journal_def n_def)
    have e: "get_sectors (unat x * n) n (dev_view (j_bd j2)) =
        get_sectors (unat x * n) n (put_sectors (unat b * n) n (e_buf s) (dev_view (j_bd (e_jnl s))))"
      using vl[OF j] by (intro get_sectors_cong) simp
    show ?thesis
    proof (cases "x = b")
      case True
      have "512 * n \<le> length (e_buf s)" using n8 g by simp
      then show ?thesis using e True \<open>off_journal s x\<close> o get_put_take[of n "e_buf s"] g
        by (simp add: blk_at_def s'_def n_def bsize_def)
    next
      case False
      then have "unat x \<noteq> unat b" by (simp add: word_unat_eq_iff)
      then have "put_sectors (unat b * n) n (e_buf s) (dev_view (j_bd (e_jnl s))) (unat x * n + i) = dev_view (j_bd (e_jnl s)) (unat x * n + i)"
        if "i < n" for i unfolding put_sectors_def using blocks_disjoint[OF _ that] by (intro if_not_P) blast
      then have "get_sectors (unat x * n) n (dev_view (j_bd j2)) = get_sectors (unat x * n) n (dev_view (j_bd (e_jnl s)))"
        unfolding e by (rule get_sectors_cong)
      then show ?thesis using False \<open>off_journal s x\<close> o[of x] by (simp add: blk_at_def s'_def n_def)
    qed
  next
    case False
    then show ?thesis using o assms(2) by (auto simp: blk_at_def s'_def bsize_def)
  qed
  then show ?thesis using w g' r' by (intro exI[of _ s']) auto
qed

interpretation eb: block_store geo blk_at bsize rest_of off_journal e_buf set_buf read_block journaled_write
proof unfold_locales
  fix s :: ext2 and b :: u32
  assume g: "geo s"
  show "\<exists>s'. read_block b s = (s', True) \<and> geo s' \<and> blk_at s' = blk_at s \<and> rest_of s' = rest_of s \<and>
      (off_journal s b \<longrightarrow> take (bsize s) (e_buf s') = blk_at s b)" by (rule read_block_ok[OF g])
  show "bsize s \<le> length (e_buf s)" using g geo_sectors[OF g] by (simp add: geo_def)
  show "length (blk_at s b) = bsize s" using g by (simp add: blk_at_def length_get_sectors geo_def)
next
  fix s :: ext2 and xs :: "byte list"
  assume "geo s" "length xs = length (e_buf s)"
  then show "geo (set_buf xs s) \<and> blk_at (set_buf xs s) = blk_at s \<and> rest_of (set_buf xs s) = rest_of s \<and> e_buf (set_buf xs s) = xs"
    by (auto simp: geo_def set_buf_def blk_at_def off_journal_def rest_of_def bsize_def fun_eq_iff)
next
  fix s t :: ext2 and b
  assume "rest_of s = rest_of t"
  then show "bsize s = bsize t" "off_journal s b = off_journal t b" by (auto simp: rest_of_def bsize_def off_journal_def)
qed (rule journaled_write_ok)

end
