(* ===== verification/Ext2_Alloc.thy ===== *)
theory Ext2_Alloc
  imports Ext2_Blocks
begin

text \<open>
  Inodes, bitmaps and the write-back of the ext2 driver: where an inode lives, that it is read
  back as it was written, that an allocated block was free and that the blocks of the system
  are never handed out.
\<close>

section \<open>What the operations keep\<close>

text \<open>The part of the state that no operation on a mounted file system changes.\<close>

definition core_of :: "ext2 \<Rightarrow> u32 list \<times> (nat \<Rightarrow> u32 \<times> u32) \<times> nat list" where
  "core_of s = ([g_block_size s, g_inode_size s, g_blocks_per_group s, g_inodes_per_group s, g_groups s, g_sectors_per_blk s,
       s_first_data_block (e_sb s), s_inodes_count (e_sb s), g_journal_start (e_jnl s)],
     \<lambda>g. (bg_block_bitmap (e_gdt s g), bg_inode_table (e_gdt s g)), [length (superblock_bytes (e_sb s))])"

lemma rest_core: "rest_of s = rest_of t \<Longrightarrow> core_of s = core_of t"
  by (simp add: rest_of_def core_of_def)

lemma core_simps:
  assumes "core_of s = core_of t"
  shows "bsize s = bsize t" "off_journal s b = off_journal t b" "g_groups s = g_groups t" "g_blocks_per_group s = g_blocks_per_group t"
    "s_first_data_block (e_sb s) = s_first_data_block (e_sb t)" "bg_block_bitmap (e_gdt s g) = bg_block_bitmap (e_gdt t g)"
    "length (superblock_bytes (e_sb s)) = length (superblock_bytes (e_sb t))" "g_sectors_per_blk s = g_sectors_per_blk t"
    "g_block_size s = g_block_size t" "gdt_block s = gdt_block t" "gdt_bytes s = gdt_bytes t" "inode_place ino s = inode_place ino t"
    "g_inode_size s = g_inode_size t" "s_inodes_count (e_sb s) = s_inodes_count (e_sb t)"
    "g_journal_start (e_jnl s) = g_journal_start (e_jnl t)"
  using assms by (auto simp: core_of_def bsize_def off_journal_def gdt_block_def gdt_bytes_def inode_place_def fun_eq_iff)

section \<open>Inodes\<close>

definition inode_slot :: "ext2 \<Rightarrow> u32 \<Rightarrow> u32 \<Rightarrow> nat \<Rightarrow> bool" where
  "inode_slot s ino blk off \<longleftrightarrow> ino \<noteq> 0 \<and> ino \<le> s_inodes_count (e_sb s) \<and>
     (\<exists>grp. inode_place ino s = Some (grp, blk, off) \<and> grp < unat (g_groups s)) \<and> 128 \<le> unat (g_inode_size s) \<and>
     off + 128 \<le> bsize s"

definition inode_at :: "ext2 \<Rightarrow> u32 \<Rightarrow> nat \<Rightarrow> ext2_inode" where
  "inode_at s blk off = inode_of_bytes (bytes_at (blk_at s blk) off 128)"

lemma inode_slot_core:
  assumes "core_of s = core_of t"
  shows "inode_slot s ino blk off = inode_slot t ino blk off"
  by (simp add: inode_slot_def core_simps[OF assms])

lemma bytes_at_take: "off + n \<le> m \<Longrightarrow> bytes_at (take m b) off n = bytes_at b off n"
  by (simp add: bytes_at_def drop_take min_absorb1)

lemma inode_at_wf: "geo s \<Longrightarrow> off + 128 \<le> bsize s \<Longrightarrow> inode_wf (inode_at s blk off)"
  using eb.buf_len(2)[of s blk] by (simp add: inode_at_def bytes_at_def)

lemma read_inode_ok:
  assumes "geo s" "inode_slot s ino blk off" "off_journal s blk"
  shows "\<exists>s'. read_inode ino s = Some (s', Inr (inode_at s blk off)) \<and> geo s' \<and> blk_at s' = blk_at s \<and> rest_of s' = rest_of s"
proof -
  obtain grp where p: "inode_place ino s = Some (grp, blk, off)" "grp < unat (g_groups s)" "ino \<noteq> 0" "ino \<le> s_inodes_count (e_sb s)"
    "128 \<le> unat (g_inode_size s)" "off + 128 \<le> bsize s" using assms(2) by (auto simp: inode_slot_def)
  obtain s1 where r: "read_block blk s = (s1, True)" "geo s1" "blk_at s1 = blk_at s" "rest_of s1 = rest_of s"
    "take (bsize s) (e_buf s1) = blk_at s blk" using eb.rd_ok[OF assms(1), of blk] assms(3) by auto
  have c: "g_inode_size s1 = g_inode_size s" using core_simps(13)[OF rest_core[OF r(4)]] .
  have "bsize s \<le> length (e_buf s1)" using eb.buf_len(1)[OF r(2)] eb.rest_bs[OF r(4)] by simp
  moreover have "bytes_at (e_buf s1) off 128 = bytes_at (blk_at s blk) off 128"
    using p(6) r(5) bytes_at_take[of off 128 "bsize s" "e_buf s1"] by simp
  ultimately show ?thesis using p r c leD[OF p(4)] by (simp add: read_inode_def inode_at_def not_le)
qed

lemma write_inode_ok:
  assumes "geo s" "inode_slot s ino blk off" "off_journal s blk" "inode_wf n"
  shows "\<exists>s'. write_inode_locked ino n s = Some (s', Inr ()) \<and> geo s' \<and> rest_of s' = rest_of s \<and>
    blk_at s' = (blk_at s)(blk := splice (blk_at s blk) off (inode_bytes n))"
proof -
  obtain grp where p: "inode_place ino s = Some (grp, blk, off)" "grp < unat (g_groups s)" "ino \<noteq> 0" "ino \<le> s_inodes_count (e_sb s)"
    "128 \<le> unat (g_inode_size s)" "off + 128 \<le> bsize s" using assms(2) by (auto simp: inode_slot_def)
  obtain s1 where r: "read_block blk s = (s1, True)" "rest_of s1 = rest_of s" using eb.rd_ok[OF assms(1), of blk] by auto
  have c: "g_inode_size s1 = g_inode_size s" using core_simps(13)[OF rest_core[OF r(2)]] .
  have l: "length (inode_bytes n) = 128" using assms(4) by simp
  then have "off + length (inode_bytes n) \<le> bsize s" using p(6) by simp
  note m = eb.read_modify_write[OF assms(1,3) r(1) this]
  have "write_inode_locked ino n s = journaled_write blk (set_buf (splice (e_buf s1) off (inode_bytes n)) s1)"
    using p r m(1) c l leD[OF p(4)] by (simp add: write_inode_locked_def)
  then show ?thesis using m(2) by simp
qed

lemma splice_inside: "i + length xs \<le> length b \<Longrightarrow> bytes_at (splice b i xs) i (length xs) = xs"
  by (simp add: splice_def bytes_at_def)

lemma length_splice: "i + length xs \<le> length b \<Longrightarrow> length (splice b i xs) = length b"
  by (simp add: splice_def)

lemma nth_splice:
  "i + length xs \<le> length b \<Longrightarrow> k < length b \<Longrightarrow> splice b i xs ! k = (if i \<le> k \<and> k < i + length xs then xs ! (k - i) else b ! k)"
  by (auto simp: splice_def nth_append min_def)

text \<open>An inode that was written is read back.\<close>

lemma inode_at_written:
  assumes "geo s" "off + 128 \<le> bsize s" "inode_wf n" "blk_at s' blk = splice (blk_at s blk) off (inode_bytes n)"
  shows "inode_at s' blk off = n"
proof -
  have "bytes_at (blk_at s' blk) off 128 = inode_bytes n"
    using splice_inside[of off "inode_bytes n" "blk_at s blk"] assms eb.buf_len(2)[OF assms(1), of blk] by simp
  then show ?thesis using inode_round_trip[OF assms(3), of "[]"] by (simp add: inode_at_def)
qed

section \<open>Bitmaps\<close>

lemma bit_mask_bit: "bit (bit_mask k) i \<longleftrightarrow> i = k mod 8"
proof -
  have "k mod 8 < 8" by simp
  then show ?thesis by (auto simp: bit_mask_def bit_exp_iff possible_bit_def)
qed

lemma and_mask_zero: "w AND bit_mask k = 0 \<longleftrightarrow> \<not> bit w (k mod 8)" for w :: byte
proof
  assume "w AND bit_mask k = 0"
  then have "\<not> bit (w AND bit_mask k) (k mod 8)" by simp
  then show "\<not> bit w (k mod 8)" by (simp add: bit_and_iff bit_mask_bit)
next
  assume "\<not> bit w (k mod 8)"
  then show "w AND bit_mask k = 0" by (intro bit_word_eqI) (auto simp: bit_and_iff bit_mask_bit)
qed

lemma bit_used_bit: "bit_used b k \<longleftrightarrow> bit (b ! (k div 8)) (k mod 8)"
  by (simp add: bit_used_def and_mask_zero)

lemma same_bit: "(k :: nat) div 8 = i div 8 \<Longrightarrow> k mod 8 = i mod 8 \<Longrightarrow> k = i"
  by (metis div_mult_mod_eq)

lemma bit_used_on: "k div 8 < length b \<Longrightarrow> bit_used (bit_on b k) i \<longleftrightarrow> i = k \<or> bit_used b i"
  using same_bit[of i k] by (cases "i div 8 = k div 8") (auto simp: bit_used_bit bit_on_def bit_or_iff bit_mask_bit)

lemma length_bit_on [simp]: "length (bit_on b k) = length b"
  by (simp add: bit_on_def)

lemma bit_used_take: "k div 8 < n \<Longrightarrow> bit_used (take n b) k = bit_used b k"
  by (simp add: bit_used_def)

lemma free_bit_first:
  assumes "n \<le> 8 * length b"
  shows "\<exists>r. free_bit b skip n = Some r \<and> (\<forall>k. r = Inr k \<longrightarrow> k < n \<and> \<not> bit_used b k \<and> \<not> skip k) \<and>
    (\<forall>u k. r = Inl u \<longrightarrow> k < n \<longrightarrow> bit_used b k \<or> skip k)"
proof -
  have l: "\<not> length b \<le> k div 8" if "k < n" for k using that assms by (simp add: not_le div_less_iff_less_mult)
  show ?thesis
  proof (cases "find (\<lambda>k. length b \<le> k div 8 \<or> \<not> bit_used b k \<and> \<not> skip k) [0..<n]")
    case None
    then have "bit_used b k \<or> skip k" if "k < n" for k using that by (auto simp: find_None_iff)
    then show ?thesis using None by (simp add: free_bit_def)
  next
    case (Some k)
    then show ?thesis using find_upt_SomeD(2,3)[OF Some] l by (simp add: free_bit_def)
  qed
qed

text \<open>The group and the bit of a block, and whether it is in use; blocks outside all groups count as used.\<close>

definition blk_group :: "ext2 \<Rightarrow> u32 \<Rightarrow> nat" where
  "blk_group s b = unat ((b - s_first_data_block (e_sb s)) div g_blocks_per_group s)"

definition blk_bit :: "ext2 \<Rightarrow> u32 \<Rightarrow> nat" where
  "blk_bit s b = unat ((b - s_first_data_block (e_sb s)) mod g_blocks_per_group s)"

definition used :: "ext2 \<Rightarrow> u32 \<Rightarrow> bool" where
  "used s b \<longleftrightarrow> b < s_first_data_block (e_sb s) \<or> unat (g_groups s) \<le> blk_group s b \<or>
     bit_used (blk_at s (bg_block_bitmap (e_gdt s (blk_group s b)))) (blk_bit s b)"

definition bitmap_blk :: "ext2 \<Rightarrow> u32 \<Rightarrow> bool" where
  "bitmap_blk s b \<longleftrightarrow> (\<exists>g < unat (g_groups s). b = bg_block_bitmap (e_gdt s g))"

definition itable_blk :: "ext2 \<Rightarrow> u32 \<Rightarrow> bool" where
  "itable_blk s b \<longleftrightarrow> (\<exists>ino off. inode_slot s ino b off)"

definition gdt_count :: "ext2 \<Rightarrow> nat" where
  "gdt_count s = (gdt_bytes s + bsize s - 1) div bsize s"

text \<open>The blocks of the super block and of the descriptors.\<close>

definition sys_blk :: "ext2 \<Rightarrow> u32 \<Rightarrow> bool" where
  "sys_blk s b \<longleftrightarrow> unat b * unat (g_sectors_per_blk s) \<le> 3 \<or> (\<exists>i < gdt_count s. b = gdt_block s + of_nat i)"

text \<open>
  A well-formed file system: a working driver, a sane geometry, bitmaps that are apart from each
  other and from the rest, and every block of the system, the journal included, marked as used.
\<close>

definition layout_ok :: "ext2 \<Rightarrow> bool" where
  "layout_ok s \<longleftrightarrow> 0 < unat (g_groups s) \<and> 0 < g_blocks_per_group s \<and> unat (g_blocks_per_group s) \<le> 8 * bsize s \<and>
     unat (s_first_data_block (e_sb s)) + unat (g_groups s) * unat (g_blocks_per_group s) < 2 ^ 32 \<and>
     length (superblock_bytes (e_sb s)) = 976 \<and> 0 < unat (g_journal_start (e_jnl s)) \<and>
     (\<forall>b. bitmap_blk s b \<or> itable_blk s b \<or> (\<exists>i < gdt_count s. b = gdt_block s + of_nat i) \<longrightarrow> off_journal s b) \<and>
     (\<forall>g < unat (g_groups s). \<forall>h < unat (g_groups s). bg_block_bitmap (e_gdt s g) = bg_block_bitmap (e_gdt s h) \<longrightarrow> g = h) \<and>
     (\<forall>b. bitmap_blk s b \<longrightarrow> \<not> itable_blk s b \<and> \<not> sys_blk s b) \<and> (\<forall>b. itable_blk s b \<longrightarrow> \<not> sys_blk s b)"

definition reserved :: "ext2 \<Rightarrow> u32 \<Rightarrow> bool" where
  "reserved s b \<longleftrightarrow> \<not> off_journal s b \<or> b = 0 \<or> bitmap_blk s b \<or> itable_blk s b \<or> sys_blk s b"

definition fs_ok :: "ext2 \<Rightarrow> bool" where
  "fs_ok s \<longleftrightarrow> geo s \<and> layout_ok s \<and> (\<forall>b. reserved s b \<longrightarrow> used s b)"

lemma preds_core:
  assumes "core_of s = core_of t"
  shows "bitmap_blk s b = bitmap_blk t b" "itable_blk s b = itable_blk t b" "sys_blk s b = sys_blk t b" "gdt_count s = gdt_count t"
    "blk_group s b = blk_group t b" "blk_bit s b = blk_bit t b"
  using core_simps[OF assms] inode_slot_core[OF assms] by (simp_all only: bitmap_blk_def itable_blk_def sys_blk_def gdt_count_def blk_group_def blk_bit_def)

lemma layout_core:
  assumes "core_of s = core_of t"
  shows "layout_ok s = layout_ok t" "reserved s b = reserved t b"
  by (simp_all only: layout_ok_def reserved_def core_simps[OF assms] preds_core[OF assms])

text \<open>Two states with the same layout in which no block became free.\<close>

lemma fs_ok_transfer:
  assumes "fs_ok s" "geo t" "core_of t = core_of s" "\<And>b. used s b \<Longrightarrow> used t b"
  shows "fs_ok t"
  using assms(1,2,4) layout_core[OF assms(3)] by (auto simp: fs_ok_def)

lemma used_cong:
  assumes "core_of t = core_of s" "\<And>b. bitmap_blk s b \<Longrightarrow> blk_at t b = blk_at s b"
  shows "used t b = used s b"
proof (cases "unat (g_groups s) \<le> blk_group s b")
  case False
  then have "bitmap_blk s (bg_block_bitmap (e_gdt s (blk_group s b)))" by (auto simp: bitmap_blk_def not_le)
  then show ?thesis using assms(2) by (simp add: used_def core_simps[OF assms(1)] preds_core[OF assms(1)])
qed (simp add: used_def core_simps[OF assms(1)] preds_core[OF assms(1)])

section \<open>Allocation of blocks\<close>

definition blk_number :: "ext2 \<Rightarrow> nat \<Rightarrow> nat \<Rightarrow> u32" where
  "blk_number s g k = s_first_data_block (e_sb s) + of_nat g * g_blocks_per_group s + of_nat k"

lemma unat_u32_of_nat: "n < 2 ^ 32 \<Longrightarrow> unat (of_nat n :: u32) = n"
  by (simp add: unsigned_of_nat take_bit_nat_eq_self)

lemma blk_number_ok:
  assumes "layout_ok s" "g < unat (g_groups s)" "k < unat (g_blocks_per_group s)"
  shows "blk_group s (blk_number s g k) = g" "blk_bit s (blk_number s g k) = k" "\<not> blk_number s g k < s_first_data_block (e_sb s)"
    and "\<lbrakk>\<not> b < s_first_data_block (e_sb s); blk_group s b = g; blk_bit s b = k\<rbrakk> \<Longrightarrow> b = blk_number s g k"
proof -
  let ?f = "s_first_data_block (e_sb s)" and ?n = "g_blocks_per_group s"
  have "(g + 1) * unat ?n \<le> unat (g_groups s) * unat ?n" using assms(2) by (intro mult_le_mono1) simp
  then have lt: "unat ?f + (g * unat ?n + k) < 2 ^ 32" using assms(1,3) by (simp add: layout_ok_def)
  have d: "blk_number s g k - ?f = of_nat (g * unat ?n + k)" by (simp add: blk_number_def)
  have u: "unat (blk_number s g k - ?f) = g * unat ?n + k" unfolding d using lt by (intro unat_u32_of_nat) simp
  show "blk_group s (blk_number s g k) = g" "blk_bit s (blk_number s g k) = k"
    using assms(3) by (simp_all only: blk_group_def blk_bit_def unat_div_distrib unat_mod_distrib u) simp_all
  have "blk_number s g k = of_nat (unat ?f + (g * unat ?n + k))" by (simp add: blk_number_def)
  then have "unat (blk_number s g k) = unat ?f + (g * unat ?n + k)" using unat_u32_of_nat[OF lt] by simp
  then show "\<not> blk_number s g k < ?f" by (simp add: word_less_nat_alt)
  show "b = blk_number s g k" if "blk_group s b = g" "blk_bit s b = k"
  proof -
    have "unat (b - ?f) = g * unat ?n + k"
      using that div_mult_mod_eq[of "unat (b - ?f)" "unat ?n"] by (simp add: blk_group_def blk_bit_def unat_div_distrib unat_mod_distrib)
    then have "b - ?f = blk_number s g k - ?f" using u by (simp add: word_unat_eq_iff)
    then show ?thesis by simp
  qed
qed

lemma geo_upd: "geo (upd_gdt g f s) = geo s" "geo (upd_sb h s) = geo s" "blk_at (upd_gdt g f s) = blk_at s" "blk_at (upd_sb h s) = blk_at s"
  by (auto simp: geo_def upd_gdt_def upd_sb_def bsize_def blk_at_def off_journal_def fun_eq_iff)

lemma core_upd_gdt: "(\<And>d. bg_block_bitmap (f d) = bg_block_bitmap d \<and> bg_inode_table (f d) = bg_inode_table d) \<Longrightarrow> core_of (upd_gdt g f s) = core_of s"
  by (auto simp: core_of_def upd_gdt_def fun_eq_iff)

lemma core_upd_sb:
  "(\<And>b. s_first_data_block (f b) = s_first_data_block b \<and> s_inodes_count (f b) = s_inodes_count b \<and>
      length (superblock_bytes (f b)) = length (superblock_bytes b)) \<Longrightarrow> core_of (upd_sb f s) = core_of s"
  by (simp add: core_of_def upd_sb_def)

text \<open>A state whose bitmap of one group has one more bit.\<close>

lemma used_bit_on:
  assumes "layout_ok s" "geo s" "core_of t = core_of s" "g < unat (g_groups s)" "k < unat (g_blocks_per_group s)"
    and "blk_at t = (blk_at s)(bg_block_bitmap (e_gdt s g) := bit_on (blk_at s (bg_block_bitmap (e_gdt s g))) k)"
  shows "used t b \<longleftrightarrow> b = blk_number s g k \<or> used s b"
proof -
  note lay = assms(1,2)
  note n = blk_number_ok[OF lay(1) assms(4,5)]
  have k: "k div 8 < length (blk_at s x)" for x
    using assms(5) lay eb.buf_len(2)[OF lay(2), of x] by (simp add: layout_ok_def div_less_iff_less_mult)
  consider "b < s_first_data_block (e_sb s) \<or> unat (g_groups s) \<le> blk_group s b" | "\<not> b < s_first_data_block (e_sb s)" "blk_group s b = g"
    | "\<not> b < s_first_data_block (e_sb s)" "blk_group s b \<noteq> g" "blk_group s b < unat (g_groups s)" by linarith
  then show ?thesis
  proof cases
    case 1
    then show ?thesis by (auto simp: used_def core_simps[OF assms(3)] preds_core[OF assms(3)])
  next
    case 2
    then have "b = blk_number s g k \<longleftrightarrow> blk_bit s b = k" using n by blast
    then show ?thesis using 2 assms(4) bit_used_on[OF k] by (auto simp: used_def core_simps[OF assms(3)] preds_core[OF assms(3)] assms(6))
  next
    case 3
    then have "bg_block_bitmap (e_gdt s (blk_group s b)) \<noteq> bg_block_bitmap (e_gdt s g)" using lay(1) assms(4) by (auto simp: layout_ok_def)
    moreover have "b \<noteq> blk_number s g k" using 3(2) n(1) by blast
    ultimately show ?thesis using 3 by (simp add: used_def core_simps[OF assms(3)] preds_core[OF assms(3)] assms(6))
  qed
qed

text \<open>
  The counters of free blocks agree with the bitmaps; \<open>spare\<close> is what they add up to.
\<close>

definition free_in :: "ext2 \<Rightarrow> nat \<Rightarrow> u32 set" where
  "free_in s g = {b. \<not> used s b \<and> blk_group s b = g}"

definition counts_ok :: "ext2 \<Rightarrow> bool" where
  "counts_ok s \<longleftrightarrow> (\<forall>g < unat (g_groups s). unat (bg_free_blocks_count (e_gdt s g)) = card (free_in s g))"

definition spare :: "ext2 \<Rightarrow> nat" where
  "spare s = (\<Sum>g < unat (g_groups s). unat (bg_free_blocks_count (e_gdt s g)))"

lemma counts_same:
  assumes "core_of t = core_of s" "e_gdt t = e_gdt s" "\<And>b. used t b = used s b"
  shows "counts_ok t = counts_ok s" "spare t = spare s"
  by (simp_all add: counts_ok_def spare_def free_in_def core_simps[OF assms(1)] preds_core[OF assms(1)] assms(2,3))

lemma counts_taken:
  assumes "counts_ok s" "core_of t = core_of s" "\<not> used s b" "\<And>x. used t x \<longleftrightarrow> x = b \<or> used s x" "blk_group s b < unat (g_groups s)"
    and "\<And>g. bg_free_blocks_count (e_gdt t g) = bg_free_blocks_count (e_gdt s g) - (if g = blk_group s b then 1 else 0)"
  shows "counts_ok t \<and> spare s = spare t + 1"
proof -
  let ?g = "blk_group s b" and ?c = "\<lambda>s g. unat (bg_free_blocks_count (e_gdt s g))"
  have f: "free_in t ?g = free_in s ?g - {b}" "g \<noteq> ?g \<Longrightarrow> free_in t g = free_in s g" for g
    using assms(4) by (auto simp: free_in_def preds_core[OF assms(2)])
  have b: "b \<in> free_in s ?g" using assms(3) by (simp add: free_in_def)
  then have pos: "0 < card (free_in s ?g)" by (auto simp: card_gt_0_iff)
  have n: "?c s ?g = card (free_in s ?g)" using assms(1,5) by (simp add: counts_ok_def)
  then have "bg_free_blocks_count (e_gdt s ?g) \<noteq> 0" using pos by (metis less_irrefl unat_0)
  then have c: "?c s ?g = ?c t ?g + 1" "g \<noteq> ?g \<Longrightarrow> ?c t g = ?c s g" for g
    using assms(6) pos n unat_minus_one[of "bg_free_blocks_count (e_gdt s ?g)"] by simp_all
  have "?c t g = card (free_in t g)" if "g < unat (g_groups s)" for g
    using assms(1,5) that f c b by (cases "g = ?g") (auto simp: counts_ok_def)
  then have "counts_ok t" by (simp add: counts_ok_def core_simps[OF assms(2)])
  moreover have "spare s = ?c s ?g + (\<Sum>g \<in> {..<unat (g_groups s)} - {?g}. ?c s g)"
    unfolding spare_def using assms(5) by (simp add: sum.remove)
  moreover have "spare t = ?c t ?g + (\<Sum>g \<in> {..<unat (g_groups s)} - {?g}. ?c t g)"
    unfolding spare_def core_simps(3)[OF assms(2)] using assms(5) by (simp add: sum.remove)
  ultimately show ?thesis using c by simp
qed

lemma group_full:
  assumes "fs_ok s" "g < unat (g_groups s)" "\<And>k. k < unat (g_blocks_per_group s) \<Longrightarrow> bit_used (blk_at s (bg_block_bitmap (e_gdt s g))) k"
    and "counts_ok s"
  shows "bg_free_blocks_count (e_gdt s g) = 0"
proof -
  have "0 < unat (g_blocks_per_group s)" using assms(1) by (auto simp: fs_ok_def layout_ok_def unat_gt_0)
  then have "blk_bit s b < unat (g_blocks_per_group s)" for b by (simp add: blk_bit_def unat_mod_distrib)
  then have "free_in s g = {}" using assms(3) by (auto simp: free_in_def used_def)
  then have "unat (bg_free_blocks_count (e_gdt s g)) = 0" using assms(2,4) by (simp add: counts_ok_def)
  then show ?thesis by (simp only: unat_eq_0)
qed

definition allocated :: "ext2 \<Rightarrow> ext2 \<Rightarrow> u32 res \<Rightarrow> bool" where
  "allocated s t r \<longleftrightarrow> fs_ok t \<and> core_of t = core_of s \<and>
     (case r of
        Inl e \<Rightarrow> e = ENOSPC \<and> blk_at t = blk_at s \<and> e_gdt t = e_gdt s
      | Inr b \<Rightarrow> \<not> used s b \<and> (\<forall>x. used t x \<longleftrightarrow> x = b \<or> used s x) \<and> (\<forall>x. \<not> bitmap_blk s x \<longrightarrow> blk_at t x = blk_at s x) \<and>
          (counts_ok s \<longrightarrow> counts_ok t \<and> spare s = spare t + 1))"

lemma alloc_block_ok:
  assumes "fs_ok s" "g < unat (g_groups s)"
  shows "\<exists>t r. alloc_block_in_group_locked g s = Some (t, r) \<and> allocated s t r \<and>
    (\<forall>e. r = Inl e \<longrightarrow> counts_ok s \<longrightarrow> bg_free_blocks_count (e_gdt s g) = 0)"
proof (cases "bg_free_blocks_count (e_gdt s g) = 0")
  case True
  then show ?thesis using assms(1) by (simp add: alloc_block_in_group_locked_def allocated_def)
next
  case False
  let ?m = "bg_block_bitmap (e_gdt s g)" and ?n = "unat (g_blocks_per_group s)"
  have lay: "layout_ok s" "geo s" "bitmap_blk s ?m" using assms by (auto simp: fs_ok_def bitmap_blk_def)
  have oj: "off_journal s ?m" using lay by (auto simp: layout_ok_def)
  obtain s1 where r: "read_block ?m s = (s1, True)" "geo s1" "blk_at s1 = blk_at s" "rest_of s1 = rest_of s"
    "take (bsize s) (e_buf s1) = blk_at s ?m" using eb.rd_ok[OF lay(2), of ?m] oj by auto
  note c1 = rest_core[OF r(4)]
  have e: "e_gdt s1 = e_gdt s" "g_blocks_per_group s1 = g_blocks_per_group s" "bsize s1 = bsize s" "e_sb s1 = e_sb s"
    using r(4) by (auto simp: rest_of_def bsize_def)
  have n: "?n \<le> 8 * bsize s" "bsize s \<le> length (e_buf s1)" using lay(1) eb.buf_len(1)[OF r(2)] e by (auto simp: layout_ok_def)
  obtain q where q: "free_bit (e_buf s1) (\<lambda>_. False) ?n = Some q" "\<And>k. q = Inr k \<Longrightarrow> k < ?n \<and> \<not> bit_used (e_buf s1) k"
    "\<And>u k. q = Inl u \<Longrightarrow> k < ?n \<Longrightarrow> bit_used (e_buf s1) k"
    using free_bit_first[of ?n "e_buf s1" "\<lambda>_. False"] n by auto
  show ?thesis
  proof (cases q)
    case (Inl u)
    have "fs_ok s1" using fs_ok_transfer[OF assms(1) r(2) c1] used_cong[OF c1] r(3) by simp
    moreover have "bit_used (blk_at s ?m) k" if "k < ?n" for k
      using q(3)[OF Inl that] that n(1) bit_used_take[of k "bsize s" "e_buf s1"] r(5) by (simp add: div_less_iff_less_mult)
    then have "\<not> counts_ok s" using group_full[OF assms] False by blast
    ultimately show ?thesis using False r q Inl e c1 by (simp add: alloc_block_in_group_locked_def allocated_def)
  next
    case (Inr k)
    then have k: "k < ?n" "\<not> bit_used (e_buf s1) k" "k div 8 < bsize s"
      using q(2) n(1) by (auto simp: div_less_iff_less_mult)
    have oj1: "off_journal s1 ?m" using oj core_simps(2)[OF c1] by simp
    obtain s2 where w: "journaled_write ?m (set_buf (bit_on (e_buf s1) k) s1) = Some (s2, Inr ())" "geo s2" "rest_of s2 = rest_of s1"
      "blk_at s2 = (blk_at s1)(?m := take (bsize s1) (bit_on (e_buf s1) k))" using eb.put_wr[OF r(2) oj1, of "bit_on (e_buf s1) k"] by auto
    have b2: "blk_at s2 = (blk_at s)(?m := bit_on (blk_at s ?m) k)"
      unfolding w(4) r(3) e(3) using k(3) r(5) by (simp add: bit_on_def take_update_swap flip: r(5))
    define t where "t = upd_sb (\<lambda>b. b\<lparr>s_free_blocks_count := s_free_blocks_count b - 1\<rparr>)
      (upd_gdt g (\<lambda>d. d\<lparr>bg_free_blocks_count := bg_free_blocks_count d - 1\<rparr>) s2)"
    have t: "geo t" "blk_at t = blk_at s2" using w(2) by (simp_all add: t_def geo_upd)
    have "core_of t = core_of (upd_gdt g (\<lambda>d. d\<lparr>bg_free_blocks_count := bg_free_blocks_count d - 1\<rparr>) s2)"
      unfolding t_def by (rule core_upd_sb) (simp add: superblock_bytes_def)
    also have "\<dots> = core_of s2" by (rule core_upd_gdt) simp
    also have "\<dots> = core_of s1" by (rule rest_core[OF w(3)])
    also have "\<dots> = core_of s" by (rule c1)
    finally have ct: "core_of t = core_of s" .
    have u: "used t x \<longleftrightarrow> x = blk_number s g k \<or> used s x" for x
      using used_bit_on[OF lay(1,2) ct assms(2) k(1)] t(2) b2 by simp
    have nu: "\<not> used s (blk_number s g k)"
      using blk_number_ok(1-3)[OF lay(1) assms(2) k(1)] assms(2) k(2,3) bit_used_take[of k "bsize s" "e_buf s1"] r(5) by (simp add: used_def)
    have "alloc_block_in_group_locked g s = Some (t, Inr (blk_number s g k))"
      using False r(1) q(1) Inr w(1) e core_simps(4,5)[OF ct]
      by (simp add: alloc_block_in_group_locked_def t_def Let_def blk_number_def)
    moreover have "fs_ok t" using fs_ok_transfer[OF assms(1) t(1) ct] u by blast
    moreover have "counts_ok t \<and> spare s = spare t + 1" if "counts_ok s"
    proof (rule counts_taken[OF that ct nu u])
      have "e_gdt s2 = e_gdt s" using w(3) e(1) by (simp add: rest_of_def)
      then show "bg_free_blocks_count (e_gdt t h) = bg_free_blocks_count (e_gdt s h) - (if h = blk_group s (blk_number s g k) then 1 else 0)" for h
        using blk_number_ok(1)[OF lay(1) assms(2) k(1)] by (simp add: t_def upd_sb_def upd_gdt_def)
    qed (use blk_number_ok(1)[OF lay(1) assms(2) k(1)] assms(2) in simp)
    moreover have "blk_at t x = blk_at s x" if "\<not> bitmap_blk s x" for x using that lay(3) by (auto simp: t(2) b2)
    ultimately show ?thesis using ct u nu by (auto simp: allocated_def)
  qed
qed

text \<open>A failed allocation changes nothing the later ones see.\<close>

lemma allocated_after:
  assumes "allocated s t (Inl e)" "allocated t v r"
  shows "allocated s v r"
proof -
  have t: "core_of t = core_of s" "blk_at t = blk_at s" "e_gdt t = e_gdt s" using assms(1) by (auto simp: allocated_def)
  have u: "used t x = used s x" "bitmap_blk t x = bitmap_blk s x" for x using used_cong[OF t(1)] preds_core(1)[OF t(1)] t(2) by auto
  then show ?thesis using assms(2) t counts_same[OF t(1,3) u(1)] by (cases r) (auto simp: allocated_def)
qed

lemma over_groups_ok:
  assumes "fs_ok s" "\<forall>g \<in> set gs. g < unat (g_groups s)"
  shows "\<exists>t r. over_groups stop alloc_block_in_group_locked gs ENOSPC s = Some (t, r) \<and> allocated s t r \<and>
    (\<forall>e. r = Inl e \<longrightarrow> counts_ok s \<longrightarrow> (\<forall>g \<in> set gs. bg_free_blocks_count (e_gdt s g) = 0))"
  using assms
proof (induction gs arbitrary: s)
  case Nil
  then show ?case by (simp add: allocated_def)
next
  case (Cons g gs)
  obtain t r where a: "alloc_block_in_group_locked g s = Some (t, r)" "allocated s t r"
    "\<And>e. r = Inl e \<Longrightarrow> counts_ok s \<Longrightarrow> bg_free_blocks_count (e_gdt s g) = 0"
    using alloc_block_ok[of s g] Cons.prems by auto
  show ?case
  proof (cases r)
    case (Inr b)
    then show ?thesis using a by simp
  next
    case (Inl e)
    then have e: "e = ENOSPC" "fs_ok t" "g_groups t = g_groups s" "core_of t = core_of s" "e_gdt t = e_gdt s" "blk_at t = blk_at s"
      using a(2) core_simps(3)[of t s] by (auto simp: allocated_def)
    have u: "used t x = used s x" for x using used_cong[OF e(4)] e(6) by simp
    obtain v q where "over_groups stop alloc_block_in_group_locked gs ENOSPC t = Some (v, q)" "allocated t v q"
      "\<And>e. q = Inl e \<Longrightarrow> counts_ok t \<Longrightarrow> \<forall>g \<in> set gs. bg_free_blocks_count (e_gdt t g) = 0"
      using Cons.IH[OF e(2)] Cons.prems(2) e(3) by auto
    then show ?thesis using a Inl e allocated_after[of s t e] counts_same(1)[OF e(4,5) u] by auto
  qed
qed

lemma alloc_data_block_ok:
  assumes "fs_ok s"
  shows "\<exists>t r. alloc_data_block s = Some (t, r) \<and> allocated s t r \<and> (\<forall>e. r = Inl e \<longrightarrow> counts_ok s \<longrightarrow> spare s = 0)"
proof -
  let ?gs = "0 # [1..<unat (g_groups s)]"
  have g: "set ?gs = {..<unat (g_groups s)}" using assms by (auto simp: fs_ok_def layout_ok_def)
  obtain t r where "alloc_data_block s = Some (t, r)" "allocated s t r"
    "\<And>e. r = Inl e \<Longrightarrow> counts_ok s \<Longrightarrow> \<forall>g \<in> set ?gs. bg_free_blocks_count (e_gdt s g) = 0"
    unfolding alloc_data_block_def using over_groups_ok[OF assms, of ?gs False] unfolding g by blast
  then show ?thesis unfolding spare_def g by auto
qed

section \<open>Writing back\<close>

text \<open>States that differ in the blocks of the super block and the descriptors only.\<close>

definition synced :: "ext2 \<Rightarrow> ext2 \<Rightarrow> bool" where
  "synced s t \<longleftrightarrow> geo t \<and> core_of t = core_of s \<and> (\<forall>x. \<not> sys_blk s x \<longrightarrow> blk_at t x = blk_at s x)"

lemma synced_used:
  assumes "layout_ok s" "synced s t"
  shows "used t b = used s b"
  by (rule used_cong) (use assms in \<open>auto simp: synced_def layout_ok_def\<close>)

lemma synced_fs_ok:
  assumes "fs_ok s" "synced s t"
  shows "fs_ok t"
  by (rule fs_ok_transfer[OF assms(1)]) (use assms synced_used[of s t] in \<open>auto simp: synced_def fs_ok_def\<close>)

lemma synced_trans: "synced s t \<Longrightarrow> synced t v \<Longrightarrow> synced s v"
  using preds_core(3)[of t s] by (auto simp: synced_def)

lemma sync_gdt_ok:
  assumes "geo s" "layout_ok s" "\<forall>i \<in> set is. i < gdt_count s"
  shows "\<exists>t. sync_gdt is s = Some t \<and> synced s t"
  using assms
proof (induction "is" arbitrary: s)
  case Nil
  then show ?case by (auto simp: synced_def)
next
  case (Cons i "is")
  define src where "src = bytes_at (concat (map (\<lambda>g. group_desc_bytes (e_gdt s g)) [0..<unat (g_groups s)])) (i * bsize s) (bsize s)"
  let ?b = "src @ replicate (bsize s - length src) 0 @ drop (bsize s) (e_buf s)"
  have g: "geo s" "layout_ok s" "off_journal s (gdt_block s + of_nat i)" using Cons.prems by (auto simp: layout_ok_def)
  have "length src \<le> bsize s" by (simp add: src_def bytes_at_def)
  then have "length ?b = length (e_buf s)" using eb.buf_len(1)[OF g(1)] by simp
  from eb.put_wr[OF g(1,3) this] obtain t where t: "journaled_write (gdt_block s + of_nat i) (set_buf ?b s) = Some (t, Inr ())"
    "geo t" "rest_of t = rest_of s" "blk_at t = (blk_at s)(gdt_block s + of_nat i := take (bsize s) ?b)" by auto
  have c: "core_of t = core_of s" by (rule rest_core[OF t(3)])
  have st: "synced s t" using Cons.prems t(2,4) c by (auto simp: synced_def sys_blk_def)
  then obtain v where v: "sync_gdt is t = Some v" "synced t v" using Cons.IH[of t] t(2) g(2) Cons.prems(3) preds_core(4)[OF c] layout_core(1)[OF c] by auto
  have "gdt_block (set_buf ?b s) = gdt_block s" by (simp add: gdt_block_def set_buf_def)
  then have "sync_gdt (i # is) s = sync_gdt is t" using t(1) by (simp add: Let_def src_def)
  then show ?case using v synced_trans[OF st] by auto
qed

lemma core_flags [simp]: "core_of (s\<lparr>g_dirty_sb := b\<rparr>) = core_of s" "core_of (s\<lparr>g_dirty_gdt := b\<rparr>) = core_of s"
  "geo (s\<lparr>g_dirty_sb := b\<rparr>) = geo s" "geo (s\<lparr>g_dirty_gdt := b\<rparr>) = geo s" "blk_at (s\<lparr>g_dirty_sb := b\<rparr>) = blk_at s" "blk_at (s\<lparr>g_dirty_gdt := b\<rparr>) = blk_at s"
  by (auto simp: core_of_def geo_def bsize_def blk_at_def off_journal_def fun_eq_iff)

lemma sync_sb_ok:
  assumes "geo s" "layout_ok s"
  shows "synced s ((set_bd (fst (blk_write 2 2 (superblock_bytes (e_sb s) @ replicate 48 0) (j_bd (e_jnl s)))) s)\<lparr>g_dirty_sb := False\<rparr>)"
proof -
  let ?x = "superblock_bytes (e_sb s) @ replicate 48 0" and ?d = "j_bd (e_jnl s)" and ?n = "unat (g_sectors_per_blk s)"
  define e where "e = dev_append (write_ops 2 2 ?x) (?d\<lparr>dev_reqs := dev_reqs ?d + 1\<rparr>)"
  note g = assms
  have w: "fst (blk_write 2 2 ?x ?d) = e" using g(1) by (subst blk_write_ok) (auto simp: geo_def e_def)
  have v: "dev_view e = put_sectors 2 2 ?x (dev_view ?d)" by (simp add: e_def view_write_ops)
  have "disk_ok (dev_view e)" unfolding v using g by (intro disk_ok_put) (auto simp: geo_def layout_ok_def)
  then have ge: "geo (set_bd e s)" using g(1) by (auto simp: geo_def set_bd_def started_def bsize_def e_def)
  have co: "core_of (set_bd e s) = core_of s" by (simp add: core_of_def set_bd_def)
  have "blk_at (set_bd e s) x = blk_at s x" if "\<not> sys_blk s x" for x
  proof -
    have "3 < unat x * ?n" using that by (auto simp: sys_blk_def)
    then have "get_sectors (unat x * ?n) ?n (dev_view e) = get_sectors (unat x * ?n) ?n (dev_view ?d)"
      unfolding v by (intro get_sectors_cong) (simp add: put_sectors_def)
    then show ?thesis unfolding blk_at_def core_simps(1,2,8)[OF co] by (simp add: set_bd_def)
  qed
  then show ?thesis unfolding w using ge co by (auto simp: synced_def)
qed

lemma ext2_sync_ok:
  assumes "geo s" "layout_ok s"
  shows "\<exists>t. ext2_sync_locked s = Some t \<and> synced s t"
proof -
  define s1 where "s1 = (if g_dirty_sb s
    then (set_bd (fst (blk_write 2 2 (superblock_bytes (e_sb s) @ replicate 48 0) (j_bd (e_jnl s)))) s)\<lparr>g_dirty_sb := False\<rparr> else s)"
  have s1: "synced s s1" using sync_sb_ok[OF assms] assms by (auto simp: s1_def synced_def)
  then have f1: "geo s1" "layout_ok s1" using assms(2) layout_core(1)[of s1 s] by (auto simp: synced_def)
  have m: "e_mounted s" using assms(1) by (simp add: geo_def)
  obtain t where t: "sync_gdt [0..<(gdt_bytes s1 + bsize s1 - 1) div bsize s1] s1 = Some t" "synced s1 t"
    using sync_gdt_ok[OF f1, of "[0..<gdt_count s1]"] unfolding gdt_count_def by auto
  have "synced s1 (t\<lparr>g_dirty_gdt := False\<rparr>)" using t(2) by (auto simp: synced_def)
  moreover have "bsize s1 \<noteq> 0" using geo_sectors[OF f1(1)] f1(1) by (auto simp: geo_def)
  moreover have "ext2_sync_locked s = (if \<not> g_dirty_gdt s1 then Some s1 else if bsize s1 = 0 then None
      else Some (t\<lparr>g_dirty_gdt := False\<rparr>))" using m t(1) by (simp add: ext2_sync_locked_def Let_def s1_def[symmetric])
  ultimately show ?thesis using s1 synced_trans[OF s1] by auto
qed

end
