(* ===== verification/Ext2_Data.thy ===== *)
theory Ext2_Data
  imports Ext2_Alloc
begin

text \<open>
  File data of the ext2 driver: the bytes of a file behind its direct blocks, what reading
  returns, and what writing changes, block by block.
\<close>

section \<open>The bytes of a file\<close>

definition fbyte :: "ext2 \<Rightarrow> ext2_inode \<Rightarrow> nat \<Rightarrow> byte" where
  "fbyte s n p = (let b = ei_block n ! (p div bsize s) in if b = 0 then 0 else blk_at s b ! (p mod bsize s))"

definition file_ok :: "ext2 \<Rightarrow> ext2_inode \<Rightarrow> bool" where
  "file_ok s n \<longleftrightarrow> inode_wf n \<and> (\<forall>k < 12. ei_block n ! k \<noteq> 0 \<longrightarrow> used s (ei_block n ! k) \<and> \<not> reserved s (ei_block n ! k)) \<and>
     (\<forall>k < 12. \<forall>l < 12. ei_block n ! k \<noteq> 0 \<and> ei_block n ! k = ei_block n ! l \<longrightarrow> k = l)"

lemma file_ok_mono:
  assumes "file_ok s n" "core_of t = core_of s" "\<And>b. used s b \<Longrightarrow> used t b"
  shows "file_ok t n"
  using assms(1,3) unfolding file_ok_def layout_core(2)[OF assms(2)] by blast

lemma in_chunk:
  fixes p bs i :: nat
  assumes "i < bs - p mod bs"
  shows "(p + i) div bs = p div bs" "(p + i) mod bs = p mod bs + i"
proof -
  have lt: "p mod bs + i < bs" using assms by linarith
  then have nz: "bs \<noteq> 0" by linarith
  have e: "p + i = p mod bs + i + bs * (p div bs)" using mult_div_mod_eq[of bs p] by linarith
  show "(p + i) div bs = p div bs" by (simp only: e div_mult_self2[OF nz] div_less[OF lt] add_0_right)
  show "(p + i) mod bs = p mod bs + i" by (simp only: e mod_mult_self2 mod_less[OF lt])
qed

lemma geo_size:
  assumes "geo s"
  shows "0 < bsize s" "bsize s \<le> 4096" "unat (g_block_size s) = bsize s"
  using assms geo_sectors[OF assms] by (auto simp: geo_def bsize_def)

lemma u32_pos:
  fixes offset :: u32
  assumes "geo s" "unat offset + k < 12 * bsize s"
  shows "unat (offset + of_nat k) = unat offset + k"
proof -
  have "unat offset + k < 2 ^ 32" using assms geo_size(2)[OF assms(1)] by simp
  then have "unat (of_nat (unat offset + k) :: u32) = unat offset + k" by (rule unat_u32_of_nat)
  then show ?thesis by simp
qed

section \<open>Reading\<close>

lemma block_phys_direct:
  assumes "geo s" "unat offset + got < 12 * bsize s"
  shows "inode_block_phys n ((offset + of_nat got) div g_block_size s) s = Some (s, ei_block n ! ((unat offset + got) div bsize s))"
proof -
  have u: "unat ((offset + of_nat got) div g_block_size s) = (unat offset + got) div bsize s"
    by (simp add: unat_div_distrib u32_pos[OF assms] geo_size(3)[OF assms(1)])
  have "(unat offset + got) div bsize s < 12" using assms(2) by (simp add: less_mult_imp_div_less)
  then show ?thesis by (simp add: inode_block_phys_def u EXT2_NDIR_BLOCKS_def)
qed

lemma block_part:
  assumes "geo s" "tk \<le> bsize s - p mod bsize s" "b = ei_block n ! (p div bsize s)"
  shows "map (fbyte s n) [p..<p + tk] = (if b = 0 then replicate tk 0 else bytes_at (blk_at s b) (p mod bsize s) tk)"
proof (rule nth_equalityI)
  have l: "length (blk_at s b) = bsize s" by (rule eb.buf_len(2)[OF assms(1)])
  then show "length (map (fbyte s n) [p..<p + tk]) = length (if b = 0 then replicate tk 0 else bytes_at (blk_at s b) (p mod bsize s) tk)"
    using assms(2) by (simp add: bytes_at_def)
  fix i assume "i < length (map (fbyte s n) [p..<p + tk])"
  then have i: "i < tk" "i < bsize s - p mod bsize s" using assms(2) by auto
  then show "map (fbyte s n) [p..<p + tk] ! i = (if b = 0 then replicate tk 0 else bytes_at (blk_at s b) (p mod bsize s) tk) ! i"
    using in_chunk[OF i(2)] l by (simp add: fbyte_def assms(3) bytes_at_def)
qed

lemma fbyte_same: "blk_at t = blk_at s \<Longrightarrow> bsize t = bsize s \<Longrightarrow> fbyte t n = fbyte s n"
  by (rule ext) (simp add: fbyte_def Let_def)

lemma read_loop_ok:
  assumes "geo s" "file_ok s n" "unat offset + to_read \<le> 12 * bsize s" "got \<le> to_read"
  shows "\<exists>t. read_data_loop n offset to_read got out s =
      Some (t, Inr (out @ map (fbyte s n) [unat offset + got..<unat offset + to_read])) \<and> geo t \<and> blk_at t = blk_at s \<and> rest_of t = rest_of s"
  using assms
proof (induction "to_read - got" arbitrary: got out s rule: less_induct)
  case less
  let ?bs = "bsize s" and ?p = "unat offset + got"
  let ?tk = "min (?bs - ?p mod ?bs) (to_read - got)" and ?b = "ei_block n ! (?p div ?bs)"
  note z = geo_size[OF less.prems(1)]
  show ?case
  proof (cases "to_read \<le> got")
    case True
    then show ?thesis using less.prems by (subst read_data_loop.simps) simp
  next
    case False
    have p: "?p < 12 * ?bs" using False less.prems(3) by linarith
    have io: "unat ((offset + of_nat got) mod g_block_size s) = ?p mod ?bs"
      by (simp add: unat_mod_distrib u32_pos[OF less.prems(1) p] z(3))
    have tk: "0 < ?tk" "?tk \<le> ?bs - ?p mod ?bs" "got + ?tk \<le> to_read" using z(1) False by auto
    have up: "[?p..<unat offset + to_read] = [?p..<?p + ?tk] @ [unat offset + (got + ?tk)..<unat offset + to_read]"
      using upt_add_eq_append[of ?p "?p + ?tk" "to_read - (got + ?tk)"] tk(3) by (simp add: add.assoc)
    have step: "\<exists>s1. geo s1 \<and> blk_at s1 = blk_at s \<and> rest_of s1 = rest_of s \<and>
        read_data_loop n offset to_read got out s = read_data_loop n offset to_read (got + ?tk) (out @ map (fbyte s n) [?p..<?p + ?tk]) s1"
    proof (cases "?b = 0")
      case True
      then show ?thesis using False z(1) less.prems(1) block_part[OF less.prems(1) tk(2) refl, of n]
        by (subst read_data_loop.simps) (auto simp: Let_def block_phys_direct[OF less.prems(1) p] io)
    next
      case nz: False
      have k: "?p div ?bs < 12" using p by (simp add: less_mult_imp_div_less)
      then have oj: "off_journal s ?b" using less.prems(2) nz by (auto simp: file_ok_def reserved_def)
      obtain s1 where r: "read_block ?b s = (s1, True)" "geo s1" "blk_at s1 = blk_at s" "rest_of s1 = rest_of s"
        "take ?bs (e_buf s1) = blk_at s ?b" using eb.rd_ok[OF less.prems(1), of ?b] oj by auto
      have "bytes_at (e_buf s1) (?p mod ?bs) ?tk = bytes_at (blk_at s ?b) (?p mod ?bs) ?tk"
        unfolding r(5)[symmetric] by (rule bytes_at_take[symmetric]) (use tk(2) mod_less_divisor[OF z(1), of ?p] in linarith)
      then show ?thesis using nz r False z(1) block_part[OF less.prems(1) tk(2) refl, of n]
        by (subst read_data_loop.simps) (auto simp: Let_def block_phys_direct[OF less.prems(1) p] io)
    qed
    then obtain s1 where s1: "geo s1" "blk_at s1 = blk_at s" "rest_of s1 = rest_of s"
      "read_data_loop n offset to_read got out s = read_data_loop n offset to_read (got + ?tk) (out @ map (fbyte s n) [?p..<?p + ?tk]) s1"
      by blast
    note c = rest_core[OF s1(3)]
    have d1: "file_ok s1 n" by (rule file_ok_mono[OF less.prems(2) c]) (simp add: used_cong[OF c] s1(2))
    have b1: "unat offset + to_read \<le> 12 * bsize s1" using less.prems(3) core_simps(1)[OF c] by simp
    have m: "to_read - (got + ?tk) < to_read - got" using tk(1) False by linarith
    have f1: "fbyte s1 n = fbyte s n" by (rule fbyte_same[OF s1(2) core_simps(1)[OF c]])
    obtain t where "read_data_loop n offset to_read (got + ?tk) (out @ map (fbyte s n) [?p..<?p + ?tk]) s1 =
        Some (t, Inr ((out @ map (fbyte s n) [?p..<?p + ?tk]) @ map (fbyte s1 n) [unat offset + (got + ?tk)..<unat offset + to_read]))"
      "geo t" "blk_at t = blk_at s1" "rest_of t = rest_of s1"
      using less.hyps[OF m s1(1) d1 b1 tk(3)] by blast
    then show ?thesis using s1 f1 up by simp
  qed
qed

section \<open>Writing\<close>

text \<open>
  One step of a write: the bytes from \<open>p\<close> on become \<open>xs\<close>, all other bytes of the file stay, and
  a block in use that is neither a bitmap nor a block of the file keeps its contents.
\<close>

definition kept :: "ext2 \<Rightarrow> ext2_inode \<Rightarrow> u32 \<Rightarrow> bool" where
  "kept s n b \<longleftrightarrow> used s b \<and> \<not> bitmap_blk s b \<and> b \<notin> set (take 12 (ei_block n)) - {0}"

definition same_head :: "ext2_inode \<Rightarrow> ext2_inode \<Rightarrow> bool" where
  "same_head n m \<longleftrightarrow> (\<exists>bl c. m = n\<lparr>ei_block := bl, ei_blocks := c\<rparr>)"

definition wrote :: "ext2 \<Rightarrow> ext2_inode \<Rightarrow> nat \<Rightarrow> byte list \<Rightarrow> ext2 \<Rightarrow> ext2_inode \<Rightarrow> bool" where
  "wrote s n p xs t m \<longleftrightarrow> fs_ok t \<and> core_of t = core_of s \<and> file_ok t m \<and> same_head n m \<and>
     (\<forall>b. kept s n b \<longrightarrow> blk_at t b = blk_at s b \<and> kept t m b) \<and>
     (\<forall>q < 12 * bsize s. fbyte t m q = (if p \<le> q \<and> q < p + length xs then xs ! (q - p) else fbyte s n q))"

text \<open>What a write that fails leaves: the blocks of the other files.\<close>

definition spared :: "ext2 \<Rightarrow> ext2_inode \<Rightarrow> ext2 \<Rightarrow> bool" where
  "spared s n t \<longleftrightarrow> fs_ok t \<and> core_of t = core_of s \<and> (\<forall>b. kept s n b \<longrightarrow> blk_at t b = blk_at s b \<and> used t b)"

lemma wrote_spared: "wrote s n p xs t m \<Longrightarrow> spared s n t"
  by (auto simp: wrote_def spared_def kept_def)

lemma spared_after: "wrote s n p xs t m \<Longrightarrow> spared t m v \<Longrightarrow> spared s n v"
  by (auto simp: wrote_def spared_def)

text \<open>Exactly \<open>k\<close> blocks less to hand out.\<close>

definition counted :: "ext2 \<Rightarrow> ext2 \<Rightarrow> nat \<Rightarrow> bool" where
  "counted s t k \<longleftrightarrow> (counts_ok s \<longrightarrow> counts_ok t \<and> spare s = spare t + k)"

text \<open>The number of blocks that \<open>k\<close> bytes from position \<open>p\<close> on touch.\<close>

definition blocks_in :: "nat \<Rightarrow> nat \<Rightarrow> nat \<Rightarrow> nat" where
  "blocks_in bs p k = (if k = 0 then 0 else (p + k - 1) div bs - p div bs + 1)"

lemma same_head_trans: "same_head n m \<Longrightarrow> same_head m k \<Longrightarrow> same_head n k"
  unfolding same_head_def by (elim exE) (simp, metis)

lemma take_splice: "i + length xs \<le> m \<Longrightarrow> m \<le> length b \<Longrightarrow> take m (splice b i xs) = splice (take m b) i xs"
  by (simp add: splice_def take_Cons' drop_take min_absorb1 min_absorb2)

lemma direct_index: "q < 12 * bs \<Longrightarrow> q div bs < 12" for q bs :: nat
  by (simp add: less_mult_imp_div_less)

lemma div_mod_ident:
  fixes p q bs k :: nat
  assumes "q div bs = p div bs" "p mod bs \<le> q mod bs" "q mod bs < p mod bs + k"
  shows "p \<le> q \<and> q < p + k \<and> q - p = q mod bs - p mod bs"
proof -
  have "bs * (p div bs) + p mod bs = p" "bs * (p div bs) + q mod bs = q"
    using mult_div_mod_eq[of bs p] mult_div_mod_eq[of bs q] unfolding assms(1) by simp_all
  then show ?thesis using assms(2,3) by linarith
qed

lemma chunk_iff:
  fixes p q bs k :: nat
  assumes "k \<le> bs - p mod bs"
  shows "p \<le> q \<and> q < p + k \<longleftrightarrow> q div bs = p div bs \<and> p mod bs \<le> q mod bs \<and> q mod bs < p mod bs + k"
proof
  assume h: "p \<le> q \<and> q < p + k"
  then have "q - p < bs - p mod bs" "q = p + (q - p)" using assms by linarith+
  then have "q div bs = p div bs" "q mod bs = p mod bs + (q - p)" using in_chunk[of "q - p" bs p] by simp_all
  then show "q div bs = p div bs \<and> p mod bs \<le> q mod bs \<and> q mod bs < p mod bs + k" using h by linarith
qed (use div_mod_ident[of q bs p k] in blast)

lemma splice_fbyte:
  assumes "geo s" "k = length xs" "k \<le> bsize s - p mod bsize s" "length old = bsize s" "q div bsize s = p div bsize s"
  shows "splice old (p mod bsize s) xs ! (q mod bsize s) =
    (if p \<le> q \<and> q < p + k then xs ! (q - p) else old ! (q mod bsize s))"
proof -
  have z: "0 < bsize s" by (rule geo_size(1)[OF assms(1)])
  have "p mod bsize s + length xs \<le> length old" using assms mod_less_divisor[OF z, of p] by linarith
  then have "splice old (p mod bsize s) xs ! (q mod bsize s) =
      (if p mod bsize s \<le> q mod bsize s \<and> q mod bsize s < p mod bsize s + k then xs ! (q mod bsize s - p mod bsize s) else old ! (q mod bsize s))"
    using nth_splice[of "p mod bsize s" xs old "q mod bsize s"] assms(2,4) z by simp
  then show ?thesis using chunk_iff[OF assms(3), of q] div_mod_ident[of q "bsize s" p k] assms(5) by auto
qed

text \<open>Overwriting a part of a block the file has.\<close>

lemma splice_existing_ok:
  assumes "fs_ok s" "file_ok s n" "b = ei_block n ! (p div bsize s)" "b \<noteq> 0" "p < 12 * bsize s" "length xs \<le> bsize s - p mod bsize s"
  shows "\<exists>t. splice_and_journal_locked b (p mod bsize s) xs False s = Some (t, Inr ()) \<and> wrote s n p xs t n \<and> counted s t 0"
proof -
  have g: "geo s" using assms(1) by (simp add: fs_ok_def)
  note z = geo_size[OF g] and k = direct_index[OF assms(5)]
  have b: "used s b" "\<not> reserved s b" "off_journal s b" "\<not> bitmap_blk s b" using assms(2-4) k by (auto simp: file_ok_def reserved_def)
  obtain s1 where r: "read_block b s = (s1, True)" using eb.rd_ok[OF g, of b] by auto
  have i: "p mod bsize s + length xs \<le> bsize s" using assms(6) mod_less_divisor[OF z(1), of p] by linarith
  note m = eb.read_modify_write[OF g b(3) r i]
  obtain t where t: "journaled_write b (set_buf (splice (e_buf s1) (p mod bsize s) xs) s1) = Some (t, Inr ())" "geo t" "rest_of t = rest_of s"
    "blk_at t = (blk_at s)(b := splice (blk_at s b) (p mod bsize s) xs)" using m(2) by blast
  note c = rest_core[OF t(3)]
  have u: "used t x = used s x" for x by (rule used_cong[OF c]) (use t(4) b(4) in auto)
  have f: "fs_ok t" by (rule fs_ok_transfer[OF assms(1) t(2) c]) (simp add: u)
  have "file_ok t n" by (rule file_ok_mono[OF assms(2) c]) (simp add: u)
  moreover have "blk_at t x = blk_at s x \<and> kept t n x" if "kept s n x" for x
  proof -
    have "b \<in> set (take 12 (ei_block n))" using k assms(2,3) by (auto simp: in_set_conv_nth file_ok_def inode_wf_def EXT2_N_BLOCKS_def)
    then show ?thesis using that assms(4) t(4) u preds_core(1)[OF c] by (auto simp: kept_def)
  qed
  moreover have "fbyte t n q = (if p \<le> q \<and> q < p + length xs then xs ! (q - p) else fbyte s n q)" if "q < 12 * bsize s" for q
  proof (cases "q div bsize s = p div bsize s")
    case True
    then show ?thesis using splice_fbyte[OF g refl assms(6) eb.buf_len(2)[OF g, of b] True] assms(3,4) t(4) core_simps(1)[OF c] by (simp add: fbyte_def)
  next
    case False
    then have "ei_block n ! (q div bsize s) \<noteq> b \<or> ei_block n ! (q div bsize s) = 0"
      using assms(2-4) k direct_index[OF that] by (auto simp: file_ok_def)
    then show ?thesis using False chunk_iff[OF assms(6), of q] t(4) core_simps(1)[OF c] by (auto simp: fbyte_def Let_def)
  qed
  moreover have "counted s t 0" using counts_same[OF c _ u] t(3) by (simp add: counted_def rest_of_def)
  ultimately have "wrote s n p xs t n" "counted s t 0" using f c by (auto simp: wrote_def same_head_def intro!: exI[of _ "ei_block n"] exI[of _ "ei_blocks n"])
  moreover have "splice_and_journal_locked b (p mod bsize s) xs False s = Some (t, Inr ())"
    using r m(1) t(1) by (simp add: splice_and_journal_locked_def)
  ultimately show ?thesis by blast
qed

text \<open>Filling a part of a block allocated for a hole of the file; the rest of it is zero.\<close>

lemma file_ok_new_block:
  assumes "file_ok s n" "core_of t = core_of s" "\<And>x. used t x \<longleftrightarrow> x = b \<or> used s x" "\<not> used s b" "\<not> reserved s b" "k < 12"
  shows "file_ok t (n\<lparr>ei_block := (ei_block n)[k := b], ei_blocks := c\<rparr>)"
proof -
  have l: "length (ei_block n) = 15" using assms(1) by (simp add: file_ok_def inode_wf_def EXT2_N_BLOCKS_def)
  have nb: "ei_block n ! i \<noteq> b" if "i < 12" "ei_block n ! i \<noteq> 0" for i using assms(1,4) that by (auto simp: file_ok_def)
  have "used t ((ei_block n)[k := b] ! i) \<and> \<not> reserved s ((ei_block n)[k := b] ! i)" if "i < 12" "(ei_block n)[k := b] ! i \<noteq> 0" for i
    using assms l that by (cases "i = k") (auto simp: file_ok_def)
  moreover have "i = j" if "i < 12" "j < 12" "(ei_block n)[k := b] ! i \<noteq> 0" "(ei_block n)[k := b] ! i = (ei_block n)[k := b] ! j" for i j
    using that assms(1,6) l nb[of i] nb[of j] by (cases "i = k"; cases "j = k") (auto simp: file_ok_def)
  moreover have "inode_wf (n\<lparr>ei_block := (ei_block n)[k := b], ei_blocks := c\<rparr>)" using assms(1) by (simp add: file_ok_def inode_wf_def)
  ultimately show ?thesis unfolding file_ok_def layout_core(2)[OF assms(2)] by auto
qed

lemma splice_new_ok:
  assumes "fs_ok s" "file_ok s n" "ei_block n ! (p div bsize s) = 0" "p < 12 * bsize s" "length xs \<le> bsize s - p mod bsize s"
    and "allocated s s1 (Inr b)"
  shows "\<exists>t. splice_and_journal_locked b (p mod bsize s) xs True s1 = Some (t, Inr ()) \<and>
    wrote s n p xs t (n\<lparr>ei_block := (ei_block n)[p div bsize s := b], ei_blocks := c\<rparr>) \<and> counted s t 1"
proof -
  let ?i = "p mod bsize s" and ?m = "n\<lparr>ei_block := (ei_block n)[p div bsize s := b], ei_blocks := c\<rparr>"
  have a: "fs_ok s1" "core_of s1 = core_of s" "\<not> used s b" "\<And>x. used s1 x \<longleftrightarrow> x = b \<or> used s x" "\<And>x. \<not> bitmap_blk s x \<Longrightarrow> blk_at s1 x = blk_at s x"
    using assms(6) by (auto simp: allocated_def)
  have g: "geo s" "geo s1" using assms(1) a(1) by (auto simp: fs_ok_def)
  note z = geo_size[OF g(1)] and k = direct_index[OF assms(4)] and c1 = core_simps[OF a(2)]
  have nr: "\<not> reserved s b" using assms(1) a(3) by (auto simp: fs_ok_def)
  then have b: "off_journal s b" "b \<noteq> 0" "\<not> bitmap_blk s b" by (auto simp: reserved_def)
  have i: "?i + length xs \<le> bsize s" using assms(5) mod_less_divisor[OF z(1), of p] by linarith
  let ?y = "replicate (bsize s) 0 @ drop (bsize s) (e_buf s1)"
  have ly: "length ?y = length (e_buf s1)" using eb.buf_len(1)[OF g(2)] c1(1) by simp
  then have "length (splice ?y ?i xs) = length (e_buf s1)" using i by (subst length_splice) simp_all
  then obtain t where t: "journaled_write b (set_buf (splice ?y ?i xs) s1) = Some (t, Inr ())" "geo t" "rest_of t = rest_of s1"
    "blk_at t = (blk_at s1)(b := take (bsize s1) (splice ?y ?i xs))" using eb.put_wr[OF g(2), of b] b(1) c1(2) by blast
  have c: "core_of t = core_of s" using rest_core[OF t(3)] a(2) by simp
  have tb: "blk_at t b = splice (replicate (bsize s) 0) ?i xs" using t(4) c1(1) i by (simp add: take_splice)
  have u1: "used t x = used s1 x" for x by (rule used_cong[OF rest_core[OF t(3)]]) (use t(4) b(3) preds_core(1)[OF a(2)] in auto)
  then have u: "used t x \<longleftrightarrow> x = b \<or> used s x" for x using a(4) by simp
  have cn: "counted s t 1"
    using counts_same[OF rest_core[OF t(3)] _ u1] t(3) assms(6) by (simp add: counted_def rest_of_def allocated_def)
  have f: "fs_ok t" by (rule fs_ok_transfer[OF assms(1) t(2) c]) (simp add: u)
  have "blk_at t x = blk_at s x \<and> kept t ?m x" if "kept s n x" for x
  proof -
    have "x \<noteq> b" "\<not> bitmap_blk s x" using that a(3) by (auto simp: kept_def)
    moreover have "set (take 12 (ei_block ?m)) \<subseteq> insert b (set (take 12 (ei_block n)))"
      using set_update_subset_insert[of "take 12 (ei_block n)"] by (simp add: take_update_swap)
    ultimately show ?thesis using that t(4) a(5) u preds_core(1)[OF c] by (auto simp: kept_def)
  qed
  moreover have "fbyte t ?m q = (if p \<le> q \<and> q < p + length xs then xs ! (q - p) else fbyte s n q)" if "q < 12 * bsize s" for q
  proof (cases "q div bsize s = p div bsize s")
    case True
    have "p div bsize s < length (ei_block n)" using k assms(2) by (simp add: file_ok_def inode_wf_def EXT2_N_BLOCKS_def)
    then show ?thesis using splice_fbyte[OF g(1) refl assms(5) length_replicate True] b(2) assms(3) tb True core_simps(1)[OF c] z(1)
      by (simp add: fbyte_def)
  next
    case False
    have "blk_at t (ei_block n ! (q div bsize s)) = blk_at s (ei_block n ! (q div bsize s))" if "ei_block n ! (q div bsize s) \<noteq> 0"
      using that assms(2) direct_index[OF \<open>q < 12 * bsize s\<close>] a(3,5) t(4) by (auto simp: file_ok_def reserved_def)
    then show ?thesis using False chunk_iff[OF assms(5), of q] core_simps(1)[OF c] by (auto simp: fbyte_def Let_def)
  qed
  ultimately have "wrote s n p xs t ?m"
    using f c file_ok_new_block[OF assms(2) c u a(3) nr k, of c] by (auto simp: wrote_def same_head_def)
  moreover have "splice_and_journal_locked b ?i xs True s1 = Some (t, Inr ())"
    using t(1) i ly c1(1) eb.buf_len(1)[OF g(2)] by (simp add: splice_and_journal_locked_def put_bytes_def)
  ultimately show ?thesis using cn by blast
qed

lemma wrote_trans:
  assumes "wrote s n p xs t m" "wrote t m (p + length xs) ys v k"
  shows "wrote s n p (xs @ ys) v k"
proof -
  have c: "core_of t = core_of s" "core_of v = core_of s" using assms by (auto simp: wrote_def)
  have "fbyte v k q = (if p \<le> q \<and> q < p + length (xs @ ys) then (xs @ ys) ! (q - p) else fbyte s n q)" if "q < 12 * bsize s" for q
    using assms that core_simps(1)[OF c(1)] by (auto simp: wrote_def nth_append)
  moreover have "same_head n k" using assms by (auto simp: wrote_def intro: same_head_trans)
  ultimately show ?thesis using assms c by (auto simp: wrote_def)
qed

lemma drop_bytes_at: "drop w src = bytes_at src w k @ drop (w + k) src"
  unfolding bytes_at_def by (metis append_take_drop_id drop_drop add.commute)

lemma blocks_in_step:
  fixes p k bs tk :: nat
  assumes "0 < bs" "0 < k" "tk = min (bs - p mod bs) k"
  shows "blocks_in bs p k = 1 + blocks_in bs (p + tk) (k - tk)"
proof (cases "tk = k")
  case True
  then have "k - 1 < bs - p mod bs" using assms by linarith
  from in_chunk(1)[OF this] show ?thesis using True assms(2) by (simp add: blocks_in_def)
next
  case False
  then have t: "tk = bs - p mod bs" "tk < k" using assms by auto
  have "p + tk = bs * (p div bs) + bs" using mult_div_mod_eq[of bs p] mod_less_divisor[OF assms(1), of p] t(1) by linarith
  then have q: "(p + tk) div bs = p div bs + 1" using assms(1) by simp
  have "p + tk \<le> p + k - 1" using t(2) by linarith
  from div_le_mono[OF this, of bs] show ?thesis using q t(2) by (simp add: blocks_in_def)
qed

text \<open>
  The loop: it stores everything, or stops with \<open>ENOSPC\<close> and has left the other blocks alone; it
  stops only if there are fewer blocks to hand out than the rest of the range touches.
\<close>

lemma write_loop_ok:
  assumes "fs_ok s" "file_ok s n" "unat offset + length src \<le> 12 * bsize s" "w \<le> length src"
  shows "\<exists>t r. write_data_loop offset src w n s = Some (t, r) \<and>
    (case r of
       Inl e \<Rightarrow> e = ENOSPC \<and> spared s n t \<and> (counts_ok s \<longrightarrow> spare s < blocks_in (bsize s) (unat offset + w) (length src - w))
     | Inr m \<Rightarrow> wrote s n (unat offset + w) (drop w src) t m)"
  using assms
proof (induction "length src - w" arbitrary: w n s rule: less_induct)
  case less
  let ?bs = "bsize s" and ?p = "unat offset + w"
  let ?tk = "min (?bs - ?p mod ?bs) (length src - w)" and ?b = "ei_block n ! (?p div ?bs)"
  show ?case
  proof (cases "length src \<le> w")
    case True
    have "same_head n n" by (auto simp: same_head_def intro!: exI[of _ "ei_block n"] exI[of _ "ei_blocks n"])
    then show ?thesis using True less.prems by (subst write_data_loop.simps) (auto simp: wrote_def)
  next
    case False
    have g: "geo s" using less.prems(1) by (simp add: fs_ok_def)
    note z = geo_size[OF g]
    have p: "?p < 12 * ?bs" using False less.prems(3) by linarith
    let ?xs = "bytes_at src w ?tk"
    have lx: "length ?xs = ?tk" by (simp add: bytes_at_def)
    have dr: "drop w src = ?xs @ drop (w + ?tk) src" by (rule drop_bytes_at)
    have tk: "0 < ?tk" "?tk \<le> ?bs - ?p mod ?bs" "w + ?tk \<le> length src" using z(1) False by auto
    have bl: "blocks_in ?bs ?p (length src - w) = 1 + blocks_in ?bs (unat offset + (w + ?tk)) (length src - (w + ?tk))"
      using blocks_in_step[OF z(1) _ refl, of "length src - w" ?p] False by (simp add: add.assoc)
    have rec: "\<exists>v r. write_data_loop offset src (w + ?tk) m t = Some (v, r) \<and>
        (case r of
           Inl e \<Rightarrow> e = ENOSPC \<and> spared s n v \<and> (counts_ok s \<longrightarrow> spare s < blocks_in ?bs ?p (length src - w))
         | Inr k \<Rightarrow> wrote s n ?p (drop w src) v k)" if "wrote s n ?p ?xs t m" "counted s t c" "c \<le> 1" for t m c
    proof -
      have t: "fs_ok t" "file_ok t m" "bsize t = bsize s" using that(1) core_simps(1)[of t s] by (auto simp: wrote_def)
      have "length src - (w + ?tk) < length src - w" using tk(1) False by linarith
      moreover have "unat offset + length src \<le> 12 * bsize t" using less.prems(3) t(3) by simp
      ultimately obtain v r where v: "write_data_loop offset src (w + ?tk) m t = Some (v, r)"
        "case r of Inl e \<Rightarrow> e = ENOSPC \<and> spared t m v \<and> (counts_ok t \<longrightarrow> spare t < blocks_in ?bs (unat offset + (w + ?tk)) (length src - (w + ?tk)))
           | Inr k \<Rightarrow> wrote t m (unat offset + (w + ?tk)) (drop (w + ?tk) src) v k"
        using less.hyps[OF _ t(1,2) _ tk(3)] unfolding t(3) by blast
      show ?thesis
      proof (cases r)
        case (Inl e)
        then show ?thesis using v spared_after[OF that(1), of v] that(2,3) by (auto simp: bl counted_def)
      next
        case (Inr k)
        then show ?thesis using v wrote_trans[OF that(1), of "drop (w + ?tk) src" v k] lx dr by (simp add: add.assoc)
      qed
    qed
    show ?thesis
    proof (cases "?b = 0")
      case nz: False
      obtain t where t: "splice_and_journal_locked ?b (?p mod ?bs) ?xs False s = Some (t, Inr ())" "wrote s n ?p ?xs t n" "counted s t 0"
        using splice_existing_ok[OF less.prems(1,2) refl nz p, of ?xs] lx tk(2) by auto
      then show ?thesis using rec[OF t(2,3)] False z(1) nz by (subst write_data_loop.simps) (simp add: Let_def)
    next
      case True
      obtain s1 r where a: "alloc_data_block s = Some (s1, r)" "allocated s s1 r" "\<And>e. r = Inl e \<Longrightarrow> counts_ok s \<Longrightarrow> spare s = 0"
        using alloc_data_block_ok[OF less.prems(1)] by blast
      show ?thesis
      proof (cases r)
        case (Inl e)
        then have f: "fs_ok s1" "core_of s1 = core_of s" "blk_at s1 = blk_at s" "e = ENOSPC" using a(2) by (auto simp: allocated_def)
        then have "spared s n s1" using used_cong[OF f(2)] by (auto simp: spared_def kept_def)
        then show ?thesis using a Inl f(4) True False z(1) by (subst write_data_loop.simps) (simp add: Let_def bl)
      next
        case (Inr b)
        let ?m = "n\<lparr>ei_block := (ei_block n)[?p div ?bs := b], ei_blocks := ei_blocks n + g_block_size s1 div 512\<rparr>"
        obtain t where t: "splice_and_journal_locked b (?p mod ?bs) ?xs True s1 = Some (t, Inr ())" "wrote s n ?p ?xs t ?m" "counted s t 1"
          using splice_new_ok[OF less.prems(1,2) True p _ a(2)[unfolded Inr], of ?xs] lx tk(2) by auto
        then show ?thesis using rec[OF t(2,3)] a(1) Inr True False z(1) by (subst write_data_loop.simps) (simp add: Let_def)
      qed
    qed
  qed
qed

text \<open>Storing the inode and writing back keep the data of every file.\<close>

lemma stored_inode_ok:
  assumes "fs_ok s" "inode_slot s ino blk off" "inode_wf n"
  shows "\<exists>t v. write_inode_locked ino n s = Some (t, Inr ()) \<and> ext2_sync_locked t = Some v \<and> fs_ok v \<and> core_of v = core_of s \<and>
    inode_at v blk off = n \<and> (\<forall>b. used v b = used s b) \<and> (\<forall>b. \<not> reserved s b \<longrightarrow> blk_at v b = blk_at s b) \<and>
    (\<forall>b. itable_blk s b \<longrightarrow> blk_at v b = (if b = blk then splice (blk_at s b) off (inode_bytes n) else blk_at s b))"
proof -
  have g: "geo s" "layout_ok s" "itable_blk s blk" using assms(1,2) by (auto simp: fs_ok_def itable_blk_def)
  then have b: "off_journal s blk" "\<not> bitmap_blk s blk" "\<not> sys_blk s blk" by (auto simp: layout_ok_def)
  obtain t where t: "write_inode_locked ino n s = Some (t, Inr ())" "geo t" "rest_of t = rest_of s"
    "blk_at t = (blk_at s)(blk := splice (blk_at s blk) off (inode_bytes n))" using write_inode_ok[OF g(1) assms(2) b(1) assms(3)] by blast
  note c = rest_core[OF t(3)]
  have u: "used t x = used s x" for x by (rule used_cong[OF c]) (use t(4) b(2) in auto)
  have f: "fs_ok t" by (rule fs_ok_transfer[OF assms(1) t(2) c]) (simp add: u)
  have lt: "layout_ok t" using layout_core(1)[OF c] g(2) by simp
  obtain v where v: "ext2_sync_locked t = Some v" "synced t v" using ext2_sync_ok[OF t(2) lt] by blast
  then have y: "fs_ok v" "core_of v = core_of t" "\<And>x. \<not> sys_blk s x \<Longrightarrow> blk_at v x = blk_at t x"
    using preds_core(3)[OF c] synced_fs_ok[OF f v(2)] by (auto simp: synced_def)
  have "used v x = used t x" for x by (rule synced_used[OF lt v(2)])
  moreover have "inode_at v blk off = n"
    using inode_at_written[OF g(1) _ assms(3), of off v blk] y(3)[OF b(3)] t(4) assms(2) by (simp add: inode_slot_def)
  moreover have "blk_at v x = blk_at s x" if "\<not> reserved s x" for x
    using that y(3)[of x] t(4) g(3) by (auto simp: reserved_def)
  moreover have "blk_at v x = (if x = blk then splice (blk_at s x) off (inode_bytes n) else blk_at s x)" if "itable_blk s x" for x
    using y(3)[of x] t(4) g(2) that by (simp add: layout_ok_def)
  ultimately show ?thesis using t v y u c by auto
qed

lemma fbyte_kept:
  assumes "file_ok s n" "core_of t = core_of s" "\<And>b. \<not> reserved s b \<Longrightarrow> blk_at t b = blk_at s b" "p < 12 * bsize s"
  shows "fbyte t n p = fbyte s n p"
  using assms(1,3) direct_index[OF assms(4)] core_simps(1)[OF assms(2)] by (auto simp: fbyte_def Let_def file_ok_def)

definition data_inode :: "ext2_inode \<Rightarrow> u32 \<Rightarrow> u32 \<Rightarrow> ext2_inode" where
  "data_inode n end now = (if ei_size n < end then n\<lparr>ei_size := end\<rparr> else n)\<lparr>ei_mtime := now, ei_ctime := now\<rparr>"

lemma data_inode_simps [simp]: "ei_block (data_inode n e now) = ei_block n" "ei_mode (data_inode n e now) = ei_mode n"
  "inode_wf (data_inode n e now) = inode_wf n" "ei_size (data_inode n e now) = max (ei_size n) e"
  by (auto simp: data_inode_def inode_wf_def max_def)

lemma file_ok_blocks: "ei_block m = ei_block n \<Longrightarrow> inode_wf m \<Longrightarrow> file_ok s n \<Longrightarrow> file_ok s m \<and> fbyte s m = fbyte s n"
  by (auto simp: file_ok_def fbyte_def fun_eq_iff)

lemma write_data_ok:
  assumes "fs_ok s" "inode_slot s ino blk off" "n = inode_at s blk off" "ei_mode n AND EXT2_S_IFMT = EXT2_S_IFREG" "file_ok s n"
    and "src \<noteq> []" "unat offset + length src \<le> 12 * bsize s"
  shows "\<exists>v r. ext2_inode_write_data ino (Some src) offset now s = Some (v, r) \<and>
    (case r of
       Inl e \<Rightarrow> e = ENOSPC \<and> spared s n v \<and> (counts_ok s \<longrightarrow> spare s < blocks_in (bsize s) (unat offset) (length src))
     | Inr k \<Rightarrow> k = length src \<and> (\<exists>t m. wrote s n (unat offset) src t m \<and> fs_ok v \<and> core_of v = core_of t \<and>
       inode_at v blk off = data_inode m (offset + of_nat (length src)) now \<and> (\<forall>b. used v b = used t b) \<and>
       (\<forall>b. \<not> reserved t b \<longrightarrow> blk_at v b = blk_at t b) \<and>
       (\<forall>b. itable_blk t b \<longrightarrow> blk_at v b =
          (if b = blk then splice (blk_at t b) off (inode_bytes (data_inode m (offset + of_nat (length src)) now)) else blk_at t b))))"
proof -
  have g: "geo s" "layout_ok s" "itable_blk s blk" using assms(1,2) by (auto simp: fs_ok_def itable_blk_def)
  then have oj: "off_journal s blk" by (auto simp: layout_ok_def)
  obtain s1 where r: "read_inode ino s = Some (s1, Inr n)" "geo s1" "blk_at s1 = blk_at s" "rest_of s1 = rest_of s"
    using read_inode_ok[OF g(1) assms(2) oj] assms(3) by auto
  note c = rest_core[OF r(4)]
  have u: "used s1 x = used s x" for x by (rule used_cong[OF c]) (simp add: r(3))
  have f: "fs_ok s1" by (rule fs_ok_transfer[OF assms(1) r(2) c]) (simp add: u)
  have d: "file_ok s1 n" by (rule file_ok_mono[OF assms(5) c]) (simp add: u)
  obtain t q where w: "write_data_loop offset src 0 n s1 = Some (t, q)"
    "case q of Inl e \<Rightarrow> e = ENOSPC \<and> spared s1 n t \<and> (counts_ok s1 \<longrightarrow> spare s1 < blocks_in (bsize s) (unat offset) (length src))
       | Inr m \<Rightarrow> wrote s1 n (unat offset) src t m"
    using write_loop_ok[OF f d, of offset src 0] assms(7) unfolding drop_0 add_0_right diff_zero core_simps(1)[OF c] by blast
  have k1: "kept s1 x b = kept s x b" for x b using u preds_core(1)[OF c] by (simp add: kept_def)
  have gd: "e_gdt s1 = e_gdt s" using r(4) by (simp add: rest_of_def)
  have e: "ext2_inode_write_data ino (Some src) offset now s = (case q of Inl e \<Rightarrow> Some (t, Inl e)
      | Inr m \<Rightarrow> (case write_inode_locked ino (data_inode m (offset + of_nat (length src)) now) t of None \<Rightarrow> None
         | Some (t, Inl e) \<Rightarrow> Some (t, Inl e)
         | Some (t, Inr _) \<Rightarrow> (case ext2_sync_locked t of None \<Rightarrow> None | Some v \<Rightarrow> Some (v, Inr (length src)))))"
    using g(1) assms(4,6,7) r(1) w(1)
    by (auto simp: ext2_inode_write_data_def geo_def EXT2_NDIR_BLOCKS_def Let_def data_inode_def split: sum.splits option.splits Option.bind_splits)
  show ?thesis
  proof (cases q)
    case (Inl x)
    then have "spared s n t" using w(2) c k1 r(3) by (auto simp: spared_def)
    then show ?thesis using Inl e w(2) counts_same[OF c gd u] by simp
  next
    case (Inr m)
    then have wr: "wrote s1 n (unat offset) src t m" using w(2) by simp
    then have t: "fs_ok t" "core_of t = core_of s1" "inode_wf m" by (auto simp: wrote_def file_ok_def)
    have sl: "inode_slot t ino blk off" using assms(2) inode_slot_core[OF t(2)] inode_slot_core[OF c] by simp
    obtain a v where a: "write_inode_locked ino (data_inode m (offset + of_nat (length src)) now) t = Some (a, Inr ())" "ext2_sync_locked a = Some v"
      "fs_ok v" "core_of v = core_of t" "inode_at v blk off = data_inode m (offset + of_nat (length src)) now"
      "\<forall>b. used v b = used t b" "\<forall>b. \<not> reserved t b \<longrightarrow> blk_at v b = blk_at t b"
      "\<forall>b. itable_blk t b \<longrightarrow> blk_at v b =
         (if b = blk then splice (blk_at t b) off (inode_bytes (data_inode m (offset + of_nat (length src)) now)) else blk_at t b)"
      using stored_inode_ok[OF t(1) sl, of "data_inode m (offset + of_nat (length src)) now"] t(3) by auto
    have "fbyte s1 x q = fbyte s x q" "bsize s1 = bsize s" for x q
      using fbyte_same[OF r(3) core_simps(1)[OF c]] core_simps(1)[OF c] by auto
    then have "wrote s n (unat offset) src t m" using wr c r(3) k1 by (simp add: wrote_def)
    note wr' = this
    have "ext2_inode_write_data ino (Some src) offset now s = Some (v, Inr (length src))" using e Inr a(1,2) by simp
    then show ?thesis
      by (intro exI[of _ v] exI[of _ "Inr (length src)"] conjI, assumption, unfold sum.case, intro exI[of _ t] exI[of _ m] conjI)
        (use wr' a(3-) in blast)+
  qed
qed

section \<open>Other inodes\<close>

text \<open>
  The inode tables of the groups lie apart, and no offset in a table wraps.
\<close>

definition itable_span :: "ext2 \<Rightarrow> nat \<Rightarrow> u32 set" where
  "itable_span s g = (\<lambda>i. bg_inode_table (e_gdt s g) + of_nat i) ` {i. i * bsize s < unat (g_inodes_per_group s) * unat (g_inode_size s)}"

definition itables_ok :: "ext2 \<Rightarrow> bool" where
  "itables_ok s \<longleftrightarrow> unat (g_inodes_per_group s) * unat (g_inode_size s) < 2 ^ 32 \<and>
     (\<forall>g < unat (g_groups s). \<forall>h < unat (g_groups s). g \<noteq> h \<longrightarrow> itable_span s g \<inter> itable_span s h = {})"

lemma slot_place:
  assumes "itables_ok s" "geo s" "inode_slot s ino blk off"
  obtains g k where "g < unat (g_groups s)" "k < unat (g_inodes_per_group s)" "unat (ino - 1) = g * unat (g_inodes_per_group s) + k"
    "blk = bg_inode_table (e_gdt s g) + of_nat (k * unat (g_inode_size s) div bsize s)" "off = k * unat (g_inode_size s) mod bsize s"
proof -
  let ?n = "g_inodes_per_group s" and ?z = "g_inode_size s"
  define g k where "g = unat ((ino - 1) div ?n)" and "k = unat ((ino - 1) mod ?n)"
  have nz: "?n \<noteq> 0" "g < unat (g_groups s)"
    and b: "blk = bg_inode_table (e_gdt s g) + ((ino - 1) mod ?n * ?z) div g_block_size s" "off = unat (((ino - 1) mod ?n * ?z) mod g_block_size s)"
    using assms(3) by (auto simp: inode_slot_def inode_place_def Let_def g_def split: if_splits)
  have k: "k < unat ?n" using nz(1) by (simp add: k_def unat_mod_distrib unat_gt_0)
  then have "k * unat ?z \<le> unat ?n * unat ?z" by (intro mult_le_mono1) simp
  then have "k * unat ?z < 2 ^ 32" using assms(1) unfolding itables_ok_def by (blast intro: le_less_trans)
  then have o: "unat ((ino - 1) mod ?n * ?z) = k * unat ?z" by (simp add: unat_word_ariths k_def)
  have d: "((ino - 1) mod ?n * ?z) div g_block_size s = of_nat (k * unat ?z div bsize s)"
    by (rule word_unat_eq_iff[THEN iffD2], subst unat_u32_of_nat)
      (use \<open>k * unat ?z < 2 ^ 32\<close> o geo_size(3)[OF assms(2)] in \<open>auto simp: unat_div_distrib intro: le_less_trans[OF div_le_dividend]\<close>)
  have "unat (ino - 1) = g * unat ?n + k" unfolding g_def k_def unat_div_distrib unat_mod_distrib by simp
  moreover have "off = k * unat ?z mod bsize s" using b(2) o geo_size(3)[OF assms(2)] by (simp add: unat_mod_distrib)
  ultimately show thesis using that nz(2) k b(1) d by simp
qed

lemma slots_apart:
  assumes "itables_ok s" "geo s" "inode_slot s ino blk off" "inode_slot s ino' blk off'" "ino' \<noteq> ino"
  shows "off + 128 \<le> off' \<or> off' + 128 \<le> off"
proof -
  let ?n = "unat (g_inodes_per_group s)" and ?z = "unat (g_inode_size s)" and ?bs = "bsize s"
  obtain g k where p: "g < unat (g_groups s)" "k < ?n" "unat (ino - 1) = g * ?n + k"
    "blk = bg_inode_table (e_gdt s g) + of_nat (k * ?z div ?bs)" "off = k * ?z mod ?bs" by (rule slot_place[OF assms(1-3)])
  obtain h l where q: "h < unat (g_groups s)" "l < ?n" "unat (ino' - 1) = h * ?n + l"
    "blk = bg_inode_table (e_gdt s h) + of_nat (l * ?z div ?bs)" "off' = l * ?z mod ?bs" by (rule slot_place[OF assms(1,2,4)])
  have z: "128 \<le> ?z" "?n * ?z < 2 ^ 32" using assms(1,3) by (auto simp: inode_slot_def itables_ok_def)
  have lt: "i * ?z < ?n * ?z" if "i < ?n" for i using that z(1) by simp
  have sp: "i * ?z div ?bs * ?bs < ?n * ?z" if "i < ?n" for i using lt[OF that] div_times_less_eq_dividend[of "i * ?z" ?bs] by linarith
  then have "blk \<in> itable_span s g" "blk \<in> itable_span s h"
    unfolding itable_span_def using p(2,4) q(2,4) by blast+
  then have gh: "g = h" using assms(1) p(1) q(1) unfolding itables_ok_def by blast
  have u: "unat (of_nat (i * ?z div ?bs) :: u32) = i * ?z div ?bs" if "i < ?n" for i
    using lt[OF that] z(2) div_le_dividend[of "i * ?z" ?bs] by (intro unat_u32_of_nat) linarith
  have "of_nat (k * ?z div ?bs) = (of_nat (l * ?z div ?bs) :: u32)" using p(4) q(4) gh by simp
  then have d: "k * ?z div ?bs = l * ?z div ?bs" using u[OF p(2)] u[OF q(2)] by metis
  have "ino' - 1 \<noteq> ino - 1" using assms(5) by simp
  then have "k \<noteq> l" using p(3) q(3) gh by (auto simp: word_unat_eq_iff)
  moreover have "k * ?z + 128 \<le> l * ?z" if "k < l"
    using mult_le_mono1[of "k + 1" l ?z] that z(1) by simp
  moreover have "l * ?z + 128 \<le> k * ?z" if "l < k"
    using mult_le_mono1[of "l + 1" k ?z] that z(1) by simp
  moreover have "k * ?z = k * ?z div ?bs * ?bs + off" "l * ?z = k * ?z div ?bs * ?bs + off'"
    using p(5) q(5) d div_mult_mod_eq[of "k * ?z" ?bs] div_mult_mod_eq[of "l * ?z" ?bs] by simp_all
  ultimately show ?thesis by linarith
qed

lemma bytes_beside_splice:
  assumes "i + 128 \<le> j \<or> j + 128 \<le> i" "length xs = 128" "i + 128 \<le> length b"
  shows "bytes_at (splice b i xs) j 128 = bytes_at b j 128"
  using assms
proof (elim disjE)
  assume "i + 128 \<le> j"
  then show ?thesis using assms(2,3) by (simp add: splice_def bytes_at_def)
next
  assume "j + 128 \<le> i"
  then show ?thesis using assms(2,3) by (simp add: splice_def bytes_at_def drop_take)
qed

text \<open>A block of an inode table is none of the file's, so the data loop keeps it.\<close>

lemma itable_kept: "fs_ok s \<Longrightarrow> file_ok s n \<Longrightarrow> itable_blk s b \<Longrightarrow> kept s n b"
  by (auto simp: fs_ok_def layout_ok_def file_ok_def kept_def reserved_def in_set_conv_nth)

lemma other_block_kept:
  "file_ok s m \<Longrightarrow> k < 12 \<Longrightarrow> ei_block m ! k \<noteq> 0 \<Longrightarrow> ei_block m ! k \<notin> set (take 12 (ei_block n)) \<Longrightarrow> kept s n (ei_block m ! k)"
  by (auto simp: file_ok_def kept_def reserved_def)

text \<open>What a write leaves of another inode: its bytes in the table and the blocks of its file.\<close>

lemma write_keeps_inode:
  assumes "fs_ok s" "itables_ok s" "inode_slot s ino blk off" "ei_mode (inode_at s blk off) AND EXT2_S_IFMT = EXT2_S_IFREG"
    and "file_ok s (inode_at s blk off)" "src \<noteq> []" "unat offset + length src \<le> 12 * bsize s"
    and "inode_slot s ino' blk' off'" "ino' \<noteq> ino" "m = inode_at s blk' off'" "file_ok s m"
    and "\<forall>i < 12. ei_block m ! i \<noteq> 0 \<longrightarrow> ei_block m ! i \<notin> set (take 12 (ei_block (inode_at s blk off)))"
  shows "\<exists>v r. ext2_inode_write_data ino (Some src) offset now s = Some (v, r) \<and> fs_ok v \<and> core_of v = core_of s \<and>
    inode_at v blk' off' = m \<and> file_ok v m \<and> (\<forall>k < 12. ei_block m ! k \<noteq> 0 \<longrightarrow> blk_at v (ei_block m ! k) = blk_at s (ei_block m ! k))"
proof -
  let ?n = "inode_at s blk off"
  have g: "geo s" using assms(1) by (simp add: fs_ok_def)
  have it: "itable_blk s blk'" using assms(8) by (auto simp: itable_blk_def)
  note kt = itable_kept[OF assms(1,5) it]
  have ko: "kept s ?n (ei_block m ! k)" if "k < 12" "ei_block m ! k \<noteq> 0" for k
    using other_block_kept[OF assms(11) that] assms(12) that by blast
  have okay: "file_ok v m" if "core_of v = core_of s" "\<And>k. k < 12 \<Longrightarrow> ei_block m ! k \<noteq> 0 \<Longrightarrow> used v (ei_block m ! k)" for v
    using assms(11) that(2) unfolding file_ok_def layout_core(2)[OF that(1)] by blast
  obtain v r where w: "ext2_inode_write_data ino (Some src) offset now s = Some (v, r)"
    "case r of
       Inl e \<Rightarrow> e = ENOSPC \<and> spared s ?n v \<and> (counts_ok s \<longrightarrow> spare s < blocks_in (bsize s) (unat offset) (length src))
     | Inr k \<Rightarrow> k = length src \<and> (\<exists>t m. wrote s ?n (unat offset) src t m \<and> fs_ok v \<and> core_of v = core_of t \<and>
       inode_at v blk off = data_inode m (offset + of_nat (length src)) now \<and> (\<forall>b. used v b = used t b) \<and>
       (\<forall>b. \<not> reserved t b \<longrightarrow> blk_at v b = blk_at t b) \<and>
       (\<forall>b. itable_blk t b \<longrightarrow> blk_at v b =
          (if b = blk then splice (blk_at t b) off (inode_bytes (data_inode m (offset + of_nat (length src)) now)) else blk_at t b)))"
    using write_data_ok[OF assms(1,3) refl assms(4-7), of now] by blast
  show ?thesis
  proof (cases r)
    case (Inl e)
    then have f: "spared s ?n v" using w(2) by simp
    then have "inode_at v blk' off' = m" using kt assms(10) by (simp add: spared_def inode_at_def)
    then show ?thesis using w(1) f ko okay by (auto simp: spared_def)
  next
    case (Inr k)
    then obtain t x where t: "wrote s ?n (unat offset) src t x" "fs_ok v" "core_of v = core_of t" "\<forall>b. used v b = used t b"
       "\<forall>b. \<not> reserved t b \<longrightarrow> blk_at v b = blk_at t b"
       "\<forall>b. itable_blk t b \<longrightarrow> blk_at v b =
          (if b = blk then splice (blk_at t b) off (inode_bytes (data_inode x (offset + of_nat (length src)) now)) else blk_at t b)"
      using w(2) by auto
    note sp = wrote_spared[OF t(1)]
    then have c: "core_of t = core_of s" "core_of v = core_of s" using t(3) by (simp_all add: spared_def)
    have gt: "geo t" "inode_wf x" using t(1) by (auto simp: wrote_def fs_ok_def file_ok_def)
    have bt: "blk_at t blk' = blk_at s blk'" using sp kt by (simp add: spared_def)
    have "bytes_at (blk_at v blk') off' 128 = bytes_at (blk_at s blk') off' 128"
    proof (cases "blk' = blk")
      case True
      have "off + 128 \<le> off' \<or> off' + 128 \<le> off" using slots_apart[OF assms(2) g assms(3)] assms(8,9) True by blast
      moreover have "off + 128 \<le> bsize s" using assms(3) by (simp add: inode_slot_def)
      ultimately show ?thesis
        using t(6) it preds_core(2)[OF c(1)] True bt gt(2) eb.buf_len(2)[OF g, of blk'] by (simp add: bytes_beside_splice)
    next
      case False
      then show ?thesis using t(6) it preds_core(2)[OF c(1)] bt by simp
    qed
    then have "inode_at v blk' off' = m" using assms(10) by (simp add: inode_at_def)
    moreover have "blk_at v (ei_block m ! k) = blk_at s (ei_block m ! k) \<and> used v (ei_block m ! k)" if "k < 12" "ei_block m ! k \<noteq> 0" for k
      using ko[OF that] sp t(4,5) assms(11) that unfolding layout_core(2)[OF c(1)] by (auto simp: spared_def file_ok_def)
    ultimately show ?thesis using w(1) t(2) c(2) okay[OF c(2)] by blast
  qed
qed

text \<open>Reading in the direct blocks of a file: what it returns depends on the inode and these blocks only.\<close>

lemma read_direct:
  assumes "fs_ok s" "inode_slot s ino blk off" "m = inode_at s blk off" "file_ok s m" "unat pos + unat len \<le> 12 * bsize s"
  shows "map_option snd (ext2_read_inode ino len pos s) = Some
    (if ei_mode m AND EXT2_S_IFMT \<noteq> EXT2_S_IFREG then Inl EISDIR
     else Inr (map (fbyte s m) [unat pos..<min (unat pos + unat len) (unat (ei_size m))]))"
proof -
  have g: "geo s" "off_journal s blk" using assms(1,2) by (auto simp: fs_ok_def layout_ok_def itable_blk_def)
  obtain s1 where r: "read_inode ino s = Some (s1, Inr m)" "geo s1" "blk_at s1 = blk_at s" "rest_of s1 = rest_of s"
    using read_inode_ok[OF g(1) assms(2) g(2)] assms(3) by auto
  note c = rest_core[OF r(4)]
  have f: "file_ok s1 m" by (rule file_ok_mono[OF assms(4) c]) (simp add: used_cong[OF c] r(3))
  have fb: "fbyte s1 m = fbyte s m" by (rule fbyte_same[OF r(3) core_simps(1)[OF c]])
  have "unat pos + unat len < 2 ^ 32" using assms(5) geo_size(2)[OF g(1)] by simp
  then have us: "unat (pos + len) = unat pos + unat len" by (simp add: unat_word_ariths)
  define k where "k = (if ei_size m < pos + len then ei_size m - pos else len)"
  have "map_option snd (read_inode_data m len pos s1) = Some (Inr (map (fbyte s m) [unat pos..<min (unat pos + unat len) (unat (ei_size m))]))"
  proof (cases "ei_size m \<le> pos")
    case True
    then show ?thesis by (simp add: read_inode_data_def word_le_nat_alt)
  next
    case False
    then have k: "unat pos + unat k = min (unat pos + unat len) (unat (ei_size m))"
      using us by (auto simp: k_def word_le_nat_alt word_less_nat_alt unat_sub_if')
    then have "unat pos + unat k \<le> 12 * bsize s1" using assms(5) core_simps(1)[OF c] by simp
    from read_loop_ok[OF r(2) f this, of 0 "[]"] show ?thesis
      using False k fb by (auto simp: read_inode_data_def Let_def k_def[symmetric])
  qed
  then show ?thesis using r(1) g(1) by (simp add: ext2_read_inode_def geo_def)
qed

end
