(* ===== verification/Ext2_Theorems.thy ===== *)
theory Ext2_Theorems
  imports Ext2_Data
begin

text \<open>
  What the ext2 driver promises on a well-formed file system, and where it breaks: a write is
  read back and leaves every other file alone, an allocated block was free, the blocks of the
  journal are reserved in the wrong unit, and listing a damaged directory does not return.
\<close>

section \<open>A small file system\<close>

text \<open>
  One group of 8192 blocks of 1024 bytes: the bitmap in block 3, eight inodes in block 5.  All
  blocks are in use but 801 to 808.  Inode 2 is an empty file, inode 3 a directory whose only
  block holds zeros, and inode 4 a file of one block.
\<close>

definition demo_dir :: ext2_inode where
  "demo_dir = (fresh_inode 0x4000 0)\<lparr>ei_size := 1024, ei_block := 900 # replicate 14 0\<rparr>"

definition demo_other :: ext2_inode where
  "demo_other = (fresh_inode 0x8000 0)\<lparr>ei_size := 1024, ei_block := 901 # replicate 14 0\<rparr>"

definition demo_sector :: disk where
  "demo_sector l =
     (if l = 6 then replicate 100 255 @ [0] @ replicate 411 255
      else if l = 7 then replicate 512 255
      else if l = 10 then replicate 128 0 @ inode_bytes (fresh_inode 0x8000 0) @ inode_bytes demo_dir @ inode_bytes demo_other
      else replicate 512 0)"

definition demo_ext2 :: "u32 \<Rightarrow> ext2" where
  "demo_ext2 start =
     \<lparr>e_jnl = \<lparr>j_bd = power_on demo_sector, g_journal_start = start, g_sectors_per_block = 8, g_target_sectors = 2,
               j_sb = sb_of_bytes (replicate 4096 0), g_initialized = True, j_txn = zero_txn\<rparr>,
      e_mounted = True,
      e_sb = (superblock_of_bytes (replicate 976 0))\<lparr>s_inodes_count := 8, s_blocks_count := 8193, s_first_data_block := 1\<rparr>,
      e_gdt = (\<lambda>_. (group_desc_of_bytes (replicate 32 0))\<lparr>bg_block_bitmap := 3, bg_inode_table := 5, bg_free_blocks_count := 8\<rparr>),
      g_block_size = 1024, g_inode_size = 128, g_blocks_per_group = 8192, g_inodes_per_group = 8, g_groups = 1,
      g_sectors_per_blk = 2, g_dirty_sb = False, g_dirty_gdt = False, g_write_window_open = True,
      e_buf = replicate 4096 0, e_mem = (\<lambda>_. True), e_allocs = 0\<rparr>"

lemma demo_fields:
  "g_block_size (demo_ext2 start) = 1024" "g_blocks_per_group (demo_ext2 start) = 8192" "g_groups (demo_ext2 start) = 1"
  "g_sectors_per_blk (demo_ext2 start) = 2" "s_first_data_block (e_sb (demo_ext2 start)) = 1" "g_journal_start (e_jnl (demo_ext2 start)) = start"
  "bg_block_bitmap (e_gdt (demo_ext2 start) g) = 3" "g_inodes_per_group (demo_ext2 start) = 8" "g_inode_size (demo_ext2 start) = 128"
  "s_inodes_count (e_sb (demo_ext2 start)) = 8" "bg_inode_table (e_gdt (demo_ext2 start) g) = 5"
  and demo_free: "bg_free_blocks_count (e_gdt (demo_ext2 start) g) = 8"
  by (simp_all add: demo_ext2_def)

lemma fresh_inode_wf: "inode_wf (fresh_inode mode now)"
  by (simp add: fresh_inode_def inode_wf_def inode_of_bytes_def bytes_at_def)

lemma demo_dir_wf: "inode_wf demo_dir"
  using fresh_inode_wf[of "0x4000" 0] by (simp add: demo_dir_def inode_wf_def EXT2_N_BLOCKS_def)

lemma demo_other_wf: "inode_wf demo_other"
  using fresh_inode_wf[of "0x8000" 0] by (simp add: demo_other_def inode_wf_def EXT2_N_BLOCKS_def)

lemma demo_disk_ok: "disk_ok demo_sector"
  by (simp add: disk_ok_def demo_sector_def fresh_inode_wf demo_dir_wf demo_other_wf)

lemma demo_geo: "unat start + 32 < 2 ^ 32 \<Longrightarrow> geo (demo_ext2 start)"
  by (simp add: geo_def demo_ext2_def started_def zero_txn_def demo_disk_ok bsize_def sb_of_bytes_def)

lemma demo_blk_at:
  assumes "off_journal (demo_ext2 start) b"
  shows "blk_at (demo_ext2 start) b = demo_sector (unat b * 2) @ demo_sector (unat b * 2 + 1)"
  using assms by (simp add: blk_at_def demo_ext2_def get_sectors_def upt_rec)

lemma demo_off_journal: "unat b < 1200 \<Longrightarrow> 300 < unat start \<Longrightarrow> off_journal (demo_ext2 start) b"
  by (auto simp: off_journal_def in_journal_def demo_ext2_def)

lemma demo_low_off_journal: "unat b < 700 \<Longrightarrow> 200 \<le> unat start \<Longrightarrow> off_journal (demo_ext2 start) b"
  by (auto simp: off_journal_def in_journal_def demo_ext2_def)

lemma demo_slot:
  assumes "inode_slot (demo_ext2 start) ino b off"
  shows "b = 5"
proof -
  have "unat ino \<noteq> 0" "unat ino \<le> 8" using assms by (simp_all add: inode_slot_def demo_ext2_def word_le_nat_alt unat_eq_0)
  then have u: "unat (ino - 1) < 8" using unat_minus_one[of ino] by (cases "ino = 0") simp_all
  have "unat ((ino - 1) mod 8 * 128 :: u32) < 1024" using u by (simp add: unat_word_ariths)
  then have "unat (((ino - 1) mod 8 * 128) div 1024 :: u32) = 0" by (simp add: unat_div_distrib)
  then have "((ino - 1) mod 8 * 128) div 1024 = (0 :: u32)" by (simp only: unat_eq_0)
  then show ?thesis using assms by (auto simp: inode_slot_def inode_place_def demo_ext2_def Let_def)
qed

lemma demo_layout:
  assumes "200 \<le> unat start" "unat start + 32 < 2 ^ 32"
  shows "layout_ok (demo_ext2 start)"
proof -
  have b: "bitmap_blk (demo_ext2 start) x \<longleftrightarrow> x = 3" for x by (simp add: bitmap_blk_def demo_ext2_def)
  have i: "itable_blk (demo_ext2 start) x \<Longrightarrow> x = 5" for x using demo_slot by (auto simp: itable_blk_def)
  have gc: "gdt_count (demo_ext2 start) = 1" "gdt_block (demo_ext2 start) = 2"
    by (simp_all add: gdt_count_def gdt_bytes_def gdt_block_def bsize_def demo_ext2_def)
  have y: "sys_blk (demo_ext2 start) x \<longleftrightarrow> unat x * 2 \<le> 3 \<or> x = 2" for x by (simp add: sys_blk_def gc) (simp add: demo_ext2_def)
  have oj: "off_journal (demo_ext2 start) x" if "x = 3 \<or> x = 5 \<or> x = 2" for x using that assms by (auto intro!: demo_low_off_journal)
  have sbl: "length (superblock_bytes (e_sb (demo_ext2 start))) = 976"
    by (simp add: demo_ext2_def superblock_bytes_def superblock_of_bytes_def bytes_at_def)
  have ib: "\<not> itable_blk (demo_ext2 start) 3" "\<not> itable_blk (demo_ext2 start) 2" "itable_blk (demo_ext2 start) x \<Longrightarrow> \<not> unat x * 2 \<le> 3" for x
    using i[of 3] i[of 2] i[of x] by auto
  show ?thesis unfolding layout_ok_def b y gc using assms(1) i oj sbl ib
    by (auto simp: demo_fields bsize_def)
qed

lemma bit_255: "i < 8 \<Longrightarrow> bit (255 :: byte) i"
proof -
  have "(255 :: byte) = - 1" by simp
  then show "i < 8 \<Longrightarrow> bit (255 :: byte) i" by (simp only: bit_minus_1_iff) (simp add: possible_bit_def)
qed

lemma demo_bit:
  assumes "k < 8192"
  shows "bit_used (demo_sector 6 @ demo_sector 7) k \<longleftrightarrow> k div 8 \<noteq> 100"
proof -
  have "k div 8 < 1024" using assms by (simp add: less_mult_imp_div_less)
  then have "(demo_sector 6 @ demo_sector 7) ! (k div 8) = (if k div 8 = 100 then 0 else 255)"
    by (auto simp: demo_sector_def nth_append nth_Cons')
  then show ?thesis using bit_255[of "k mod 8"] by (simp add: bit_used_bit)
qed

lemma demo_used:
  assumes "200 \<le> unat start"
  shows "\<not> used (demo_ext2 start) b \<longleftrightarrow> 801 \<le> unat b \<and> unat b \<le> 808"
proof (cases "b = 0")
  case True
  then show ?thesis by (simp add: used_def demo_fields)
next
  case False
  have u: "unat (b - 1) = unat b - 1" "1 \<le> unat b" using False unat_minus_one[of b] by (auto simp: unat_gt_0 Suc_le_eq)
  have gb: "blk_group (demo_ext2 start) b = (unat b - 1) div 8192" "blk_bit (demo_ext2 start) b = (unat b - 1) mod 8192"
    using u(1) by (simp_all add: blk_group_def blk_bit_def demo_fields unat_div_distrib unat_mod_distrib)
  have bm: "blk_at (demo_ext2 start) 3 = demo_sector 6 @ demo_sector 7"
    using demo_blk_at[OF demo_low_off_journal[of 3 start]] assms by simp
  have "b < 1 \<longleftrightarrow> False" using False by (simp add: word_less_nat_alt unat_gt_0)
  then have "used (demo_ext2 start) b \<longleftrightarrow> 1 \<le> (unat b - 1) div 8192 \<or> (unat b - 1) mod 8192 div 8 \<noteq> 100"
    using demo_bit[of "(unat b - 1) mod 8192"] by (simp add: used_def gb demo_fields bm)
  moreover have "1 \<le> m div 8192 \<or> m mod 8192 div 8 \<noteq> 100 \<longleftrightarrow> \<not> (800 \<le> m \<and> m \<le> 807)" for m :: nat
  proof (cases "m < 8192")
    case True
    moreover have "m div 8 = 100 \<longleftrightarrow> 800 \<le> m \<and> m \<le> 807" by presburger
    ultimately show ?thesis by simp
  next
    case False
    then have "0 < m div 8192" by (simp add: div_greater_zero_iff)
    then show ?thesis using False by linarith
  qed
  moreover have "800 \<le> unat b - 1 \<and> unat b - 1 \<le> 807 \<longleftrightarrow> 801 \<le> unat b \<and> unat b \<le> 808" using u(2) by linarith
  ultimately show ?thesis by blast
qed

lemma demo_fs_ok:
  assumes "300 < unat start" "unat start + 32 < 2 ^ 32"
  shows "fs_ok (demo_ext2 start)"
proof -
  have "used (demo_ext2 start) b" if r: "reserved (demo_ext2 start) b" for b
  proof (rule ccontr)
    assume "\<not> used (demo_ext2 start) b"
    then have b: "801 \<le> unat b" "unat b \<le> 808" using demo_used[of start b] assms by auto
    have "off_journal (demo_ext2 start) b" using b assms by (intro demo_off_journal) auto
    moreover have "b \<noteq> 3" "b \<noteq> 5" using b(1) by auto
    then have "\<not> bitmap_blk (demo_ext2 start) b" "\<not> itable_blk (demo_ext2 start) b"
      using demo_slot[of start _ b] unfolding bitmap_blk_def itable_blk_def demo_fields by blast+
    moreover have "\<not> sys_blk (demo_ext2 start) b"
      using b by (auto simp: sys_blk_def demo_fields gdt_count_def gdt_bytes_def gdt_block_def bsize_def)
    moreover have "b \<noteq> 0" using b(1) by auto
    ultimately show False using r by (simp add: reserved_def)
  qed
  then show ?thesis using demo_geo[of start] demo_layout[of start] assms by (simp add: fs_ok_def)
qed

lemma demo_slot_2: "inode_slot (demo_ext2 start) 2 5 128" and demo_slot_3: "inode_slot (demo_ext2 start) 3 5 256"
  and demo_slot_4: "inode_slot (demo_ext2 start) 4 5 384"
  by (simp_all add: inode_slot_def inode_place_def demo_fields bsize_def)

lemma demo_inode_2: "200 \<le> unat start \<Longrightarrow> inode_at (demo_ext2 start) 5 128 = fresh_inode 0x8000 0"
  and demo_inode_3: "200 \<le> unat start \<Longrightarrow> inode_at (demo_ext2 start) 5 256 = demo_dir"
  and demo_inode_4: "200 \<le> unat start \<Longrightarrow> inode_at (demo_ext2 start) 5 384 = demo_other"
proof -
  assume "200 \<le> unat start"
  then have b: "blk_at (demo_ext2 start) 5 = demo_sector 10 @ demo_sector 11" using demo_blk_at[OF demo_low_off_journal[of 5 start]] by simp
  show "inode_at (demo_ext2 start) 5 128 = fresh_inode 0x8000 0"
    using inode_round_trip[OF fresh_inode_wf, of "0x8000" 0 "[]"] fresh_inode_wf[of "0x8000" 0]
    by (simp add: inode_at_def b demo_sector_def bytes_at_def)
  show "inode_at (demo_ext2 start) 5 256 = demo_dir"
    using inode_round_trip[OF demo_dir_wf, of "[]"] demo_dir_wf fresh_inode_wf[of "0x8000" 0]
    by (simp add: inode_at_def b demo_sector_def bytes_at_def)
  show "inode_at (demo_ext2 start) 5 384 = demo_other"
    using inode_round_trip[OF demo_other_wf, of "[]"] demo_dir_wf demo_other_wf fresh_inode_wf[of "0x8000" 0]
    by (simp add: inode_at_def b demo_sector_def bytes_at_def)
qed

lemma demo_data_block:
  assumes "809 \<le> unat b" "unat b < 1000"
  shows "used (demo_ext2 1000) b" "\<not> reserved (demo_ext2 1000) b"
proof -
  have ne: "b \<noteq> 0" "b \<noteq> 2" "b \<noteq> 3" "b \<noteq> 5" using assms by auto
  then have "\<not> bitmap_blk (demo_ext2 1000) b" "\<not> itable_blk (demo_ext2 1000) b" "\<not> sys_blk (demo_ext2 1000) b"
    using assms demo_slot[of 1000 _ b] by (auto simp: bitmap_blk_def itable_blk_def sys_blk_def demo_fields gdt_count_def gdt_bytes_def gdt_block_def bsize_def)
  then show "used (demo_ext2 1000) b" "\<not> reserved (demo_ext2 1000) b"
    using demo_used[of 1000 b] demo_off_journal[of b 1000] assms ne by (auto simp: reserved_def)
qed

lemma one_block_file:
  assumes "inode_wf n" "ei_block n = b # replicate 14 0" "809 \<le> unat b" "unat b < 1000"
  shows "file_ok (demo_ext2 1000) n"
proof -
  have "ei_block n ! k = (if k = 0 then b else 0)" if "k < 12" for k using that assms(2) by (simp add: nth_Cons')
  then show ?thesis using assms(1) demo_data_block[OF assms(3,4)] by (auto simp: file_ok_def split: if_splits)
qed

lemma demo_dir_file: "file_ok (demo_ext2 1000) demo_dir"
  by (rule one_block_file[OF demo_dir_wf, of 900]) (simp_all add: demo_dir_def)

lemma demo_other_file: "file_ok (demo_ext2 1000) demo_other"
  by (rule one_block_file[OF demo_other_wf, of 901]) (simp_all add: demo_other_def)

lemma demo_file: "file_ok (demo_ext2 1000) (inode_at (demo_ext2 1000) 5 128)" "k < 12 \<Longrightarrow> ei_block (inode_at (demo_ext2 1000) 5 128) ! k = 0"
  and demo_file_mode: "ei_mode (inode_at (demo_ext2 1000) 5 128) AND EXT2_S_IFMT = EXT2_S_IFREG"
proof -
  have i: "inode_at (demo_ext2 1000) 5 128 = fresh_inode 0x8000 0" by (rule demo_inode_2) simp
  have z: "ei_block (fresh_inode 0x8000 0) ! k = 0" if "k < 12" for k
    using that by (simp add: fresh_inode_def inode_of_bytes_def EXT2_N_BLOCKS_def u32_at_def bytes_word_def)
      (simp add: numeral_eq_Suc)
  show "file_ok (demo_ext2 1000) (inode_at (demo_ext2 1000) 5 128)" unfolding i using z fresh_inode_wf by (simp add: file_ok_def)
  show "k < 12 \<Longrightarrow> ei_block (inode_at (demo_ext2 1000) 5 128) ! k = 0" unfolding i by (rule z)
  show "ei_mode (inode_at (demo_ext2 1000) 5 128) AND EXT2_S_IFMT = EXT2_S_IFREG"
    unfolding i by (simp add: fresh_inode_def EXT2_S_IFMT_def EXT2_S_IFREG_def)
qed

section \<open>Allocation\<close>

lemma demo_counts: "300 < unat start \<Longrightarrow> counts_ok (demo_ext2 start)" and demo_spare: "spare (demo_ext2 start) = 8"
proof -
  assume st: "300 < unat start"
  have "blk_group (demo_ext2 start) b = 0" if "801 \<le> unat b" "unat b \<le> 808" for b
  proof -
    have "unat (b - 1) = unat b - 1" using that unat_minus_one[of b] by (cases "b = 0") simp_all
    then show ?thesis using that by (simp add: blk_group_def demo_fields unat_div_distrib)
  qed
  then have "free_in (demo_ext2 start) 0 = {b. 801 \<le> unat b \<and> unat b \<le> 808}"
    using demo_used[of start] st by (auto simp: free_in_def)
  also have "\<dots> = of_nat ` {801..808}"
  proof -
    have "b \<in> of_nat ` {801..808}" if "801 \<le> unat b" "unat b \<le> 808" for b :: u32
      using that by (intro image_eqI[of _ _ "unat b"]) simp_all
    then show ?thesis by (auto simp: unat_u32_of_nat)
  qed
  finally have f: "free_in (demo_ext2 start) 0 = of_nat ` {801..808}" .
  have "inj_on (of_nat :: nat \<Rightarrow> u32) {801..808}"
    by (rule inj_on_inverseI[of _ unat]) (simp add: unat_u32_of_nat)
  then have "card (free_in (demo_ext2 start) 0) = 8" unfolding f by (simp add: card_image)
  then show "counts_ok (demo_ext2 start)" by (simp add: counts_ok_def demo_fields demo_free)
next
  show "spare (demo_ext2 start) = 8" by (simp add: spare_def demo_fields demo_free)
qed



section \<open>Writing and reading\<close>

lemma read_after_write:
  assumes "fs_ok v" "inode_slot v ino blk off" "inode_at v blk off = m" "ei_mode m AND EXT2_S_IFMT = EXT2_S_IFREG" "file_ok v m"
    and "src \<noteq> []" "unat offset + length src \<le> 12 * bsize v" "offset + of_nat (length src) \<le> ei_size m"
    and "\<And>q. unat offset \<le> q \<Longrightarrow> q < unat offset + length src \<Longrightarrow> fbyte v m q = src ! (q - unat offset)"
  shows "\<exists>t. ext2_read_inode ino (of_nat (length src)) offset v = Some (t, Inr src)"
proof -
  have g: "geo v" "off_journal v blk" using assms(1,2) by (auto simp: fs_ok_def layout_ok_def itable_blk_def)
  obtain s1 where r: "read_inode ino v = Some (s1, Inr m)" "geo s1" "blk_at s1 = blk_at v" "rest_of s1 = rest_of v"
    using read_inode_ok[OF g(1) assms(2) g(2)] assms(3) by auto
  note c = rest_core[OF r(4)]
  have f: "file_ok s1 m" by (rule file_ok_mono[OF assms(5) c]) (simp add: used_cong[OF c] r(3))
  have l: "length src < 2 ^ 32" "unat offset + length src < 2 ^ 32" using assms(7) geo_size(2)[OF g(1)] by simp_all
  have ul: "unat (of_nat (length src) :: u32) = length src" by (rule unat_u32_of_nat[OF l(1)])
  have us: "unat (offset + of_nat (length src)) = unat offset + length src"
    using unat_u32_of_nat[OF l(2)] by simp
  have lt: "\<not> ei_size m \<le> offset" "\<not> ei_size m < offset + of_nat (length src)"
    using assms(6,8) us by (auto simp: word_le_nat_alt word_less_nat_alt neq_Nil_conv)
  obtain t where "read_data_loop m offset (length src) 0 [] s1 = Some (t, Inr (map (fbyte s1 m) [unat offset..<unat offset + length src]))"
    using read_loop_ok[OF r(2) f, of offset "length src" 0 "[]"] assms(7) core_simps(1)[OF c] by auto
  moreover have "map (fbyte s1 m) [unat offset..<unat offset + length src] = src"
    using assms(9) fbyte_same[OF r(3) core_simps(1)[OF c]] by (intro nth_equalityI) simp_all
  ultimately show ?thesis using r(1) assms(4) g(1) lt ul by (simp add: ext2_read_inode_def read_inode_data_def geo_def)
qed




lemma demo_itables: "itables_ok (demo_ext2 start)"
  by (simp add: itables_ok_def demo_fields)


section \<open>The area of the journal\<close>

lemma reserve_one:
  assumes "geo s" "layout_ok s" "\<not> blk < s_first_data_block (e_sb s)" "blk_group s blk < unat (g_groups s)"
  shows "\<exists>t n'. reserve_loop (blk # blks) s n = reserve_loop blks t n' \<and> geo t \<and> core_of t = core_of s \<and> (\<forall>b. used t b \<longleftrightarrow> b = blk \<or> used s b)"
proof -
  let ?g = "blk_group s blk" and ?k = "blk_bit s blk"
  let ?m = "bg_block_bitmap (e_gdt s ?g)"
  have oj: "off_journal s ?m" using assms(2,4) by (auto simp: layout_ok_def bitmap_blk_def)
  have z: "g_blocks_per_group s \<noteq> 0" "unat (g_blocks_per_group s) \<le> 8 * bsize s" using assms(2) by (auto simp: layout_ok_def)
  then have k: "?k < unat (g_blocks_per_group s)" by (simp add: blk_bit_def unat_mod_distrib unat_gt_0)
  then have k8: "?k div 8 < bsize s" using z(2) by (simp add: div_less_iff_less_mult)
  obtain s1 where r: "read_block ?m s = (s1, True)" "geo s1" "blk_at s1 = blk_at s" "rest_of s1 = rest_of s" "take (bsize s) (e_buf s1) = blk_at s ?m"
    using eb.rd_ok[OF assms(1), of ?m] oj by auto
  note c1 = rest_core[OF r(4)]
  have e: "e_gdt s1 = e_gdt s" "bsize s1 = bsize s" using r(4) by (auto simp: rest_of_def bsize_def)
  have lb: "?k div 8 < length (e_buf s1)" using eb.buf_len(1)[OF r(2)] e(2) k8 by simp
  have bu: "bit_used (e_buf s1) ?k = bit_used (blk_at s ?m) ?k" using bit_used_take[OF k8, of "e_buf s1"] r(5) by simp
  show ?thesis
  proof (cases "bit_used (e_buf s1) ?k")
    case True
    then have "used s blk" using bu by (simp add: used_def)
    moreover have "used s1 b = used s b" for b by (rule used_cong[OF c1]) (simp add: r(3))
    moreover have "reserve_loop (blk # blks) s n = reserve_loop blks s1 n"
      using assms(3,4) z(1) r(1) True lb by (simp add: Let_def blk_group_def blk_bit_def not_le)
    ultimately show ?thesis using r(2) c1 by blast
  next
    case False
    have oj1: "off_journal s1 ?m" using oj core_simps(2)[OF c1] by simp
    obtain s2 where w: "journaled_write ?m (set_buf (bit_on (e_buf s1) ?k) s1) = Some (s2, Inr ())" "geo s2" "rest_of s2 = rest_of s1"
      "blk_at s2 = (blk_at s1)(?m := take (bsize s1) (bit_on (e_buf s1) ?k))" using eb.put_wr[OF r(2) oj1, of "bit_on (e_buf s1) ?k"] by auto
    have b2: "blk_at s2 = (blk_at s)(?m := bit_on (blk_at s ?m) ?k)"
      unfolding w(4) r(3) e(2) using k8 r(5) by (simp add: bit_on_def take_update_swap flip: r(5))
    define t where "t = upd_sb (\<lambda>b. b\<lparr>s_free_blocks_count := s_free_blocks_count b - 1\<rparr>)
      (upd_gdt ?g (\<lambda>d. d\<lparr>bg_free_blocks_count := bg_free_blocks_count d - 1\<rparr>) s2)"
    have "core_of t = core_of (upd_gdt ?g (\<lambda>d. d\<lparr>bg_free_blocks_count := bg_free_blocks_count d - 1\<rparr>) s2)"
      unfolding t_def by (rule core_upd_sb) (simp add: superblock_bytes_def)
    also have "\<dots> = core_of s2" by (rule core_upd_gdt) simp
    also have "\<dots> = core_of s1" by (rule rest_core[OF w(3)])
    also have "\<dots> = core_of s" by (rule c1)
    finally have ct: "core_of t = core_of s" .
    have t: "geo t" "blk_at t = blk_at s2" using w(2) by (simp_all add: t_def geo_upd)
    have "blk = blk_number s ?g ?k" by (rule blk_number_ok(4)[OF assms(2,4) k assms(3)]) simp_all
    then have "used t b \<longleftrightarrow> b = blk \<or> used s b" for b
      using used_bit_on[OF assms(2,1) ct assms(4) k, of b] t(2) b2 by simp
    moreover have "reserve_loop (blk # blks) s n = reserve_loop blks t (n + 1)"
      using assms(3,4) z(1) r(1) False lb w(1) e(1) by (simp add: Let_def blk_group_def[symmetric] blk_bit_def[symmetric] not_le t_def)
    ultimately show ?thesis using t(1) ct by blast
  qed
qed

lemma reserve_loop_ok:
  assumes "geo s" "layout_ok s"
  shows "\<exists>t m. reserve_loop blks s n = Some (t, m) \<and> geo t \<and> core_of t = core_of s \<and> (\<forall>b. used t b \<longleftrightarrow> b \<in> set blks \<or> used s b)"
  using assms
proof (induction blks arbitrary: s n)
  case (Cons blk blks)
  show ?case
  proof (cases "blk < s_first_data_block (e_sb s) \<or> unat (g_groups s) \<le> blk_group s blk")
    case True
    moreover have "g_blocks_per_group s \<noteq> 0" using Cons.prems(2) by (auto simp: layout_ok_def)
    ultimately have "reserve_loop (blk # blks) s n = reserve_loop blks s n" "used s blk"
      by (auto simp: Let_def blk_group_def used_def)
    then show ?thesis using Cons.IH[OF Cons.prems, of n] by auto
  next
    case False
    then obtain t n' where t: "reserve_loop (blk # blks) s n = reserve_loop blks t n'" "geo t" "core_of t = core_of s" "\<forall>b. used t b \<longleftrightarrow> b = blk \<or> used s b"
      using reserve_one[OF Cons.prems, of blk blks n] by (auto simp: not_le)
    have "layout_ok t" using layout_core(1)[OF t(3)] Cons.prems(2) by simp
    from Cons.IH[OF t(2) this, of n'] show ?thesis using t by auto
  qed
qed simp

lemma ext2_reserve_ok:
  assumes "geo s" "layout_ok s"
  shows "\<exists>t m. ext2_reserve_blocks start count s = Some (t, m) \<and> core_of t = core_of s \<and>
    (\<forall>b. used t b \<longleftrightarrow> (\<exists>i < unat count. b = start + of_nat i) \<or> used s b)"
proof -
  obtain t m where t: "reserve_loop (map (\<lambda>i. start + of_nat i) [0..<unat count]) s 0 = Some (t, m)" "geo t" "core_of t = core_of s"
    "\<forall>b. used t b \<longleftrightarrow> b \<in> (\<lambda>i. start + of_nat i) ` {0..<unat count} \<or> used s b"
    using reserve_loop_ok[OF assms, of "map (\<lambda>i. start + of_nat i) [0..<unat count]" 0] by auto
  have lt: "layout_ok t" using layout_core(1)[OF t(3)] assms(2) by simp
  obtain v where v: "ext2_sync_locked t = Some v" "synced t v" using ext2_sync_ok[OF t(2) lt] by blast
  have e: "e_mounted s" using assms(1) by (simp add: geo_def)
  have "used v b = used t b" for b by (rule synced_used[OF lt v(2)])
  moreover have "core_of v = core_of s" using v(2) t(3) by (simp add: synced_def)
  ultimately show ?thesis using t e v(1) by (cases "0 < m") (auto simp: ext2_reserve_blocks_def image_iff)
qed

text \<open>
  C34 (ext2, safety).  The journal lies in blocks of 4096 bytes counted from its start, and
  \<open>init_block_and_journal\<close> passes that start to \<open>ext2_reserve_blocks\<close>, which counts blocks of the
  file system.  With blocks of 1024 bytes the reservation marks other blocks: the first block of the
  journal, if it was free, stays free and can be handed out.
\<close>

theorem journal_area_left_free:
  assumes "geo s" "layout_ok s" "g_sectors_per_blk s = 2" "start = g_journal_start (e_jnl s)"
    and "11 \<le> unat start" "4 * unat start < 2 ^ 32" "\<not> used s (4 * start)"
  shows "\<exists>t m. ext2_reserve_blocks start 32 s = Some (t, m) \<and> \<not> off_journal t (4 * start) \<and> \<not> used t (4 * start)"
proof -
  obtain t m where t: "ext2_reserve_blocks start 32 s = Some (t, m)" "core_of t = core_of s"
    "\<forall>b. used t b \<longleftrightarrow> (\<exists>i < 32. b = start + of_nat i) \<or> used s b" using ext2_reserve_ok[OF assms(1,2), of start 32] by auto
  have u: "unat (4 * start) = 4 * unat start" using assms(6) by (simp add: unat_word_ariths)
  have "4 * start \<noteq> start + of_nat i" if "i < 32" for i
  proof
    assume e: "4 * start = start + of_nat i"
    have "unat start + i < 2 ^ 32" using assms(5,6) that by linarith
    then have "unat (start + of_nat i) = unat start + i" using unat_u32_of_nat[of "unat start + i"] by simp
    moreover have "unat (4 * start) = unat (start + of_nat i)" using e by (rule arg_cong)
    ultimately show False using u that assms(5) by linarith
  qed
  moreover have "\<not> off_journal s (4 * start)"
    using u assms(3,4) by (auto simp: off_journal_def in_journal_def intro!: exI[of _ "4 * unat start * 2"])
  ultimately show ?thesis using t assms(7) core_simps(2)[OF t(2)] by auto
qed

theorem journal_area_left_free_witness:
  "\<exists>t m. ext2_reserve_blocks 201 32 (demo_ext2 201) = Some (t, m) \<and> \<not> off_journal t 804 \<and> \<not> used t 804"
proof -
  have "geo (demo_ext2 201)" "layout_ok (demo_ext2 201)" by (auto intro: demo_geo demo_layout)
  moreover have "\<not> used (demo_ext2 201) (4 * 201)" using demo_used[of 201 804] by simp
  ultimately show ?thesis using journal_area_left_free[of "demo_ext2 201" 201] by (simp add: demo_fields)
qed

section \<open>Listing a damaged directory\<close>

lemma emit_zero_record:
  assumes "inblk + 6 \<le> length b" "u16_at b (inblk + 4) = 0"
  shows "emit_loop b cap inblk cursor written out = Some (out, written, cursor, False)"
  using assms by (subst emit_loop.simps) (simp add: buf16_def)

text \<open>The cursor stands on a record of length zero in a direct block.\<close>

definition stuck :: "ext2 \<Rightarrow> ext2_inode \<Rightarrow> u32 \<Rightarrow> bool" where
  "stuck s dir cursor \<longleftrightarrow> geo s \<and> cursor < ei_size dir \<and> unat cursor < 12 * bsize s \<and>
     (let b = ei_block dir ! (unat cursor div bsize s); i = unat cursor mod bsize s
      in b \<noteq> 0 \<and> off_journal s b \<and> i + 6 \<le> bsize s \<and> u16_at (blk_at s b) (i + 4) = 0)"

text \<open>One turn of the outer loop, with the rest of the loop as an argument.\<close>

definition readdir_turn ::
  "(ext2_inode \<Rightarrow> nat \<Rightarrow> u32 \<Rightarrow> nat \<Rightarrow> dirent list \<Rightarrow> ext2 \<Rightarrow> (ext2 \<times> (dirent list \<times> u32) res) option) \<Rightarrow>
    ext2_inode \<Rightarrow> nat \<Rightarrow> u32 \<Rightarrow> nat \<Rightarrow> dirent list \<Rightarrow> ext2 \<Rightarrow> (ext2 \<times> (dirent list \<times> u32) res) option" where
  "readdir_turn f dir cap cursor written out s =
     (if ei_size dir \<le> cursor then Some (s, Inr (out, cursor))
      else if bsize s = 0 then None
      else case inode_block_phys dir (cursor div g_block_size s) s of
             None \<Rightarrow> None
           | Some (s, phys) \<Rightarrow>
               if phys = 0 then Some (s, Inr (out, cursor))
               else case read_block phys s of
                      (s, ok) \<Rightarrow>
                        if \<not> ok then Some (s, Inl EIO)
                        else (case emit_loop (take (bsize s) (e_buf s)) cap (unat (cursor mod g_block_size s)) cursor written out of
                           None \<Rightarrow> None
                         | Some (out, written, cursor, full) \<Rightarrow>
                             if full then Some (s, Inr (out, cursor))
                             else f dir cap cursor written out s))"

lemma stuck_step:
  assumes "stuck s dir cursor"
  shows "\<exists>t. stuck t dir cursor \<and> (\<forall>f. readdir_turn f dir cap cursor written out s = f dir cap cursor written out t)"
proof -
  let ?b = "ei_block dir ! (unat cursor div bsize s)" and ?i = "unat cursor mod bsize s"
  have g: "geo s" "cursor < ei_size dir" "unat cursor < 12 * bsize s" "?b \<noteq> 0" "off_journal s ?b" "?i + 6 \<le> bsize s" "u16_at (blk_at s ?b) (?i + 4) = 0"
    using assms by (auto simp: stuck_def Let_def)
  obtain t where t: "read_block ?b s = (t, True)" "geo t" "blk_at t = blk_at s" "rest_of t = rest_of s" "take (bsize s) (e_buf t) = blk_at s ?b"
    using eb.rd_ok[OF g(1), of ?b] g(5) by auto
  note c = core_simps[OF rest_core[OF t(4)]]
  have p: "inode_block_phys dir (cursor div g_block_size s) s = Some (s, ?b)"
    using block_phys_direct[OF g(1), of cursor 0 dir] g(3) by simp
  have i: "unat (cursor mod g_block_size t) = ?i" using c(9) geo_size(3)[OF g(1)] by (simp add: unat_mod_distrib)
  have e: "emit_loop (take (bsize t) (e_buf t)) cap ?i cursor written out = Some (out, written, cursor, False)"
    using g(6,7) t(5) c(1) eb.buf_len(2)[OF g(1), of ?b] by (intro emit_zero_record) simp_all
  have "stuck t dir cursor" using assms t(2,3) c by (simp add: stuck_def)
  moreover have "\<not> ei_size dir \<le> cursor" "bsize s \<noteq> 0" using g(2) geo_size(1)[OF g(1)] by auto
  ultimately show ?thesis using g(4) t(1) p i e by (intro exI[of _ t]) (simp add: readdir_turn_def)
qed

lemma readdir_stuck:
  assumes "readdir_blocks dir cap cursor written out s = Some r"
  shows "\<not> stuck s dir cursor"
proof (rule readdir_blocks.raw_induct[OF _ assms, folded readdir_turn_def])
  fix f dir cap cursor written out s r
  assume ih: "\<And>dir cap cursor written out s r. f dir cap cursor written out s = Some r \<Longrightarrow> \<not> stuck s dir cursor"
    and e: "readdir_turn f dir cap cursor written out s = Some r"
  show "\<not> stuck s dir cursor"
  proof
    assume "stuck s dir cursor"
    then obtain t where "stuck t dir cursor" "readdir_turn f dir cap cursor written out s = f dir cap cursor written out t"
      using stuck_step[of s dir cursor cap written out] by blast
    then show False using ih[of dir cap cursor written out t r] e by simp
  qed
qed

text \<open>
  C35 (ext2, termination).  Listing a directory does not return when the position stands on a
  record of length zero: the inner loop stops without moving the cursor, and the outer loop reads
  the same block again, with preemption disabled.
\<close>

theorem readdir_never_returns:
  assumes "geo s" "inode_slot s ino blk off" "off_journal s blk" "ei_mode (inode_at s blk off) AND EXT2_S_IFMT = EXT2_S_IFDIR"
    and "stuck s (inode_at s blk off) pos"
  shows "ext2_readdir_chunk ino cap pos s = None"
proof -
  obtain t where t: "read_inode ino s = Some (t, Inr (inode_at s blk off))" "geo t" "blk_at t = blk_at s" "rest_of t = rest_of s"
    using read_inode_ok[OF assms(1-3)] by blast
  note c = core_simps[OF rest_core[OF t(4)]]
  have "stuck t (inode_at s blk off) pos" using assms(5) t(2,3) c by (simp add: stuck_def)
  then have "readdir_blocks (inode_at s blk off) cap pos 0 [] t = None"
    using readdir_stuck by (metis not_None_eq)
  then show ?thesis using t(1) assms(1,4) by (simp add: ext2_readdir_chunk_def geo_def)
qed

theorem readdir_never_returns_witness: "ext2_readdir_chunk 3 512 0 (demo_ext2 1000) = None"
proof -
  have i: "inode_at (demo_ext2 1000) 5 256 = demo_dir" by (rule demo_inode_3) simp
  have b: "blk_at (demo_ext2 1000) 900 = replicate 1024 0" using demo_blk_at[OF demo_off_journal[of 900 1000]]
    by (simp add: demo_sector_def replicate_add[symmetric])
  have "stuck (demo_ext2 1000) (inode_at (demo_ext2 1000) 5 256) 0"
    unfolding i using demo_geo[of 1000] demo_off_journal[of 900 1000]
    by (simp add: stuck_def demo_dir_def bsize_def demo_fields b u16_at_def)
  moreover have "ei_mode (inode_at (demo_ext2 1000) 5 256) AND EXT2_S_IFMT = EXT2_S_IFDIR"
    unfolding i by (simp add: demo_dir_def fresh_inode_def EXT2_S_IFMT_def EXT2_S_IFDIR_def)
  ultimately show ?thesis
    using readdir_never_returns[OF _ demo_slot_3 _, of 1000 0 512] demo_geo[of 1000] demo_off_journal[of 5 1000] by simp
qed

end
