(* ===== verification/Kasan.thy ===== *)
theory Kasan
  imports Prelude
begin

text \<open>
  \<^verbatim>\<open>src/kernel/lib/kasan.c\<close>: the canaries and the poison the kernel heap is instrumented
  with (the Makefile defines \<^verbatim>\<open>CONFIG_KASAN_LITE\<close>).  Memory is a function from byte
  addresses; a C pointer is a natural number and NULL is 0.  A function that may call
  \<^verbatim>\<open>kernel_panic\<close>, which does not return, yields an option and \<open>None\<close> is the panic.
\<close>

type_synonym memory = "nat \<Rightarrow> byte"

section \<open>Words in memory\<close>

definition ld32 :: "memory \<Rightarrow> nat \<Rightarrow> u32" where
  "ld32 m a = bytes_word (slice_of m a 4)"

definition st32 :: "memory \<Rightarrow> nat \<Rightarrow> u32 \<Rightarrow> memory" where
  "st32 m a w = copy_into m a (word_bytes w)"

text \<open>Two memories that agree on the addresses \<open>a \<le> x < b\<close>.\<close>

definition agree :: "memory \<Rightarrow> memory \<Rightarrow> nat \<Rightarrow> nat \<Rightarrow> bool" where
  "agree m m' a b \<longleftrightarrow> (\<forall>x. a \<le> x \<longrightarrow> x < b \<longrightarrow> m x = m' x)"

lemma agreeD: "agree m m' a b \<Longrightarrow> a \<le> x \<Longrightarrow> x < b \<Longrightarrow> m x = m' x"
  by (simp add: agree_def)

lemma agree_refl [simp]: "agree m m a b"
  by (simp add: agree_def)

lemma agree_sub: "agree m m' a b \<Longrightarrow> a \<le> c \<Longrightarrow> d \<le> b \<Longrightarrow> agree m m' c d"
  by (simp add: agree_def)

lemma agree_trans: "agree m m' a b \<Longrightarrow> agree m' m'' a b \<Longrightarrow> agree m m'' a b"
  by (simp add: agree_def)

lemma slice_of_agree: "agree m m' a (a + n) \<Longrightarrow> slice_of m a n = slice_of m' a n"
  by (rule nth_equalityI) (simp_all add: agree_def)

lemma ld32_agree: "agree m m' a (a + 4) \<Longrightarrow> ld32 m a = ld32 m' a"
  by (simp add: ld32_def slice_of_agree)

lemma ld32_st32_same [simp]: "ld32 (st32 m a w) a = w"
proof -
  have "slice_of (st32 m a w) a 4 = word_bytes w"
    unfolding st32_def using slice_of_copy_into[of m a "word_bytes w"] by simp
  then show ?thesis by (simp add: ld32_def)
qed

lemma st32_outside: "x < a \<or> a + 4 \<le> x \<Longrightarrow> st32 m a w x = m x"
  by (simp add: st32_def copy_into_outside)

lemma agree_st32: "d \<le> a \<or> a + 4 \<le> c \<Longrightarrow> agree m (st32 m a w) c d"
  by (auto simp: agree_def st32_outside)

lemma ld32_st32_other [simp]: "b + 4 \<le> a \<or> a + 4 \<le> b \<Longrightarrow> ld32 (st32 m a w) b = ld32 m b"
  by (metis agree_st32 ld32_agree)

lemma word_bytes_bytes:
  assumes "length bs = 4"
  shows "word_bytes (bytes_word bs) = bs"
proof -
  obtain a b c d where bs: "bs = [a, b, c, d]"
    using assms by (auto simp: numeral_eq_Suc length_Suc_conv)
  have u: "[0..<4] = [0, 1, 2, 3 :: nat]" by (simp add: upt_rec)
  have h: "\<not> bit x (8 + n)" "\<not> bit x (16 + n)" "\<not> bit x (24 + n)" for x :: byte and n
    using bit_imp_le_length[of x] by fastforce+
  show ?thesis
    unfolding bs bytes_word_def word_bytes_def u by (auto intro!: bit_word_eqI simp: bit_simps h)
qed

lemma ld32_bytes: "ld32 m a = w \<longleftrightarrow> slice_of m a 4 = word_bytes w"
  using word_bytes_bytes[of "slice_of m a 4"] by (auto simp: ld32_def)

section \<open>Canaries\<close>

definition KASAN_CANARY_HEAD :: u32 where "KASAN_CANARY_HEAD = 0xDEAD5A5A"
definition KASAN_CANARY_TAIL :: u32 where "KASAN_CANARY_TAIL = 0x5A5ADEAD"
definition KASAN_POISON_WORD :: u32 where "KASAN_POISON_WORD = 0xDEADBEEF"
definition KASAN_CANARY_BYTES :: nat where [simp]: "KASAN_CANARY_BYTES = 8"

definition kasan_raw_size :: "nat \<Rightarrow> nat" where
  "kasan_raw_size user_size = user_size + 2 * KASAN_CANARY_BYTES"

definition write_head_canary :: "memory \<Rightarrow> nat \<Rightarrow> u32 \<Rightarrow> memory" where
  "write_head_canary m raw user_size = st32 (st32 m raw KASAN_CANARY_HEAD) (raw + 4) user_size"

definition write_tail_canary :: "memory \<Rightarrow> nat \<Rightarrow> memory" where
  "write_tail_canary m tail = st32 (st32 m tail KASAN_CANARY_TAIL) (tail + 4) KASAN_CANARY_TAIL"

definition validate_head_canary :: "memory \<Rightarrow> nat \<Rightarrow> u32 option" where
  "validate_head_canary m raw = (if ld32 m raw \<noteq> KASAN_CANARY_HEAD then None else Some (ld32 m (raw + 4)))"

definition validate_tail_canary :: "memory \<Rightarrow> nat \<Rightarrow> bool" where
  "validate_tail_canary m tail \<longleftrightarrow> ld32 m tail = KASAN_CANARY_TAIL \<and> ld32 m (tail + 4) = KASAN_CANARY_TAIL"

section \<open>Poison\<close>

definition poison_region :: "memory \<Rightarrow> nat \<Rightarrow> nat \<Rightarrow> memory" where
  "poison_region m p bytes =
     (let n32 = bytes div 4;
          m1 = fold (\<lambda>i m. st32 m (p + 4 * i) KASAN_POISON_WORD) [0..<n32] m;
          rest = p + n32 * 4
      in fold (\<lambda>i m. m(rest + i := ucast (drop_bit (i * 8) KASAN_POISON_WORD AND 0xFF))) [0..<bytes - n32 * 4] m1)"

definition kasan_poison_range :: "memory \<Rightarrow> nat \<Rightarrow> nat \<Rightarrow> memory" where
  "kasan_poison_range m p bytes = (if p = 0 \<or> bytes = 0 then m else poison_region m p bytes)"

text \<open>\<open>True\<close>: the scan ends; \<open>False\<close>: it finds a word that is not poison and panics.\<close>

definition kasan_check_poison :: "memory \<Rightarrow> nat \<Rightarrow> nat \<Rightarrow> bool" where
  "kasan_check_poison m raw_block bytes \<longleftrightarrow>
     raw_block = 0 \<or> bytes = 0 \<or>
     list_all (\<lambda>i. ld32 m (raw_block + 4 * i) = KASAN_POISON_WORD) [0..<bytes div 4]"

section \<open>Allocation and release of a block\<close>

definition kasan_alloc_register :: "memory \<Rightarrow> nat \<Rightarrow> nat \<Rightarrow> u32 \<Rightarrow> (memory \<times> nat) option" where
  "kasan_alloc_register m raw_block raw_size user_size =
     (if raw_block = 0 then Some (m, 0)
      else if raw_size < unat user_size + 2 * KASAN_CANARY_BYTES then None
      else
        let m1 = write_head_canary m raw_block user_size;
            user = raw_block + KASAN_CANARY_BYTES;
            tail = user + unat user_size
        in Some (write_tail_canary m1 tail, user))"

text \<open>
  The result is the memory, the raw block and its size.  A canary whose size word has been
  overwritten can place the tail anywhere: the address is taken modulo \<open>2 ^ 32\<close>, as the
  pointer arithmetic is.
\<close>

definition wrap32 :: "nat \<Rightarrow> nat" where
  "wrap32 a = a mod 2 ^ 32"

definition kasan_free_check :: "memory \<Rightarrow> nat \<Rightarrow> (memory \<times> nat \<times> nat) option" where
  "kasan_free_check m user_ptr =
     (if user_ptr = 0 then Some (m, 0, 0)
      else
        let raw = wrap32 (user_ptr + 2 ^ 32 - KASAN_CANARY_BYTES)
        in case validate_head_canary m raw of
             None \<Rightarrow> None
           | Some user_size \<Rightarrow>
               if \<not> validate_tail_canary m (wrap32 (user_ptr + unat user_size)) then None
               else let bytes = wrap32 (unat user_size + 2 * KASAN_CANARY_BYTES)
                    in Some (poison_region m raw bytes, raw, bytes))"

section \<open>What poisoning leaves\<close>

text \<open>The byte of the poison word at offset \<open>k\<close>.\<close>

definition poison_byte :: "nat \<Rightarrow> byte" where
  "poison_byte k = word_bytes KASAN_POISON_WORD ! (k mod 4)"

text \<open>The addresses \<open>a \<le> x < b\<close> hold the poison of a word-aligned fill.\<close>

definition poisoned :: "memory \<Rightarrow> nat \<Rightarrow> nat \<Rightarrow> bool" where
  "poisoned m a b \<longleftrightarrow> (\<forall>x. a \<le> x \<longrightarrow> x < b \<longrightarrow> m x = poison_byte x)"

lemma poisoned_agree: "poisoned m a b \<Longrightarrow> agree m m' a b \<Longrightarrow> poisoned m' a b"
  by (simp add: poisoned_def agree_def)

lemma poisoned_join: "poisoned m a b \<Longrightarrow> poisoned m b c \<Longrightarrow> poisoned m a c"
  unfolding poisoned_def by (metis le_less_linear)

lemma poisoned_sub: "poisoned m a b \<Longrightarrow> a \<le> c \<Longrightarrow> d \<le> b \<Longrightarrow> poisoned m c d"
  by (simp add: poisoned_def)

lemma poison_words:
  "fold (\<lambda>i m. st32 m (p + 4 * i) KASAN_POISON_WORD) [0..<n] m x =
   (if p \<le> x \<and> x < p + 4 * n then poison_byte (x - p) else m x)"
proof (induction n)
  case 0
  then show ?case by auto
next
  case (Suc n)
  show ?case
  proof (cases "p + 4 * n \<le> x \<and> x < p + 4 * n + 4")
    case True
    then have "x - p = (x - (p + 4 * n)) + 4 * n" and k: "x - (p + 4 * n) < 4" by linarith+
    then have "(x - p) mod 4 = x - (p + 4 * n)" by (metis mod_less mod_mult_self2)
    then have "poison_byte (x - p) = word_bytes KASAN_POISON_WORD ! (x - (p + 4 * n))"
      by (simp add: poison_byte_def)
    then show ?thesis using True by (simp add: st32_def copy_into_def)
  next
    case False
    then have "x < p + 4 * n \<or> p + 4 * n + 4 \<le> x" by linarith
    then show ?thesis using Suc by (auto simp: st32_outside)
  qed
qed

lemma poison_tail:
  "fold (\<lambda>i m. m(r + i := f i)) [0..<n] m x = (if r \<le> x \<and> x < r + n then f (x - r) else m x)"
  for m :: memory
  by (induction n) auto

lemma poison_byte_tail:
  "k < 4 \<Longrightarrow> ucast (drop_bit (k * 8) KASAN_POISON_WORD AND 0xFF) = poison_byte k"
proof -
  assume "k < 4"
  then have "k = 0 \<or> k = 1 \<or> k = 2 \<or> k = 3" by linarith
  then show ?thesis
    by (elim disjE) (simp_all add: poison_byte_def word_bytes_def KASAN_POISON_WORD_def upt_rec)
qed

lemma poison_region_eq:
  "poison_region m p n x = (if p \<le> x \<and> x < p + n then poison_byte (x - p) else m x)"
proof -
  let ?q = "n div 4"
  have n: "n = ?q * 4 + n mod 4" by simp
  show ?thesis
  proof (cases "p + ?q * 4 \<le> x \<and> x < p + n")
    case True
    then have k: "x - (p + ?q * 4) < 4" using n by linarith
    have "x - p = (x - (p + ?q * 4)) + 4 * ?q" using True by linarith
    then have "(x - p) mod 4 = x - (p + ?q * 4)" using k by (metis mod_less mod_mult_self2)
    then have "poison_byte (x - (p + ?q * 4)) = poison_byte (x - p)" using k by (simp add: poison_byte_def)
    then show ?thesis using True poison_byte_tail[OF k] by (simp add: poison_region_def Let_def poison_tail)
  next
    case False
    have "x < p + ?q * 4 \<or> p + n \<le> x" using False by linarith
    then show ?thesis using n by (auto simp: poison_region_def Let_def poison_tail poison_words)
  qed
qed

lemma poison_byte_shift: "4 dvd p \<Longrightarrow> p \<le> x \<Longrightarrow> poison_byte (x - p) = poison_byte x"
proof -
  assume "4 dvd p" "p \<le> x"
  then obtain k where "x = (x - p) + 4 * k" by (metis dvdE le_add_diff_inverse2)
  then have "(x - p) mod 4 = x mod 4" by (metis mod_mult_self2)
  then show ?thesis by (simp add: poison_byte_def)
qed

lemma poison_region_poisoned: "4 dvd p \<Longrightarrow> poisoned (poison_region m p n) p (p + n)"
  by (simp add: poisoned_def poison_region_eq poison_byte_shift)

lemma poison_region_agree: "d \<le> p \<or> p + n \<le> c \<Longrightarrow> agree m (poison_region m p n) c d"
  by (auto simp: agree_def poison_region_eq)

lemma poisoned_ld32: "poisoned m a b \<Longrightarrow> 4 dvd x \<Longrightarrow> a \<le> x \<Longrightarrow> x + 4 \<le> b \<Longrightarrow> ld32 m x = KASAN_POISON_WORD"
proof -
  assume a: "poisoned m a b" "4 dvd x" "a \<le> x" "x + 4 \<le> b"
  have "slice_of m x 4 = word_bytes KASAN_POISON_WORD"
  proof (rule nth_equalityI)
    fix i assume "i < length (slice_of m x 4)"
    then have i: "i < 4" by simp
    have "(x + i) mod 4 = i" using a(2) i by (metis add_0 dvd_imp_mod_0 mod_add_left_eq mod_less)
    then show "slice_of m x 4 ! i = word_bytes KASAN_POISON_WORD ! i"
      using a i by (simp add: poisoned_def poison_byte_def)
  qed simp
  then show ?thesis by (simp add: ld32_def)
qed

lemma poisoned_check:
  "poisoned m a (a + n) \<Longrightarrow> 4 dvd a \<Longrightarrow> kasan_check_poison m a n"
  unfolding kasan_check_poison_def list_all_iff
  by (intro disjI2 ballI) (rule poisoned_ld32, assumption, auto)

end
