(* ===== verification/Heap.thy ===== *)
theory Heap
  imports Kasan
begin

text \<open>
  \<^verbatim>\<open>src/kernel/mm/heap.c\<close>: the first-fit allocator of the kernel heap.  The headers
  live in the memory they describe, next to the canaries and the poison of
  \<^verbatim>\<open>kasan.c\<close>; every operation reads and writes that one memory.  The abstraction of a
  heap is the list of its blocks in address order, and each operation is shown to
  implement its effect on that list.
\<close>

section \<open>Headers\<close>

definition sizeof_block_header :: nat where [simp]: "sizeof_block_header = 16"

text \<open>\<^verbatim>\<open>block_header_t\<close>: four words at the start of a block.\<close>

definition bh_size :: "memory \<Rightarrow> nat \<Rightarrow> nat" where "bh_size m b = unat (ld32 m b)"
definition bh_is_free :: "memory \<Rightarrow> nat \<Rightarrow> u32" where "bh_is_free m b = ld32 m (b + 4)"
definition bh_next :: "memory \<Rightarrow> nat \<Rightarrow> nat" where "bh_next m b = unat (ld32 m (b + 8))"
definition bh_prev :: "memory \<Rightarrow> nat \<Rightarrow> nat" where "bh_prev m b = unat (ld32 m (b + 12))"

definition set_size :: "nat \<Rightarrow> nat \<Rightarrow> memory \<Rightarrow> memory" where "set_size b v m = st32 m b (of_nat v)"
definition set_is_free :: "nat \<Rightarrow> u32 \<Rightarrow> memory \<Rightarrow> memory" where "set_is_free b v m = st32 m (b + 4) v"
definition set_next :: "nat \<Rightarrow> nat \<Rightarrow> memory \<Rightarrow> memory" where "set_next b v m = st32 m (b + 8) (of_nat v)"
definition set_prev :: "nat \<Rightarrow> nat \<Rightarrow> memory \<Rightarrow> memory" where "set_prev b v m = st32 m (b + 12) (of_nat v)"

lemmas header_defs = bh_size_def bh_is_free_def bh_next_def bh_prev_def
  set_size_def set_is_free_def set_next_def set_prev_def

record heap_state =
  hmem :: memory
  heap_base :: nat
  heap_size_var :: nat
  heap_end_var :: nat
  heap_start :: nat

section \<open>Operations\<close>

text \<open>The statics as the C initialisers leave them, over the memory found at boot.\<close>

definition heap_statics :: "memory \<Rightarrow> heap_state" where
  "heap_statics m = \<lparr>hmem = m, heap_base = KERNEL_HEAP_START, heap_size_var = KERNEL_HEAP_END - KERNEL_HEAP_START,
     heap_end_var = KERNEL_HEAP_END, heap_start = 0\<rparr>"

definition heap_init :: "heap_state \<Rightarrow> heap_state" where
  "heap_init h =
     (let b = heap_base h;
          m1 = set_prev b 0 (set_next b 0 (set_is_free b 1 (set_size b (heap_size_var h) (hmem h))));
          m2 = kasan_poison_range m1 (b + sizeof_block_header) (heap_size_var h - sizeof_block_header)
      in h\<lparr>hmem := m2, heap_start := b\<rparr>)"

definition split_block :: "heap_state \<Rightarrow> memory \<Rightarrow> nat \<Rightarrow> nat \<Rightarrow> memory" where
  "split_block h m block sz =
     (if bh_size m block > sz + sizeof_block_header + 16 then
        let new_block = block + sz in
        if new_block < heap_base h \<or> new_block \<ge> heap_end_var h then m
        else
          let m1 = set_size new_block (bh_size m block - sz) m;
              m2 = set_is_free new_block 1 m1;
              m3 = set_next new_block (bh_next m2 block) m2;
              m4 = set_prev new_block block m3;
              m5 = (if bh_next m4 block \<noteq> 0 then set_prev (bh_next m4 block) new_block m4 else m4);
              m6 = set_next block new_block m5
          in set_size block sz m6
      else m)"

definition merge_next :: "memory \<Rightarrow> nat \<Rightarrow> memory" where
  "merge_next m block =
     (if bh_next m block \<noteq> 0 \<and> bh_is_free m (bh_next m block) \<noteq> 0 then
        let nx = bh_next m block;
            next_size = bh_size m nx;
            nn = bh_next m nx;
            m1 = kasan_poison_range m nx sizeof_block_header;
            m2 = set_size block (bh_size m1 block + next_size) m1;
            m3 = set_next block nn m2
        in if nn \<noteq> 0 then set_prev nn block m3 else m3
      else m)"

definition merge_prev :: "memory \<Rightarrow> nat \<Rightarrow> memory" where
  "merge_prev m block =
     (if bh_prev m block \<noteq> 0 \<and> bh_is_free m (bh_prev m block) \<noteq> 0 then
        let pv = bh_prev m block;
            nn = bh_next m block;
            this_size = bh_size m block;
            m1 = kasan_poison_range m block sizeof_block_header;
            m2 = set_size pv (bh_size m1 pv + this_size) m1;
            m3 = set_next pv nn m2
        in if nn \<noteq> 0 then set_prev nn pv m3 else m3
      else m)"

definition merge_free_blocks :: "memory \<Rightarrow> nat \<Rightarrow> memory" where
  "merge_free_blocks m block = merge_prev (merge_next m block) block"

text \<open>
  The search loop of \<open>heap_alloc\<close>.  On a damaged list it need not end; the value is then
  \<open>None\<close>.
\<close>

partial_function (option) find_fit :: "memory \<Rightarrow> nat \<Rightarrow> nat \<Rightarrow> nat option" where
  "find_fit m total_size blk =
     (if blk = 0 then Some 0
      else if bh_is_free m blk \<noteq> 0 \<and> bh_size m blk \<ge> total_size then Some blk
      else find_fit m total_size (bh_next m blk))"

declare find_fit.simps [code]

text \<open>
  The sum of the sizes cannot wrap: the first guard keeps \<open>sz\<close> below the size of the
  arena.  The result holds the pointer returned, 0 for NULL.
\<close>

definition heap_alloc :: "heap_state \<Rightarrow> u32 \<Rightarrow> (heap_state \<times> nat) option" where
  "heap_alloc h sz =
     (if sz = 0 \<or> unat sz > heap_size_var h - sizeof_block_header * 2 then Some (h, 0)
      else
        let raw_size = (kasan_raw_size (unat sz) + 3) div 4 * 4;
            total_size = raw_size + sizeof_block_header
        in if total_size > heap_size_var h then Some (h, 0)
        else case find_fit (hmem h) total_size (heap_start h) of
          None \<Rightarrow> None
        | Some blk \<Rightarrow>
            if blk = 0 then Some (h, 0)
            else
              let m1 = set_is_free blk 0 (hmem h);
                  m2 = split_block h m1 blk total_size;
                  data_size = bh_size m2 blk - sizeof_block_header;
                  raw_payload = blk + sizeof_block_header
              in if \<not> kasan_check_poison m2 raw_payload data_size then None
                 else case kasan_alloc_register m2 raw_payload data_size sz of
                   None \<Rightarrow> None
                 | Some (m3, p) \<Rightarrow> Some (h\<lparr>hmem := m3\<rparr>, p))"

definition heap_free :: "heap_state \<Rightarrow> nat \<Rightarrow> heap_state option" where
  "heap_free h ptr =
     (if ptr = 0 then Some h
      else
        let raw_head = wrap32 (ptr + 2 ^ 32 - KASAN_CANARY_BYTES)
        in if ld32 (hmem h) raw_head = KASAN_POISON_WORD \<and> \<not> kasan_check_poison (hmem h) raw_head KASAN_CANARY_BYTES
        then None
        else case kasan_free_check (hmem h) ptr of
          None \<Rightarrow> None
        | Some (m1, raw_payload, _) \<Rightarrow>
            let block = wrap32 (raw_payload + 2 ^ 32 - sizeof_block_header);
                h1 = h\<lparr>hmem := m1\<rparr>
            in if block < heap_base h \<or> block \<ge> heap_end_var h then Some h1
            else if bh_is_free m1 block = 1 then Some h1
            else if bh_size m1 block = 0 \<or> bh_size m1 block > heap_size_var h \<or>
                    bh_size m1 block < sizeof_block_header then Some h1
            else if block + bh_size m1 block > heap_end_var h then Some h1
            else Some (h\<lparr>hmem := merge_free_blocks (set_is_free block 1 m1) block\<rparr>))"

section \<open>The list of blocks\<close>

text \<open>A free block with its size; a block in use with its size and the size its user asked for.\<close>

datatype hblock = Free nat | Used nat nat

fun blk_size :: "hblock \<Rightarrow> nat" where
  "blk_size (Free s) = s"
| "blk_size (Used s u) = s"

abbreviation total :: "hblock list \<Rightarrow> nat" where
  "total bs \<equiv> sum_list (map blk_size bs)"

text \<open>The live allocations of a run of blocks that starts at \<open>a\<close>: pointer and size.\<close>

fun allocs :: "nat \<Rightarrow> hblock list \<Rightarrow> (nat \<times> nat) list" where
  "allocs a [] = []"
| "allocs a (Free s # bs) = allocs (a + s) bs"
| "allocs a (Used s u # bs) = (a + 24, u) # allocs (a + s) bs"

text \<open>First fit on the list of blocks; \<open>t\<close> bytes are taken for a user size \<open>u\<close>.\<close>

definition carve :: "nat \<Rightarrow> nat \<Rightarrow> nat \<Rightarrow> hblock list" where
  "carve t u s = (if s > t + 32 then [Used t u, Free (s - t)] else [Used s u])"

fun place :: "nat \<Rightarrow> nat \<Rightarrow> nat \<Rightarrow> hblock list \<Rightarrow> hblock list \<times> nat" where
  "place t u a [] = ([], 0)"
| "place t u a (Free s # bs) =
     (if t \<le> s then (carve t u s @ bs, a + 24)
      else let (bs', p) = place t u (a + s) bs in (Free s # bs', p))"
| "place t u a (Used s v # bs) = (let (bs', p) = place t u (a + s) bs in (Used s v # bs', p))"

primrec free_blk :: "hblock \<Rightarrow> bool" where
  "free_blk (Free s) = True"
| "free_blk (Used s u) = False"

text \<open>The block between \<open>xs\<close> and \<open>ys\<close> becomes free and is joined with its free neighbours.\<close>

fun join_free :: "hblock \<Rightarrow> hblock list \<Rightarrow> hblock list" where
  "join_free (Free s) (Free n # bs) = Free (s + n) # bs"
| "join_free b bs = b # bs"

definition free_spec :: "hblock list \<Rightarrow> nat \<Rightarrow> hblock list \<Rightarrow> hblock list" where
  "free_spec xs s ys =
     (if xs \<noteq> [] \<and> free_blk (last xs) then butlast xs @ join_free (last xs) (join_free (Free s) ys)
      else xs @ join_free (Free s) ys)"

text \<open>No two neighbours are free.\<close>

primrec no_adj :: "hblock list \<Rightarrow> bool" where
  "no_adj [] = True"
| "no_adj (b # bs) = (no_adj bs \<and> \<not> (free_blk b \<and> bs \<noteq> [] \<and> free_blk (hd bs)))"

section \<open>The memory of a list of blocks\<close>

definition nxt :: "nat \<Rightarrow> nat \<Rightarrow> nat" where
  "nxt e a = (if a = e then 0 else a)"

definition hdr :: "memory \<Rightarrow> nat \<Rightarrow> nat \<Rightarrow> nat \<Rightarrow> nat \<Rightarrow> bool \<Rightarrow> bool" where
  "hdr m e p a s f \<longleftrightarrow>
     ld32 m a = of_nat s \<and> ld32 m (a + 4) = (if f then 1 else 0) \<and>
     ld32 m (a + 8) = of_nat (nxt e (a + s)) \<and> ld32 m (a + 12) = of_nat p"

definition guarded :: "memory \<Rightarrow> nat \<Rightarrow> nat \<Rightarrow> bool" where
  "guarded m a u \<longleftrightarrow> ld32 m (a + 16) = KASAN_CANARY_HEAD \<and> ld32 m (a + 20) = of_nat u \<and>
     validate_tail_canary m (a + 24 + u)"

fun blk_ok :: "memory \<Rightarrow> nat \<Rightarrow> nat \<Rightarrow> nat \<Rightarrow> hblock \<Rightarrow> bool" where
  "blk_ok m e p a (Free s) \<longleftrightarrow> 16 \<le> s \<and> 4 dvd s \<and> hdr m e p a s True \<and> poisoned m (a + 16) (a + s)"
| "blk_ok m e p a (Used s u) \<longleftrightarrow> 32 + u \<le> s \<and> 4 dvd s \<and> hdr m e p a s False \<and> guarded m a u \<and>
     poisoned m (a + 32 + u) (a + s)"

fun blocks_ok :: "memory \<Rightarrow> nat \<Rightarrow> nat \<Rightarrow> nat \<Rightarrow> hblock list \<Rightarrow> bool" where
  "blocks_ok m e p a [] \<longleftrightarrow> True"
| "blocks_ok m e p a (b # bs) \<longleftrightarrow> blk_ok m e p a b \<and> blocks_ok m e a (a + blk_size b) bs"

definition heap_ok :: "heap_state \<Rightarrow> hblock list \<Rightarrow> bool" where
  "heap_ok h bs \<longleftrightarrow>
     0 < heap_base h \<and> 4 dvd heap_base h \<and> heap_base h + heap_size_var h = heap_end_var h \<and>
     heap_end_var h < 2 ^ 32 \<and> heap_start h = heap_base h \<and> bs \<noteq> [] \<and>
     heap_base h + total bs = heap_end_var h \<and> no_adj bs \<and>
     blocks_ok (hmem h) (heap_end_var h) 0 (heap_base h) bs"

text \<open>The bytes of the live allocations are the same in both heaps.\<close>

definition same_bytes :: "(nat \<times> nat) list \<Rightarrow> memory \<Rightarrow> memory \<Rightarrow> bool" where
  "same_bytes as m m' \<longleftrightarrow> (\<forall>(p, n) \<in> set as. slice_of m' p n = slice_of m p n)"

fun last_addr :: "nat \<Rightarrow> nat \<Rightarrow> hblock list \<Rightarrow> nat" where
  "last_addr p a [] = p"
| "last_addr p a (b # bs) = last_addr a (a + blk_size b) bs"

section \<open>Lists of blocks and the memory they depend on\<close>

lemma blocks_ok_append:
  "blocks_ok m e p a (xs @ ys) \<longleftrightarrow> blocks_ok m e p a xs \<and> blocks_ok m e (last_addr p a xs) (a + total xs) ys"
  by (induction xs arbitrary: p a) (auto simp: add.assoc)

lemma allocs_append: "allocs a (xs @ ys) = allocs a xs @ allocs (a + total xs) ys"
  by (induction a xs rule: allocs.induct) (auto simp: add.assoc)

lemma ld32_in: "agree m m' a b \<Longrightarrow> a \<le> x \<Longrightarrow> x + 4 \<le> b \<Longrightarrow> ld32 m' x = ld32 m x"
  by (rule ld32_agree[symmetric]) (rule agree_sub)

lemma hdr_agree: "hdr m e p a s f \<Longrightarrow> agree m m' a (a + 16) \<Longrightarrow> hdr m' e p a s f"
  unfolding hdr_def by (simp add: ld32_in)

lemma guarded_agree:
  "guarded m a u \<Longrightarrow> agree m m' (a + 16) (a + 24) \<Longrightarrow> agree m m' (a + 24 + u) (a + 32 + u) \<Longrightarrow> guarded m' a u"
  unfolding guarded_def validate_tail_canary_def
  by (simp add: ld32_in[of m m' "a + 16" "a + 24"] ld32_in[of m m' "a + 24 + u" "a + 32 + u"])

lemma blk_ok_size: "blk_ok m e p a b \<Longrightarrow> 16 \<le> blk_size b \<and> 4 dvd blk_size b"
  by (cases b) auto

lemma blk_ok_agree:
  assumes "blk_ok m e p a b" "agree m m' a (a + blk_size b)"
  shows "blk_ok m' e p a b"
proof (cases b)
  case (Free s)
  then have "16 \<le> s" using assms(1) by simp
  then have "agree m m' a (a + 16)" "agree m m' (a + 16) (a + s)"
    using assms(2) Free by (auto intro: agree_sub)
  then show ?thesis using assms(1) Free by (auto intro: hdr_agree poisoned_agree)
next
  case (Used s u)
  then have u: "32 + u \<le> s" using assms(1) by simp
  have "agree m m' a (a + 16)" "agree m m' (a + 16) (a + 24)" "agree m m' (a + 24 + u) (a + 32 + u)"
    "agree m m' (a + 32 + u) (a + s)"
    using assms(2) u Used by (auto intro: agree_sub)
  then show ?thesis using assms(1) Used by (auto intro: hdr_agree guarded_agree poisoned_agree)
qed

lemma blocks_ok_agree:
  "blocks_ok m e p a bs \<Longrightarrow> agree m m' a (a + total bs) \<Longrightarrow> blocks_ok m' e p a bs"
proof (induction bs arbitrary: p a)
  case (Cons b bs)
  have "agree m m' a (a + blk_size b)" "agree m m' (a + blk_size b) (a + blk_size b + total bs)"
    using Cons.prems(2) by (auto intro: agree_sub simp: add.assoc)
  then show ?case using Cons by (auto intro: blk_ok_agree)
qed simp

text \<open>A neighbour before the run has changed: only the \<^verbatim>\<open>prev\<close> word of its first header.\<close>

lemma blk_ok_relink:
  assumes "blk_ok m e p a b" "agree m m' a (a + 12)" "agree m m' (a + 16) (a + blk_size b)"
    and "ld32 m' (a + 12) = of_nat q"
  shows "blk_ok m' e q a b"
proof -
  have h: "hdr m' e q a s f" if "hdr m e p a s f" for s f
    using that assms(2,4) unfolding hdr_def by (simp add: ld32_in)
  show ?thesis
  proof (cases b)
    case (Free s)
    then show ?thesis using assms(1,3) h by (auto intro: poisoned_agree)
  next
    case (Used s u)
    then have u: "32 + u \<le> s" using assms(1) by simp
    have "agree m m' (a + 16) (a + 24)" "agree m m' (a + 24 + u) (a + 32 + u)" "agree m m' (a + 32 + u) (a + s)"
      using assms(3) u Used by (auto intro: agree_sub)
    then show ?thesis using assms(1) Used h by (auto intro: guarded_agree poisoned_agree)
  qed
qed

lemma blocks_ok_relink:
  assumes "blocks_ok m e p a bs" "agree m m' a (a + 12)" "agree m m' (a + 16) (a + total bs)"
    and "bs \<noteq> [] \<Longrightarrow> ld32 m' (a + 12) = of_nat q"
  shows "blocks_ok m' e q a bs"
proof (cases bs)
  case (Cons b cs)
  have s: "16 \<le> blk_size b" using assms(1) blk_ok_size Cons by auto
  have 1: "agree m m' (a + 16) (a + blk_size b)"
    "agree m m' (a + blk_size b) (a + blk_size b + total cs)"
    using assms(3) s Cons by (auto intro: agree_sub simp: add.assoc)
  then show ?thesis using assms Cons by (auto intro: blk_ok_relink blocks_ok_agree)
qed simp

lemma blocks_ok_total: "blocks_ok m e p a bs \<Longrightarrow> bs \<noteq> [] \<Longrightarrow> 16 \<le> total bs"
  by (cases bs) (auto dest: blk_ok_size)

lemma blocks_ok_dvd: "blocks_ok m e p a bs \<Longrightarrow> 4 dvd total bs"
  by (induction bs arbitrary: p a) (auto dest: blk_ok_size)

lemma allocs_range:
  "blocks_ok m e p a bs \<Longrightarrow> (q, n) \<in> set (allocs a bs) \<Longrightarrow> a + 24 \<le> q \<and> q + n + 8 \<le> a + total bs"
proof (induction a bs arbitrary: p rule: allocs.induct)
  case (2 a s bs)
  then show ?case by fastforce
next
  case (3 a s u bs)
  then show ?case by (fastforce simp: add.assoc)
qed simp

lemma same_bytes_agree:
  assumes "blocks_ok m e p a bs" "agree m m' (a + 16) (a + total bs)"
  shows "same_bytes (allocs a bs) m m'"
  unfolding same_bytes_def
proof (clarify)
  fix q n assume "(q, n) \<in> set (allocs a bs)"
  then have "a + 24 \<le> q" "q + n + 8 \<le> a + total bs" using allocs_range[OF assms(1)] by auto
  then have "agree m' m q (q + n)" using assms(2) by (auto simp: agree_def)
  then show "slice_of m' q n = slice_of m q n" by (rule slice_of_agree)
qed

lemma same_bytes_append [simp]: "same_bytes (as @ bs) m m' \<longleftrightarrow> same_bytes as m m' \<and> same_bytes bs m m'"
  by (auto simp: same_bytes_def)

lemma same_bytes_trans: "same_bytes as m m' \<Longrightarrow> same_bytes as m' m'' \<Longrightarrow> same_bytes as m m''"
  by (fastforce simp: same_bytes_def)

section \<open>The search\<close>

lemma unat_of_nat32: "x < 2 ^ 32 \<Longrightarrow> unat (of_nat x :: u32) = x"
  by (simp add: unsigned_of_nat take_bit_nat_eq_self_iff)

text \<open>The address of the block that is used, 0 if none fits.\<close>

fun first_fit :: "nat \<Rightarrow> nat \<Rightarrow> hblock list \<Rightarrow> nat" where
  "first_fit t a [] = 0"
| "first_fit t a (Free s # bs) = (if t \<le> s then a else first_fit t (a + s) bs)"
| "first_fit t a (Used s u # bs) = first_fit t (a + s) bs"

lemma hdr_fields:
  assumes "hdr m e p a s f" "a + s \<le> e" "e < 2 ^ 32" "p < 2 ^ 32"
  shows "bh_size m a = s" "bh_is_free m a = (if f then 1 else 0)" "bh_next m a = nxt e (a + s)" "bh_prev m a = p"
  using assms by (simp_all add: hdr_def header_defs unat_of_nat32 nxt_def)

lemma find_fit_first:
  assumes "blocks_ok m e p a bs" "0 < a" "a + total bs = e" "e < 2 ^ 32" "p < 2 ^ 32"
  shows "find_fit m t (nxt e a) = Some (first_fit t a bs)"
  using assms
proof (induction bs arbitrary: p a)
  case Nil
  then show ?case by (simp add: nxt_def find_fit.simps)
next
  case (Cons b bs)
  have z: "16 \<le> blk_size b" using Cons.prems(1) blk_ok_size by auto
  then have n: "nxt e a = a" "a < 2 ^ 32" "a + blk_size b \<le> e" using Cons.prems(3,4) by (auto simp: nxt_def)
  have ih: "find_fit m t (nxt e (a + blk_size b)) = Some (first_fit t (a + blk_size b) bs)"
    using Cons.IH[of a "a + blk_size b"] Cons.prems n by (simp add: add.assoc)
  show ?case
  proof (cases b)
    case (Free s)
    then have "hdr m e p a s True" using Cons.prems(1) by simp
    note f = hdr_fields[OF this _ Cons.prems(4,5)]
    show ?thesis using f ih n Free Cons.prems(2) by (subst find_fit.simps) simp
  next
    case (Used s u)
    then have "hdr m e p a s False" using Cons.prems(1) by simp
    note f = hdr_fields[OF this _ Cons.prems(4,5)]
    show ?thesis using f ih n Used Cons.prems(2) by (subst find_fit.simps) simp
  qed
qed

section \<open>Taking a block\<close>

lemma first_fit_place:
  assumes "first_fit t a bs \<noteq> 0"
  obtains xs s ys where "bs = xs @ Free s # ys" "t \<le> s" "first_fit t a bs = a + total xs"
    "place t u a bs = (xs @ carve t u s @ ys, a + total xs + 24)"
proof -
  from assms have "\<exists>xs s ys. bs = xs @ Free s # ys \<and> t \<le> s \<and> first_fit t a bs = a + total xs \<and>
      place t u a bs = (xs @ carve t u s @ ys, a + total xs + 24)"
  proof (induction t a bs rule: first_fit.induct)
    case (2 t a s bs)
    show ?case
    proof (cases "t \<le> s")
      case True
      then show ?thesis by (intro exI[of _ "[]"]) auto
    next
      case False
      then obtain xs s' ys where "bs = xs @ Free s' # ys \<and> t \<le> s' \<and> first_fit t (a + s) bs = a + s + total xs \<and>
        place t u (a + s) bs = (xs @ carve t u s' @ ys, a + s + total xs + 24)" using 2 by auto
      then show ?thesis using False by (intro exI[of _ "Free s # xs"]) auto
    qed
  next
    case (3 t a s v bs)
    then obtain xs s' ys where "bs = xs @ Free s' # ys \<and> t \<le> s' \<and> first_fit t (a + s) bs = a + s + total xs \<and>
      place t u (a + s) bs = (xs @ carve t u s' @ ys, a + s + total xs + 24)" by auto
    then show ?case by (intro exI[of _ "Used s v # xs"]) auto
  qed simp
  then show ?thesis using that by blast
qed

lemma first_fit_none: "first_fit t a bs = 0 \<Longrightarrow> 0 < a \<Longrightarrow> place t u a bs = (bs, 0)"
  by (induction t a bs rule: first_fit.induct) (auto split: if_splits)

text \<open>The canaries go into a block whose payload is poison.\<close>

lemma register_ok:
  assumes "hdr m e p a z False" "poisoned m (a + 16) (a + z)" "32 + u \<le> z" "4 dvd z" "4 dvd a" "u < 2 ^ 32" "0 < a"
  obtains m' where "kasan_check_poison m (a + 16) (z - 16)"
    "kasan_alloc_register m (a + 16) (z - 16) (of_nat u) = Some (m', a + 24)"
    "blk_ok m' e p a (Used z u)" "agree m m' 0 (a + 16)" "agree m m' (a + z) d"
proof -
  let ?m = "write_tail_canary (write_head_canary m (a + 16) (of_nat u)) (a + 24 + u)"
  have u: "unat (of_nat u :: u32) = u" using assms(6) by (rule unat_of_nat32)
  have "a + z = a + 16 + (z - 16)" using assms(3) by simp
  then have 1: "kasan_check_poison m (a + 16) (z - 16)"
    using assms(2,5) poisoned_check[of m "a + 16" "z - 16"] by simp
  have 2: "kasan_alloc_register m (a + 16) (z - 16) (of_nat u) = Some (?m, a + 24)"
    using assms(3) by (simp add: kasan_alloc_register_def Let_def u add.commute[of 24 a] less_diff_conv2)
  have lo: "agree m ?m 0 (a + 16)" and hi: "agree m ?m (a + 32 + u) x" for x
    by (auto simp: agree_def write_tail_canary_def write_head_canary_def st32_outside)
  have g: "guarded ?m a u"
    by (simp add: guarded_def validate_tail_canary_def write_tail_canary_def write_head_canary_def add.commute[of 20 a])
  have h: "hdr ?m e p a z False" using hdr_agree[OF assms(1)] agree_sub[OF lo] by blast
  have "poisoned ?m (a + 32 + u) (a + z)"
    using poisoned_agree[OF poisoned_sub[OF assms(2)] hi] assms(3) by simp
  then have "blk_ok ?m e p a (Used z u)" using assms(3,4) h g by simp
  moreover have "agree m ?m (a + z) d" by (rule agree_sub[OF hi[of d]]) (use assms(3) in simp_all)
  ultimately show ?thesis using that[OF 1 2 _ lo] by blast
qed

text \<open>\<open>split_block\<close> on the block at \<open>a\<close>, whose \<^verbatim>\<open>is_free\<close> has just been cleared.\<close>

lemma split_block_cut:
  assumes "hdr m e p a s True" "0 < a" "a + s + total ys = e" "e < 2 ^ 32" "p < 2 ^ 32"
    and "heap_base h \<le> a" "heap_end_var h = e" "32 \<le> t" "t + 32 < s" "ys \<noteq> [] \<Longrightarrow> 16 \<le> total ys"
  defines "m2 \<equiv> split_block h (set_is_free a 0 m) a t"
  shows "hdr m2 e p a t False" "hdr m2 e a (a + t) (s - t) True"
    and "agree m m2 0 a" "agree m m2 (a + 16) (a + t)" "agree m m2 (a + t + 16) (a + s + 12)" "agree m m2 (a + s + 16) d"
    and "ys \<noteq> [] \<Longrightarrow> ld32 m2 (a + s + 12) = of_nat (a + t)"
proof -
  have le: "a + s \<le> e" using assms(3) by simp
  note f = hdr_fields[OF assms(1) le assms(4,5)]
  have f1: "bh_size (set_is_free a 0 m) a = s" "bh_next (set_is_free a 0 m) a = nxt e (a + s)"
    using f by (simp_all add: header_defs)
  let ?m4 = "set_prev (a + t) a (set_next (a + t) (nxt e (a + s)) (set_is_free (a + t) 1 (set_size (a + t) (s - t) (set_is_free a 0 m))))"
  let ?m5 = "if nxt e (a + s) \<noteq> 0 then set_prev (nxt e (a + s)) (a + t) ?m4 else ?m4"
  have b: "\<not> (a + t < heap_base h \<or> a + t \<ge> heap_end_var h)" using assms(6-9) le by simp
  have n2: "bh_next (set_is_free (a + t) 1 (set_size (a + t) (s - t) (set_is_free a 0 m))) a = nxt e (a + s)"
    using f(3) assms(8) by (simp add: header_defs)
  have n4: "bh_next ?m4 a = nxt e (a + s)"
    using f(3) assms(8) by (simp add: header_defs)
  have m2: "m2 = set_size a t (set_next a (a + t) ?m5)"
    using assms(9) b unfolding m2_def split_block_def Let_def f1 n2 n4 by simp
  have q: "nxt e (a + s) = 0 \<and> ys = [] \<or> nxt e (a + s) = a + s \<and> ys \<noteq> []"
    using assms(2,3,10) by (cases "ys = []") (auto simp: nxt_def)
  have st: "a + t + (s - t) = a + s" using assms(9) by simp
  have at: "a + t \<noteq> e" "t < s" using le assms(9) by auto
  show "hdr m2 e p a t False" "hdr m2 e a (a + t) (s - t) True"
    and "ys \<noteq> [] \<Longrightarrow> ld32 m2 (a + s + 12) = of_nat (a + t)"
    using assms(1,8,9) q at unfolding m2 hdr_def st by (auto simp: header_defs nxt_def)
  show "agree m m2 0 a" "agree m m2 (a + 16) (a + t)" "agree m m2 (a + t + 16) (a + s + 12)" "agree m m2 (a + s + 16) d"
    using assms(8) q at unfolding m2 agree_def by (auto simp: header_defs st32_outside)
qed

lemma take_cut:
  assumes ok: "blk_ok m e p a (Free s)" "blocks_ok m e a (a + s) ys"
    and a: "0 < a" "4 dvd a" "a + s + total ys = e" "e < 2 ^ 32" "p < 2 ^ 32"
    and h: "heap_base h \<le> a" "heap_end_var h = e" and t: "t + 32 < s" "32 + u \<le> t" "4 dvd t"
  defines "m2 \<equiv> split_block h (set_is_free a 0 m) a t"
  obtains m3 where "kasan_check_poison m2 (a + 16) (bh_size m2 a - 16)"
    "kasan_alloc_register m2 (a + 16) (bh_size m2 a - 16) (of_nat u) = Some (m3, a + 24)"
    "blk_ok m3 e p a (Used t u)" "blk_ok m3 e a (a + t) (Free (s - t))" "blocks_ok m3 e (a + t) (a + s) ys"
    "agree m m3 0 a" "agree m m3 (a + s + 16) e"
proof -
  have hd: "hdr m e p a s True" and po: "poisoned m (a + 16) (a + s)" and s: "4 dvd s"
    using ok(1) by auto
  have le: "a + s \<le> e" "u < 2 ^ 32" "32 \<le> t" using a(3,4) t by auto
  have y: "ys \<noteq> [] \<Longrightarrow> 16 \<le> total ys" using ok(2) blocks_ok_total by blast
  note c = split_block_cut[OF hd a(1,3,4,5) h le(3) t(1) y, folded m2_def]
  have z: "bh_size m2 a = t" using hdr_fields(1)[OF c(1) _ a(4,5)] le t(1) by simp
  have p2: "poisoned m2 (a + 16) (a + t)" using poisoned_agree[OF poisoned_sub[OF po] c(4)] t(1) by simp
  obtain m3 where m3: "kasan_check_poison m2 (a + 16) (t - 16)"
    "kasan_alloc_register m2 (a + 16) (t - 16) (of_nat u) = Some (m3, a + 24)"
    "blk_ok m3 e p a (Used t u)" "agree m2 m3 0 (a + 16)" "agree m2 m3 (a + t) e"
    using register_ok[OF c(1) p2 t(2,3) a(2) le(2) a(1), of e] by blast
  have 2: "agree m2 m3 (a + t) (a + t + 16)" "agree m2 m3 (a + t + 16) (a + s)"
    using m3(5) a(3) t(1) by (auto intro: agree_sub)
  have "poisoned m2 (a + t + 16) (a + s)"
    using poisoned_agree[OF poisoned_sub[OF po] agree_sub[OF c(5)]] by simp
  then have f: "blk_ok m3 e a (a + t) (Free (s - t))"
    using hdr_agree[OF c(2) 2(1)] poisoned_agree[OF _ 2(2)] t(1,3) s by simp
  have k: "agree m m3 (a + s + 16) e"
    using agree_trans[OF c(6) agree_sub[OF m3(5)]] t(1) by simp
  have r: "blocks_ok m3 e (a + t) (a + s) ys"
  proof (cases "ys = []")
    case False
    have 1: "agree m2 m3 (a + s) (a + s + 12)" "agree m2 m3 (a + s + 12) (a + s + 12 + 4)"
      using m3(5) y[OF False] a(3) t(1) by (auto intro: agree_sub)
    have "agree m m3 (a + s) (a + s + 12)" using agree_trans[OF agree_sub[OF c(5)] 1(1)] t(1) by simp
    moreover have "ld32 m3 (a + s + 12) = of_nat (a + t)" using ld32_in[OF 1(2)] c(7) False by simp
    ultimately show ?thesis using blocks_ok_relink[OF ok(2)] k a(3) by simp
  qed simp
  have "agree m m3 0 a" using agree_trans[OF c(3) agree_sub[OF m3(4)]] by simp
  then show ?thesis using that m3(1-3) f r k z by simp
qed

lemma take_whole:
  fixes h :: heap_state
  assumes ok: "blk_ok m e p a (Free s)" "blocks_ok m e a (a + s) ys"
    and a: "0 < a" "4 dvd a" "a + s + total ys = e" "e < 2 ^ 32" "p < 2 ^ 32"
    and t: "s \<le> t + 32" "32 + u \<le> s"
  defines "m2 \<equiv> split_block h (set_is_free a 0 m) a t"
  obtains m3 where "kasan_check_poison m2 (a + 16) (bh_size m2 a - 16)"
    "kasan_alloc_register m2 (a + 16) (bh_size m2 a - 16) (of_nat u) = Some (m3, a + 24)"
    "blk_ok m3 e p a (Used s u)" "blocks_ok m3 e a (a + s) ys" "agree m m3 0 a" "agree m m3 (a + s + 16) e"
proof -
  have hd: "hdr m e p a s True" and po: "poisoned m (a + 16) (a + s)" and s: "16 \<le> s" "4 dvd s"
    using ok(1) by auto
  have le: "a + s \<le> e" "u < 2 ^ 32" using a(3,4) t by auto
  have m2: "m2 = set_is_free a 0 m"
    using hdr_fields(1)[OF hd le(1) a(4,5)] t(1) by (simp add: m2_def split_block_def header_defs)
  have h2: "hdr m2 e p a s False" using hd by (simp add: m2 header_defs hdr_def)
  have ag: "agree m m2 0 a" "agree m m2 (a + 16) x" for x by (auto simp: m2 header_defs agree_st32)
  have z: "bh_size m2 a = s" using hdr_fields(1)[OF h2 le(1) a(4,5)] .
  obtain m3 where m3: "kasan_check_poison m2 (a + 16) (s - 16)"
    "kasan_alloc_register m2 (a + 16) (s - 16) (of_nat u) = Some (m3, a + 24)"
    "blk_ok m3 e p a (Used s u)" "agree m2 m3 0 (a + 16)" "agree m2 m3 (a + s) e"
    using register_ok[OF h2 poisoned_agree[OF po ag(2)] t(2) s(2) a(2) le(2) a(1), of e] by blast
  have k: "agree m m3 (a + s) e" using agree_trans[OF agree_sub[OF ag(2)[of e]] m3(5)] s by simp
  have "agree m m3 0 a" using agree_trans[OF ag(1) agree_sub[OF m3(4)]] by simp
  moreover have "blocks_ok m3 e a (a + s) ys" using blocks_ok_agree[OF ok(2)] k a(3) by simp
  ultimately show ?thesis using that m3(1-3) agree_sub[OF k] z by simp
qed

lemma take_ok:
  assumes ok: "blk_ok m e p a (Free s)" "blocks_ok m e a (a + s) ys"
    and a: "0 < a" "4 dvd a" "a + s + total ys = e" "e < 2 ^ 32" "p < 2 ^ 32"
    and h: "heap_base h \<le> a" "heap_end_var h = e" and t: "t \<le> s" "32 + u \<le> t" "4 dvd t"
  defines "m2 \<equiv> split_block h (set_is_free a 0 m) a t"
  obtains m3 where "kasan_check_poison m2 (a + 16) (bh_size m2 a - 16)"
    "kasan_alloc_register m2 (a + 16) (bh_size m2 a - 16) (of_nat u) = Some (m3, a + 24)"
    "blocks_ok m3 e p a (carve t u s @ ys)" "agree m m3 0 a" "agree m m3 (a + s + 16) e"
proof (cases "t + 32 < s")
  case True
  show ?thesis
    by (rule take_cut[OF ok a h True t(2,3), folded m2_def], rule that) (use True in \<open>simp_all add: carve_def\<close>)
next
  case False
  then have "s \<le> t + 32" "32 + u \<le> s" using t by auto
  then show ?thesis
    by - (rule take_whole[OF ok a, where h = h and t = t and u = u, folded m2_def], assumption, assumption, rule that,
        use False in \<open>simp_all add: carve_def\<close>)
qed

text \<open>The bytes of a block for a user size: canaries, rounding to four, header.\<close>

definition alloc_total :: "nat \<Rightarrow> nat" where
  "alloc_total u = (u + 16 + 3) div 4 * 4 + 16"

lemma alloc_total: "32 + u \<le> alloc_total u" "4 dvd alloc_total u" "alloc_total u \<le> u + 35"
  by (auto simp: alloc_total_def)

lemma no_adj_append:
  "no_adj (xs @ ys) \<longleftrightarrow> no_adj xs \<and> no_adj ys \<and> \<not> (xs \<noteq> [] \<and> ys \<noteq> [] \<and> free_blk (last xs) \<and> free_blk (hd ys))"
  by (induction xs) (auto simp: hd_append)

lemma no_adj_carve: "no_adj (xs @ Free s # ys) \<Longrightarrow> no_adj (xs @ carve t u s @ ys)"
  by (auto simp: carve_def no_adj_append)

section \<open>Allocation\<close>

lemma heap_okD:
  assumes "heap_ok h bs"
  shows "0 < heap_base h" "4 dvd heap_base h" "heap_end_var h < 2 ^ 32" "heap_start h = heap_base h"
    "heap_base h + total bs = heap_end_var h" "heap_base h + heap_size_var h = heap_end_var h"
    "blocks_ok (hmem h) (heap_end_var h) 0 (heap_base h) bs" "no_adj bs"
    "find_fit (hmem h) t (heap_start h) = Some (first_fit t (heap_base h) bs)"
proof -
  show f: "0 < heap_base h" "4 dvd heap_base h" "heap_end_var h < 2 ^ 32" "heap_start h = heap_base h"
    "heap_base h + total bs = heap_end_var h" "heap_base h + heap_size_var h = heap_end_var h"
    "blocks_ok (hmem h) (heap_end_var h) 0 (heap_base h) bs" "no_adj bs"
    using assms by (auto simp: heap_ok_def)
  have "nxt (heap_end_var h) (heap_base h) = heap_base h"
    using f(5) blocks_ok_total[OF f(7)] assms by (auto simp: nxt_def heap_ok_def)
  then show "find_fit (hmem h) t (heap_start h) = Some (first_fit t (heap_base h) bs)"
    using find_fit_first[OF f(7,1,5,3)] f(4) by simp
qed

lemma last_addr_bound: "p < n \<Longrightarrow> a + total bs \<le> n \<Longrightarrow> blocks_ok m e p a bs \<Longrightarrow> last_addr p a bs < n"
proof (induction bs arbitrary: p a)
  case (Cons b bs)
  then have "16 \<le> blk_size b" using blk_ok_size by auto
  then have "a < n" using Cons.prems(2) by simp
  then show ?case using Cons by (simp add: add.assoc)
qed simp

lemma total_carve: "t \<le> s \<Longrightarrow> total (carve t u s) = s"
  by (simp add: carve_def)

lemma carve_not_Nil [simp]: "carve t u s \<noteq> []"
  by (simp add: carve_def)

lemma allocs_carve: "allocs a (carve t u s) = [(a + 24, u)]"
  by (simp add: carve_def)

text \<open>What \<open>heap_alloc\<close> does to the list of blocks, and the pointer it returns.\<close>

definition alloc_spec :: "heap_state \<Rightarrow> nat \<Rightarrow> hblock list \<Rightarrow> hblock list \<times> nat" where
  "alloc_spec h u bs =
     (if u = 0 \<or> u > heap_size_var h - 32 then (bs, 0) else place (alloc_total u) u (heap_base h) bs)"

lemma first_fit_too_big: "total bs < t \<Longrightarrow> first_fit t a bs = 0"
  by (induction t a bs rule: first_fit.induct) auto

lemma heap_alloc_place:
  assumes ok: "heap_ok h bs" and u: "u \<noteq> 0" "u \<le> heap_size_var h - 32" "u < 2 ^ 32"
    and f: "first_fit (alloc_total u) (heap_base h) bs \<noteq> 0"
  obtains m bs' p where "heap_alloc h (of_nat u) = Some (h\<lparr>hmem := m\<rparr>, p)"
    "place (alloc_total u) u (heap_base h) bs = (bs', p)" "heap_ok (h\<lparr>hmem := m\<rparr>) bs'"
    "same_bytes (allocs (heap_base h) bs) (hmem h) m"
proof -
  let ?t = "alloc_total u" and ?e = "heap_end_var h" and ?o = "heap_base h"
  note o = heap_okD[OF ok]
  obtain xs s ys where x: "bs = xs @ Free s # ys" "?t \<le> s" "first_fit ?t ?o bs = ?o + total xs"
    "place ?t u ?o bs = (xs @ carve ?t u s @ ys, ?o + total xs + 24)"
    using first_fit_place[OF f] by blast
  let ?a = "?o + total xs" and ?p = "last_addr 0 ?o xs"
  have b: "blocks_ok (hmem h) ?e 0 ?o xs" "blk_ok (hmem h) ?e ?p ?a (Free s)" "blocks_ok (hmem h) ?e ?a (?a + s) ys"
    using o(7) x(1) by (auto simp: blocks_ok_append)
  have e: "?a + s + total ys = ?e" using o(5) x(1) by simp
  have p: "?p < 2 ^ 32" using last_addr_bound[OF _ _ b(1)] e o(3) by simp
  have a: "0 < ?a" "4 dvd ?a" using o(1,2) blocks_ok_dvd[OF b(1)] by auto
  obtain m where m: "kasan_check_poison (split_block h (set_is_free ?a 0 (hmem h)) ?a ?t) (?a + 16)
      (bh_size (split_block h (set_is_free ?a 0 (hmem h)) ?a ?t) ?a - 16)"
    "kasan_alloc_register (split_block h (set_is_free ?a 0 (hmem h)) ?a ?t) (?a + 16)
      (bh_size (split_block h (set_is_free ?a 0 (hmem h)) ?a ?t) ?a - 16) (of_nat u) = Some (m, ?a + 24)"
    "blocks_ok m ?e ?p ?a (carve ?t u s @ ys)" "agree (hmem h) m 0 ?a" "agree (hmem h) m (?a + s + 16) ?e"
    by (rule take_ok[OF b(2,3) a e o(3) p _ refl x(2) alloc_total(1,2)]) auto
  have w: "unat (of_nat u :: u32) = u" "(of_nat u :: u32) \<noteq> 0"
    using u unat_of_nat32[OF u(3)] by (auto simp: word_unat_eq_iff)
  have t: "\<not> heap_size_var h < ?t" using x(2) e o(5,6) by simp
  have "heap_alloc h (of_nat u) = Some (h\<lparr>hmem := m\<rparr>, ?a + 24)"
    unfolding heap_alloc_def Let_def w(1)
    using w(2) u(2) t o(1) m(1,2) o(9) x(3) by (simp add: kasan_raw_size_def alloc_total_def)
  moreover have "blocks_ok m ?e 0 ?o xs" using blocks_ok_agree[OF b(1) agree_sub[OF m(4)]] by simp
  then have "heap_ok (h\<lparr>hmem := m\<rparr>) (xs @ carve ?t u s @ ys)"
    using ok m(3) no_adj_carve[of xs s ys] x(1) e total_carve[OF x(2)] by (auto simp: heap_ok_def blocks_ok_append)
  moreover have "same_bytes (allocs ?o bs) (hmem h) m"
    using same_bytes_agree[OF b(1) agree_sub[OF m(4)]] same_bytes_agree[OF b(3)] m(5) e
    by (simp add: x(1) allocs_append)
  ultimately show ?thesis using that x(4) by blast
qed

lemma heap_alloc_refines:
  assumes "heap_ok h bs"
  obtains m bs' p where "heap_alloc h sz = Some (h\<lparr>hmem := m\<rparr>, p)" "alloc_spec h (unat sz) bs = (bs', p)"
    "heap_ok (h\<lparr>hmem := m\<rparr>) bs'" "same_bytes (allocs (heap_base h) bs) (hmem h) m"
proof (cases "sz \<noteq> 0 \<and> unat sz \<le> heap_size_var h - 32 \<and> first_fit (alloc_total (unat sz)) (heap_base h) bs \<noteq> 0")
  case True
  then have u: "unat sz \<noteq> 0" "unat sz < 2 ^ 32" "of_nat (unat sz) = sz"
    using unat_u32_bound[of sz] by (auto simp: word_unat_eq_iff)
  then show ?thesis
    using heap_alloc_place[OF assms, of "unat sz"] True that by (auto simp: alloc_spec_def)
next
  case False
  have s: "alloc_spec h (unat sz) bs = (bs, 0)"
    using False first_fit_none[OF _ heap_okD(1)[OF assms]] by (auto simp: alloc_spec_def word_unat_eq_iff)
  have "heap_alloc h sz = Some (h\<lparr>hmem := hmem h\<rparr>, 0)"
    using False heap_okD(9)[OF assms] by (auto simp: heap_alloc_def Let_def kasan_raw_size_def alloc_total_def)
  then show ?thesis using that[of "hmem h" 0 bs] s assms by (simp add: same_bytes_def)
qed

section \<open>Joining two free blocks\<close>

lemma merge_next_join:
  assumes ok: "blk_ok m e p a (Free s)" "blk_ok m e a (a + s) (Free n)" "blocks_ok m e (a + s) (a + s + n) zs"
    and a: "0 < a" "4 dvd a" "a + s + n + total zs = e" "e < 2 ^ 32" "p < 2 ^ 32"
  defines "m' \<equiv> merge_next m a"
  shows "blk_ok m' e p a (Free (s + n))" "blocks_ok m' e a (a + s + n) zs"
    "agree m m' 0 a" "agree m m' (a + s + n + 16) d"
proof -
  have h: "hdr m e p a s True" "hdr m e a (a + s) n True" and po: "poisoned m (a + 16) (a + s)"
      "poisoned m (a + s + 16) (a + s + n)" and s: "16 \<le> s" "16 \<le> n" "4 dvd s" "4 dvd n"
    using ok(1,2) by auto
  have le: "a + s \<le> e" "a + s + n \<le> e" "a < 2 ^ 32" "a + s \<noteq> e" using a(3,4) s by auto
  note f = hdr_fields[OF h(1) le(1) a(4,5)] and g = hdr_fields[OF h(2) le(2) a(4) le(3)]
  have z: "zs \<noteq> [] \<Longrightarrow> 16 \<le> total zs" using ok(3) blocks_ok_total by blast
  let ?nn = "nxt e (a + s + n)"
  have q: "?nn = 0 \<and> zs = [] \<or> ?nn = a + s + n \<and> zs \<noteq> []"
    using a(1,3) z by (cases "zs = []") (auto simp: nxt_def)
  let ?m1 = "poison_region m (a + s) 16"
  have f1: "bh_size ?m1 a = s"
    using f(1) ld32_in[OF poison_region_agree[of "a + 4" "a + s" 16 a m], of a] s by (simp add: header_defs)
  let ?m3 = "set_next a ?nn (set_size a (s + n) ?m1)"
  have m': "m' = (if ?nn \<noteq> 0 then set_prev ?nn a ?m3 else ?m3)"
    using f g le a(1) f1 unfolding m'_def merge_next_def Let_def
    by (simp add: nxt_def kasan_poison_range_def)
  have ag1: "agree m m' 0 a" "agree m m' (a + 12) (a + s)" "agree m m' (a + 4) (a + 8)"
    "agree m m' (a + s + 16) (a + s + n + 12)" "agree m m' (a + s + n + 16) x" for x
    using q s unfolding m' agree_def by (auto simp: header_defs st32_outside poison_region_eq)
  have ag2: "agree ?m1 m' (a + s) (a + s + 16)"
    using q s unfolding m' agree_def by (auto simp: header_defs st32_outside)
  have "ld32 m' a = of_nat (s + n)" "ld32 m' (a + 8) = of_nat ?nn"
    using q s unfolding m' by (auto simp: header_defs)
  moreover have "ld32 m' (a + 4) = 1" "ld32 m' (a + 12) = of_nat p"
    using ld32_in[OF ag1(3)] ld32_in[OF ag1(2)] h(1) s by (auto simp: hdr_def)
  ultimately have h': "hdr m' e p a (s + n) True" by (simp add: hdr_def add.assoc)
  have "poisoned m' (a + 16) (a + s)" "poisoned m' (a + s + 16) (a + s + n)"
    using poisoned_agree[OF po(1) agree_sub[OF ag1(2)]] poisoned_agree[OF po(2) agree_sub[OF ag1(4)]] by auto
  moreover have "poisoned m' (a + s) (a + s + 16)"
    using poisoned_agree[OF poison_region_poisoned ag2] a(2) s by simp
  ultimately have "poisoned m' (a + 16) (a + s + n)" by (metis poisoned_join)
  then show "blk_ok m' e p a (Free (s + n))" using h' s by (simp add: add.assoc)
  have "zs \<noteq> [] \<Longrightarrow> ld32 m' (a + s + n + 12) = of_nat a" using q a(1) unfolding m' by (auto simp: header_defs)
  then show "blocks_ok m' e a (a + s + n) zs"
    using blocks_ok_relink[OF ok(3) agree_sub[OF ag1(4)] ag1(5)] s by simp
  show "agree m m' 0 a" "agree m m' (a + s + n + 16) d" using ag1(1,5) by auto
qed

text \<open>Behind its predecessor, \<open>merge_prev\<close> is \<open>merge_next\<close> of that predecessor.\<close>

lemma merge_prev_next:
  assumes "bh_prev m b = a" "bh_next m a = b" "bh_is_free m b \<noteq> 0" "a \<noteq> 0" "b \<noteq> 0" "bh_is_free m a \<noteq> 0"
  shows "merge_prev m b = merge_next m a"
  using assms by (simp add: merge_prev_def merge_next_def)

lemma merge_next_ok:
  assumes ok: "blk_ok m e p a (Free s)" "blocks_ok m e a (a + s) ys"
    and a: "0 < a" "4 dvd a" "a + s + total ys = e" "e < 2 ^ 32" "p < 2 ^ 32"
  defines "m' \<equiv> merge_next m a"
  shows "blocks_ok m' e p a (join_free (Free s) ys)" "agree m m' 0 a" "same_bytes (allocs (a + s) ys) m m'"
proof -
  have hd: "hdr m e p a s True" "a + s \<le> e" using ok(1) a(3) by auto
  note f = hdr_fields[OF hd a(4,5)]
  have "blocks_ok m' e p a (join_free (Free s) ys) \<and> agree m m' 0 a \<and> same_bytes (allocs (a + s) ys) m m'"
  proof (cases "ys \<noteq> [] \<and> free_blk (hd ys)")
    case True
    then obtain n zs where y: "ys = Free n # zs" by (metis free_blk.simps(2) hblock.exhaust list.collapse)
    have n: "blk_ok m e a (a + s) (Free n)" "blocks_ok m e (a + s) (a + s + n) zs" "a + s + n + total zs = e"
      using ok(2) a(3) y by auto
    note j = merge_next_join[OF ok(1) n(1,2) a(1,2) n(3) a(4,5), folded m'_def]
    show ?thesis using j(1-3) same_bytes_agree[OF n(2) j(4)] y by (simp add: add.assoc)
  next
    case False
    have "m' = m"
    proof (cases ys)
      case Nil
      then show ?thesis using f(3) a(3) by (simp add: m'_def merge_next_def nxt_def)
    next
      case (Cons b zs)
      then obtain n u where b: "b = Used n u" using False by (cases b) auto
      then have "hdr m e a (a + s) n False" using ok(2) Cons by simp
      then have "bh_is_free m (a + s) = 0" by (simp add: hdr_def header_defs)
      then show ?thesis using f(3) by (auto simp: m'_def merge_next_def nxt_def)
    qed
    moreover have "join_free (Free s) ys = Free s # ys" using False by (cases ys; cases "hd ys") auto
    ultimately show ?thesis using ok by (simp add: same_bytes_def)
  qed
  then show "blocks_ok m' e p a (join_free (Free s) ys)" "agree m m' 0 a" "same_bytes (allocs (a + s) ys) m m'" by auto
qed

lemma last_addr_snoc [simp]: "last_addr p a (xs @ [b]) = a + total xs"
  by (induction xs arbitrary: p a) (auto simp: add.assoc)

lemma merge_prev_ok:
  assumes ok: "blocks_ok m e 0 c0 xs" "blocks_ok m e (last_addr 0 c0 xs) (c0 + total xs) (Free s # zs)"
    and o: "0 < c0" "4 dvd c0" "c0 + total xs + s + total zs = e" "e < 2 ^ 32"
  defines "m' \<equiv> merge_prev m (c0 + total xs)"
  shows "blocks_ok m' e 0 c0 (if xs \<noteq> [] \<and> free_blk (last xs) then butlast xs @ join_free (last xs) (Free s # zs)
      else xs @ Free s # zs)"
    and "same_bytes (allocs c0 xs) m m'" "same_bytes (allocs (c0 + total xs + s) zs) m m'"
proof -
  let ?a = "c0 + total xs"
  have b: "blk_ok m e (last_addr 0 c0 xs) ?a (Free s)" "blocks_ok m e ?a (?a + s) zs" using ok(2) by auto
  have l: "last_addr 0 c0 xs < 2 ^ 32" using last_addr_bound[OF _ _ ok(1)] o(3,4) by simp
  have h: "hdr m e (last_addr 0 c0 xs) ?a s True" using b(1) by simp
  note f = hdr_fields[OF h _ o(4) l]
  consider (none) "\<not> (xs \<noteq> [] \<and> free_blk (last xs))" | (free) ws n where "xs = ws @ [Free n]"
    by (metis append_butlast_last_id free_blk.simps(2) hblock.exhaust)
  then have "blocks_ok m' e 0 c0 (if xs \<noteq> [] \<and> free_blk (last xs) then butlast xs @ join_free (last xs) (Free s # zs)
      else xs @ Free s # zs) \<and> same_bytes (allocs c0 xs) m m' \<and> same_bytes (allocs (?a + s) zs) m m'"
  proof cases
    case none
    have "m' = m"
    proof (cases xs rule: rev_cases)
      case Nil
      then show ?thesis using f(4) o(3) by (simp add: m'_def merge_prev_def)
    next
      case (snoc ws c)
      then obtain n u where c: "c = Used n u" using none by (cases c) auto
      have "hdr m e (last_addr 0 c0 ws) (c0 + total ws) n False"
        using ok(1) by (simp add: snoc c blocks_ok_append)
      then have "bh_is_free m (c0 + total ws) = 0" by (simp add: hdr_def header_defs)
      moreover have "bh_prev m ?a = c0 + total ws" using f(4) o(3) snoc by simp
      ultimately show ?thesis by (simp add: m'_def merge_prev_def)
    qed
    then show ?thesis using none ok by (auto simp: blocks_ok_append same_bytes_def)
  next
    case free
    let ?b = "c0 + total ws"
    have w: "blocks_ok m e 0 c0 ws" "blk_ok m e (last_addr 0 c0 ws) ?b (Free n)" "?a = ?b + n"
      using ok(1) by (auto simp: free blocks_ok_append)
    have d: "4 dvd ?b" "0 < ?b" "?b + n + s + total zs = e" using blocks_ok_dvd[OF w(1)] o free by auto
    have lw: "last_addr 0 c0 ws < 2 ^ 32" using last_addr_bound[OF _ _ w(1)] o(3,4) free by simp
    have g: "hdr m e (last_addr 0 c0 ws) ?b n True" "?b + n \<le> e" using w(2) d(3) by auto
    note gf = hdr_fields[OF g o(4) lw]
    have s: "16 \<le> s" using b(1) by simp
    have "m' = merge_next m ?b"
      unfolding m'_def
      by (rule merge_prev_next) (use f gf w(3) d(3) s o free in \<open>auto simp: nxt_def\<close>)
    note m' = this
    have "blk_ok m e ?b (?b + n) (Free s)" "blocks_ok m e (?b + n) (?b + n + s) zs"
      using b by (simp_all add: free add.assoc)
    note j = merge_next_join[OF w(2) this d(2,1,3) o(4) lw, folded m']
    have "same_bytes (allocs c0 ws) m m'" using same_bytes_agree[OF w(1) agree_sub[OF j(3)]] by simp
    moreover have "same_bytes (allocs (?a + s) zs) m m'" using same_bytes_agree[OF b(2)] j(4) w(3) by (simp add: add.assoc)
    moreover have "blocks_ok m' e 0 c0 ws" using blocks_ok_agree[OF w(1) agree_sub[OF j(3)]] by simp
    ultimately show ?thesis using j(1,2) by (simp add: free blocks_ok_append allocs_append add.assoc)
  qed
  then show "blocks_ok m' e 0 c0 (if xs \<noteq> [] \<and> free_blk (last xs) then butlast xs @ join_free (last xs) (Free s # zs)
      else xs @ Free s # zs)" "same_bytes (allocs c0 xs) m m'" "same_bytes (allocs (?a + s) zs) m m'" by auto
qed

section \<open>Release\<close>

lemma wrap32_id: "a < 2 ^ 32 \<Longrightarrow> wrap32 a = a"
  by (simp add: wrap32_def)

lemma wrap32_back: "k \<le> a \<Longrightarrow> a < 2 ^ 32 \<Longrightarrow> wrap32 (a + 2 ^ 32 - k) = a - k"
proof -
  assume "k \<le> a" "a < 2 ^ 32"
  then have "a + 2 ^ 32 - k = (a - k) + 2 ^ 32" by simp
  then show ?thesis using \<open>a < 2 ^ 32\<close> unfolding wrap32_def by (metis less_imp_diff_less mod_add_self2 mod_less)
qed

text \<open>The canary check of a live block passes and poisons what its user could write.\<close>

lemma free_check_live:
  assumes "blk_ok m e p a (Used s u)" "a + s \<le> e" "e < 2 ^ 32" "4 dvd a"
  defines "m1 \<equiv> poison_region m (a + 16) (u + 16)"
  shows "kasan_free_check m (a + 24) = Some (m1, a + 16, u + 16)" "hdr m1 e p a s False"
    "blk_ok (set_is_free a 1 m1) e p a (Free s)"
    "agree m (set_is_free a 1 m1) 0 a" "agree m (set_is_free a 1 m1) (a + s) d"
proof -
  have u: "32 + u \<le> s" "4 dvd s" and g: "guarded m a u" and h: "hdr m e p a s False"
    and po: "poisoned m (a + 32 + u) (a + s)" using assms(1) by auto
  have n: "unat (of_nat u :: u32) = u" by (rule unat_of_nat32) (use u assms(2,3) in simp)
  have w: "wrap32 (a + 24 + 2 ^ 32 - 8) = a + 16" "wrap32 (a + 24 + u) = a + 24 + u" "wrap32 (u + 2 * 8) = u + 16"
    using wrap32_back[of 8 "a + 24"] u assms(2,3) by (auto intro!: wrap32_id)
  have "validate_head_canary m (a + 16) = Some (of_nat u)" "validate_tail_canary m (a + 24 + u)"
    using g by (auto simp: guarded_def validate_head_canary_def add.assoc)
  then show "kasan_free_check m (a + 24) = Some (m1, a + 16, u + 16)"
    unfolding kasan_free_check_def Let_def KASAN_CANARY_BYTES_def w(1) m1_def by (simp add: n w(2,3)[simplified])
  show h1: "hdr m1 e p a s False" unfolding m1_def by (rule hdr_agree[OF h poison_region_agree]) simp
  have "a + 16 + (u + 16) = a + 32 + u" by simp
  then have 1: "poisoned m1 (a + 16) (a + 32 + u)"
    using poison_region_poisoned[of "a + 16" m "u + 16"] assms(4) unfolding m1_def by (metis dvd_add_left_iff dvd_triv_left mult_numeral_1_right numeral_times_numeral semiring_norm(11) semiring_norm(13))
  have "poisoned m1 (a + 32 + u) (a + s)"
    using poisoned_agree[OF po] poison_region_agree[of "a + s" "a + 16" "u + 16" "a + 32 + u" m] by (simp add: m1_def)
  then have "poisoned m1 (a + 16) (a + s)" using poisoned_join 1 by blast
  then have "poisoned (set_is_free a 1 m1) (a + 16) (a + s)"
    by (rule poisoned_agree) (simp add: header_defs agree_st32)
  moreover have "hdr (set_is_free a 1 m1) e p a s True" using h1 by (simp add: hdr_def header_defs)
  ultimately show "blk_ok (set_is_free a 1 m1) e p a (Free s)" using u by simp
  show "agree m (set_is_free a 1 m1) 0 a" "agree m (set_is_free a 1 m1) (a + s) d"
    using u by (auto simp: agree_def header_defs st32_outside m1_def poison_region_eq)
qed

lemma total_join_free: "total (join_free b bs) = blk_size b + total bs"
  by (cases "(b, bs)" rule: join_free.cases) auto

lemma total_free_spec: "total (free_spec xs s ys) = total xs + s + total ys"
proof (cases xs rule: rev_cases)
  case (snoc ws b)
  then show ?thesis by (simp add: free_spec_def total_join_free)
qed (simp add: free_spec_def total_join_free)

lemma allocs_join_free: "allocs a (join_free (Free s) bs) = allocs (a + s) bs"
  by (cases "(Free s, bs)" rule: join_free.cases) (auto simp: add.assoc)

lemma allocs_free_spec: "allocs a (free_spec xs s ys) = allocs a xs @ allocs (a + total xs + s) ys"
proof (cases xs rule: rev_cases)
  case Nil
  then show ?thesis by (simp add: free_spec_def allocs_join_free)
next
  case (snoc ws b)
  then show ?thesis by (cases b) (simp_all add: free_spec_def allocs_join_free allocs_append add.assoc)
qed

lemma join_free_head: "\<exists>n. join_free (Free s) ys = Free n # (if ys \<noteq> [] \<and> free_blk (hd ys) then tl ys else ys)"
  by (cases "(Free s, ys)" rule: join_free.cases) auto

lemma no_adj_join:
  assumes "no_adj xs" "no_adj ys" "xs \<noteq> [] \<Longrightarrow> \<not> free_blk (last xs)"
  shows "no_adj (xs @ join_free (Free s) ys)"
proof -
  obtain n where n: "join_free (Free s) ys = Free n # (if ys \<noteq> [] \<and> free_blk (hd ys) then tl ys else ys)"
    using join_free_head by blast
  have "no_adj (Free n # (if ys \<noteq> [] \<and> free_blk (hd ys) then tl ys else ys))"
    using assms(2) by (cases ys) auto
  then show ?thesis using assms(1,3) by (auto simp: no_adj_append n)
qed

lemma no_adj_free_spec:
  assumes "no_adj (xs @ Used s u # ys)"
  shows "no_adj (free_spec xs s ys)"
proof -
  have a: "no_adj xs" "no_adj ys" using assms by (auto simp: no_adj_append)
  show ?thesis
  proof (cases "xs \<noteq> [] \<and> free_blk (last xs)")
    case False
    then show ?thesis using no_adj_join[OF a] by (auto simp: free_spec_def)
  next
    case True
    then obtain ws n where x: "xs = ws @ [Free n]"
      by (metis append_butlast_last_id free_blk.simps(2) hblock.exhaust)
    obtain k where k: "join_free (Free s) ys = Free k # (if ys \<noteq> [] \<and> free_blk (hd ys) then tl ys else ys)"
      using join_free_head by blast
    have "no_adj (join_free (Free s) ys)" using no_adj_join[of "[]" ys s] a(2) by simp
    then have "no_adj (ws @ join_free (Free n) (join_free (Free s) ys))"
      unfolding k using a(1) by (auto simp: x no_adj_append)
    then show ?thesis by (simp add: free_spec_def x)
  qed
qed

lemma free_to_merge:
  assumes "heap_ok h (xs @ Used s u # ys)" and a: "a = heap_base h + total xs"
  obtains m where "heap_free h (a + 24) = Some (h\<lparr>hmem := merge_prev (merge_next m a) a\<rparr>)"
    "blk_ok m (heap_end_var h) (last_addr 0 (heap_base h) xs) a (Free s)"
    "agree (hmem h) m 0 a" "agree (hmem h) m (a + s) (heap_end_var h)"
proof -
  note o = heap_okD[OF assms(1)]
  let ?e = "heap_end_var h" and ?p = "last_addr 0 (heap_base h) xs"
  have b: "blocks_ok (hmem h) ?e 0 (heap_base h) xs" "blk_ok (hmem h) ?e ?p a (Used s u)"
    using o(7) by (auto simp: blocks_ok_append a)
  have e: "a + s \<le> ?e" "s \<le> heap_size_var h" "4 dvd a" "a + s < 2 ^ 32"
    using o(2,3,5,6) blocks_ok_dvd[OF b(1)] by (auto simp: a)
  have p: "?p < 2 ^ 32" using last_addr_bound[OF _ _ b(1)] o(3,5) by simp
  have s: "32 + u \<le> s" "ld32 (hmem h) (a + 16) = KASAN_CANARY_HEAD" using b(2) by (auto simp: guarded_def)
  let ?m1 = "poison_region (hmem h) (a + 16) (u + 16)"
  note c = free_check_live[OF b(2) e(1) o(3) e(3)]
  note f = hdr_fields[OF c(2) e(1) o(3) p]
  have w: "wrap32 (a + 24 + 2 ^ 32 - 8) = a + 16" "wrap32 (a + 16 + 2 ^ 32 - 16) = a"
    using wrap32_back[of 8 "a + 24"] wrap32_back[of 16 "a + 16"] e(4) s by auto
  have g: "\<not> (a < heap_base h \<or> heap_end_var h \<le> a)" using e(1) s by (auto simp: a)
  have "KASAN_CANARY_HEAD \<noteq> KASAN_POISON_WORD" by (simp add: KASAN_CANARY_HEAD_def KASAN_POISON_WORD_def)
  then have "heap_free h (a + 24) = Some (h\<lparr>hmem := merge_prev (merge_next (set_is_free a 1 ?m1) a) a\<rparr>)"
    using f e g s c(1) unfolding heap_free_def Let_def KASAN_CANARY_BYTES_def sizeof_block_header_def
    by (simp add: w[simplified] merge_free_blocks_def)
  then show ?thesis using that c(3,4,5) by blast
qed

lemma heap_free_refines:
  assumes ok: "heap_ok h (xs @ Used s u # ys)"
  obtains m where "heap_free h (heap_base h + total xs + 24) = Some (h\<lparr>hmem := m\<rparr>)"
    "heap_ok (h\<lparr>hmem := m\<rparr>) (free_spec xs s ys)"
    "same_bytes (allocs (heap_base h) (free_spec xs s ys)) (hmem h) m"
proof -
  note o = heap_okD[OF ok]
  let ?e = "heap_end_var h" and ?o = "heap_base h" and ?a = "heap_base h + total xs"
  let ?p = "last_addr 0 ?o xs"
  have b: "blocks_ok (hmem h) ?e 0 ?o xs" "blocks_ok (hmem h) ?e ?a (?a + s) ys"
    using o(7) by (auto simp: blocks_ok_append)
  have e: "?a + s + total ys = ?e" "0 < ?a" "4 dvd ?a" using o(1,2,5) blocks_ok_dvd[OF b(1)] by auto
  have p: "?p < 2 ^ 32" using last_addr_bound[OF _ _ b(1)] o(3,5) by simp
  obtain m where m: "heap_free h (?a + 24) = Some (h\<lparr>hmem := merge_prev (merge_next m ?a) ?a\<rparr>)"
    "blk_ok m ?e ?p ?a (Free s)" "agree (hmem h) m 0 ?a" "agree (hmem h) m (?a + s) ?e"
    using free_to_merge[OF ok refl] by blast
  have 1: "blocks_ok m ?e 0 ?o xs" "blocks_ok m ?e ?a (?a + s) ys"
    using blocks_ok_agree[OF b(1) agree_sub[OF m(3)]] blocks_ok_agree[OF b(2)] m(4) e(1) by auto
  note n = merge_next_ok[OF m(2) 1(2) e(2,3,1) o(3) p]
  obtain k where k: "join_free (Free s) ys = Free k # (if ys \<noteq> [] \<and> free_blk (hd ys) then tl ys else ys)" (is "_ = _ # ?zs")
    using join_free_head by blast
  have t: "k + total ?zs = s + total ys" "allocs (?a + k) ?zs = allocs (?a + s) ys"
    using total_join_free[of "Free s" ys] allocs_join_free[of ?a s ys] k by auto
  have 2: "blocks_ok (merge_next m ?a) ?e 0 ?o xs" using blocks_ok_agree[OF 1(1) agree_sub[OF n(2)]] by simp
  have q: "?a + k + total ?zs = ?e" using t(1) e(1) by linarith
  note r = merge_prev_ok[OF 2 n(1)[unfolded k] o(1,2) q o(3)]
  let ?m = "merge_prev (merge_next m ?a) ?a"
  have fs: "free_spec xs s ys = (if xs \<noteq> [] \<and> free_blk (last xs) then butlast xs @ join_free (last xs) (Free k # ?zs)
      else xs @ Free k # ?zs)" by (simp only: free_spec_def k)
  have "free_spec xs s ys \<noteq> []" using total_free_spec[of xs s ys] m(2) by auto
  then have "heap_ok (h\<lparr>hmem := ?m\<rparr>) (free_spec xs s ys)"
    using ok r(1) e(1) no_adj_free_spec[of xs s u ys] total_free_spec[of xs s ys] unfolding fs[symmetric]
    by (auto simp: heap_ok_def)
  moreover have "same_bytes (allocs ?o xs) (hmem h) ?m"
    by (intro same_bytes_trans[OF same_bytes_agree[OF b(1) agree_sub[OF m(3)]]]
        same_bytes_trans[OF same_bytes_agree[OF 1(1) agree_sub[OF n(2)]] r(2)]) simp_all
  moreover have "same_bytes (allocs (?a + s) ys) (hmem h) ?m"
    by (intro same_bytes_trans[OF same_bytes_agree[OF b(2) agree_sub[OF m(4)]]]
        same_bytes_trans[OF n(3) r(3)[unfolded t(2)]]) (use e(1) in simp_all)
  ultimately show ?thesis using that[OF m(1)] by (simp add: allocs_free_spec)
qed

end
