(* ===== verification/Heap_Theorems.thy ===== *)
theory Heap_Theorems
  imports Heap
begin

text \<open>
  What the kernel heap promises its callers: allocations that overlap nothing that is
  live, a release that returns exactly the block, the merge that undoes the split, and
  the detection of a byte written past the end and of a second release.
\<close>

section \<open>The heap at boot\<close>

lemma heap_init_ok:
  "heap_ok (heap_init (heap_statics m)) [Free (KERNEL_HEAP_END - KERNEL_HEAP_START)]"
proof -
  let ?b = KERNEL_HEAP_START and ?s = "KERNEL_HEAP_END - KERNEL_HEAP_START"
  let ?m1 = "set_prev ?b 0 (set_next ?b 0 (set_is_free ?b 1 (set_size ?b ?s m)))"
  have c: "?b = 3145728" "?s = 8388608" "KERNEL_HEAP_END = 11534336" by (simp_all add: kernel_const)
  have m: "hmem (heap_init (heap_statics m)) = poison_region ?m1 (?b + 16) (?s - 16)"
    by (simp add: heap_init_def heap_statics_def Let_def kasan_poison_range_def c)
  have "hdr ?m1 KERNEL_HEAP_END 0 ?b ?s True" by (simp add: hdr_def header_defs nxt_def c)
  then have "hdr (poison_region ?m1 (?b + 16) (?s - 16)) KERNEL_HEAP_END 0 ?b ?s True"
    by (rule hdr_agree) (rule poison_region_agree, simp)
  moreover have "poisoned (poison_region ?m1 (?b + 16) (?s - 16)) (?b + 16) (?b + ?s)"
    using poison_region_poisoned[of "?b + 16" ?m1 "?s - 16"] by (simp add: c)
  ultimately have "blk_ok (hmem (heap_init (heap_statics m))) KERNEL_HEAP_END 0 ?b (Free ?s)"
    unfolding m by (simp add: c)
  then show ?thesis by (simp add: heap_ok_def heap_init_def heap_statics_def Let_def c)
qed

section \<open>Live allocations\<close>

lemma alloc_split:
  assumes "(p, u) \<in> set (allocs a bs)"
  obtains xs s ys where "bs = xs @ Used s u # ys" "p = a + total xs + 24"
proof -
  from assms have "\<exists>xs s ys. bs = xs @ Used s u # ys \<and> p = a + total xs + 24"
  proof (induction a bs rule: allocs.induct)
    case (2 a s bs)
    then obtain xs s' ys where "bs = xs @ Used s' u # ys \<and> p = a + s + total xs + 24" by auto
    then show ?case by (intro exI[of _ "Free s # xs"]) auto
  next
    case (3 a s v bs)
    show ?case
    proof (cases "p = a + 24 \<and> u = v")
      case True
      then show ?thesis by (intro exI[of _ "[]"]) auto
    next
      case False
      then obtain xs s' ys where "bs = xs @ Used s' u # ys \<and> p = a + s + total xs + 24" using 3 by auto
      then show ?thesis by (intro exI[of _ "Used s v # xs"]) auto
    qed
  qed simp
  then show ?thesis using that by blast
qed

text \<open>The other allocations lie entirely before or behind a block in use.\<close>

lemma allocs_apart:
  assumes "blocks_ok m e p a (xs @ Used s u # ys)"
  shows "(q, n) \<in> set (allocs a xs) \<Longrightarrow> q + n + 8 \<le> a + total xs"
    and "(q, n) \<in> set (allocs (a + total xs + s) ys) \<Longrightarrow> a + total xs + s + 24 \<le> q"
    and "32 + u \<le> s"
  using assms allocs_range by (force simp: blocks_ok_append)+

lemma place_result:
  assumes ok: "heap_ok h bs" and "place t u (heap_base h) bs = (bs', p)" "p \<noteq> 0"
  obtains xs s ys where "bs = xs @ Free s # ys" "bs' = xs @ carve t u s @ ys" "p = heap_base h + total xs + 24" "t \<le> s"
proof (cases "first_fit t (heap_base h) bs = 0")
  case True
  then show ?thesis using first_fit_none[OF True heap_okD(1)[OF ok], of u] assms by simp
next
  case False
  then show ?thesis using first_fit_place[OF False, of u] assms that by (metis Pair_inject)
qed

lemma first_fit_0_iff: "0 < a \<Longrightarrow> first_fit t a bs = 0 \<longleftrightarrow> (\<forall>s. Free s \<in> set bs \<longrightarrow> s < t)"
  by (induction t a bs rule: first_fit.induct) (auto simp: not_le)

lemma place_0_iff:
  assumes "0 < a"
  shows "snd (place t u a bs) = 0 \<longleftrightarrow> (\<forall>s. Free s \<in> set bs \<longrightarrow> s < t)"
proof (cases "first_fit t a bs = 0")
  case True
  then show ?thesis using first_fit_none[OF True assms] first_fit_0_iff[OF assms] by simp
next
  case False
  then show ?thesis using first_fit_place[OF False, of u] first_fit_0_iff[OF assms] by (metis add_is_0 snd_conv zero_neq_numeral)
qed

lemma heap_alloc_new:
  assumes ok: "heap_ok h (xs @ Free s # ys)" and ok': "heap_ok h' (xs @ carve t u s @ ys)" and t: "t \<le> s"
    and b: "heap_base h' = heap_base h" "heap_end_var h' = heap_end_var h"
  defines "p \<equiv> heap_base h + total xs + 24" and "bs \<equiv> xs @ Free s # ys"
  shows "set (allocs (heap_base h) (xs @ carve t u s @ ys)) = insert (p, u) (set (allocs (heap_base h) bs))"
    and "heap_base h \<le> p \<and> p + u \<le> heap_end_var h"
    and "\<forall>(q, n) \<in> set (allocs (heap_base h) bs). p + u \<le> q \<or> q + n \<le> p"
proof -
  show "set (allocs (heap_base h) (xs @ carve t u s @ ys)) = insert (p, u) (set (allocs (heap_base h) bs))"
    by (auto simp: bs_def p_def allocs_append allocs_carve total_carve[OF t])
  have "\<exists>z zs. carve t u s @ ys = Used z u # zs \<and> allocs (heap_base h + total xs + z) zs = allocs (heap_base h + total xs + s) ys"
    using t by (auto simp: carve_def add.assoc)
  then obtain z zs where z: "carve t u s @ ys = Used z u # zs"
    "allocs (heap_base h + total xs + z) zs = allocs (heap_base h + total xs + s) ys" by blast
  note o = heap_okD[OF ok'[unfolded z], unfolded b]
  note r = allocs_apart[OF o(7)]
  show "heap_base h \<le> p \<and> p + u \<le> heap_end_var h" using r(3) o(5) by (simp add: p_def)
  show "\<forall>(q, n) \<in> set (allocs (heap_base h) bs). p + u \<le> q \<or> q + n \<le> p"
  proof (clarify)
    fix q n assume "(q, n) \<in> set (allocs (heap_base h) bs)" "\<not> q + n \<le> p"
    moreover have "q + n + 8 \<le> heap_base h + total xs" if "(q, n) \<in> set (allocs (heap_base h) xs)"
      using r(1) that by blast
    moreover have "heap_base h + total xs + z + 24 \<le> q" if "(q, n) \<in> set (allocs (heap_base h + total xs + s) ys)"
      using r(2) that z(2) by metis
    ultimately show "p + u \<le> q" using r(3) by (fastforce simp: bs_def p_def allocs_append)
  qed
qed

section \<open>A heap with one allocation\<close>

definition boot_heap :: heap_state where
  "boot_heap = heap_init (heap_statics (\<lambda>_. 0))"

definition demo_heap :: heap_state where
  "demo_heap = fst (the (heap_alloc boot_heap 100))"

lemma boot_heap_ok: "heap_ok boot_heap [Free 8388608]" "heap_base boot_heap = 3145728" "heap_size_var boot_heap = 8388608"
  using heap_init_ok[of "\<lambda>_. 0"]
  by (simp_all add: boot_heap_def heap_init_def heap_statics_def Let_def kernel_const)

lemma demo_heap_ok:
  "heap_alloc boot_heap 100 = Some (demo_heap, 3145752)"
  "heap_ok demo_heap [Used 132 100, Free 8388476]" "heap_base demo_heap = 3145728"
proof -
  have s: "alloc_spec boot_heap 100 [Free 8388608] = ([Used 132 100, Free 8388476], 3145752)"
    by (simp add: alloc_spec_def boot_heap_ok alloc_total_def carve_def)
  obtain m bs' p where "heap_alloc boot_heap 100 = Some (boot_heap\<lparr>hmem := m\<rparr>, p)"
    "alloc_spec boot_heap (unat (100 :: u32)) [Free 8388608] = (bs', p)" "heap_ok (boot_heap\<lparr>hmem := m\<rparr>) bs'"
    by (rule heap_alloc_refines[OF boot_heap_ok(1), of 100])
  then show "heap_alloc boot_heap 100 = Some (demo_heap, 3145752)"
    "heap_ok demo_heap [Used 132 100, Free 8388476]" "heap_base demo_heap = 3145728"
    using s boot_heap_ok(2) by (simp_all add: demo_heap_def)
qed

section \<open>Properties\<close>

text \<open>
  C0 (kernel heap, safety).  On any well-formed heap \<open>heap_alloc\<close> returns, without a panic
  of the poison scan, with a well-formed heap in which the bytes of every live allocation
  are what they were.  It returns NULL exactly if the size is 0 or larger than the arena
  less two headers, or if no free block has room for the size with canaries, rounding and
  header; otherwise the new allocation lies inside the arena, overlaps no live allocation,
  and is the only one added.
\<close>

theorem heap_alloc_fresh:
  assumes "heap_ok h bs"
  shows "\<exists>h' p bs'. heap_alloc h sz = Some (h', p) \<and> heap_ok h' bs' \<and> heap_base h' = heap_base h \<and>
    same_bytes (allocs (heap_base h) bs) (hmem h) (hmem h') \<and>
    (p = 0 \<longleftrightarrow> sz = 0 \<or> heap_size_var h - 32 < unat sz \<or> (\<forall>s. Free s \<in> set bs \<longrightarrow> s < alloc_total (unat sz))) \<and>
    (if p = 0 then bs' = bs
     else set (allocs (heap_base h) bs') = insert (p, unat sz) (set (allocs (heap_base h) bs)) \<and>
       (heap_base h \<le> p \<and> p + unat sz \<le> heap_end_var h) \<and>
       (\<forall>(q, n) \<in> set (allocs (heap_base h) bs). p + unat sz \<le> q \<or> q + n \<le> p))"
proof -
  obtain m bs' p where m: "heap_alloc h sz = Some (h\<lparr>hmem := m\<rparr>, p)" "alloc_spec h (unat sz) bs = (bs', p)"
    "heap_ok (h\<lparr>hmem := m\<rparr>) bs'" "same_bytes (allocs (heap_base h) bs) (hmem h) m"
    using heap_alloc_refines[OF assms] by blast
  have z: "p = 0 \<longleftrightarrow> sz = 0 \<or> heap_size_var h - 32 < unat sz \<or> (\<forall>s. Free s \<in> set bs \<longrightarrow> s < alloc_total (unat sz))"
    using m(2) place_0_iff[OF heap_okD(1)[OF assms], of "alloc_total (unat sz)" "unat sz" bs]
    by (auto simp: alloc_spec_def word_unat_eq_iff split: if_splits)
  show ?thesis
  proof (cases "p = 0")
    case True
    have "bs' = bs" if "sz \<noteq> 0" "unat sz \<le> heap_size_var h - 32"
      using that True m(2) z first_fit_none[OF _ heap_okD(1)[OF assms]] first_fit_0_iff[OF heap_okD(1)[OF assms]]
      by (auto simp: alloc_spec_def word_unat_eq_iff)
    then have "bs' = bs" using m(2) by (auto simp: alloc_spec_def word_unat_eq_iff split: if_splits)
    then show ?thesis using m z True by (intro exI[of _ "h\<lparr>hmem := m\<rparr>"] exI[of _ p] exI[of _ bs]) simp
  next
    case False
    then have pl: "place (alloc_total (unat sz)) (unat sz) (heap_base h) bs = (bs', p)"
      using m(2) by (auto simp: alloc_spec_def split: if_splits)
    obtain xs s ys where x: "bs = xs @ Free s # ys" "bs' = xs @ carve (alloc_total (unat sz)) (unat sz) s @ ys"
      "p = heap_base h + total xs + 24" "alloc_total (unat sz) \<le> s"
      using place_result[OF assms pl False] by blast
    note n = heap_alloc_new[OF assms[unfolded x(1)] m(3)[unfolded x(2)] x(4), simplified,
        folded x(1) x(2) x(3)]
    show ?thesis using m z n False
      by (intro exI[of _ "h\<lparr>hmem := m\<rparr>"] exI[of _ p] exI[of _ bs']) (simp add: x(1-3))
  qed
qed

theorem heap_alloc_fresh_witness:
  "heap_ok boot_heap [Free 8388608] \<and> (\<exists>h p. heap_alloc boot_heap 100 = Some (h, p) \<and> p \<noteq> 0)"
  using heap_alloc_fresh[OF boot_heap_ok(1), of 100] boot_heap_ok
  by (auto simp: alloc_total_def)

text \<open>
  C0 (kernel heap, functional).  Releasing a live allocation returns: the heap stays
  well-formed with free neighbours joined, exactly that allocation is gone, and the bytes
  of all the others are untouched.
\<close>

theorem heap_free_live:
  assumes "heap_ok h bs" "(p, u) \<in> set (allocs (heap_base h) bs)"
  shows "\<exists>h' bs'. heap_free h p = Some h' \<and> heap_ok h' bs' \<and> heap_base h' = heap_base h \<and>
    set (allocs (heap_base h) bs') = set (allocs (heap_base h) bs) - {(p, u)} \<and>
    same_bytes (allocs (heap_base h) bs') (hmem h) (hmem h')"
proof -
  obtain xs s ys where x: "bs = xs @ Used s u # ys" "p = heap_base h + total xs + 24"
    using alloc_split[OF assms(2)] by blast
  obtain m where m: "heap_free h p = Some (h\<lparr>hmem := m\<rparr>)" "heap_ok (h\<lparr>hmem := m\<rparr>) (free_spec xs s ys)"
    "same_bytes (allocs (heap_base h) (free_spec xs s ys)) (hmem h) m"
    using heap_free_refines assms(1) unfolding x by blast
  note r = allocs_apart[OF heap_okD(7)[OF assms(1)[unfolded x(1)]]]
  have "(p, u) \<notin> set (allocs (heap_base h) xs)" "(p, u) \<notin> set (allocs (heap_base h + total xs + s) ys)"
    using r(1)[of p u] r(2)[of p u] r(3) x(2) by auto
  then have "set (allocs (heap_base h) (free_spec xs s ys)) = set (allocs (heap_base h) bs) - {(p, u)}"
    by (auto simp: allocs_free_spec x allocs_append)
  then show ?thesis using m by (intro exI[of _ "h\<lparr>hmem := m\<rparr>"] exI[of _ "free_spec xs s ys"]) simp
qed

theorem heap_free_live_witness:
  "heap_ok demo_heap [Used 132 100, Free 8388476] \<and> (\<exists>h bs. heap_free demo_heap 3145752 = Some h \<and> heap_ok h bs)"
  using heap_free_live[OF demo_heap_ok(2), of 3145752 100] demo_heap_ok(2,3) by auto

text \<open>
  C0 (kernel heap, roundtrip).  Releasing an allocation right after it was made gives back the
  heap it was made from, block for block: the merge undoes the split.
\<close>

theorem heap_alloc_free_restores:
  assumes "heap_ok h bs" "heap_alloc h sz = Some (h1, p)" "p \<noteq> 0"
  shows "\<exists>h2. heap_free h1 p = Some h2 \<and> heap_ok h2 bs \<and>
    same_bytes (allocs (heap_base h) bs) (hmem h) (hmem h2)"
proof -
  let ?u = "unat sz" and ?t = "alloc_total (unat sz)"
  obtain m bs' where m: "h1 = h\<lparr>hmem := m\<rparr>" "alloc_spec h ?u bs = (bs', p)"
    "heap_ok h1 bs'" "same_bytes (allocs (heap_base h) bs) (hmem h) m"
    using heap_alloc_refines[OF assms(1), of sz] assms(2) by auto
  then have pl: "place ?t ?u (heap_base h) bs = (bs', p)"
    using assms(3) by (auto simp: alloc_spec_def split: if_splits)
  obtain xs s ys where x: "bs = xs @ Free s # ys" "bs' = xs @ carve ?t ?u s @ ys"
    "p = heap_base h + total xs + 24" "?t \<le> s"
    using place_result[OF assms(1) pl assms(3)] by blast
  have na: "xs \<noteq> [] \<Longrightarrow> \<not> free_blk (last xs)" "ys \<noteq> [] \<Longrightarrow> \<not> free_blk (hd ys)"
    using heap_okD(8)[OF assms(1)] by (auto simp: x(1) no_adj_append)
  have j: "join_free (Free s) ys = Free s # ys" using na(2) by (cases ys; cases "hd ys") auto
  have fs: "free_spec xs k ws = xs @ join_free (Free k) ws" for k ws using na(1) by (auto simp: free_spec_def)
  obtain z zs where z: "bs' = xs @ Used z ?u # zs" "free_spec xs z zs = bs"
    using x(2,4) j by (cases "s > ?t + 32") (auto simp: carve_def fs x(1))
  have "heap_base h1 = heap_base h" using m(1) by simp
  then obtain m2 where m2: "heap_free h1 p = Some (h1\<lparr>hmem := m2\<rparr>)" "heap_ok (h1\<lparr>hmem := m2\<rparr>) bs"
    "same_bytes (allocs (heap_base h) bs) (hmem h1) m2"
    using heap_free_refines[OF m(3)[unfolded z(1)]] unfolding z(2) x(3) by metis
  then show ?thesis using same_bytes_trans[OF m(4)] m(1) by auto
qed

theorem heap_alloc_free_restores_witness:
  "\<exists>h. heap_free demo_heap 3145752 = Some h \<and> heap_ok h [Free 8388608]"
  using heap_alloc_free_restores[OF boot_heap_ok(1) demo_heap_ok(1)] by auto

section \<open>Damage\<close>

lemma tail_broken:
  assumes "validate_tail_canary m t" "t \<le> x" "x < t + 8" "v \<noteq> m x"
  shows "\<not> validate_tail_canary (m(x := v)) t"
proof
  assume b: "validate_tail_canary (m(x := v)) t"
  have s: "slice_of m t 4 = slice_of (m(x := v)) t 4" "slice_of m (t + 4) 4 = slice_of (m(x := v)) (t + 4) 4"
    using assms(1) b by (auto simp: validate_tail_canary_def ld32_bytes)
  show False
  proof (cases "x < t + 4")
    case True
    then show ?thesis using arg_cong[OF s(1), of "\<lambda>l. l ! (x - t)"] assms(2,4) by simp
  next
    case False
    then show ?thesis using arg_cong[OF s(2), of "\<lambda>l. l ! (x - (t + 4))"] assms(3,4) by simp
  qed
qed

text \<open>
  C0 (kernel heap, error).  One byte of the eight behind an allocation is overwritten with a
  different value: releasing the allocation panics instead of returning a damaged heap.
\<close>

theorem heap_overrun_panics:
  assumes "heap_ok h bs" "(p, u) \<in> set (allocs (heap_base h) bs)"
    and "p + u \<le> x" "x < p + u + 8" "v \<noteq> hmem h x"
  shows "heap_free (h\<lparr>hmem := (hmem h)(x := v)\<rparr>) p = None"
proof -
  obtain xs s ys where bs: "bs = xs @ Used s u # ys" "p = heap_base h + total xs + 24"
    using alloc_split[OF assms(2)] by blast
  let ?a = "heap_base h + total xs" and ?m = "(hmem h)(x := v)"
  note o = heap_okD[OF assms(1)[unfolded bs(1)]]
  have g: "guarded (hmem h) ?a u" "32 + u \<le> s" using o(7) by (auto simp: blocks_ok_append)
  have e: "?a + s < 2 ^ 32" using o(3,5) by simp
  have "agree (hmem h) ?m (?a + 16) (?a + 24)" using assms(3) bs(2) by (simp add: agree_def)
  then have hd: "ld32 ?m (?a + 16) = KASAN_CANARY_HEAD" "ld32 ?m (?a + 20) = of_nat u"
    using g(1) ld32_in by (simp_all add: guarded_def)
  have tl: "\<not> validate_tail_canary ?m (?a + 24 + u)"
    using tail_broken[of "hmem h" "?a + 24 + u" x v] g(1) assms(3-5) bs(2) by (simp add: guarded_def)
  have w: "wrap32 (?a + 24 + 2 ^ 32 - 8) = ?a + 16" "wrap32 (?a + 24 + u) = ?a + 24 + u" "unat (of_nat u :: u32) = u"
    using wrap32_back[of 8 "?a + 24"] e g(2) by (auto intro!: wrap32_id unat_of_nat32)
  have "KASAN_CANARY_HEAD \<noteq> KASAN_POISON_WORD" by (simp add: KASAN_CANARY_HEAD_def KASAN_POISON_WORD_def)
  then show ?thesis
    using hd tl w unfolding heap_free_def kasan_free_check_def validate_head_canary_def Let_def bs(2) KASAN_CANARY_BYTES_def
    by (simp add: w[simplified] add.assoc)
qed

theorem heap_overrun_panics_witness:
  "heap_free (demo_heap\<lparr>hmem := (hmem demo_heap)(3145852 := 0)\<rparr>) 3145752 = None"
proof -
  have "guarded (hmem demo_heap) 3145728 100" using heap_okD(7)[OF demo_heap_ok(2)] by (simp add: demo_heap_ok(3))
  then have "slice_of (hmem demo_heap) 3145852 4 ! 0 = word_bytes KASAN_CANARY_TAIL ! 0"
    by (simp add: guarded_def validate_tail_canary_def ld32_bytes)
  then have "0 \<noteq> hmem demo_heap 3145852" by (simp add: word_bytes_def KASAN_CANARY_TAIL_def upt_rec)
  then show ?thesis
    using heap_overrun_panics[OF demo_heap_ok(2), of 3145752 100 3145852 0] demo_heap_ok(3) by simp
qed

lemma free_spec_Free:
  "\<exists>ws z zs. free_spec xs s ys = ws @ Free z # zs \<and> total ws \<le> total xs \<and> total xs + s \<le> total ws + z"
proof -
  obtain k where k: "join_free (Free s) ys = Free k # (if ys \<noteq> [] \<and> free_blk (hd ys) then tl ys else ys)" (is "_ = _ # ?zs")
    using join_free_head by blast
  have sk: "s \<le> k" using k by (cases "(Free s, ys)" rule: join_free.cases) auto
  show ?thesis
  proof (cases "xs \<noteq> [] \<and> free_blk (last xs)")
    case False
    then have "free_spec xs s ys = xs @ Free k # ?zs" by (simp only: free_spec_def k if_False)
    then show ?thesis using sk by (intro exI[of _ xs] exI[of _ k] exI[of _ ?zs]) simp
  next
    case True
    then obtain ws n where x: "xs = ws @ [Free n]"
      by (metis append_butlast_last_id free_blk.simps(2) hblock.exhaust)
    then have "free_spec xs s ys = ws @ Free (n + k) # ?zs" by (simp add: free_spec_def k)
    then show ?thesis using sk x by (intro exI[of _ ws] exI[of _ "n + k"] exI[of _ ?zs]) simp
  qed
qed

text \<open>
  C0 (kernel heap, error).  Releasing the same pointer twice in a row panics: after the first
  release the words before the pointer are poison, whatever neighbours were joined.
\<close>

theorem heap_double_free_panics:
  assumes "heap_ok h bs" "(p, u) \<in> set (allocs (heap_base h) bs)" "heap_free h p = Some h'"
  shows "heap_free h' p = None"
proof -
  obtain xs s ys where bs: "bs = xs @ Used s u # ys" "p = heap_base h + total xs + 24"
    using alloc_split[OF assms(2)] by blast
  let ?a = "heap_base h + total xs"
  obtain m where m: "h' = h\<lparr>hmem := m\<rparr>" "heap_ok h' (free_spec xs s ys)"
    using heap_free_refines[OF assms(1)[unfolded bs(1)]] assms(3) unfolding bs(2) by (metis option.inject)
  obtain ws z zs where f: "free_spec xs s ys = ws @ Free z # zs" "total ws \<le> total xs" "total xs + s \<le> total ws + z"
    using free_spec_Free by blast
  note o = heap_okD[OF assms(1)[unfolded bs(1)]] and o' = heap_okD[OF m(2)]
  have s: "32 + u \<le> s" "?a + s < 2 ^ 32" using o(3,5,7) by (auto simp: blocks_ok_append)
  have p: "poisoned m (heap_base h + total ws + 16) (heap_base h + total ws + z)"
    using o'(7) m(1) by (simp add: f(1) blocks_ok_append)
  have d: "4 dvd ?a" using o(2,7) blocks_ok_dvd[of "hmem h" "heap_end_var h" 0 "heap_base h" xs]
    by (auto simp: blocks_ok_append)
  have "ld32 m (?a + 16) = KASAN_POISON_WORD" "kasan_check_poison m (?a + 16) 8"
    using poisoned_ld32[OF p] poisoned_check[of m "?a + 16" 8] poisoned_sub[OF p] f(2,3) s d by auto
  moreover have "wrap32 (?a + 24 + 2 ^ 32 - 8) = ?a + 16" using wrap32_back[of 8 "?a + 24"] s by simp
  moreover have "KASAN_POISON_WORD \<noteq> KASAN_CANARY_HEAD" by (simp add: KASAN_CANARY_HEAD_def KASAN_POISON_WORD_def)
  ultimately show ?thesis
    unfolding heap_free_def kasan_free_check_def validate_head_canary_def Let_def bs(2) KASAN_CANARY_BYTES_def m(1)
    by simp
qed

theorem heap_double_free_panics_witness:
  "\<exists>h. heap_free demo_heap 3145752 = Some h \<and> heap_free h 3145752 = None"
proof -
  obtain m where "heap_free demo_heap 3145752 = Some (demo_heap\<lparr>hmem := m\<rparr>)"
    by (rule heap_free_refines[of demo_heap "[]" 132 100 "[Free 8388476]"]) (use demo_heap_ok(2,3) in simp_all)
  then show ?thesis using heap_double_free_panics[OF demo_heap_ok(2), of 3145752 100] demo_heap_ok(3) by auto
qed

end
