(* ===== verification/Paging.thy ===== *)
theory Paging
  imports Frame_Alloc Uaccess
begin

text \<open>
  Page directories and page tables, \<^verbatim>\<open>src/kernel/mm/page_dir.c\<close>, and the copy-on-write
  fault and the temporary mapping of \<^verbatim>\<open>src/kernel/mm/cow_temp.c\<close>.  Directories, tables
  and user pages are frames of one physical memory; a frame is the address of its first byte
  and holds 1024 words.  What a \<open>kmalloc\<close> answers is an argument.  \<open>None\<close> is a kernel panic.
  The flushes of the translation buffer have no counterpart: every access goes through the
  tables.
\<close>

section \<open>Entries\<close>

definition PAGE_PRESENT :: u32 where "PAGE_PRESENT = 0x001"
definition PAGE_WRITABLE :: u32 where "PAGE_WRITABLE = 0x002"
definition PAGE_USER :: u32 where "PAGE_USER = 0x004"
definition PAGE_COW_BIT :: u32 where "PAGE_COW_BIT = 0x200"
definition PAGE_FRAME_MASK :: u32 where "PAGE_FRAME_MASK = NOT 0xFFF"
definition NUM_KERNEL_PAGE_TABLES :: nat where [kernel_const]: "NUM_KERNEL_PAGE_TABLES = 8"
definition USER_PDE_FIRST :: nat where [kernel_const]: "USER_PDE_FIRST = NUM_KERNEL_PAGE_TABLES"
definition USER_PDE_LAST :: nat where [kernel_const]: "USER_PDE_LAST = 768"

lemmas page_flags = PAGE_PRESENT_def PAGE_WRITABLE_def PAGE_USER_def PAGE_COW_BIT_def

abbreviation present :: "u32 \<Rightarrow> bool" where
  "present e \<equiv> e AND PAGE_PRESENT \<noteq> 0"

text \<open>The frame an entry points to.\<close>

definition frame_of :: "u32 \<Rightarrow> nat" where
  "frame_of e = unat (e AND PAGE_FRAME_MASK)"

definition pdi_of :: "u32 \<Rightarrow> nat" where
  "pdi_of virt = unat (drop_bit 22 virt)"

definition pti_of :: "u32 \<Rightarrow> nat" where
  "pti_of virt = unat (drop_bit 12 virt AND 0x3FF)"

section \<open>State\<close>

text \<open>
  \<open>kernel_page_tables\<close> and \<open>mmio_pts\<close> are the addresses of the static tables, 0 for NULL;
  their words are in \<open>pm\<close> like those of every other table.  \<open>mmap_file_table\<close> is the registry
  of file mappings of \<^verbatim>\<open>mmap_file.c\<close>.
\<close>

record mmap_file_region =
  mf_in_use :: bool
  mf_pd_phys :: nat
  mf_start :: u32
  mf_end :: u32
  mf_fd :: int
  mf_offset :: u32
  mf_prot :: u32

record vm =
  vm_frames :: frames
  pm :: "nat \<Rightarrow> nat \<Rightarrow> u32"
  kernel_page_directory :: "nat \<Rightarrow> u32"
  kernel_page_tables :: "nat \<Rightarrow> nat"
  mmio_pts :: "nat \<Rightarrow> nat"
  mmio_pt_next :: nat
  mmap_file_table :: "nat \<Rightarrow> mmap_file_region"

record page_directory =
  tables_physical :: "nat \<Rightarrow> u32"
  physical_addr :: nat

definition set_word :: "nat \<Rightarrow> nat \<Rightarrow> u32 \<Rightarrow> vm \<Rightarrow> vm" where
  "set_word a i w s = s\<lparr>pm := (pm s)(a := (pm s a)(i := w))\<rparr>"

definition clear_words :: "nat \<Rightarrow> vm \<Rightarrow> vm" where
  "clear_words a s = fold (\<lambda>i. set_word a i 0) [0..<1024] s"

section \<open>Setting up the identity map\<close>

definition init_table :: "nat \<Rightarrow> vm \<Rightarrow> vm" where
  "init_table t s =
     fold (\<lambda>p s. set_word (kernel_page_tables s t) p
             (of_nat ((t * 1024 + p) * PAGE_SIZE_CONST) OR PAGE_PRESENT OR PAGE_WRITABLE) s) [0..<1024] s"

fun init_tables :: "nat list \<Rightarrow> vm \<Rightarrow> vm" where
  "init_tables [] s = s"
| "init_tables (t # ts) s =
     (if kernel_page_tables s t = 0 then s
      else
        let s1 = init_table t s;
            pt_phys = kernel_page_tables s1 t;
            s2 = s1\<lparr>kernel_page_directory := (kernel_page_directory s1)(t := of_nat pt_phys OR PAGE_PRESENT OR PAGE_WRITABLE)\<rparr>;
            s3 = s2\<lparr>vm_frames := frame_alloc_mark_used (vm_frames s2) pt_phys\<rparr>
        in init_tables ts s3)"

definition paging_init :: "vm \<Rightarrow> vm" where
  "paging_init s =
     (let s1 = s\<lparr>vm_frames := frame_alloc_reserve_low (vm_frames s) KERNEL_HEAP_END\<rparr>;
          s2 = s1\<lparr>kernel_page_directory := fold (\<lambda>i d. d(i := 0)) [0..<1024] (kernel_page_directory s1)\<rparr>
      in init_tables [0..<NUM_KERNEL_PAGE_TABLES] s2)"

definition MMIO_PT_POOL_SIZE :: nat where [kernel_const]: "MMIO_PT_POOL_SIZE = 4"

text \<open>The table for a device page: the one in the directory or the next of the pool.\<close>

definition mmio_table :: "nat \<Rightarrow> vm \<Rightarrow> (vm \<times> nat) option" where
  "mmio_table pdi s =
     (if present (kernel_page_directory s pdi) then Some (s, frame_of (kernel_page_directory s pdi))
      else if mmio_pt_next s \<ge> MMIO_PT_POOL_SIZE then None
      else
        let pt = mmio_pts s (mmio_pt_next s);
            s1 = clear_words pt (s\<lparr>mmio_pt_next := mmio_pt_next s + 1\<rparr>)
        in Some (s1\<lparr>kernel_page_directory := (kernel_page_directory s1)(pdi := of_nat pt OR (PAGE_PRESENT OR PAGE_WRITABLE))\<rparr>, pt))"

definition map_uncached_mmio :: "vm \<Rightarrow> u32 \<Rightarrow> vm option" where
  "map_uncached_mmio s phys =
     (let pte_flags = PAGE_PRESENT OR PAGE_WRITABLE OR 0x010;
          pti = unat (drop_bit 12 phys AND 0x3FF);
          page_phys = phys AND PAGE_FRAME_MASK
      in case mmio_table (pdi_of phys) s of
           None \<Rightarrow> None
         | Some (s1, pt) \<Rightarrow>
             if present (pm s1 pt pti) \<and> pm s1 pt pti AND PAGE_FRAME_MASK = page_phys then Some s1
             else Some (set_word pt pti (page_phys OR pte_flags) s1))"

section \<open>Frames above the identity map\<close>

definition TEMP_MAP_VADDR :: u32 where
  "TEMP_MAP_VADDR = of_nat (IDENTITY_MAP_END - PAGE_SIZE_CONST)"

definition temp_pdi :: nat where "temp_pdi = unat (drop_bit 22 TEMP_MAP_VADDR AND 0x3FF)"
definition temp_pti :: nat where "temp_pti = unat (drop_bit 12 TEMP_MAP_VADDR AND 0x3FF)"

text \<open>\<open>True\<close>: the frame can be accessed; \<open>False\<close>: NULL.\<close>

definition temp_map_frame :: "nat \<Rightarrow> vm \<Rightarrow> vm \<times> bool" where
  "temp_map_frame phys_frame s =
     (if phys_frame < IDENTITY_MAP_END then (s, True)
      else if temp_pdi < NUM_KERNEL_PAGE_TABLES \<and> kernel_page_tables s temp_pdi \<noteq> 0 then
        (set_word (kernel_page_tables s temp_pdi) temp_pti
           ((of_nat phys_frame AND PAGE_FRAME_MASK) OR PAGE_PRESENT OR PAGE_WRITABLE) s, True)
      else (s, False))"

definition temp_unmap_frame :: "vm \<Rightarrow> vm" where
  "temp_unmap_frame s =
     (if temp_pdi < NUM_KERNEL_PAGE_TABLES \<and> kernel_page_tables s temp_pdi \<noteq> 0
      then set_word (kernel_page_tables s temp_pdi) temp_pti 0 s else s)"

definition zero_frame :: "nat \<Rightarrow> vm \<Rightarrow> vm option" where
  "zero_frame addr s =
     (if addr < IDENTITY_MAP_END then Some (clear_words addr s)
      else case temp_map_frame addr s of
        (s1, ok) \<Rightarrow> if ok then Some (temp_unmap_frame (clear_words addr s1)) else None)"

section \<open>Directories\<close>

definition create_page_directory :: "vm \<Rightarrow> nat \<Rightarrow> bool \<Rightarrow> vm \<times> page_directory option" where
  "create_page_directory s cpu kmalloc_ok =
     (if \<not> kmalloc_ok then (s, None)
      else case allocate_frame (vm_frames s) cpu of
        (fr, None) \<Rightarrow> (s\<lparr>vm_frames := fr\<rparr>, None)
      | (fr, Some pd_phys) \<Rightarrow>
          if pd_phys \<ge> IDENTITY_MAP_END then (s\<lparr>vm_frames := free_frame fr cpu pd_phys\<rparr>, None)
          else
            let s1 = clear_words pd_phys (s\<lparr>vm_frames := fr\<rparr>);
                copied = (\<lambda>i. i < NUM_KERNEL_PAGE_TABLES \<or> present (kernel_page_directory s i));
                s2 = fold (\<lambda>i s. if copied i then set_word pd_phys i (kernel_page_directory s i) s else s) [0..<1024] s1;
                tabs = (\<lambda>i. if i < 1024 \<and> copied i then kernel_page_directory s i else 0)
            in (s2, Some \<lparr>tables_physical = tabs, physical_addr = pd_phys\<rparr>))"

text \<open>One page table of \<open>destroy_page_directory\<close>: a reference less for each page, then the table.\<close>

definition drop_table :: "nat \<Rightarrow> nat \<Rightarrow> vm \<Rightarrow> vm" where
  "drop_table cpu pt_phys s =
     (let fr = fold (\<lambda>j fr. if present (pm s pt_phys j) then frame_decref fr cpu (frame_of (pm s pt_phys j)) else fr)
                 [0..<1024] (vm_frames s)
      in s\<lparr>vm_frames := free_frame fr cpu pt_phys\<rparr>)"

definition destroy_page_directory :: "vm \<Rightarrow> nat \<Rightarrow> page_directory \<Rightarrow> vm" where
  "destroy_page_directory s cpu dir =
     (let pd = physical_addr dir;
          s1 = fold (\<lambda>i s. if present (pm s pd i) \<and> frame_of (pm s pd i) < IDENTITY_MAP_END
                           then drop_table cpu (frame_of (pm s pd i)) s else s) [4..<768] s
      in s1\<lparr>vm_frames := free_frame (vm_frames s1) cpu pd\<rparr>)"

text \<open>\<open>True\<close> is the return value 0, \<open>False\<close> is -1.\<close>

definition map_page :: "vm \<Rightarrow> nat \<Rightarrow> page_directory \<Rightarrow> u32 \<Rightarrow> u32 \<Rightarrow> u32 \<Rightarrow> (vm \<times> page_directory \<times> bool) option" where
  "map_page s cpu dir virt phys flags =
     (let pdi = pdi_of virt; pti = pti_of virt; pd = physical_addr dir;
          table = (if present (pm s pd pdi) then Some (s, dir, True)
                   else case allocate_frame (vm_frames s) cpu of
                     (fr, None) \<Rightarrow> Some (s\<lparr>vm_frames := fr\<rparr>, dir, False)
                   | (fr, Some pt_phys) \<Rightarrow>
                       (case zero_frame pt_phys (s\<lparr>vm_frames := fr\<rparr>) of
                          None \<Rightarrow> None
                        | Some s1 \<Rightarrow>
                            let e = of_nat pt_phys OR PAGE_PRESENT OR PAGE_WRITABLE OR (flags AND PAGE_USER)
                            in Some (set_word pd pdi e s1, dir\<lparr>tables_physical := (tables_physical dir)(pdi := e)\<rparr>, True)))
      in case table of
           None \<Rightarrow> None
         | Some (s1, dir1, ok) \<Rightarrow>
             if \<not> ok then Some (s1, dir1, False)
             else
               let (s2, dir2) = (if flags AND PAGE_USER \<noteq> 0
                                 then let e = pm s1 pd pdi OR PAGE_USER
                                      in (set_word pd pdi e s1, dir1\<lparr>tables_physical := (tables_physical dir1)(pdi := e)\<rparr>)
                                 else (s1, dir1));
                   pt = frame_of (pm s2 pd pdi)
               in Some (set_word pt pti ((phys AND PAGE_FRAME_MASK) OR flags) s2, dir2, True))"

definition unmap_page :: "vm \<Rightarrow> page_directory \<Rightarrow> u32 \<Rightarrow> vm" where
  "unmap_page s dir virt =
     (let pd = physical_addr dir; pdi = pdi_of virt
      in if \<not> present (pm s pd pdi) then s
         else set_word (frame_of (pm s pd pdi)) (pti_of virt) 0 s)"

definition get_physical_addr :: "vm \<Rightarrow> page_directory \<Rightarrow> u32 \<Rightarrow> u32" where
  "get_physical_addr s dir virt =
     (let pd = physical_addr dir; pdi = pdi_of virt; pti = pti_of virt
      in if \<not> present (pm s pd pdi) then 0
         else
           let e = pm s (frame_of (pm s pd pdi)) pti
           in if \<not> present e then 0 else (e AND PAGE_FRAME_MASK) OR (virt AND PAGE_MASK))"

text \<open>The same walk from the directory in CR3.\<close>

definition get_physical_addr_current :: "vm \<Rightarrow> u32 \<Rightarrow> u32 \<Rightarrow> u32" where
  "get_physical_addr_current s cr3 virt =
     (let pd = frame_of cr3; pdi = pdi_of virt; pti = pti_of virt
      in if \<not> present (pm s pd pdi) then 0
         else
           let e = pm s (frame_of (pm s pd pdi)) pti
           in if \<not> present e then 0 else (e AND PAGE_FRAME_MASK) OR (virt AND PAGE_MASK))"

section \<open>The copy-on-write fault\<close>

definition copy_words :: "nat \<Rightarrow> nat \<Rightarrow> vm \<Rightarrow> vm" where
  "copy_words src dst s = fold (\<lambda>k s. set_word dst k (pm s src k) s) [0..<1024] s"

text \<open>
  The copy of a frame into the new one, through the temporary mapping where a frame lies
  above the identity map; \<open>None\<close> is the failure of that mapping, with the state it leaves.
\<close>

definition cow_copy :: "nat \<Rightarrow> nat \<Rightarrow> vm \<Rightarrow> vm \<times> bool" where
  "cow_copy old_frame new_frame s =
     (let s_temp = (old_frame \<ge> IDENTITY_MAP_END);
          (s1, ok) = (if s_temp then temp_map_frame old_frame s else (s, True))
      in if \<not> ok then (s1, False)
         else if new_frame < IDENTITY_MAP_END then
           let s2 = copy_words old_frame new_frame s1
           in (if s_temp then temp_unmap_frame s2 else s2, True)
         else
           let s2 = (if s_temp then temp_unmap_frame s1 else s1);
               (s3, ok) = temp_map_frame new_frame s2
           in if \<not> ok then (s3, False)
              else (temp_unmap_frame (copy_words old_frame new_frame s3), True))"

text \<open>
  \<open>True\<close> is the return value 0.  The entry is read once: between the test before the lock
  and the one under it nothing changes in a sequential run.
\<close>

definition handle_cow_fault :: "vm \<Rightarrow> nat \<Rightarrow> page_directory option \<Rightarrow> u32 \<Rightarrow> vm \<times> bool" where
  "handle_cow_fault s cpu dir_ptr fault_addr =
     (case dir_ptr of
        None \<Rightarrow> (s, False)
      | Some dir \<Rightarrow>
          let pd = physical_addr dir; pdi = unat (drop_bit 22 fault_addr AND 0x3FF); pti = pti_of fault_addr
          in if \<not> present (pm s pd pdi) then (s, False)
          else let pt = frame_of (pm s pd pdi) in
          if pt \<ge> IDENTITY_MAP_END then (s, False)
          else let entry = pm s pt pti in
          if \<not> present entry then (s, False)
          else if entry AND PAGE_COW_BIT = 0 then (s, False)
          else
            let old_frame = frame_of entry; flags = entry AND PAGE_MASK;
                flags' = (flags AND NOT PAGE_COW_BIT) OR PAGE_WRITABLE
            in if frame_getref (vm_frames s) old_frame \<le> 1
               then (set_word pt pti (of_nat old_frame OR flags') s, True)
               else case allocate_frame (vm_frames s) cpu of
                 (fr, None) \<Rightarrow> (s\<lparr>vm_frames := fr\<rparr>, False)
               | (fr, Some new_frame) \<Rightarrow>
                   (case cow_copy old_frame new_frame (s\<lparr>vm_frames := fr\<rparr>) of
                      (s1, ok) \<Rightarrow>
                        if \<not> ok then (s1\<lparr>vm_frames := free_frame (vm_frames s1) cpu new_frame\<rparr>, False)
                        else
                          let s2 = set_word pt pti (of_nat new_frame OR flags') s1
                          in (s2\<lparr>vm_frames := frame_decref (vm_frames s2) cpu old_frame\<rparr>, True)))"

end
