(* ===== verification/Paging_Lemmas.thy ===== *)
theory Paging_Lemmas
  imports Paging
begin

text \<open>
  Address spaces.  A set of page directories is well-formed when its directories and the
  tables they point to are frames of the pool, no two of them the same; the lemmas say which
  entries each operation of \<open>Paging\<close> changes and which it leaves.
\<close>

section \<open>Entries\<close>

lemma present_bit: "present e \<longleftrightarrow> bit e 0"
  using and_exp_eq_0_iff_not_bit[of e 0] by (simp add: PAGE_PRESENT_def)

lemma writable_bit: "e AND PAGE_WRITABLE \<noteq> 0 \<longleftrightarrow> bit e 1"
  using and_exp_eq_0_iff_not_bit[of e 1] by (simp add: PAGE_WRITABLE_def)

lemma user_bit: "e AND PAGE_USER \<noteq> 0 \<longleftrightarrow> bit e 2"
  using and_exp_eq_0_iff_not_bit[of e 2] by (simp add: PAGE_USER_def)

lemma cow_bit: "e AND PAGE_COW_BIT = 0 \<longleftrightarrow> \<not> bit e 9"
  using and_exp_eq_0_iff_not_bit[of e 9] by (simp add: PAGE_COW_BIT_def)

lemma flag_bits:
  "bit PAGE_PRESENT n \<longleftrightarrow> n = 0" "bit PAGE_WRITABLE n \<longleftrightarrow> n = 1" "bit PAGE_USER n \<longleftrightarrow> n = 2" "bit PAGE_COW_BIT n \<longleftrightarrow> n = 9"
proof -
  have e: "PAGE_PRESENT = 2 ^ 0" "PAGE_WRITABLE = 2 ^ 1" "PAGE_USER = 2 ^ 2" "PAGE_COW_BIT = 2 ^ 9"
    by (simp_all add: page_flags)
  have b: "bit (2 ^ k :: u32) n \<longleftrightarrow> n = k" if "k < 32" for k
    using that by (auto simp: bit_exp_iff possible_bit_word)
  show "bit PAGE_PRESENT n \<longleftrightarrow> n = 0" "bit PAGE_WRITABLE n \<longleftrightarrow> n = 1" "bit PAGE_USER n \<longleftrightarrow> n = 2"
    "bit PAGE_COW_BIT n \<longleftrightarrow> n = 9"
    unfolding e by (rule b, simp)+
qed

lemma mask_bits: "bit PAGE_MASK n \<longleftrightarrow> n < 12" "bit PAGE_FRAME_MASK n \<longleftrightarrow> 12 \<le> n \<and> n < 32"
proof -
  have e: "PAGE_MASK = mask 12" "PAGE_FRAME_MASK = NOT (mask 12)"
    by (simp_all add: PAGE_MASK_def PAGE_FRAME_MASK_def mask_eq_exp_minus_1)
  show "bit PAGE_MASK n \<longleftrightarrow> n < 12" unfolding e(1) by (auto simp: bit_mask_iff possible_bit_word)
  show "bit PAGE_FRAME_MASK n \<longleftrightarrow> 12 \<le> n \<and> n < 32"
    unfolding e(2) by (auto simp: bit_not_iff bit_mask_iff possible_bit_word)
qed

lemma aligned_bits: "4096 dvd a \<Longrightarrow> n < 12 \<Longrightarrow> \<not> bit (of_nat a :: u32) n"
proof -
  assume "4096 dvd a" "n < 12"
  then obtain k where a: "a = k * 2 ^ 12" by (auto simp: mult.commute elim: dvdE)
  then have "of_nat a = push_bit 12 (of_nat k :: u32)" by (simp add: push_bit_eq_mult)
  then show ?thesis using \<open>n < 12\<close> by (simp add: bit_push_bit_iff)
qed

lemma unat_of_nat_u32: "a < 2 ^ 32 \<Longrightarrow> unat (of_nat a :: u32) = a"
  by (simp add: unsigned_of_nat take_bit_nat_eq_self_iff)

lemma frame_of_or:
  assumes "4096 dvd a" "a < 2 ^ 32" "\<And>n. bit (f :: u32) n \<Longrightarrow> n < 12"
  shows "frame_of (of_nat a OR f) = a" "(of_nat a OR f) AND PAGE_MASK = f"
proof -
  have b: "\<not> bit (of_nat a :: u32) n" if "n < 12" for n using aligned_bits[OF assms(1) that] .
  have "(of_nat a OR f) AND PAGE_FRAME_MASK = of_nat a"
    by (rule bit_word_eqI) (use b assms(3) in \<open>force simp: bit_or_iff bit_and_iff mask_bits not_less\<close>)
  then show "frame_of (of_nat a OR f) = a" using unat_of_nat_u32[OF assms(2)] by (simp add: frame_of_def)
  show "(of_nat a OR f) AND PAGE_MASK = f"
    by (rule bit_word_eqI) (use b assms(3) in \<open>auto simp: bit_or_iff bit_and_iff mask_bits\<close>)
qed

lemma frame_of_eq: "frame_of e = unat e div 4096 * 4096"
  using page_unat[of e] by (simp add: frame_of_def PAGE_FRAME_MASK_def PAGE_MASK_def)

lemma frame_of_dvd: "4096 dvd frame_of e"
  by (simp add: frame_of_eq)

lemma frame_of_less: "frame_of e < 2 ^ 32"
  using unsigned_less[of "e AND PAGE_FRAME_MASK", where ?'a = nat] by (simp add: frame_of_def)

lemma frame_of_flag: "\<forall>n. bit (f :: u32) n \<longrightarrow> n < 12 \<Longrightarrow> frame_of (e OR f) = frame_of e"
proof -
  assume f: "\<forall>n. bit f n \<longrightarrow> n < 12"
  have "(e OR f) AND PAGE_FRAME_MASK = e AND PAGE_FRAME_MASK"
    by (rule bit_word_eqI) (use f in \<open>auto simp: bit_or_iff bit_and_iff mask_bits\<close>)
  then show ?thesis by (simp add: frame_of_def)
qed

lemma pool_addr_u32: "pool_addr a \<Longrightarrow> a < 2 ^ 32 \<and> 4096 dvd a"
  by (simp add: pool_addr_def kernel_const)

text \<open>An entry is its frame and its flags.\<close>

lemma entry_split: "of_nat (frame_of e) OR (e AND PAGE_MASK) = e"
proof -
  have "of_nat (frame_of e) = e AND PAGE_FRAME_MASK" by (simp add: frame_of_def)
  then show ?thesis
    by (intro bit_word_eqI) (auto simp: bit_or_iff bit_and_iff mask_bits dest: bit_imp_le_length)
qed

section \<open>Words\<close>

lemma set_word_pm [simp]: "pm (set_word a i w s) b j = (if b = a \<and> j = i then w else pm s b j)"
  by (simp add: set_word_def)

lemma set_word_other [simp]:
  "vm_frames (set_word a i w s) = vm_frames s" "kernel_page_directory (set_word a i w s) = kernel_page_directory s"
  "kernel_page_tables (set_word a i w s) = kernel_page_tables s"
  by (simp_all add: set_word_def)

lemma fold_set_words:
  "pm (fold (\<lambda>i. set_word a i 0) [0..<n] s) b j = (if b = a \<and> j < n then 0 else pm s b j)"
  "vm_frames (fold (\<lambda>i. set_word a i 0) [0..<n] s) = vm_frames s"
  "kernel_page_directory (fold (\<lambda>i. set_word a i 0) [0..<n] s) = kernel_page_directory s"
  by (induction n) auto

lemma clear_words_simps [simp]:
  "pm (clear_words a s) b j = (if b = a \<and> j < 1024 then 0 else pm s b j)"
  "vm_frames (clear_words a s) = vm_frames s" "kernel_page_directory (clear_words a s) = kernel_page_directory s"
  unfolding clear_words_def by (rule fold_set_words)+

lemma fold_copy_words:
  assumes "src \<noteq> dst"
  shows "pm (fold (\<lambda>k s. set_word dst k (pm s src k) s) [0..<n] s) b j =
     (if b = dst \<and> j < n then pm s src j else pm s b j)"
  using assms by (induction n arbitrary: b j) auto

lemma fold_copy_words_frames:
  "vm_frames (fold (\<lambda>k s. set_word dst k (pm s src k) s) [0..<n] s) = vm_frames s"
  by (induction n) auto

lemma copy_words_simps:
  "src \<noteq> dst \<Longrightarrow> pm (copy_words src dst s) b j = (if b = dst \<and> j < 1024 then pm s src j else pm s b j)"
  "vm_frames (copy_words src dst s) = vm_frames s"
  unfolding copy_words_def by (rule fold_copy_words, assumption) (rule fold_copy_words_frames)

lemma zero_frame_low: "a < IDENTITY_MAP_END \<Longrightarrow> zero_frame a s = Some (clear_words a s)"
  by (simp add: zero_frame_def)

section \<open>Tables and entries of a directory\<close>

definition user_pde :: "nat \<Rightarrow> bool" where
  "user_pde i \<longleftrightarrow> USER_PDE_FIRST \<le> i \<and> i < USER_PDE_LAST"

definition tab :: "vm \<Rightarrow> nat \<Rightarrow> nat \<Rightarrow> nat option" where
  "tab s d i = (if present (pm s d i) then Some (frame_of (pm s d i)) else None)"

text \<open>The entry of page \<open>(i, j)\<close>; without a table it is 0, which is not present.\<close>

definition entry :: "vm \<Rightarrow> nat \<Rightarrow> nat \<Rightarrow> nat \<Rightarrow> u32" where
  "entry s d i j = (case tab s d i of None \<Rightarrow> 0 | Some p \<Rightarrow> pm s p j)"

definition is_table :: "vm \<Rightarrow> nat set \<Rightarrow> nat \<Rightarrow> bool" where
  "is_table s D p \<longleftrightarrow> p \<in> D \<or> (\<exists>d \<in> D. \<exists>i. user_pde i \<and> tab s d i = Some p)"

definition tables_ok :: "vm \<Rightarrow> nat set \<Rightarrow> bool" where
  "tables_ok s D \<longleftrightarrow>
     finite D \<and> frame_inv (vm_frames s) \<and>
     (\<forall>p. is_table s D p \<longrightarrow> pool_addr p \<and> owned (vm_frames s) p) \<and>
     (\<forall>d \<in> D. \<forall>i p. user_pde i \<and> tab s d i = Some p \<longrightarrow> p \<notin> D) \<and>
     (\<forall>d \<in> D. \<forall>d' \<in> D. \<forall>i i' p. user_pde i \<and> user_pde i' \<and> tab s d i = Some p \<and> tab s d' i' = Some p \<longrightarrow>
        d = d' \<and> i = i')"

lemma tables_okD:
  assumes "tables_ok s D"
  shows "finite D" "frame_inv (vm_frames s)" "is_table s D p \<Longrightarrow> pool_addr p" "is_table s D p \<Longrightarrow> owned (vm_frames s) p"
    and "d \<in> D \<Longrightarrow> user_pde i \<Longrightarrow> tab s d i = Some p \<Longrightarrow> p \<notin> D"
    and "d \<in> D \<Longrightarrow> d' \<in> D \<Longrightarrow> user_pde i \<Longrightarrow> user_pde i' \<Longrightarrow> tab s d i = Some p \<Longrightarrow> tab s d' i' = Some p \<Longrightarrow> d = d' \<and> i = i'"
  using assms unfolding tables_ok_def by blast+

lemma is_tableI: "d \<in> D \<Longrightarrow> is_table s D d" "d \<in> D \<Longrightarrow> user_pde i \<Longrightarrow> tab s d i = Some p \<Longrightarrow> is_table s D p"
  by (auto simp: is_table_def)

text \<open>Operations that leave the directories alone keep the structure.\<close>

lemma tab_cong: "pm s' d i = pm s d i \<Longrightarrow> tab s' d i = tab s d i"
  by (simp add: tab_def)

lemma tables_ok_cong:
  assumes "tables_ok s D" "\<And>d i. d \<in> D \<Longrightarrow> user_pde i \<Longrightarrow> tab s' d i = tab s d i" "vm_frames s' = vm_frames s"
  shows "tables_ok s' D" "is_table s' D p = is_table s D p"
proof -
  have t: "is_table s' D p = is_table s D p" for p unfolding is_table_def using assms(2) by auto
  then show "is_table s' D p = is_table s D p" .
  show "tables_ok s' D"
    using assms(1) unfolding tables_ok_def assms(3) t using assms(2) by metis
qed

text \<open>A word of a page table.\<close>

lemma set_entry:
  assumes "tables_ok s D" "d \<in> D" "user_pde i" "tab s d i = Some p" "s' = set_word p j w s"
  shows "d' \<in> D \<Longrightarrow> user_pde i' \<Longrightarrow> tab s' d' i' = tab s d' i'"
    and "d' \<in> D \<Longrightarrow> user_pde i' \<Longrightarrow> entry s' d' i' j' = (if d' = d \<and> i' = i \<and> j' = j then w else entry s d' i' j')"
proof -
  have p: "p \<notin> D" using tables_okD(5)[OF assms(1-4)] .
  show t: "tab s' d' i' = tab s d' i'" if "d' \<in> D" "user_pde i'" for d' i'
    using that p assms(5) by (intro tab_cong) auto
  show "entry s' d' i' j' = (if d' = d \<and> i' = i \<and> j' = j then w else entry s d' i' j')"
    if d': "d' \<in> D" "user_pde i'"
  proof (cases "tab s d' i'")
    case None
    then have "entry s' d' i' j' = 0" "entry s d' i' j' = 0" "\<not> (d' = d \<and> i' = i)"
      using t[OF d'] assms(4) by (auto simp: entry_def)
    then show ?thesis by auto
  next
    case (Some q)
    have "q = p \<longleftrightarrow> d' = d \<and> i' = i"
      using tables_okD(6)[OF assms(1,2) d'(1) assms(3) d'(2) assms(4)] Some assms(4) by auto
    moreover have "entry s' d' i' j' = pm s' q j'" "entry s d' i' j' = pm s q j'"
      using t[OF d'] Some by (simp_all add: entry_def)
    ultimately show ?thesis by (simp add: assms(5))
  qed
qed

text \<open>A word of a frame that is no table.\<close>

lemma set_page_word:
  assumes "\<not> is_table s D f" "s' = set_word f k w s" "d \<in> D"
  shows "tab s' d i = tab s d i" "user_pde i \<Longrightarrow> entry s' d i j = entry s d i j"
proof -
  have "f \<noteq> d" using assms(1,3) by (auto simp: is_table_def)
  then show t: "tab s' d i = tab s d i" using assms(2) by (intro tab_cong) auto
  show "entry s' d i j = entry s d i j" if "user_pde i"
  proof (cases "tab s d i")
    case (Some q)
    then have "q \<noteq> f" using is_tableI(2)[OF assms(3) that Some] assms(1) by auto
    then show ?thesis using t Some assms(2) by (simp add: entry_def)
  qed (use t in \<open>simp add: entry_def\<close>)
qed

section \<open>Steps between well-formed states\<close>

definition rc :: "vm \<Rightarrow> nat \<Rightarrow> nat" where
  "rc s f = unat (frame_refcount (vm_frames s) (f div 4096))"

text \<open>
  The structure holds afterwards, the entries are those of \<open>E\<close>, and every frame that was in
  use keeps its owner, its count and, unless it is a table, its words.
\<close>

definition vm_step :: "vm \<Rightarrow> vm \<Rightarrow> nat set \<Rightarrow> (nat \<Rightarrow> nat \<Rightarrow> nat \<Rightarrow> u32) \<Rightarrow> bool" where
  "vm_step s s' D E \<longleftrightarrow> tables_ok s' D \<and>
     (\<forall>d \<in> D. \<forall>i j. user_pde i \<and> j < 1024 \<longrightarrow> entry s' d i j = E d i j) \<and>
     (\<forall>f. owned (vm_frames s) f \<and> 4096 dvd f \<longrightarrow> owned (vm_frames s') f \<and> rc s' f = rc s f \<and>
        (\<not> is_table s D f \<longrightarrow> \<not> is_table s' D f \<and> pm s' f = pm s f))"

lemma vm_stepD:
  assumes "vm_step s s' D E"
  shows "tables_ok s' D" "d \<in> D \<Longrightarrow> user_pde i \<Longrightarrow> j < 1024 \<Longrightarrow> entry s' d i j = E d i j"
    and "owned (vm_frames s) f \<Longrightarrow> 4096 dvd f \<Longrightarrow> owned (vm_frames s') f"
    and "owned (vm_frames s) f \<Longrightarrow> 4096 dvd f \<Longrightarrow> rc s' f = rc s f"
    and "owned (vm_frames s) f \<Longrightarrow> 4096 dvd f \<Longrightarrow> \<not> is_table s D f \<Longrightarrow> \<not> is_table s' D f"
    and "owned (vm_frames s) f \<Longrightarrow> 4096 dvd f \<Longrightarrow> \<not> is_table s D f \<Longrightarrow> pm s' f = pm s f"
  using assms unfolding vm_step_def by blast+

lemma vm_step_refl: "tables_ok s D \<Longrightarrow> vm_step s s D (entry s)"
  by (simp add: vm_step_def)

lemma vm_step_trans:
  assumes "vm_step s s1 D E1" "vm_step s1 s2 D E2"
  shows "vm_step s s2 D E2"
  using assms unfolding vm_step_def by metis

lemma vm_step_entries:
  assumes "vm_step s s' D E" "\<And>d i j. d \<in> D \<Longrightarrow> user_pde i \<Longrightarrow> j < 1024 \<Longrightarrow> E d i j = E' d i j"
  shows "vm_step s s' D E'"
  using assms by (simp add: vm_step_def)

lemma allocate_None_same:
  assumes "frame_inv fr" "allocate_frame fr cpu = (fr', None)"
  shows "frame_inv fr'" "owned fr' = owned fr" "frame_refcount fr' = frame_refcount fr"
proof -
  have al: "alloc_frames_locked fr 16 = (fr', [])"
    using assms(2) by (auto simp: allocate_frame_def FRAME_MAGAZINE_SIZE_def split: prod.splits list.splits)
  have g: "grabbed fr [] fr'" using alloc_frames_spec[OF assms(1) al] by simp
  show "frame_inv fr'" using allocate_frame_None(2)[OF assms pool_addr_first] .
  have "used fr' = used fr" using g by (auto simp: grabbed_def fun_eq_iff)
  then show "owned fr' = owned fr" "frame_refcount fr' = frame_refcount fr"
    using g by (auto simp: grabbed_def owned_def in_mag_def fun_eq_iff)
qed

text \<open>Changes of the frame bookkeeping alone.\<close>

lemma frames_same [simp]:
  "tab (s\<lparr>vm_frames := fr\<rparr>) = tab s" "is_table (s\<lparr>vm_frames := fr\<rparr>) = is_table s" "entry (s\<lparr>vm_frames := fr\<rparr>) = entry s"
  by (auto simp: fun_eq_iff tab_def is_table_def entry_def)

lemma tables_ok_frames:
  assumes "tables_ok s D" "frame_inv fr" "\<And>p. is_table s D p \<Longrightarrow> owned fr p"
  shows "tables_ok (s\<lparr>vm_frames := fr\<rparr>) D"
  using assms unfolding tables_ok_def by simp

lemma vm_step_frames:
  assumes "tables_ok s D" "frame_inv fr" "\<And>f. owned (vm_frames s) f \<Longrightarrow> 4096 dvd f \<Longrightarrow> owned fr f"
    and "\<And>f. owned (vm_frames s) f \<Longrightarrow> 4096 dvd f \<Longrightarrow> frame_refcount fr (f div 4096) = frame_refcount (vm_frames s) (f div 4096)"
  shows "vm_step s (s\<lparr>vm_frames := fr\<rparr>) D (entry s)"
proof -
  have "owned fr p" if "is_table s D p" for p
    using tables_okD(3,4)[OF assms(1) that] assms(3) by (auto simp: pool_addr_def)
  then have "tables_ok (s\<lparr>vm_frames := fr\<rparr>) D" using tables_ok_frames[OF assms(1,2)] by blast
  then show ?thesis using assms(3,4) by (simp add: vm_step_def rc_def)
qed

text \<open>A new, empty table for \<open>(d, i)\<close>.\<close>

lemma new_table:
  assumes ok: "tables_ok s D" and d: "d \<in> D" "user_pde i" "tab s d i = None"
    and al: "allocate_frame (vm_frames s) cpu = (fr, Some pt)"
    and e: "frame_of e = pt" "present e"
    and s': "s' = set_word d i e (clear_words pt (s\<lparr>vm_frames := fr\<rparr>))"
  shows "vm_step s s' D (entry s)" "tab s' d i = Some pt"
proof -
  have c: "alloc_contract (vm_frames s) fr pt" using allocate_frame_Some[OF tables_okD(2)[OF ok] al] .
  then have pt: "pool_addr pt" "\<not> owned (vm_frames s) pt" "owned fr pt" "4096 dvd pt" "\<not> is_table s D pt"
    using tables_okD(4)[OF ok, of pt] by (auto simp: alloc_contract_def pool_addr_def)
  have own: "owned fr f" if "owned (vm_frames s) f" "4096 dvd f" for f
    using c that pt(2) unfolding alloc_contract_def by metis
  have rc': "frame_refcount fr (f div 4096) = frame_refcount (vm_frames s) (f div 4096)"
    if "owned (vm_frames s) f" "4096 dvd f" for f using c that unfolding alloc_contract_def by blast
  have nd: "pt \<notin> D" using pt(5) is_tableI(1) by blast
  have t: "tab s' d' i' = (if d' = d \<and> i' = i then Some pt else tab s d' i')" if "d' \<in> D" for d' i'
    using that nd e by (auto simp: s' tab_def)
  then show "tab s' d i = Some pt" using d(1) by simp
  have t': "tab s' d' i' = Some p" if "d' \<in> D" "tab s d' i' = Some p" for d' i' p
    using t[OF that(1), of i'] that(2) d(3) by auto
  have it: "is_table s' D p \<longleftrightarrow> is_table s D p \<or> p = pt" for p
  proof
    assume "is_table s' D p"
    then show "is_table s D p \<or> p = pt" using t unfolding is_table_def by (metis option.inject)
  next
    assume "is_table s D p \<or> p = pt"
    then show "is_table s' D p" using t' t[OF d(1), of i] d(1,2) unfolding is_table_def by metis
  qed
  have "tables_ok s' D"
    unfolding tables_ok_def
  proof (intro conjI allI ballI impI)
    show "finite D" using tables_okD(1)[OF ok] .
    show "frame_inv (vm_frames s')" using c by (simp add: s' alloc_contract_def)
    fix p assume "is_table s' D p"
    then show "pool_addr p" "owned (vm_frames s') p"
      using it pt(1,3) tables_okD(3,4)[OF ok] own by (auto simp: s' pool_addr_def)
  next
    fix d' i' p assume "d' \<in> D" "user_pde i' \<and> tab s' d' i' = Some p"
    then show "p \<notin> D" using t nd tables_okD(5)[OF ok] by (auto split: if_splits)
  next
    fix d1 d2 i1 i2 p
    assume "d1 \<in> D" "d2 \<in> D" and a: "user_pde i1 \<and> user_pde i2 \<and> tab s' d1 i1 = Some p \<and> tab s' d2 i2 = Some p"
    then show "d1 = d2" "i1 = i2"
      using t tables_okD(6)[OF ok] pt(5) is_tableI(2) by (metis option.inject)+
  qed
  moreover have "entry s' d' i' j = entry s d' i' j" if "d' \<in> D" "user_pde i'" "j < 1024" for d' i' j
  proof (cases "d' = d \<and> i' = i")
    case True
    then show ?thesis using t[OF that(1)] d(1,3) nd that(3) by (auto simp: entry_def s')
  next
    case False
    show ?thesis
    proof (cases "tab s d' i'")
      case (Some q)
      then have "q \<noteq> pt" "q \<noteq> d" using pt(5) is_tableI(2)[OF that(1,2) Some] tables_okD(5)[OF ok that(1,2) Some] d(1) by auto
      moreover have "tab s' d' i' = Some q" using t'[OF that(1) Some] .
      ultimately show ?thesis using Some by (simp add: entry_def s')
    qed (use t[OF that(1)] False in \<open>auto simp: entry_def\<close>)
  qed
  moreover have "pm s' f = pm s f" if "owned (vm_frames s) f" "\<not> is_table s D f" for f
    using that pt(2) d(1) is_tableI(1)[of d D s] by (auto simp: s' fun_eq_iff)
  ultimately show "vm_step s s' D (entry s)"
    using own rc' it pt(2) by (auto simp: vm_step_def rc_def s')
qed

text \<open>A flag in a directory entry.\<close>

lemma flag_pde:
  assumes ok: "tables_ok s D" and d: "d \<in> D" "user_pde i" and f: "\<forall>n. bit f n \<longrightarrow> 0 < n \<and> n < 12"
    and s': "s' = set_word d i (pm s d i OR f) s"
  shows "vm_step s s' D (entry s)" "tab s' d' i' = tab s d' i'"
proof -
  have "frame_of (pm s d i OR f) = frame_of (pm s d i)" using frame_of_flag[of f] f by blast
  moreover have "present (pm s d i OR f) = present (pm s d i)" using f by (auto simp: present_bit bit_or_iff)
  ultimately show t: "tab s' d' i' = tab s d' i'" for d' i' by (auto simp: s' tab_def)
  have e: "entry s' d' i' j = entry s d' i' j" if "d' \<in> D" "user_pde i'" for d' i' j
  proof (cases "tab s d' i'")
    case (Some q)
    then have "q \<noteq> d" using tables_okD(5)[OF ok that Some] d(1) by auto
    then show ?thesis using t Some by (simp add: entry_def s')
  qed (use t in \<open>simp add: entry_def\<close>)
  have fr: "vm_frames s' = vm_frames s" by (simp add: s')
  have k: "tables_ok s' D" "is_table s' D p = is_table s D p" for p
    using tables_ok_cong[OF ok _ fr, of] t by auto
  have "pm s' f = pm s f" if "\<not> is_table s D f" for f
    using that is_tableI(1)[OF d(1), of s] by (auto simp: s' fun_eq_iff)
  then show "vm_step s s' D (entry s)" using k e by (simp add: vm_step_def rc_def fr)
qed

lemma entry_step:
  assumes ok: "tables_ok s D" and d: "d \<in> D" "user_pde i" "tab s d i = Some p"
  shows "vm_step s (set_word p j w s) D (\<lambda>d' i' j'. if d' = d \<and> i' = i \<and> j' = j then w else entry s d' i' j')"
proof -
  let ?s = "set_word p j w s"
  note e = set_entry[OF ok d refl, where j = j and w = w]
  have k: "tables_ok ?s D" "is_table ?s D q = is_table s D q" for q
    using tables_ok_cong[OF ok, of ?s] e(1) by auto
  have "pm ?s f = pm s f" if "\<not> is_table s D f" for f
    using that is_tableI(2)[OF d] by (auto simp: fun_eq_iff)
  then show ?thesis using k e(2) by (simp add: vm_step_def rc_def)
qed

lemma pti_of_less: "pti_of v < 1024"
proof -
  have "unat (drop_bit 12 v AND (2 ^ 10 - 1)) = unat (drop_bit 12 v) mod 2 ^ 10" by (rule unat_and_mask)
  then show ?thesis by (simp add: pti_of_def)
qed

text \<open>The table of a page, made if there is none; \<open>False\<close>: no frame is left.\<close>

definition need_table :: "vm \<Rightarrow> nat \<Rightarrow> page_directory \<Rightarrow> nat \<Rightarrow> u32 \<Rightarrow> (vm \<times> page_directory \<times> bool) option" where
  "need_table s cpu dir pdi flags =
     (if present (pm s (physical_addr dir) pdi) then Some (s, dir, True)
      else case allocate_frame (vm_frames s) cpu of
        (fr, None) \<Rightarrow> Some (s\<lparr>vm_frames := fr\<rparr>, dir, False)
      | (fr, Some pt_phys) \<Rightarrow>
          (case zero_frame pt_phys (s\<lparr>vm_frames := fr\<rparr>) of
             None \<Rightarrow> None
           | Some s1 \<Rightarrow>
               let e = of_nat pt_phys OR PAGE_PRESENT OR PAGE_WRITABLE OR (flags AND PAGE_USER)
               in Some (set_word (physical_addr dir) pdi e s1, dir\<lparr>tables_physical := (tables_physical dir)(pdi := e)\<rparr>, True)))"

lemma need_table_ok:
  assumes ok: "tables_ok s D" and d: "physical_addr dir \<in> D" "user_pde i"
  obtains s1 dir1 b where "need_table s cpu dir i flags = Some (s1, dir1, b)" "physical_addr dir1 = physical_addr dir"
    "vm_step s s1 D (entry s)" "b \<longrightarrow> tab s1 (physical_addr dir) i \<noteq> None"
proof (cases "present (pm s (physical_addr dir) i)")
  case True
  then show ?thesis using that vm_step_refl[OF ok] by (simp add: need_table_def tab_def)
next
  case False
  then have n: "tab s (physical_addr dir) i = None" by (simp add: tab_def)
  note fi = tables_okD(2)[OF ok]
  obtain fr r where al: "allocate_frame (vm_frames s) cpu = (fr, r)" by fastforce
  show ?thesis
  proof (cases r)
    case None
    note z = allocate_None_same[OF fi al[unfolded None]]
    have "vm_step s (s\<lparr>vm_frames := fr\<rparr>) D (entry s)" by (rule vm_step_frames[OF ok z(1)]) (simp_all add: z)
    then show ?thesis using that[of "s\<lparr>vm_frames := fr\<rparr>" dir False] False al None by (simp add: need_table_def)
  next
    case (Some pt)
    let ?f = "PAGE_PRESENT OR PAGE_WRITABLE OR (flags AND PAGE_USER)"
    let ?e = "of_nat pt OR ?f" and ?s1 = "clear_words pt (s\<lparr>vm_frames := fr\<rparr>)"
    have c: "alloc_contract (vm_frames s) fr pt" using allocate_frame_Some[OF fi al[unfolded Some]] .
    then have pt: "pt < 2 ^ 32" "4096 dvd pt" "pt < IDENTITY_MAP_END"
      by (auto simp: alloc_contract_def pool_addr_def kernel_const)
    have e: "frame_of ?e = pt" by (rule frame_of_or(1)[OF pt(2,1)]) (auto simp: bit_or_iff bit_and_iff flag_bits)
    have p: "present ?e" by (simp add: present_bit bit_or_iff flag_bits)
    note nt = new_table[OF ok d n al[unfolded Some] e p refl]
    have "need_table s cpu dir i flags = Some (set_word (physical_addr dir) i ?e ?s1,
        dir\<lparr>tables_physical := (tables_physical dir)(i := ?e)\<rparr>, True)"
      using False al Some pt(3) by (simp add: need_table_def zero_frame_low or.assoc Let_def)
    then show ?thesis using that nt by simp
  qed
qed

lemma map_page_need:
  "map_page s cpu dir virt phys flags =
     (case need_table s cpu dir (pdi_of virt) flags of
        None \<Rightarrow> None
      | Some (s1, dir1, ok) \<Rightarrow>
          if \<not> ok then Some (s1, dir1, False)
          else
            let pd = physical_addr dir;
                (s2, dir2) = (if flags AND PAGE_USER \<noteq> 0
                              then (set_word pd (pdi_of virt) (pm s1 pd (pdi_of virt) OR PAGE_USER) s1,
                                    dir1\<lparr>tables_physical := (tables_physical dir1)(pdi_of virt := pm s1 pd (pdi_of virt) OR PAGE_USER)\<rparr>)
                              else (s1, dir1))
            in Some (set_word (frame_of (pm s2 pd (pdi_of virt))) (pti_of virt) ((phys AND PAGE_FRAME_MASK) OR flags) s2, dir2, True))"
  unfolding map_page_def need_table_def Let_def ..

lemma map_page_step:
  assumes ok: "tables_ok s D" and d: "physical_addr dir \<in> D" "user_pde (pdi_of virt)"
  obtains s' dir' b where "map_page s cpu dir virt phys flags = Some (s', dir', b)" "physical_addr dir' = physical_addr dir"
    "vm_step s s' D (\<lambda>d i j. if b \<and> d = physical_addr dir \<and> i = pdi_of virt \<and> j = pti_of virt
       then (phys AND PAGE_FRAME_MASK) OR flags else entry s d i j)"
proof -
  let ?d = "physical_addr dir" and ?i = "pdi_of virt" and ?j = "pti_of virt" and ?w = "(phys AND PAGE_FRAME_MASK) OR flags"
  obtain s1 dir1 b where n: "need_table s cpu dir ?i flags = Some (s1, dir1, b)" "physical_addr dir1 = ?d"
    "vm_step s s1 D (entry s)" "b \<longrightarrow> tab s1 ?d ?i \<noteq> None"
    by (rule need_table_ok[OF ok d, of cpu flags])
  show ?thesis
  proof (cases b)
    case False
    then show ?thesis using that[of s1 dir1 False] n by (simp add: map_page_need)
  next
    case True
    note ok1 = vm_stepD(1)[OF n(3)]
    define s2 where "s2 = (if flags AND PAGE_USER \<noteq> 0 then set_word ?d ?i (pm s1 ?d ?i OR PAGE_USER) s1 else s1)"
    define dir2 where "dir2 = (if flags AND PAGE_USER \<noteq> 0
      then dir1\<lparr>tables_physical := (tables_physical dir1)(?i := pm s1 ?d ?i OR PAGE_USER)\<rparr> else dir1)"
    have f: "\<forall>n. bit PAGE_USER n \<longrightarrow> 0 < n \<and> n < 12" by (simp add: flag_bits)
    have 2: "vm_step s1 s2 D (entry s1)" "tab s2 ?d ?i = tab s1 ?d ?i"
      using flag_pde[OF ok1 d f refl] vm_step_refl[OF ok1] by (auto simp: s2_def)
    obtain p where p: "tab s2 ?d ?i = Some p" "frame_of (pm s2 ?d ?i) = p"
      using n(4) True 2(2) by (auto simp: tab_def split: if_splits)
    have 3: "vm_step s2 (set_word p ?j ?w s2) D (\<lambda>d i j. if d = ?d \<and> i = ?i \<and> j = ?j then ?w else entry s2 d i j)"
      using entry_step[OF vm_stepD(1)[OF 2(1)] d p(1)] .
    have st: "vm_step s (set_word p ?j ?w s2) D (\<lambda>d i j. if True \<and> d = ?d \<and> i = ?i \<and> j = ?j then ?w else entry s d i j)"
      by (rule vm_step_entries[OF vm_step_trans[OF n(3) vm_step_trans[OF 2(1) 3]]])
        (use vm_stepD(2)[OF 2(1)] vm_stepD(2)[OF n(3)] in auto)
    have "map_page s cpu dir virt phys flags = Some (set_word p ?j ?w s2, dir2, True)"
      unfolding map_page_need n(1) s2_def dir2_def p(2)[symmetric] using True by (simp add: Let_def)
    then show ?thesis using that[OF _ _ st] n(2) by (simp add: dir2_def)
  qed
qed

end
