(* ===== verification/Cow.thy ===== *)
theory Cow
  imports Paging_Lemmas
begin

text \<open>
  Ownership of user pages.  In a well-formed set of address spaces the reference count of
  a user frame is the number of entries that map it, a frame that is mapped writable is
  mapped once, and no directory maps a frame twice.  The lemmas take this invariant through
  the elementary changes of \<^verbatim>\<open>process_mm.c\<close> and \<^verbatim>\<open>cow_temp.c\<close>: a fresh page, a shared
  page, a page given up, and the private copy a write fault makes.
\<close>

section \<open>Counting the mappings of a frame\<close>

type_synonym entries = "nat \<Rightarrow> nat \<Rightarrow> nat \<Rightarrow> u32"

definition mappers :: "entries \<Rightarrow> nat set \<Rightarrow> nat \<Rightarrow> (nat \<times> nat \<times> nat) set" where
  "mappers E D f = {(d, i, j). d \<in> D \<and> user_pde i \<and> j < 1024 \<and> present (E d i j) \<and> frame_of (E d i j) = f}"

definition once :: "entries \<Rightarrow> nat set \<Rightarrow> bool" where
  "once E D \<longleftrightarrow> (\<forall>d \<in> D. \<forall>i j i' j'.
     user_pde i \<and> j < 1024 \<and> present (E d i j) \<and> user_pde i' \<and> j' < 1024 \<and> present (E d i' j') \<and>
     frame_of (E d i j) = frame_of (E d i' j') \<longrightarrow> i = i' \<and> j = j')"

definition page_ok :: "vm \<Rightarrow> nat set \<Rightarrow> entries \<Rightarrow> nat \<Rightarrow> bool" where
  "page_ok s D E f \<longleftrightarrow> pool_addr f \<and> owned (vm_frames s) f \<and> \<not> is_table s D f \<and> rc s f = card (mappers E D f) \<and>
     (\<forall>(d, i, j) \<in> mappers E D f. bit (E d i j) 1 \<longrightarrow> card (mappers E D f) = 1)"

definition vm_ok :: "vm \<Rightarrow> nat set \<Rightarrow> bool" where
  "vm_ok s D \<longleftrightarrow> tables_ok s D \<and> once (entry s) D \<and>
     (\<forall>f. mappers (entry s) D f \<noteq> {} \<longrightarrow> page_ok s D (entry s) f)"

lemma mappers_cong:
  assumes "\<And>d i j. d \<in> D \<Longrightarrow> user_pde i \<Longrightarrow> j < 1024 \<Longrightarrow> E d i j = E' d i j"
  shows "mappers E D f = mappers E' D f"
  using assms by (auto simp: mappers_def)

lemma onceD:
  "once E D \<Longrightarrow> (d, i, j) \<in> mappers E D f \<Longrightarrow> (d, i', j') \<in> mappers E D f \<Longrightarrow> i = i' \<and> j = j'"
  unfolding once_def mappers_def by (simp add: Ball_def) metis

lemma onceI:
  "(\<And>d i j i' j' f. (d, i, j) \<in> mappers E D f \<Longrightarrow> (d, i', j') \<in> mappers E D f \<Longrightarrow> i = i' \<and> j = j') \<Longrightarrow> once E D"
  unfolding once_def mappers_def by (auto; metis)

lemma once_cong:
  assumes "\<And>d i j. d \<in> D \<Longrightarrow> user_pde i \<Longrightarrow> j < 1024 \<Longrightarrow> E d i j = E' d i j"
  shows "once E D = once E' D"
proof -
  have "mappers E D f = mappers E' D f" for f using mappers_cong assms by blast
  then show ?thesis using onceD onceI by metis
qed

lemma page_ok_cong:
  assumes "\<And>d i j. d \<in> D \<Longrightarrow> user_pde i \<Longrightarrow> j < 1024 \<Longrightarrow> E d i j = E' d i j"
  shows "page_ok s D E f = page_ok s D E' f"
proof -
  have "mappers E D f = mappers E' D f" using mappers_cong assms by blast
  moreover have "\<forall>(d, i, j) \<in> mappers E' D f. E d i j = E' d i j" using assms by (auto simp: mappers_def)
  ultimately show ?thesis unfolding page_ok_def by fastforce
qed

text \<open>The invariant may be read off any description of the entries.\<close>

lemma vm_okI:
  assumes "tables_ok s D" "\<And>d i j. d \<in> D \<Longrightarrow> user_pde i \<Longrightarrow> j < 1024 \<Longrightarrow> entry s d i j = E d i j"
    and "once E D" "\<And>f. mappers E D f \<noteq> {} \<Longrightarrow> page_ok s D E f"
  shows "vm_ok s D"
proof -
  have m: "mappers (entry s) D f = mappers E D f" for f using mappers_cong assms(2) by blast
  show ?thesis unfolding vm_ok_def m using assms once_cong[OF assms(2)] page_ok_cong[OF assms(2)] by simp
qed

lemma vm_okD:
  assumes "vm_ok s D"
  shows "tables_ok s D" "once (entry s) D" "mappers (entry s) D f \<noteq> {} \<Longrightarrow> page_ok s D (entry s) f"
  using assms by (auto simp: vm_ok_def)

lemma finite_mappers: "finite D \<Longrightarrow> finite (mappers E D f)"
proof -
  assume "finite D"
  then have "finite (D \<times> {..<USER_PDE_LAST} \<times> {..<1024 :: nat})" by simp
  then show ?thesis by (rule rev_finite_subset) (auto simp: mappers_def user_pde_def)
qed

lemma mappers_card:
  assumes "finite D" "once E D"
  shows "card (mappers E D f) \<le> card D" "d \<in> D \<Longrightarrow> d \<notin> fst ` mappers E D f \<Longrightarrow> card (mappers E D f) < card D"
proof -
  have i: "inj_on fst (mappers E D f)"
  proof (rule inj_onI)
    fix x y assume xy: "x \<in> mappers E D f" "y \<in> mappers E D f" "fst x = fst y"
    obtain d i j i' j' where v: "x = (d, i, j)" "y = (d, i', j')" using xy(3) by (cases x; cases y) auto
    then show "x = y" using onceD[OF assms(2)] xy v by blast
  qed
  have sub: "fst ` mappers E D f \<subseteq> D" by (auto simp: mappers_def)
  show "card (mappers E D f) \<le> card D" using card_mono[OF assms(1) sub] card_image[OF i] by simp
  show "card (mappers E D f) < card D" if "d \<in> D" "d \<notin> fst ` mappers E D f"
    using psubset_card_mono[OF assms(1), of "fst ` mappers E D f"] sub that card_image[OF i] by auto
qed

section \<open>Changing one entry\<close>

abbreviation upd :: "entries \<Rightarrow> nat \<Rightarrow> nat \<Rightarrow> nat \<Rightarrow> u32 \<Rightarrow> entries" where
  "upd E d i j w \<equiv> (\<lambda>d' i' j'. if d' = d \<and> i' = i \<and> j' = j then w else E d' i' j')"

lemma mappers_upd:
  assumes "d \<in> D" "user_pde i" "j < 1024"
  shows "mappers (upd E d i j w) D f =
    (if present w \<and> frame_of w = f then insert (d, i, j) (mappers E D f) else mappers E D f - {(d, i, j)})"
  using assms by (auto simp: mappers_def)

lemma in_mappers: "d \<in> D \<Longrightarrow> user_pde i \<Longrightarrow> j < 1024 \<Longrightarrow> present (E d i j) \<Longrightarrow> (d, i, j) \<in> mappers E D (frame_of (E d i j))"
  by (simp add: mappers_def)

lemma once_upd:
  assumes "once E D" "present w \<Longrightarrow> \<forall>i' j'. (d, i', j') \<in> mappers E D (frame_of w) \<longrightarrow> i' = i \<and> j' = j"
  shows "once (upd E d i j w) D"
proof (rule onceI)
  fix d' i1 j1 i2 j2 f
  let ?E = "upd E d i j w"
  assume a: "(d', i1, j1) \<in> mappers ?E D f" "(d', i2, j2) \<in> mappers ?E D f"
  show "i1 = i2 \<and> j1 = j2"
  proof (cases "d' = d \<and> (i1 = i \<and> j1 = j \<or> i2 = i \<and> j2 = j)")
    case True
    then have "present w" "frame_of w = f" using a by (auto simp: mappers_def split: if_splits)
    then show ?thesis using True a assms(2) by (auto simp: mappers_def split: if_splits)
  next
    case False
    then have "(d', i1, j1) \<in> mappers E D f" "(d', i2, j2) \<in> mappers E D f"
      using a unfolding mappers_def by (auto split: if_splits)
    then show ?thesis using onceD[OF assms(1)] by blast
  qed
qed

text \<open>Steps that keep frame and presence of every entry and make none writable.\<close>

lemma vm_ok_weaken:
  assumes ok: "vm_ok s D" and st: "vm_step s s' D E"
    and same: "\<And>d i j. d \<in> D \<Longrightarrow> user_pde i \<Longrightarrow> j < 1024 \<Longrightarrow>
      present (E d i j) = present (entry s d i j) \<and>
      (present (E d i j) \<longrightarrow> frame_of (E d i j) = frame_of (entry s d i j)) \<and> (bit (E d i j) 1 \<longrightarrow> bit (entry s d i j) 1)"
  shows "vm_ok s' D"
proof (rule vm_okI[OF vm_stepD(1)[OF st]])
  show "entry s' d i j = E d i j" if "d \<in> D" "user_pde i" "j < 1024" for d i j using vm_stepD(2)[OF st that] .
  have m: "mappers E D f = mappers (entry s) D f" for f using same by (fastforce simp: mappers_def)
  show "once E D" using onceI[of E D] onceD[OF vm_okD(2)[OF ok]] unfolding m by blast
  fix f assume "mappers E D f \<noteq> {}"
  then have p: "page_ok s D (entry s) f" using vm_okD(3)[OF ok] m by simp
  then have o: "owned (vm_frames s) f" "4096 dvd f" "\<not> is_table s D f" by (auto simp: page_ok_def pool_addr_def)
  have "\<forall>(d, i, j) \<in> mappers (entry s) D f. bit (E d i j) 1 \<longrightarrow> bit (entry s d i j) 1"
    using same by (auto simp: mappers_def)
  then show "page_ok s' D E f"
    using p vm_stepD(3,4,5)[OF st o(1,2)] o(3) unfolding page_ok_def m by fastforce
qed

section \<open>Frames: allocation, reference counts\<close>

lemma aligned_div_eq: "4096 dvd a \<Longrightarrow> 4096 dvd b \<Longrightarrow> a div 4096 = b div 4096 \<longleftrightarrow> a = (b :: nat)"
  by (metis dvd_div_mult_self)

lemma vm_ok_step_same: "vm_ok s D \<Longrightarrow> vm_step s s' D (entry s) \<Longrightarrow> vm_ok s' D"
  by (rule vm_ok_weaken) auto

lemma alloc_step:
  assumes "vm_ok s D" "allocate_frame (vm_frames s) cpu = (fr, r)"
  shows "vm_step s (s\<lparr>vm_frames := fr\<rparr>) D (entry s)"
proof (cases r)
  case None
  note z = allocate_None_same[OF tables_okD(2)[OF vm_okD(1)[OF assms(1)]] assms(2)[unfolded None]]
  show ?thesis by (rule vm_step_frames[OF vm_okD(1)[OF assms(1)] z(1)]) (simp_all add: z)
next
  case (Some g)
  have c: "alloc_contract (vm_frames s) fr g"
    using allocate_frame_Some[OF tables_okD(2)[OF vm_okD(1)[OF assms(1)]] assms(2)[unfolded Some]] .
  show ?thesis
    by (rule vm_step_frames[OF vm_okD(1)[OF assms(1)]]) (use c in \<open>auto simp: alloc_contract_def\<close>)
qed

text \<open>A frame just allocated is nobody's.\<close>

definition fresh :: "vm \<Rightarrow> nat set \<Rightarrow> nat \<Rightarrow> bool" where
  "fresh s D g \<longleftrightarrow> pool_addr g \<and> owned (vm_frames s) g \<and> rc s g = 1 \<and> \<not> is_table s D g \<and> mappers (entry s) D g = {}"

lemma alloc_fresh:
  assumes ok: "vm_ok s D" and al: "allocate_frame (vm_frames s) cpu = (fr, Some g)"
  shows "vm_ok (s\<lparr>vm_frames := fr\<rparr>) D" "fresh (s\<lparr>vm_frames := fr\<rparr>) D g" "\<not> owned (vm_frames s) g" "g < IDENTITY_MAP_END"
proof -
  show "vm_ok (s\<lparr>vm_frames := fr\<rparr>) D" using vm_ok_step_same[OF ok alloc_step[OF ok al]] .
  have c: "alloc_contract (vm_frames s) fr g" using allocate_frame_Some[OF tables_okD(2)[OF vm_okD(1)[OF ok]] al] .
  then show n: "\<not> owned (vm_frames s) g" "g < IDENTITY_MAP_END" by (auto simp: alloc_contract_def pool_addr_def)
  have "mappers (entry s) D g = {}" using vm_okD(3)[OF ok, of g] n by (auto simp: page_ok_def)
  moreover have "\<not> is_table s D g" using tables_okD(4)[OF vm_okD(1)[OF ok], of g] n by auto
  ultimately show "fresh (s\<lparr>vm_frames := fr\<rparr>) D g" using c by (simp add: fresh_def alloc_contract_def rc_def)
qed

lemma decref_facts:
  assumes "frame_inv fr" "pool_addr f" "owned fr f" "frame_refcount fr (f div 4096) \<noteq> 0"
    and fr'_def: "fr' = frame_decref fr cpu f"
  shows "frame_inv fr'" "4096 dvd a \<Longrightarrow> a \<noteq> f \<Longrightarrow> owned fr' a = owned fr a"
    and "frame_refcount fr' = (frame_refcount fr)(f div 4096 := frame_refcount fr (f div 4096) - 1)"
    and "1 < frame_refcount fr (f div 4096) \<Longrightarrow> owned fr' f"
proof -
  have "frame_inv fr' \<and> (\<forall>a. 4096 dvd a \<and> a \<noteq> f \<longrightarrow> owned fr' a = owned fr a) \<and>
    frame_refcount fr' = (frame_refcount fr)(f div 4096 := frame_refcount fr (f div 4096) - 1) \<and>
    (1 < frame_refcount fr (f div 4096) \<longrightarrow> owned fr' f)"
  proof (cases "1 < frame_refcount fr (f div 4096)")
    case True
    then show ?thesis using frame_decref_shared[OF assms(1,2) True, of cpu] assms(3) by (simp add: fr'_def)
  next
    case False
    then have r: "frame_refcount fr (f div 4096) = 1" using u16_one assms(4) by blast
    have "owned (fr\<lparr>frame_refcount := x\<rparr>) a = owned fr a" for x a by (simp add: owned_def in_mag_def)
    then show ?thesis using frame_decref_last[OF assms(1-3) r, of cpu] r
      by (simp add: fr'_def release_contract_def)
  qed
  then show "frame_inv fr'" "4096 dvd a \<Longrightarrow> a \<noteq> f \<Longrightarrow> owned fr' a = owned fr a"
    "frame_refcount fr' = (frame_refcount fr)(f div 4096 := frame_refcount fr (f div 4096) - 1)"
    "1 < frame_refcount fr (f div 4096) \<Longrightarrow> owned fr' f" by auto
qed

lemma unat_u16_pred: "(r :: u16) \<noteq> 0 \<Longrightarrow> unat (r - 1) = unat r - 1"
  by (rule unat_minus_one)

section \<open>The elementary changes\<close>

text \<open>A fresh frame is mapped where nothing was.\<close>

lemma vm_ok_fresh:
  assumes ok: "vm_ok s D" and g: "fresh s D g" and d: "d \<in> D" "user_pde i" "j < 1024" "\<not> present (entry s d i j)"
    and st: "vm_step s s' D (upd (entry s) d i j w)" and w: "frame_of w = g" "present w"
  shows "vm_ok s' D"
proof (rule vm_okI[OF vm_stepD(1)[OF st] vm_stepD(2)[OF st]])
  let ?E = "upd (entry s) d i j w"
  show "once ?E D" by (rule once_upd[OF vm_okD(2)[OF ok]]) (use g w in \<open>simp add: fresh_def\<close>)
  fix f assume ne: "mappers ?E D f \<noteq> {}"
  have mu: "mappers ?E D f = (if f = g then {(d, i, j)} else mappers (entry s) D f)"
    using mappers_upd[OF d(1-3), where E = "entry s" and w = w and f = f] w g d(4) by (auto simp: fresh_def mappers_def)
  have o: "owned (vm_frames s) f \<and> 4096 dvd f \<and> \<not> is_table s D f \<and> pool_addr f"
    using vm_okD(3)[OF ok, of f] ne mu g by (auto simp: page_ok_def fresh_def pool_addr_def split: if_splits)
  show "page_ok s' D ?E f"
  proof (cases "f = g")
    case True
    then show ?thesis using mu o g vm_stepD(3-5)[OF st, of f] by (simp add: page_ok_def fresh_def)
  next
    case False
    then have "page_ok s D (entry s) f" using vm_okD(3)[OF ok, of f] ne mu by simp
    moreover have "(d, i, j) \<notin> mappers (entry s) D f" using d(4) by (simp add: mappers_def)
    ultimately show ?thesis using False mu o vm_stepD(3-5)[OF st, of f] unfolding page_ok_def
      by (auto split: if_splits)
  qed
qed

text \<open>The mapping of a frame is given up and the frame loses a reference.\<close>

lemma vm_ok_drop:
  assumes ok: "vm_ok s D" and d: "d \<in> D" "user_pde i" "j < 1024" "present (entry s d i j)"
    and st: "vm_step s s1 D (upd (entry s) d i j w)"
    and w: "\<not> present w" and s': "s' = s1\<lparr>vm_frames := frame_decref (vm_frames s1) cpu (frame_of (entry s d i j))\<rparr>"
  shows "vm_ok s' D" "pm s' = pm s1"
proof -
  let ?E = "upd (entry s) d i j w" and ?f = "frame_of (entry s d i j)"
  have inm: "(d, i, j) \<in> mappers (entry s) D ?f" using in_mappers[OF d(1-3)] d(4) by blast
  then have pf: "page_ok s D (entry s) ?f" using vm_okD(3)[OF ok] by blast
  then have f: "pool_addr ?f" "owned (vm_frames s1) ?f" "rc s1 ?f = card (mappers (entry s) D ?f)" "\<not> is_table s1 D ?f"
    using vm_stepD(3-5)[OF st, of ?f] by (auto simp: page_ok_def pool_addr_def)
  have fin: "finite (mappers (entry s) D g)" for g using finite_mappers tables_okD(1)[OF vm_okD(1)[OF ok]] by blast
  have c: "0 < card (mappers (entry s) D ?f)" using inm fin card_gt_0_iff by blast
  then have r0: "frame_refcount (vm_frames s1) (?f div 4096) \<noteq> 0" using f(3) by (auto simp: rc_def)
  note fi = tables_okD(2)[OF vm_stepD(1)[OF st]]
  note df = decref_facts[OF fi f(1,2) r0 refl[of "frame_decref (vm_frames s1) cpu ?f"]]
  have al: "4096 dvd ?f" using frame_of_dvd .
  have e: "entry s' = entry s1" "is_table s' D = is_table s1 D" by (simp_all add: s')
  have "owned (frame_decref (vm_frames s1) cpu ?f) p" if "is_table s1 D p" for p
    using tables_okD(3,4)[OF vm_stepD(1)[OF st] that] df(2)[of p] f(4) that by (auto simp: pool_addr_def)
  then have tb: "tables_ok s' D" unfolding s' by (rule tables_ok_frames[OF vm_stepD(1)[OF st] df(1)])
  have rc': "rc s' g = (if g = ?f then rc s1 g - 1 else rc s1 g)" if "4096 dvd g" for g
    using df(3) unat_u16_pred[OF r0] aligned_div_eq[OF that al] by (auto simp: rc_def s')
  have mu: "mappers ?E D g = mappers (entry s) D g - {(d, i, j)}" for g
    using mappers_upd[OF d(1-3), where E = "entry s" and w = w and f = g] w by simp
  show "pm s' = pm s1" by (simp add: s')
  show "vm_ok s' D"
  proof (rule vm_okI[OF tb])
    show "entry s' d' i' j' = ?E d' i' j'" if "d' \<in> D" "user_pde i'" "j' < 1024" for d' i' j'
      using vm_stepD(2)[OF st that] by (simp add: e)
    show "once ?E D" by (rule once_upd[OF vm_okD(2)[OF ok]]) (use w in simp)
    fix g assume ne: "mappers ?E D g \<noteq> {}"
    then have pg: "page_ok s D (entry s) g" using vm_okD(3)[OF ok, of g] mu by auto
    then have og: "owned (vm_frames s1) g" "4096 dvd g" "rc s1 g = card (mappers (entry s) D g)" "\<not> is_table s1 D g"
      using vm_stepD(3-5)[OF st, of g] by (auto simp: page_ok_def pool_addr_def)
    have ng: "(d, i, j) \<notin> mappers (entry s) D g" if "g \<noteq> ?f" using that by (simp add: mappers_def)
    have cg: "card (mappers ?E D ?f) = card (mappers (entry s) D ?f) - 1"
      using mu[of ?f] inm fin by (simp add: card_Diff_singleton)
    have own: "owned (vm_frames s') g"
    proof (cases "g = ?f")
      case True
      have "finite (mappers ?E D ?f)" using finite_mappers tables_okD(1)[OF vm_okD(1)[OF ok]] by blast
      then have "0 < card (mappers ?E D ?f)" using ne True by (simp add: card_gt_0_iff)
      then have "1 < rc s1 ?f" using cg f(3) by linarith
      then have "1 < frame_refcount (vm_frames s1) (?f div 4096)" by (simp add: rc_def word_less_nat_alt)
      then show ?thesis using df(4) True by (simp add: s')
    qed (use df(2) og in \<open>simp add: s'\<close>)
    have rg: "rc s' g = card (mappers ?E D g)"
      using rc'[OF og(2)] cg og(3) f(3) mu[of g] ng by (cases "g = ?f") auto
    have "bit (?E d' i' j') 1 \<longrightarrow> card (mappers ?E D g) = 1" if m: "(d', i', j') \<in> mappers ?E D g" for d' i' j'
    proof
      assume b: "bit (?E d' i' j') 1"
      have m': "(d', i', j') \<in> mappers (entry s) D g" "(d', i', j') \<noteq> (d, i, j)" using m mu by auto
      then have "bit (entry s d' i' j') 1" using b by (auto split: if_splits)
      then have "card (mappers (entry s) D g) = 1" using pg m'(1) unfolding page_ok_def by blast
      then have "mappers (entry s) D g = {(d', i', j')}" using m'(1) by (metis card_1_singletonE singletonD)
      then have "mappers ?E D g = {(d', i', j')}" using mu[of g] m'(2) by auto
      then show "card (mappers ?E D g) = 1" by simp
    qed
    then show "page_ok s' D ?E g" using pg own rg og(4) by (auto simp: page_ok_def e)
  qed
qed

text \<open>A frame whose mappings are all read-only is mapped once more, and counted.\<close>

lemma incref_facts:
  assumes "pool_addr f" "frame_refcount fr (f div 4096) < 0xFFFF"
  shows "frame_inv fr \<Longrightarrow> frame_inv (frame_incref fr f)" "owned (frame_incref fr f) = owned fr"
    "frame_refcount (frame_incref fr f) = (frame_refcount fr)(f div 4096 := frame_refcount fr (f div 4096) + 1)"
proof -
  have e: "frame_incref fr f = fr\<lparr>frame_refcount := (frame_refcount fr)(f div 4096 := frame_refcount fr (f div 4096) + 1)\<rparr>"
    using pool_addr_count[OF assms(1)] assms(2) by (simp add: frame_incref_def Let_def PAGE_SIZE_CONST_def)
  show "frame_inv (frame_incref fr f)" if "frame_inv fr" using that unfolding e by (simp add: frame_inv_def)
  show "owned (frame_incref fr f) = owned fr" unfolding e by (simp add: owned_def in_mag_def fun_eq_iff)
  show "frame_refcount (frame_incref fr f) = (frame_refcount fr)(f div 4096 := frame_refcount fr (f div 4096) + 1)"
    unfolding e by simp
qed

lemma unat_u16_Suc: "(r :: u16) < 0xFFFF \<Longrightarrow> unat (r + 1) = Suc (unat r)"
proof -
  assume "r < 0xFFFF"
  then have "unat r < 65535" by (simp add: word_less_nat_alt)
  then show ?thesis by (simp add: unat_word_ariths)
qed

lemma vm_ok_share:
  assumes ok: "vm_ok s D" and D: "card D \<le> 65535" and f: "mappers (entry s) D f \<noteq> {}"
    and ro: "\<forall>(d', i', j') \<in> mappers (entry s) D f. \<not> bit (entry s d' i' j') 1"
    and d: "d \<in> D" "user_pde i" "j < 1024" "d \<notin> fst ` mappers (entry s) D f" "\<not> present (entry s d i j)"
    and st: "vm_step s s1 D (upd (entry s) d i j w)" and w: "present w" "frame_of w = f" "\<not> bit w 1"
    and s': "s' = s1\<lparr>vm_frames := frame_incref (vm_frames s1) f\<rparr>"
  shows "vm_ok s' D"
proof -
  let ?E = "upd (entry s) d i j w"
  have pf: "page_ok s D (entry s) f" using vm_okD(3)[OF ok f] .
  then have f1: "pool_addr f" "4096 dvd f" "owned (vm_frames s1) f" "rc s1 f = card (mappers (entry s) D f)"
    using vm_stepD(3,4)[OF st, of f] by (auto simp: page_ok_def pool_addr_def)
  have fin: "finite D" using tables_okD(1)[OF vm_okD(1)[OF ok]] .
  have "rc s1 f < 65535" using mappers_card(2)[OF fin vm_okD(2)[OF ok] d(1,4)] D f1(4) by linarith
  then have lt: "frame_refcount (vm_frames s1) (f div 4096) < 0xFFFF" by (simp add: rc_def word_less_nat_alt)
  note inf = incref_facts[OF f1(1) lt]
  have tb: "tables_ok s' D" unfolding s'
    by (rule tables_ok_frames[OF vm_stepD(1)[OF st]])
      (use inf tables_okD(2,4)[OF vm_stepD(1)[OF st]] in auto)
  have rc': "rc s' g = (if g = f then Suc (rc s1 g) else rc s1 g)" if "4096 dvd g" for g
    using inf(3) unat_u16_Suc[OF lt] aligned_div_eq[OF that f1(2)] by (auto simp: rc_def s')
  have mu: "mappers ?E D g = (if g = f then insert (d, i, j) (mappers (entry s) D g) else mappers (entry s) D g)" for g
    using mappers_upd[OF d(1-3), where E = "entry s" and w = w and f = g] w d(5) by (auto simp: mappers_def)
  have nm: "(d, i, j) \<notin> mappers (entry s) D g" for g using d(5) by (simp add: mappers_def)
  show ?thesis
  proof (rule vm_okI[OF tb])
    show "entry s' d' i' j' = ?E d' i' j'" if "d' \<in> D" "user_pde i'" "j' < 1024" for d' i' j'
      using vm_stepD(2)[OF st that] by (simp add: s')
    show "once ?E D"
      by (rule once_upd[OF vm_okD(2)[OF ok]]) (use w d(4) in \<open>force simp: image_iff\<close>)
    fix g assume ne: "mappers ?E D g \<noteq> {}"
    then have pg: "page_ok s D (entry s) g" using mu[of g] vm_okD(3)[OF ok, of g] pf by (auto split: if_splits)
    then have og: "owned (vm_frames s') g" "4096 dvd g" "rc s1 g = card (mappers (entry s) D g)" "\<not> is_table s' D g" "pool_addr g"
      using vm_stepD(3-5)[OF st, of g] inf(2) by (auto simp: page_ok_def pool_addr_def s')
    have "rc s' g = card (mappers ?E D g)"
      using rc'[OF og(2)] og(3) mu[of g] card_insert_disjoint[OF finite_mappers[OF fin, of "entry s" g] nm[of g]]
      by (cases "g = f") auto
    moreover have "\<not> bit (?E d' i' j') 1" if "(d', i', j') \<in> mappers ?E D g" "g = f" for d' i' j'
      using that w(3) ro mu[of g] by (auto split: if_splits)
    moreover have "bit (?E d' i' j') 1 \<longrightarrow> card (mappers ?E D g) = 1" if "(d', i', j') \<in> mappers ?E D g" "g \<noteq> f" for d' i' j'
      using that pg mu[of g] nm[of g] unfolding page_ok_def by (auto split: if_splits)
    ultimately show "page_ok s' D ?E g" using og unfolding page_ok_def by blast
  qed
qed

text \<open>The only mapping of a frame becomes writable.\<close>

lemma vm_ok_grant:
  assumes ok: "vm_ok s D" and d: "d \<in> D" "user_pde i" "j < 1024" "present (entry s d i j)"
    and one: "rc s (frame_of (entry s d i j)) \<le> 1"
    and st: "vm_step s s' D (upd (entry s) d i j w)" and w: "present w" "frame_of w = frame_of (entry s d i j)"
  shows "vm_ok s' D"
proof -
  let ?E = "upd (entry s) d i j w" and ?f = "frame_of (entry s d i j)"
  have inm: "(d, i, j) \<in> mappers (entry s) D ?f" using in_mappers[OF d(1-3)] d(4) by blast
  have fin: "finite D" using tables_okD(1)[OF vm_okD(1)[OF ok]] .
  have mu: "mappers ?E D g = mappers (entry s) D g" for g
    using mappers_upd[OF d(1-3), where E = "entry s" and w = w and f = g] w inm by (auto simp: mappers_def)
  have "0 < card (mappers (entry s) D ?f)" using inm finite_mappers[OF fin, of "entry s" ?f] by (auto simp: card_gt_0_iff)
  moreover have "rc s ?f = card (mappers (entry s) D ?f)" using vm_okD(3)[OF ok, of ?f] inm by (auto simp: page_ok_def)
  ultimately have c: "card (mappers (entry s) D ?f) = 1" using one by linarith
  show ?thesis
  proof (rule vm_okI[OF vm_stepD(1)[OF st] vm_stepD(2)[OF st]])
    show "once ?E D" using onceI[of ?E D] onceD[OF vm_okD(2)[OF ok]] unfolding mu by blast
    fix g assume "mappers ?E D g \<noteq> {}"
    then have pg: "page_ok s D (entry s) g" using mu vm_okD(3)[OF ok] by simp
    then have og: "owned (vm_frames s') g" "rc s' g = card (mappers ?E D g)" "\<not> is_table s' D g"
      using vm_stepD(3-5)[OF st, of g] mu by (auto simp: page_ok_def pool_addr_def)
    have "bit (?E d' i' j') 1 \<longrightarrow> card (mappers ?E D g) = 1" if m: "(d', i', j') \<in> mappers ?E D g" for d' i' j'
    proof (cases "(d', i', j') = (d, i, j)")
      case True
      then have "g = ?f" using m[unfolded mu] by (simp add: mappers_def)
      then show ?thesis using c mu by simp
    next
      case False
      then have "?E d' i' j' = entry s d' i' j'" by auto
      then show ?thesis using pg m unfolding page_ok_def mu by auto
    qed
    then show "page_ok s' D ?E g" using pg og unfolding page_ok_def by blast
  qed
qed

section \<open>What a process sees\<close>

definition word_at :: "vm \<Rightarrow> nat \<Rightarrow> nat \<Rightarrow> nat \<Rightarrow> nat \<Rightarrow> u32 option" where
  "word_at s d i j k = (if present (entry s d i j) then Some (pm s (frame_of (entry s d i j)) k) else None)"

definition keeps :: "vm \<Rightarrow> vm \<Rightarrow> nat set \<Rightarrow> bool" where
  "keeps s s' D \<longleftrightarrow> (\<forall>d \<in> D. \<forall>i j k. user_pde i \<and> j < 1024 \<and> k < 1024 \<longrightarrow> word_at s' d i j k = word_at s d i j k)"

lemma keeps_refl [simp]: "keeps s s D"
  by (simp add: keeps_def)

lemma keeps_trans: "keeps s s' D \<Longrightarrow> keeps s' s'' D \<Longrightarrow> keeps s s'' D"
  by (simp add: keeps_def)

lemma keeps_sub: "keeps s s' D \<Longrightarrow> D' \<subseteq> D \<Longrightarrow> keeps s s' D'"
  by (auto simp: keeps_def)

lemma keepsD: "keeps s s' D \<Longrightarrow> d \<in> D \<Longrightarrow> user_pde i \<Longrightarrow> j < 1024 \<Longrightarrow> k < 1024 \<Longrightarrow> word_at s' d i j k = word_at s d i j k"
  by (simp add: keeps_def)

lemma mapped_page_ok:
  assumes "vm_ok s D" "d \<in> D" "user_pde i" "j < 1024" "present (entry s d i j)"
  shows "page_ok s D (entry s) (frame_of (entry s d i j))"
  using in_mappers[OF assms(2-4), of "entry s"] assms(5) vm_okD(3)[OF assms(1)] by blast

text \<open>A step shows the same words wherever it leaves frame and presence of the entry.\<close>

lemma step_word:
  assumes "vm_ok s D" "vm_step s s' D E" "d \<in> D" "user_pde i" "j < 1024"
    and "present (E d i j) = present (entry s d i j)" "present (E d i j) \<Longrightarrow> frame_of (E d i j) = frame_of (entry s d i j)"
  shows "word_at s' d i j k = word_at s d i j k"
proof (cases "present (entry s d i j)")
  case True
  then have "page_ok s D (entry s) (frame_of (entry s d i j))" using mapped_page_ok[OF assms(1,3-5)] by blast
  then have "pm s' (frame_of (entry s d i j)) = pm s (frame_of (entry s d i j))"
    using vm_stepD(6)[OF assms(2)] by (simp add: page_ok_def pool_addr_def)
  then show ?thesis using True assms(6,7) vm_stepD(2)[OF assms(2-5)] by (simp add: word_at_def)
qed (use assms(6) vm_stepD(2)[OF assms(2-5)] in \<open>simp add: word_at_def\<close>)

lemma step_keeps:
  assumes "vm_ok s D" "vm_step s s' D E"
    and "\<And>d i j. d \<in> D' \<Longrightarrow> user_pde i \<Longrightarrow> j < 1024 \<Longrightarrow>
      present (E d i j) = present (entry s d i j) \<and> (present (E d i j) \<longrightarrow> frame_of (E d i j) = frame_of (entry s d i j))"
    and "D' \<subseteq> D"
  shows "keeps s s' D'"
  unfolding keeps_def using step_word[OF assms(1,2)] assms(3,4) by blast

text \<open>Words written into a frame that is neither a table nor mapped.\<close>

lemma write_unmapped:
  assumes ok: "vm_ok s D" and g: "\<not> is_table s D g" "mappers (entry s) D g = {}"
    and s': "\<forall>b k. b \<noteq> g \<longrightarrow> pm s' b k = pm s b k" "vm_frames s' = vm_frames s"
  shows "vm_ok s' D" "keeps s s' D" "d \<in> D \<Longrightarrow> user_pde i \<Longrightarrow> tab s' d i = tab s d i \<and> entry s' d i j = entry s d i j"
    "is_table s' D p = is_table s D p"
proof -
  have nd: "d \<noteq> g" if "d \<in> D" for d using that g(1) is_tableI(1) by blast
  have t: "tab s' d i = tab s d i" if "d \<in> D" for d i using s'(1) nd[OF that] by (intro tab_cong) simp
  have e: "entry s' d i j = entry s d i j" if "d \<in> D" "user_pde i" for d i j
  proof (cases "tab s d i")
    case (Some q)
    then have "q \<noteq> g" using is_tableI(2)[OF that Some] g(1) by auto
    then show ?thesis using t[OF that(1)] Some s'(1) by (simp add: entry_def)
  qed (use t[OF that(1)] in \<open>simp add: entry_def\<close>)
  show "d \<in> D \<Longrightarrow> user_pde i \<Longrightarrow> tab s' d i = tab s d i \<and> entry s' d i j = entry s d i j" using t e by simp
  have k: "tables_ok s' D" "is_table s' D p = is_table s D p" for p
    using tables_ok_cong[OF vm_okD(1)[OF ok] _ s'(2)] t by auto
  then show "is_table s' D p = is_table s D p" by simp
  have p: "page_ok s' D E f = page_ok s D E f" for E f by (simp add: page_ok_def k rc_def s'(2))
  show "vm_ok s' D" using vm_okI[OF k(1) _ vm_okD(2)[OF ok], of] e vm_okD(3)[OF ok] p by auto
  show "keeps s s' D"
    unfolding keeps_def
  proof (intro ballI allI impI)
    fix d i j k :: nat assume a: "d \<in> D" "user_pde i \<and> j < 1024 \<and> k < 1024"
    have "frame_of (entry s d i j) \<noteq> g" if "present (entry s d i j)"
      using in_mappers[of d D i j "entry s"] a that g(2) by auto
    then show "word_at s' d i j k = word_at s d i j k" using e a s'(1) by (auto simp: word_at_def)
  qed
qed

section \<open>The write fault\<close>

lemma set_word_frames: "set_word a i w (s\<lparr>vm_frames := fr\<rparr>) = (set_word a i w s)\<lparr>vm_frames := fr\<rparr>"
  by (simp add: set_word_def)

lemma set_word_twice: "set_word a i w (set_word a i v s) = set_word a i w s"
  by (simp add: set_word_def)

lemma getref_rc: "pool_addr f \<Longrightarrow> frame_getref (vm_frames s) f \<le> 1 \<longleftrightarrow> rc s f \<le> 1"
  using pool_addr_count[of f] by (simp add: frame_getref_def Let_def PAGE_SIZE_CONST_def rc_def word_le_nat_alt)

lemma cow_flags:
  fixes e :: u32
  assumes "present e" "4096 dvd g" "g < 2 ^ 32"
  defines "w \<equiv> of_nat g OR ((e AND PAGE_MASK) AND NOT PAGE_COW_BIT OR PAGE_WRITABLE)"
  shows "present w" "frame_of w = g" "bit w 1"
proof -
  let ?f = "(e AND PAGE_MASK) AND NOT PAGE_COW_BIT OR PAGE_WRITABLE"
  have f: "n < 12" if "bit ?f n" for n using that by (auto simp: bit_simps mask_bits flag_bits)
  show "frame_of w = g" unfolding w_def by (rule frame_of_or(1)[OF assms(2,3) f])
  show "present w" "bit w 1"
    using assms(1) by (auto simp: w_def present_bit bit_or_iff bit_and_iff bit_not_iff mask_bits flag_bits possible_bit_word)
qed

text \<open>Sole owner: the page is made writable in place.\<close>

lemma cow_sole:
  assumes ok: "vm_ok s D" and d: "d \<in> D" "user_pde i" "j < 1024" "tab s d i = Some pt" "present (entry s d i j)"
    and one: "rc s (frame_of (entry s d i j)) \<le> 1" and w: "present w" "frame_of w = frame_of (entry s d i j)" "bit w 1"
  defines "s' \<equiv> set_word pt j w s"
  shows "vm_ok s' D \<and> keeps s s' D \<and> tab s' d i = Some pt \<and> present (entry s' d i j) \<and> bit (entry s' d i j) 1"
proof -
  have st: "vm_step s s' D (upd (entry s) d i j w)"
    unfolding s'_def by (rule entry_step[OF vm_okD(1)[OF ok] d(1,2,4)])
  have "keeps s s' D" by (rule step_keeps[OF ok st]) (use d(5) w in auto)
  then show ?thesis
    using vm_ok_grant[OF ok d(1-3,5) one st w(1,2)] vm_stepD(2)[OF st d(1-3)] w
      set_entry(1)[OF vm_okD(1)[OF ok] d(1,2,4) _ d(1,2)] d(4) by (simp add: s'_def)
qed

text \<open>A shared page: the copy takes its place and the frame loses a reference.\<close>

lemma cow_split:
  assumes ok: "vm_ok s D" and d: "d \<in> D" "user_pde i" "j < 1024" "tab s d i = Some pt" "present (entry s d i j)"
    and al: "allocate_frame (vm_frames s) cpu = (fr, Some g)" and w: "present w" "frame_of w = g" "bit w 1"
  defines "f \<equiv> frame_of (entry s d i j)"
  defines "s2 \<equiv> set_word pt j w (copy_words f g (s\<lparr>vm_frames := fr\<rparr>))"
  defines "s' \<equiv> s2\<lparr>vm_frames := frame_decref (vm_frames s2) cpu f\<rparr>"
  shows "vm_ok s' D \<and> keeps s s' D \<and> tab s' d i = Some pt \<and> present (entry s' d i j) \<and> bit (entry s' d i j) 1"
proof -
  let ?s1 = "s\<lparr>vm_frames := fr\<rparr>" and ?c = "copy_words f g (s\<lparr>vm_frames := fr\<rparr>)"
  note a = alloc_fresh[OF ok al]
  have k1: "keeps s ?s1 D" by (simp add: keeps_def word_at_def)
  have pf: "page_ok s D (entry s) f" unfolding f_def by (rule mapped_page_ok[OF ok d(1-3,5)])
  then have fg: "f \<noteq> g" using a(3) by (auto simp: page_ok_def)
  have g: "\<not> is_table ?s1 D g" "mappers (entry ?s1) D g = {}" using a(2) by (auto simp: fresh_def)
  have cw: "\<forall>b k. b \<noteq> g \<longrightarrow> pm ?c b k = pm ?s1 b k" "vm_frames ?c = vm_frames ?s1"
    using copy_words_simps(1)[OF fg] copy_words_simps(2) by auto
  note c = write_unmapped[OF a(1) g cw]
  have ce: "entry ?c d' i' j' = entry s d' i' j'" "tab ?c d' i' = tab s d' i'" if "d' \<in> D" "user_pde i'" for d' i' j'
    using c(3)[OF that] by auto
  have mc: "mappers (entry ?c) D h = mappers (entry s) D h" for h by (rule mappers_cong) (simp add: ce)
  have pc: "present (entry ?c d i j)" "frame_of (entry ?c d i j) = f" "tab ?c d i = Some pt"
    using ce[OF d(1,2)] d(4,5) by (simp_all add: f_def)
  define s0 where "s0 = set_word pt j 0 ?c"
  define s3 where "s3 = s0\<lparr>vm_frames := frame_decref (vm_frames s0) cpu f\<rparr>"
  have st0: "vm_step ?c s0 D (upd (entry ?c) d i j 0)"
    unfolding s0_def by (rule entry_step[OF vm_okD(1)[OF c(1)] d(1,2) pc(3)])
  have ok3: "vm_ok s3 D" by (rule vm_ok_drop(1)[OF c(1) d(1-3) pc(1) st0]) (simp_all add: pc(2) s3_def)
  have e3: "entry s3 d' i' j' = upd (entry s) d i j 0 d' i' j'" if "d' \<in> D" "user_pde i'" "j' < 1024" for d' i' j'
    using vm_stepD(2)[OF st0 that] ce[OF that(1,2)] by (simp add: s3_def)
  have t3: "tab s3 d i = Some pt"
    using set_entry(1)[OF vm_okD(1)[OF c(1)] d(1,2) pc(3) s0_def d(1,2)] pc(3) by (simp add: s3_def)
  have o0: "owned (vm_frames s0) g" "rc s0 g = 1" "\<not> is_table s0 D g" "pool_addr g" "4096 dvd g"
    using vm_stepD(3-5)[OF st0, of g] a(2) c(4)[of g] cw(2) by (auto simp: fresh_def pool_addr_def rc_def)
  have r0: "frame_inv (vm_frames s0)" "pool_addr f" "owned (vm_frames s0) f" "frame_refcount (vm_frames s0) (f div 4096) \<noteq> 0"
  proof -
    have f: "owned (vm_frames ?c) f" "4096 dvd f" "rc ?c f = card (mappers (entry ?c) D f)" "pool_addr f"
      using vm_okD(3)[OF c(1), of f] in_mappers[OF d(1-3), of "entry ?c"] pc by (auto simp: page_ok_def pool_addr_def)
    have "0 < card (mappers (entry ?c) D f)"
      using in_mappers[OF d(1-3), of "entry ?c"] pc finite_mappers[OF tables_okD(1)[OF vm_okD(1)[OF ok]]]
      by (auto simp: card_gt_0_iff)
    then show "frame_inv (vm_frames s0)" "pool_addr f" "owned (vm_frames s0) f" "frame_refcount (vm_frames s0) (f div 4096) \<noteq> 0"
      using vm_stepD(3,4)[OF st0 f(1,2)] f(3,4) tables_okD(2)[OF vm_stepD(1)[OF st0]] by (auto simp: rc_def)
  qed
  note df = decref_facts[OF r0 refl[of "frame_decref (vm_frames s0) cpu f"]]
  have "mappers (entry s3) D g = {}"
  proof -
    have "mappers (entry s3) D g \<subseteq> mappers (entry s) D g" using e3 by (auto simp: mappers_def split: if_splits)
    then show ?thesis using a(2) by (simp add: fresh_def)
  qed
  then have fr3: "fresh s3 D g"
    using o0 df(2)[OF o0(5)] df(3) fg aligned_div_eq[OF o0(5), of f] r0(2)
    by (auto simp: fresh_def s3_def rc_def pool_addr_def)
  have st4: "vm_step s3 (set_word pt j w s3) D (upd (entry s3) d i j w)"
    by (rule entry_step[OF vm_okD(1)[OF ok3] d(1,2) t3])
  have s': "s' = set_word pt j w s3"
    unfolding s'_def s2_def s3_def s0_def by (simp add: set_word_frames set_word_twice)
  have ok4: "vm_ok s' D" unfolding s'
    by (rule vm_ok_fresh[OF ok3 fr3 d(1-3) _ st4 w(2,1)]) (simp add: e3[OF d(1-3)])
  have e4: "entry s' d' i' j' = upd (entry s) d i j w d' i' j'" if "d' \<in> D" "user_pde i'" "j' < 1024" for d' i' j'
    using vm_stepD(2)[OF st4 that] e3[OF that] by (simp add: s')
  have pt: "is_table s D pt" using is_tableI(2)[OF d(1,2,4)] .
  have pm4: "pm s' b k = (if b = g \<and> k < 1024 then pm s f k else pm s b k)" if "b \<noteq> pt" for b k
    using that copy_words_simps(1)[OF fg, of ?s1] by (simp add: s'_def s2_def)
  have "keeps s s' D"
    unfolding keeps_def
  proof (intro ballI allI impI)
    fix d' i' j' k :: nat assume x: "d' \<in> D" "user_pde i' \<and> j' < 1024 \<and> k < 1024"
    show "word_at s' d' i' j' k = word_at s d' i' j' k"
    proof (cases "d' = d \<and> i' = i \<and> j' = j")
      case True
      have "g \<noteq> pt" using pt a(2) by (auto simp: fresh_def)
      then show ?thesis using True x e4[OF d(1-3)] w d(5) pm4[of g k] by (simp add: word_at_def f_def)
    next
      case False
      have "frame_of (entry s d' i' j') \<noteq> pt \<and> frame_of (entry s d' i' j') \<noteq> g" if "present (entry s d' i' j')"
        using mapped_page_ok[OF ok x(1), of i' j'] x(2) that pt a(3) by (auto simp: page_ok_def)
      then show ?thesis using False e4[OF x(1), of i' j'] x(2) pm4 by (auto simp: word_at_def)
    qed
  qed
  moreover have "tab s' d i = Some pt"
    using set_entry(1)[OF vm_okD(1)[OF ok3] d(1,2) t3 s' d(1,2)] t3 by simp
  ultimately show ?thesis using ok4 e4[OF d(1-3)] w by simp
qed

lemma pdi_mask: "unat (drop_bit 22 v AND 0x3FF) = pdi_of v"
proof -
  have "unat (drop_bit 22 v AND (2 ^ 10 - 1)) = unat (drop_bit 22 v) mod 2 ^ 10" by (rule unat_and_mask)
  moreover have "unat (drop_bit 22 v) = unat v div 2 ^ 22"
    using unat_drop_bit_eq[of 22 v] drop_bit_eq_div[of 22 "unat v"] by simp
  moreover have "unat v div 2 ^ 22 < 2 ^ 10" using unat_u32_bound[of v] by (simp add: div_less_iff_less_mult)
  ultimately show ?thesis by (simp add: pdi_of_def)
qed

lemma entry_present: "present (pm s d i) \<Longrightarrow> tab s d i = Some (frame_of (pm s d i)) \<and> entry s d i j = pm s (frame_of (pm s d i)) j"
  by (simp add: tab_def entry_def)

lemma handle_cow_fault_ok:
  assumes ok: "vm_ok s D" and d: "physical_addr dir \<in> D" "user_pde (pdi_of v)"
    and h: "handle_cow_fault s cpu (Some dir) v = (s', r)"
  shows "vm_ok s' D \<and> keeps s s' D \<and>
    (r \<longrightarrow> present (entry s' (physical_addr dir) (pdi_of v) (pti_of v)) \<and> bit (entry s' (physical_addr dir) (pdi_of v) (pti_of v)) 1)"
proof -
  let ?d = "physical_addr dir" and ?i = "pdi_of v" and ?j = "pti_of v"
  let ?pt = "frame_of (pm s ?d ?i)"
  let ?e = "pm s ?pt ?j"
  let ?w = "\<lambda>g. of_nat g OR ((?e AND PAGE_MASK) AND NOT PAGE_COW_BIT OR PAGE_WRITABLE)"
  note hd = h[unfolded handle_cow_fault_def Let_def pdi_mask option.simps]
  show ?thesis
  proof (cases "present (pm s ?d ?i) \<and> \<not> IDENTITY_MAP_END \<le> ?pt \<and> present ?e \<and> ?e AND PAGE_COW_BIT \<noteq> 0")
    case False
    then have "s' = s \<and> \<not> r" using hd by (auto split: if_splits)
    then show ?thesis using ok by simp
  next
    case True
    note pr = entry_present[of s ?d ?i ?j]
    have t: "tab s ?d ?i = Some ?pt" "entry s ?d ?i ?j = ?e" using True pr by auto
    then have pe: "present (entry s ?d ?i ?j)" using True by simp
    have pf: "page_ok s D (entry s) (frame_of ?e)" using mapped_page_ok[OF ok d pti_of_less pe] t(2) by simp
    then have pool: "pool_addr (frame_of ?e)" "owned (vm_frames s) (frame_of ?e)" by (auto simp: page_ok_def)
    show ?thesis
    proof (cases "frame_getref (vm_frames s) (frame_of ?e) \<le> 1")
      case one: True
      have w: "present (?w (frame_of ?e))" "frame_of (?w (frame_of ?e)) = frame_of ?e" "bit (?w (frame_of ?e)) 1"
        using cow_flags[of ?e "frame_of ?e"] True frame_of_dvd frame_of_less by blast+
      have "s' = set_word ?pt ?j (?w (frame_of ?e)) s" "r" using hd True one by (auto split: if_splits)
      then show ?thesis
        using cow_sole[OF ok d pti_of_less t(1) pe, of "?w (frame_of ?e)"] w getref_rc[OF pool(1)] one t(2) by simp
    next
      case two: False
      obtain fr x where al: "allocate_frame (vm_frames s) cpu = (fr, x)" by fastforce
      show ?thesis
      proof (cases x)
        case None
        then have "s' = s\<lparr>vm_frames := fr\<rparr>" "\<not> r" using hd True two al by (auto split: if_splits)
        then show ?thesis using vm_ok_step_same[OF ok alloc_step[OF ok al]] by (simp add: keeps_def word_at_def)
      next
        case (Some g)
        note a = alloc_fresh[OF ok al[unfolded Some]]
        then have g: "4096 dvd g" "g < 2 ^ 32" by (auto simp: fresh_def pool_addr_def kernel_const)
        have cc: "cow_copy (frame_of ?e) g (s\<lparr>vm_frames := fr\<rparr>) = (copy_words (frame_of ?e) g (s\<lparr>vm_frames := fr\<rparr>), True)"
          using pool(1) a(4) by (simp add: cow_copy_def Let_def pool_addr_def)
        let ?s2 = "set_word ?pt ?j (?w g) (copy_words (frame_of ?e) g (s\<lparr>vm_frames := fr\<rparr>))"
        have "s' = ?s2\<lparr>vm_frames := frame_decref (vm_frames ?s2) cpu (frame_of ?e)\<rparr>" "r"
          using hd True two al Some cc by (auto split: if_splits)
        then show ?thesis
          using cow_split[OF ok d pti_of_less t(1) pe al[unfolded Some], of "?w g"] cow_flags[OF _ g, of ?e] True t(2)
          by simp
      qed
    qed
  qed
qed

text \<open>
  A store by a process: through a writable entry, or after the fault handler has made it
  writable, as the processor and \<^verbatim>\<open>isr_handler\<close> do it.  \<open>False\<close> is the segmentation fault.
\<close>

definition user_store :: "vm \<Rightarrow> nat \<Rightarrow> page_directory \<Rightarrow> u32 \<Rightarrow> nat \<Rightarrow> u32 \<Rightarrow> vm \<times> bool" where
  "user_store s cpu dir virt k w =
     (let e = entry s (physical_addr dir) (pdi_of virt) (pti_of virt)
      in if \<not> present e then (s, False)
         else if e AND PAGE_WRITABLE \<noteq> 0 then (set_word (frame_of e) k w s, True)
         else case handle_cow_fault s cpu (Some dir) virt of
           (s1, ok) \<Rightarrow>
             if \<not> ok then (s1, False)
             else (set_word (frame_of (entry s1 (physical_addr dir) (pdi_of virt) (pti_of virt))) k w s1, True))"

lemma store_writable:
  assumes ok: "vm_ok s D" and d: "d \<in> D" "user_pde i" "j < 1024" "present (entry s d i j)" "bit (entry s d i j) 1"
    and s'_def: "s' = set_word (frame_of (entry s d i j)) k w s"
  shows "vm_ok s' D" "word_at s' d i j k = Some w"
    and "d' \<in> D \<Longrightarrow> user_pde i' \<Longrightarrow> j' < 1024 \<Longrightarrow> (d', i', j', k') \<noteq> (d, i, j, k) \<Longrightarrow> word_at s' d' i' j' k' = word_at s d' i' j' k'"
proof -
  let ?f = "frame_of (entry s d i j)"
  have inm: "(d, i, j) \<in> mappers (entry s) D ?f" using in_mappers[OF d(1-3)] d(4) by blast
  have pf: "page_ok s D (entry s) ?f" using mapped_page_ok[OF ok d(1-4)] .
  then have nt: "\<not> is_table s D ?f" and "card (mappers (entry s) D ?f) = 1"
    using inm d(5) unfolding page_ok_def by auto
  then have sole: "mappers (entry s) D ?f = {(d, i, j)}" using inm by (metis card_1_singletonE singletonD)
  have t: "tab s' a b = tab s a b" "user_pde b \<Longrightarrow> entry s' a b c = entry s a b c" if "a \<in> D" for a b c
    using set_page_word[OF nt _ that, of s' k w] by (auto simp: s'_def)
  have fr: "vm_frames s' = vm_frames s" by (simp add: s'_def)
  have k: "tables_ok s' D" "is_table s' D p = is_table s D p" for p
    using tables_ok_cong[OF vm_okD(1)[OF ok] _ fr] t by auto
  have p: "page_ok s' D E g = page_ok s D E g" for E g by (simp add: page_ok_def k rc_def fr)
  show "vm_ok s' D" using vm_okI[OF k(1) _ vm_okD(2)[OF ok]] t vm_okD(3)[OF ok] p by auto
  show "word_at s' d i j k = Some w" using t[OF d(1)] d(2,4) by (simp add: word_at_def s'_def)
  assume a: "d' \<in> D" "user_pde i'" "j' < 1024" "(d', i', j', k') \<noteq> (d, i, j, k)"
  have "frame_of (entry s d' i' j') \<noteq> ?f \<or> k' \<noteq> k" if "present (entry s d' i' j')"
    using in_mappers[OF a(1-3), of "entry s"] that sole a(4) by auto
  then show "word_at s' d' i' j' k' = word_at s d' i' j' k'"
    using t[OF a(1)] a(2) by (auto simp: word_at_def s'_def)
qed

lemma user_store_ok:
  assumes ok: "vm_ok s D" and d: "physical_addr dir \<in> D" "user_pde (pdi_of v)" and k: "k < 1024"
    and st: "user_store s cpu dir v k w = (s', r)"
  shows "vm_ok s' D" "r \<Longrightarrow> word_at s' (physical_addr dir) (pdi_of v) (pti_of v) k = Some w"
    and "d' \<in> D \<Longrightarrow> user_pde i' \<Longrightarrow> j' < 1024 \<Longrightarrow> k' < 1024 \<Longrightarrow>
      r \<and> (d', i', j', k') \<noteq> (physical_addr dir, pdi_of v, pti_of v, k) \<or> \<not> r \<Longrightarrow> word_at s' d' i' j' k' = word_at s d' i' j' k'"
proof -
  let ?d = "physical_addr dir" and ?i = "pdi_of v" and ?j = "pti_of v"
  let ?e = "entry s ?d ?i ?j"
  obtain s1 b where h: "handle_cow_fault s cpu (Some dir) v = (s1, b)" by fastforce
  note hc = handle_cow_fault_ok[OF ok d h]
  define t where "t = (if present ?e \<and> \<not> bit ?e 1 then s1 else s)"
  have tk: "vm_ok t D" "keeps s t D" using ok hc by (auto simp: t_def)
  have c: "s' = t \<and> \<not> r \<or>
      r \<and> s' = set_word (frame_of (entry t ?d ?i ?j)) k w t \<and> present (entry t ?d ?i ?j) \<and> bit (entry t ?d ?i ?j) 1"
    using st h hc unfolding user_store_def Let_def writable_bit by (auto simp: t_def split: if_splits)
  note sw = store_writable[OF tk(1) d pti_of_less]
  show "vm_ok s' D" "r \<Longrightarrow> word_at s' ?d ?i ?j k = Some w" using c sw(1,2) tk(1) by auto
  show "word_at s' d' i' j' k' = word_at s d' i' j' k'"
    if "d' \<in> D" "user_pde i'" "j' < 1024" "k' < 1024" "r \<and> (d', i', j', k') \<noteq> (?d, ?i, ?j, k) \<or> \<not> r"
    using c sw(3)[OF _ _ _ that(1-3), where s' = s' and k = k and w = w and k' = k'] that(5) keepsD[OF tk(2) that(1-4)] by auto
qed

end
