(* ===== verification/Process_Mm.thy ===== *)
theory Process_Mm
  imports Cow
begin

text \<open>
  The memory of a process, \<^verbatim>\<open>src/kernel/mm/process_mm.c\<close>: creation with a mapped stack,
  the copy-on-write clone that \<open>fork\<close> makes, and destruction; with the registry of file
  mappings of \<^verbatim>\<open>src/kernel/mm/mmap_file.c\<close>.  The page directory belongs to one
  \<^verbatim>\<open>process_memory_t\<close> and is part of its record.
\<close>

section \<open>Layout\<close>

definition USER_STACK_BASE :: u32 where "USER_STACK_BASE = 0x80000000"
definition USER_SPACE_END :: u32 where "USER_SPACE_END = 0x80000000"
definition USER_CODE_BASE :: u32 where "USER_CODE_BASE = 0x08048000"
definition USER_HEAP_BASE :: u32 where "USER_HEAP_BASE = 0x40000000"
definition MAX_MMAP_REGIONS :: nat where [kernel_const]: "MAX_MMAP_REGIONS = 64"

record mmap_region =
  mr_addr :: u32
  mr_len :: u32
  mr_prot :: u32
  mr_flags :: u32
  mr_in_use :: bool

record process_memory =
  page_directory :: page_directory
  brk :: u32
  stack_base :: u32
  mmap_regions :: "nat \<Rightarrow> mmap_region"
  mmap_next_addr :: u32

section \<open>The registry of file mappings\<close>

definition MMAP_FILE_MAX_REGIONS :: nat where [kernel_const]: "MMAP_FILE_MAX_REGIONS = 128"
definition MMAP_FILE_PROT_WRITE :: u32 where "MMAP_FILE_PROT_WRITE = 0x2"

definition set_region :: "nat \<Rightarrow> mmap_file_region \<Rightarrow> vm \<Rightarrow> vm" where
  "set_region i r s = s\<lparr>mmap_file_table := (mmap_file_table s)(i := r)\<rparr>"

text \<open>The current process has its memory, or none (\<open>None\<close>), and then the address is 0.\<close>

definition current_pd_phys :: "process_memory option \<Rightarrow> nat" where
  "current_pd_phys cur = (case cur of None \<Rightarrow> 0 | Some mem \<Rightarrow> physical_addr (page_directory mem))"

definition mmap_file_register :: "vm \<Rightarrow> process_memory option \<Rightarrow> u32 \<Rightarrow> u32 \<Rightarrow> int \<Rightarrow> u32 \<Rightarrow> u32 \<Rightarrow> vm \<times> bool" where
  "mmap_file_register s cur start fin fd offset prot =
     (if fin \<le> start \<or> fd < 0 then (s, False)
      else if start AND PAGE_MASK \<noteq> 0 \<or> fin AND PAGE_MASK \<noteq> 0 then (s, False)
      else if current_pd_phys cur = 0 then (s, False)
      else case find (\<lambda>i. \<not> mf_in_use (mmap_file_table s i)) [0..<MMAP_FILE_MAX_REGIONS] of
        None \<Rightarrow> (s, False)
      | Some i \<Rightarrow> (set_region i \<lparr>mf_in_use = True, mf_pd_phys = current_pd_phys cur, mf_start = start, mf_end = fin,
                      mf_fd = fd, mf_offset = offset, mf_prot = prot\<rparr> s, True))"

definition mmap_file_unregister :: "vm \<Rightarrow> process_memory option \<Rightarrow> u32 \<Rightarrow> u32 \<Rightarrow> vm" where
  "mmap_file_unregister s cur start fin =
     (if current_pd_phys cur = 0 then s
      else case find (\<lambda>i. let r = mmap_file_table s i in mf_in_use r \<and> mf_pd_phys r = current_pd_phys cur \<and>
                            mf_start r = start \<and> mf_end r = fin) [0..<MMAP_FILE_MAX_REGIONS] of
        None \<Rightarrow> s
      | Some i \<Rightarrow> set_region i ((mmap_file_table s i)\<lparr>mf_in_use := False\<rparr>) s)"

definition mmap_file_clear_pd :: "vm \<Rightarrow> nat \<Rightarrow> vm" where
  "mmap_file_clear_pd s pd_phys =
     fold (\<lambda>i s. let r = mmap_file_table s i
                 in if mf_in_use r \<and> mf_pd_phys r = pd_phys then set_region i (r\<lparr>mf_in_use := False\<rparr>) s else s)
       [0..<MMAP_FILE_MAX_REGIONS] s"

definition mmap_file_lookup :: "vm \<Rightarrow> nat \<Rightarrow> u32 \<Rightarrow> mmap_file_region option" where
  "mmap_file_lookup s pd_phys addr =
     map_option (mmap_file_table s)
       (find (\<lambda>i. let r = mmap_file_table s i in mf_in_use r \<and> mf_pd_phys r = pd_phys \<and> addr \<ge> mf_start r \<and> addr < mf_end r)
          [0..<MMAP_FILE_MAX_REGIONS])"

section \<open>Creation\<close>

text \<open>The pages from \<open>start\<close> up to, but not including, \<open>fin\<close>, both page aligned.\<close>

definition page_range :: "u32 \<Rightarrow> u32 \<Rightarrow> u32 list" where
  "page_range start fin = map (\<lambda>k. start + of_nat (4096 * k)) [0..<(unat fin - unat start) div 4096]"

fun map_fresh_pages :: "vm \<Rightarrow> nat \<Rightarrow> page_directory \<Rightarrow> u32 list \<Rightarrow> u32 \<Rightarrow> (vm \<times> page_directory \<times> bool) option" where
  "map_fresh_pages s cpu dir [] flags = Some (s, dir, True)"
| "map_fresh_pages s cpu dir (addr # as) flags =
     (case allocate_frame (vm_frames s) cpu of
        (fr, None) \<Rightarrow> Some (s\<lparr>vm_frames := fr\<rparr>, dir, False)
      | (fr, Some frame) \<Rightarrow>
          (case zero_frame frame (s\<lparr>vm_frames := fr\<rparr>) of
             None \<Rightarrow> None
           | Some s1 \<Rightarrow>
               (case map_page s1 cpu dir addr (of_nat frame) flags of
                  None \<Rightarrow> None
                | Some (s2, dir2, ok) \<Rightarrow>
                    if \<not> ok then Some (s2\<lparr>vm_frames := free_frame (vm_frames s2) cpu frame\<rparr>, dir2, False)
                    else map_fresh_pages s2 cpu dir2 as flags)))"

definition map_user_pages :: "vm \<Rightarrow> nat \<Rightarrow> page_directory \<Rightarrow> u32 \<Rightarrow> u32 \<Rightarrow> u32 \<Rightarrow> (vm \<times> page_directory \<times> bool) option" where
  "map_user_pages s cpu dir base sz flags =
     (let start = base AND PAGE_FRAME_MASK;
          fin = (base + sz + 4096 - 1) AND PAGE_FRAME_MASK
      in map_fresh_pages s cpu dir (page_range start fin) flags)"

text \<open>The flags are the answers of \<open>kmalloc\<close> for the descriptor and for the directory.\<close>

definition create_process_memory :: "vm \<Rightarrow> nat \<Rightarrow> bool \<Rightarrow> bool \<Rightarrow> (vm \<times> process_memory option) option" where
  "create_process_memory s cpu km_mem km_dir =
     (if \<not> km_mem then Some (s, None)
      else case create_page_directory s cpu km_dir of
        (s1, None) \<Rightarrow> Some (s1, None)
      | (s1, Some dir) \<Rightarrow>
          let stack_size = 32 * 4096;
              stack_bottom = USER_STACK_BASE - stack_size
          in case map_user_pages s1 cpu dir stack_bottom stack_size (PAGE_PRESENT OR PAGE_WRITABLE OR PAGE_USER) of
               None \<Rightarrow> None
             | Some (s2, dir2, ok) \<Rightarrow>
                 if \<not> ok then Some (destroy_page_directory s2 cpu dir2, None)
                 else Some (s2, Some \<lparr>page_directory = dir2, brk = USER_CODE_BASE, stack_base = USER_STACK_BASE,
                        mmap_regions = (\<lambda>_. \<lparr>mr_addr = 0, mr_len = 0, mr_prot = 0, mr_flags = 0, mr_in_use = False\<rparr>),
                        mmap_next_addr = USER_HEAP_BASE\<rparr>))"

section \<open>Destruction\<close>

definition destroy_process_memory :: "vm \<Rightarrow> nat \<Rightarrow> process_memory \<Rightarrow> vm" where
  "destroy_process_memory s cpu mem =
     destroy_page_directory (mmap_file_clear_pd s (physical_addr (page_directory mem))) cpu (page_directory mem)"

section \<open>The clone\<close>

text \<open>One table of \<open>purge_dst_user_pages\<close>, the loop over its entries.\<close>

definition purge_entry :: "nat \<Rightarrow> nat \<Rightarrow> nat \<Rightarrow> vm \<Rightarrow> vm" where
  "purge_entry cpu pt j s =
     (if present (pm s pt j)
      then set_word pt j 0 (s\<lparr>vm_frames := frame_decref (vm_frames s) cpu (frame_of (pm s pt j))\<rparr>) else s)"

definition purge_table :: "nat \<Rightarrow> nat \<Rightarrow> vm \<times> page_directory \<Rightarrow> vm \<times> page_directory" where
  "purge_table cpu i sd =
     (let (s, dir) = sd; pd = physical_addr dir; pt = frame_of (pm s pd i)
      in if \<not> present (pm s pd i) then (s, dir)
         else if pt \<ge> IDENTITY_MAP_END then (s, dir)
         else
           let s1 = fold (purge_entry cpu pt) [0..<1024] s;
               s2 = s1\<lparr>vm_frames := free_frame (vm_frames s1) cpu pt\<rparr>
           in (set_word pd i 0 s2, dir\<lparr>tables_physical := (tables_physical dir)(i := 0)\<rparr>))"

definition purge_dst_user_pages :: "vm \<Rightarrow> nat \<Rightarrow> page_directory \<Rightarrow> vm \<times> page_directory" where
  "purge_dst_user_pages s cpu dir = fold (purge_table cpu) [USER_PDE_FIRST..<USER_PDE_LAST] (s, dir)"

text \<open>The loop over the entries of one table of the parent; \<open>True\<close>: go on.\<close>

fun share_entries :: "vm \<Rightarrow> nat \<Rightarrow> nat \<Rightarrow> nat \<Rightarrow> page_directory \<Rightarrow> nat list \<Rightarrow> (vm \<times> page_directory \<times> bool) option" where
  "share_entries s cpu src_pt i dst [] = Some (s, dst, True)"
| "share_entries s cpu src_pt i dst (j # js) =
     (if \<not> present (pm s src_pt j) then share_entries s cpu src_pt i dst js
      else
        let e = pm s src_pt j;
            frame = e AND PAGE_FRAME_MASK;
            flags = e AND PAGE_MASK;
            virt = push_bit 22 (of_nat i) OR push_bit 12 (of_nat j);
            (s1, flags1) = (if flags AND PAGE_WRITABLE \<noteq> 0
                            then let fl = (flags AND NOT PAGE_WRITABLE) OR PAGE_COW_BIT
                                 in (set_word src_pt j (frame OR fl) s, fl)
                            else (s, flags))
        in case map_page s1 cpu dst virt frame flags1 of
             None \<Rightarrow> None
           | Some (s2, dst2, ok) \<Rightarrow>
               if \<not> ok then Some (s2, dst2, False)
               else share_entries (s2\<lparr>vm_frames := frame_incref (vm_frames s2) (unat frame)\<rparr>) cpu src_pt i dst2 js)"

fun share_tables :: "vm \<Rightarrow> nat \<Rightarrow> nat \<Rightarrow> page_directory \<Rightarrow> nat list \<Rightarrow> (vm \<times> page_directory \<times> bool) option" where
  "share_tables s cpu src_pd dst [] = Some (s, dst, True)"
| "share_tables s cpu src_pd dst (i # is) =
     (if \<not> present (pm s src_pd i) then share_tables s cpu src_pd dst is
      else if frame_of (pm s src_pd i) \<ge> IDENTITY_MAP_END then share_tables s cpu src_pd dst is
      else case share_entries s cpu (frame_of (pm s src_pd i)) i dst [0..<1024] of
        None \<Rightarrow> None
      | Some (s1, dst1, ok) \<Rightarrow> if \<not> ok then Some (s1, dst1, False) else share_tables s1 cpu src_pd dst1 is)"

definition cow_share_user_pages :: "vm \<Rightarrow> nat \<Rightarrow> page_directory \<Rightarrow> page_directory \<Rightarrow> (vm \<times> page_directory \<times> bool) option" where
  "cow_share_user_pages s cpu src dst = share_tables s cpu (physical_addr src) dst [USER_PDE_FIRST..<USER_PDE_LAST]"

definition clone_process_memory :: "vm \<Rightarrow> nat \<Rightarrow> bool \<Rightarrow> bool \<Rightarrow> process_memory \<Rightarrow> (vm \<times> process_memory option) option" where
  "clone_process_memory s cpu km_mem km_dir src =
     (case create_process_memory s cpu km_mem km_dir of
        None \<Rightarrow> None
      | Some (s1, None) \<Rightarrow> Some (s1, None)
      | Some (s1, Some dst0) \<Rightarrow>
          let dst1 = dst0\<lparr>brk := brk src, stack_base := stack_base src, mmap_next_addr := mmap_next_addr src,
                       mmap_regions := (\<lambda>i. if i < MAX_MMAP_REGIONS then mmap_regions src i else mmap_regions dst0 i)\<rparr>;
              (s2, dir2) = purge_dst_user_pages s1 cpu (page_directory dst1)
          in case cow_share_user_pages s2 cpu (page_directory src) dir2 of
               None \<Rightarrow> None
             | Some (s3, dir3, ok) \<Rightarrow>
                 if \<not> ok then Some (destroy_process_memory s3 cpu (dst1\<lparr>page_directory := dir3\<rparr>), None)
                 else Some (s3, Some (dst1\<lparr>page_directory := dir3\<rparr>)))"

end
