(* ===== verification/Spec2Isabelle.thy ===== *)
theory Spec2Isabelle
  imports Keyboard Frame_Alloc KString Sched Uaccess Vfs_Refs Vfs_Store Vfs_Open Journal_Crash Ext2_Theorems
    Heap_Theorems Process_Mm
begin

text \<open>
  A model of the kernel of unix-os, a 32-bit Unix-like operating system in C, and the
  properties that make its components correct.

  The theories, each with the state, the operations in the order of the source, the
  invariant and the lemmas of its component:

  \<^item> \<open>Prelude\<close>: machine words, error codes, searches over index ranges.
  \<^item> \<open>Circular\<close>: circular byte buffers and the contract \<open>byte_channel\<close> of a bounded stream.
  \<^item> \<open>Ring_Buffer\<close> (include/kernel/ringbuf.h) and \<open>Keyboard\<close> (drivers/input/keyboard.c).
  \<^item> \<open>Hash_Table\<close> (lib/hashtable.c), with the contract \<open>keyed_table\<close>.
  \<^item> \<open>KString\<close> (lib/kstring.c).
  \<^item> \<open>Frame_Alloc\<close> (mm/frame_alloc.c), with the contract \<open>frame_pool\<close>.
  \<^item> \<open>Process\<close> (core/process.c), \<open>Signal\<close> (core/signal.c, cred.c, alarm.c, priority.c,
    waitq.c, jobctl.c) and \<open>Sched\<close> (core/sched.c) share the state \<open>kstate\<close>.

  Conventions: pointers are optional addresses of a store, a C function that returns a
  negative error code returns \<open>Inl\<close> of it, outcomes of \<open>kmalloc\<close> are arguments.  Sections
  under a spinlock are atomic steps.  The walk along a run queue may not end on a broken
  list and is a \<open>partial_function\<close>: the scheduler theorem shows that it does end.

  Not modelled: device registers, assembly and boot code, the generated binary tables and
  the user programs.
\<close>

end
